(* ===== verification/Scone_Prelude.thy ===== *)
theory Scone_Prelude
  imports Main "HOL-Library.Word" "HOL-Library.Multiset"
begin

unbundle bit_operations_syntax

text \<open>
  Shared vocabulary of the development: machine integers, the outcome of a C operation, byte
  buffers with bounds-checked loads and stores, byte order, C strings and the list lemmas the
  component theories use.

  A C operation that can dereference a null or freed pointer, fail an \<^verbatim>\<open>assert\<close>, read or write
  outside a buffer, or loop for ever returns a \<open>res\<close>: \<open>Inl\<close> of a \<open>fault\<close> or \<open>Inr\<close> of its
  result. A multi-byte load is the load of a little-endian host: the bit-field order of
  \<^verbatim>\<open>struct ip_hdr\<close> (\<^verbatim>\<open>ip_hl\<close> before \<^verbatim>\<open>ip_v\<close>) already fixes that byte order.
\<close>

section \<open>Machine integers\<close>

type_synonym u8 = "8 word"
type_synonym u16 = "16 word"
type_synonym u32 = "32 word"
type_synonym u64 = "64 word"
type_synonym packet = "u8 list"

named_theorems res_simps \<open>evaluation of results, loads and stores\<close>
named_theorems order_simps \<open>byte order conversions\<close>

section \<open>Outcomes of C operations\<close>

datatype fault = OutOfBounds | NullDeref | UseAfterFree | AssertFail | NonTermination
  | Deadlock | BadUnlock | ProcessExit | Uninitialised

type_synonym 'a res = "fault + 'a"

definition bindR :: "'a res \<Rightarrow> ('a \<Rightarrow> 'b res) \<Rightarrow> 'b res" where
  "bindR m k = (case m of Inl e \<Rightarrow> Inl e | Inr x \<Rightarrow> k x)"

definition assertR :: "bool \<Rightarrow> unit res" where
  "assertR b = (if b then Inr () else Inl AssertFail)"

definition derefR :: "'a option \<Rightarrow> 'a res" where
  "derefR p = (case p of None \<Rightarrow> Inl NullDeref | Some x \<Rightarrow> Inr x)"

definition returnsR :: "'a option \<Rightarrow> 'a res" where
  "returnsR m = (case m of None \<Rightarrow> Inl NonTermination | Some x \<Rightarrow> Inr x)"

lemma bindR_Inr [simp, res_simps]: "bindR (Inr x) k = k x"
  by (simp add: bindR_def)

lemma bindR_Inl [simp, res_simps]: "bindR (Inl e) k = Inl e"
  by (simp add: bindR_def)

lemma bindR_assoc: "bindR (bindR m k) l = bindR m (\<lambda>x. bindR (k x) l)"
  by (cases m) auto

lemma bindR_eq_Inr: "bindR m k = Inr y \<longleftrightarrow> (\<exists>x. m = Inr x \<and> k x = Inr y)"
  by (cases m) auto

lemma bindR_eq_Inl: "bindR m k = Inl e \<longleftrightarrow> m = Inl e \<or> (\<exists>x. m = Inr x \<and> k x = Inl e)"
  by (cases m) auto

lemma bindR_split: "P (bindR m k) \<longleftrightarrow> (\<forall>e. m = Inl e \<longrightarrow> P (Inl e)) \<and> (\<forall>x. m = Inr x \<longrightarrow> P (k x))"
  by (cases m) auto

lemma bindR_cong: "m = m' \<Longrightarrow> (\<And>x. m' = Inr x \<Longrightarrow> k x = k' x) \<Longrightarrow> bindR m k = bindR m' k'"
  by (cases m') auto

lemma assertR_simps [simp, res_simps]: "assertR True = Inr ()" "assertR False = Inl AssertFail"
  by (simp_all add: assertR_def)

lemma assertR_eq_Inr [simp]: "assertR b = Inr u \<longleftrightarrow> b"
  by (simp add: assertR_def)

lemma derefR_simps [simp, res_simps]: "derefR None = Inl NullDeref" "derefR (Some x) = Inr x"
  by (simp_all add: derefR_def)

lemma derefR_eq_Inr [simp]: "derefR p = Inr x \<longleftrightarrow> p = Some x"
  by (cases p) auto

lemma returnsR_simps [simp, res_simps]: "returnsR None = Inl NonTermination" "returnsR (Some x) = Inr x"
  by (simp_all add: returnsR_def)

lemma returnsR_eq_Inr [simp]: "returnsR m = Inr x \<longleftrightarrow> m = Some x"
  by (cases m) auto

section \<open>Bytes of a word\<close>

definition le16 :: "u8 \<Rightarrow> u8 \<Rightarrow> u16" where
  "le16 a b = word_of_nat (unat a + 256 * unat b)"

definition byte16 :: "nat \<Rightarrow> u16 \<Rightarrow> u8" where
  "byte16 k w = word_of_nat (unat w div 256 ^ k)"

definition le32 :: "u8 \<Rightarrow> u8 \<Rightarrow> u8 \<Rightarrow> u8 \<Rightarrow> u32" where
  "le32 a b c d = word_of_nat (unat a + 256 * unat b + 65536 * unat c + 16777216 * unat d)"

definition byte32 :: "nat \<Rightarrow> u32 \<Rightarrow> u8" where
  "byte32 k w = word_of_nat (unat w div 256 ^ k)"

definition bytes16 :: "u16 \<Rightarrow> u8 list" where
  "bytes16 w = [byte16 0 w, byte16 1 w]"

definition bytes32 :: "u32 \<Rightarrow> u8 list" where
  "bytes32 w = [byte32 0 w, byte32 1 w, byte32 2 w, byte32 3 w]"

definition ntohs :: "u16 \<Rightarrow> u16" where
  "ntohs w = le16 (byte16 1 w) (byte16 0 w)"

definition ntohl :: "u32 \<Rightarrow> u32" where
  "ntohl w = le32 (byte32 3 w) (byte32 2 w) (byte32 1 w) (byte32 0 w)"

abbreviation htons :: "u16 \<Rightarrow> u16" where "htons \<equiv> ntohs"
abbreviation htonl :: "u32 \<Rightarrow> u32" where "htonl \<equiv> ntohl"

lemma unat_u8_lt: "unat (x :: u8) < 256"
  using unsigned_less [of x] by simp

lemma unat_u16_lt: "unat (x :: u16) < 65536"
  using unsigned_less [of x] by simp

lemma unat_u32_lt: "unat (x :: u32) < 4294967296"
  using unsigned_less [of x] by simp

lemma base256: "a < 256 \<Longrightarrow> (a + 256 * n) div 256 = n" "a < 256 \<Longrightarrow> (a + 256 * n) mod 256 = a" for a n :: nat
  by simp_all

lemma unat_le16: "unat (le16 a b) = unat a + 256 * unat b"
proof -
  have "unat a + 256 * unat b < 65536"
    using unat_u8_lt [of a] unat_u8_lt [of b] by linarith
  then show ?thesis unfolding le16_def unat_of_nat by simp
qed

lemma unat_le32: "unat (le32 a b c d) = unat a + 256 * (unat b + 256 * (unat c + 256 * unat d))"
proof -
  have "unat a + 256 * unat b + 65536 * unat c + 16777216 * unat d < 4294967296"
    using unat_u8_lt [of a] unat_u8_lt [of b] unat_u8_lt [of c] unat_u8_lt [of d] by linarith
  then show ?thesis unfolding le32_def unat_of_nat by simp
qed

lemma unat_byte16: "unat (byte16 k w) = unat w div 256 ^ k mod 256"
  unfolding byte16_def unat_of_nat by simp

lemma unat_byte32: "unat (byte32 k w) = unat w div 256 ^ k mod 256"
  unfolding byte32_def unat_of_nat by simp

lemma byte16_le16 [simp, order_simps]:
  "byte16 0 (le16 a b) = a" "byte16 1 (le16 a b) = b" "byte16 (Suc 0) (le16 a b) = b"
  by (simp_all add: word_unat_eq_iff unat_byte16 unat_le16 base256 unat_u8_lt)

lemma le16_byte16 [simp, order_simps]: "le16 (byte16 0 w) (byte16 1 w) = w"
  "le16 (byte16 0 w) (byte16 (Suc 0) w) = w"
  by (simp_all add: word_unat_eq_iff unat_byte16 unat_le16 unat_u16_lt div_less_dividend less_mult_imp_div_less)

lemma byte32_le32 [simp, order_simps]:
  "byte32 0 (le32 a b c d) = a" "byte32 1 (le32 a b c d) = b" "byte32 (Suc 0) (le32 a b c d) = b"
  "byte32 2 (le32 a b c d) = c" "byte32 3 (le32 a b c d) = d"
  by (simp_all only: word_unat_eq_iff unat_byte32 unat_le32 power_0 power_one_right div_by_1 base256 [OF unat_u8_lt]
      unat_u8_lt mod_less One_nat_def [symmetric] div_mult2_eq [of _ 256 256, simplified] power2_eq_square power3_eq_cube
      div_mult2_eq)

lemma le32_byte32 [simp, order_simps]: "le32 (byte32 0 w) (byte32 1 w) (byte32 2 w) (byte32 3 w) = w"
  "le32 (byte32 0 w) (byte32 (Suc 0) w) (byte32 2 w) (byte32 3 w) = w"
proof -
  have "unat w div 256 div 256 div 256 < 256"
    using unat_u32_lt [of w] by (simp add: div_mult2_eq [symmetric] less_mult_imp_div_less)
  then have "unat (le32 (byte32 0 w) (byte32 1 w) (byte32 2 w) (byte32 3 w)) = unat w"
    by (simp only: unat_byte32 unat_le32 power_0 power_one_right div_by_1 power2_eq_square power3_eq_cube
        div_mult2_eq mod_less mod_mult_div_eq)
  then show "le32 (byte32 0 w) (byte32 1 w) (byte32 2 w) (byte32 3 w) = w"
    "le32 (byte32 0 w) (byte32 (Suc 0) w) (byte32 2 w) (byte32 3 w) = w"
    by (simp_all add: word_unat_eq_iff)
qed

lemma ntohs_ntohs [simp, order_simps]: "ntohs (ntohs w) = w"
  by (simp add: ntohs_def)

lemma ntohl_ntohl [simp, order_simps]: "ntohl (ntohl w) = w"
  by (simp add: ntohl_def)

lemma ntohl_inj [simp]: "ntohl a = ntohl b \<longleftrightarrow> a = b"
  by (metis ntohl_ntohl)

lemma ntohs_inj [simp]: "ntohs a = ntohs b \<longleftrightarrow> a = b"
  by (metis ntohs_ntohs)

lemma ntoh_0 [simp]: "ntohl 0 = 0" "ntohs 0 = 0"
  by (simp_all add: ntohl_def ntohs_def le32_def le16_def byte32_def byte16_def)

lemma ntohl_eq_0 [simp]: "ntohl w = 0 \<longleftrightarrow> w = 0"
  by (metis ntohl_inj ntoh_0(1))

section \<open>Buffers\<close>

text \<open>Loads and stores at a byte offset of a buffer. An access that leaves the buffer is a fault.\<close>

definition ld8 :: "packet \<Rightarrow> nat \<Rightarrow> u8 res" where
  "ld8 p i = (if i < length p then Inr (p ! i) else Inl OutOfBounds)"

definition ld16 :: "packet \<Rightarrow> nat \<Rightarrow> u16 res" where
  "ld16 p i = (if i + 2 \<le> length p then Inr (le16 (p ! i) (p ! (i + 1))) else Inl OutOfBounds)"

definition ld32 :: "packet \<Rightarrow> nat \<Rightarrow> u32 res" where
  "ld32 p i = (if i + 4 \<le> length p then Inr (le32 (p ! i) (p ! (i + 1)) (p ! (i + 2)) (p ! (i + 3)))
    else Inl OutOfBounds)"

definition ld_bytes :: "packet \<Rightarrow> nat \<Rightarrow> nat \<Rightarrow> u8 list res" where
  "ld_bytes p i n = (if i + n \<le> length p then Inr (take n (drop i p)) else Inl OutOfBounds)"

definition upd_bytes :: "packet \<Rightarrow> nat \<Rightarrow> u8 list \<Rightarrow> packet" where
  "upd_bytes p i bs = take i p @ bs @ drop (i + length bs) p"

definition st_bytes :: "packet \<Rightarrow> nat \<Rightarrow> u8 list \<Rightarrow> packet res" where
  "st_bytes p i bs = (if i + length bs \<le> length p then Inr (upd_bytes p i bs) else Inl OutOfBounds)"

definition st8 :: "packet \<Rightarrow> nat \<Rightarrow> u8 \<Rightarrow> packet res" where
  "st8 p i b = st_bytes p i [b]"

definition st16 :: "packet \<Rightarrow> nat \<Rightarrow> u16 \<Rightarrow> packet res" where
  "st16 p i w = st_bytes p i (bytes16 w)"

definition st32 :: "packet \<Rightarrow> nat \<Rightarrow> u32 \<Rightarrow> packet res" where
  "st32 p i w = st_bytes p i (bytes32 w)"

definition bzero :: "nat \<Rightarrow> packet" where
  "bzero n = replicate n 0"

lemma length_bytes16 [simp]: "length (bytes16 w) = 2"
  by (simp add: bytes16_def)

lemma length_bytes32 [simp]: "length (bytes32 w) = 4"
  by (simp add: bytes32_def)

lemma length_bzero [simp]: "length (bzero n) = n"
  by (simp add: bzero_def)

lemma ld8_in [res_simps]: "i < length p \<Longrightarrow> ld8 p i = Inr (p ! i)"
  by (simp add: ld8_def)

lemma ld16_in [res_simps]: "i + 2 \<le> length p \<Longrightarrow> ld16 p i = Inr (le16 (p ! i) (p ! (i + 1)))"
  by (simp add: ld16_def)

lemma ld32_in [res_simps]:
  "i + 4 \<le> length p \<Longrightarrow> ld32 p i = Inr (le32 (p ! i) (p ! (i + 1)) (p ! (i + 2)) (p ! (i + 3)))"
  by (simp add: ld32_def)

lemma ld_bytes_in [res_simps]: "i + n \<le> length p \<Longrightarrow> ld_bytes p i n = Inr (take n (drop i p))"
  by (simp add: ld_bytes_def)

lemma st_bytes_in: "i + length bs \<le> length p \<Longrightarrow> st_bytes p i bs = Inr (upd_bytes p i bs)"
  by (simp add: st_bytes_def)

lemma st8_in [res_simps]: "i < length p \<Longrightarrow> st8 p i b = Inr (upd_bytes p i [b])"
  by (simp add: st8_def st_bytes_def)

lemma st16_in [res_simps]: "i + 2 \<le> length p \<Longrightarrow> st16 p i w = Inr (upd_bytes p i (bytes16 w))"
  by (simp add: st16_def st_bytes_def)

lemma st32_in [res_simps]: "i + 4 \<le> length p \<Longrightarrow> st32 p i w = Inr (upd_bytes p i (bytes32 w))"
  by (simp add: st32_def st_bytes_def)

lemma ld_eq_Inr:
  "ld8 p i = Inr b \<longleftrightarrow> i < length p \<and> b = p ! i"
  "ld16 p i = Inr w \<longleftrightarrow> i + 2 \<le> length p \<and> w = le16 (p ! i) (p ! (i + 1))"
  by (auto simp: ld8_def ld16_def)

lemma st_eq_Inr: "st_bytes p i bs = Inr q \<longleftrightarrow> i + length bs \<le> length p \<and> q = upd_bytes p i bs"
  by (auto simp: st_bytes_def)

lemma length_upd_bytes [simp]: "i + length bs \<le> length p \<Longrightarrow> length (upd_bytes p i bs) = length p"
  by (simp add: upd_bytes_def)

lemma nth_upd_bytes:
  "i + length bs \<le> length p \<Longrightarrow> k < length p \<Longrightarrow>
   upd_bytes p i bs ! k = (if k < i \<or> i + length bs \<le> k then p ! k else bs ! (k - i))"
  by (auto simp: upd_bytes_def nth_append min_def)

lemma nth_bytes16 [simp, order_simps]: "bytes16 w ! 0 = byte16 0 w" "bytes16 w ! Suc 0 = byte16 1 w" "bytes16 w ! 1 = byte16 1 w"
  by (simp_all add: bytes16_def)

lemma nth_bytes32 [simp, order_simps]: "bytes32 w ! 0 = byte32 0 w" "bytes32 w ! Suc 0 = byte32 1 w" "bytes32 w ! 1 = byte32 1 w"
  "bytes32 w ! 2 = byte32 2 w" "bytes32 w ! 3 = byte32 3 w"
  by (simp_all add: bytes32_def numeral_2_eq_2 numeral_3_eq_3)

lemma ld16_st16: "st16 p i w = Inr q \<Longrightarrow> ld16 q i = Inr w"
  by (auto simp: st16_def st_eq_Inr ld16_def nth_upd_bytes)

lemma ld32_st32: "st32 p i w = Inr q \<Longrightarrow> ld32 q i = Inr w"
  by (auto simp: st32_def st_eq_Inr ld32_def nth_upd_bytes)

lemma ld16_st_other:
  "st_bytes p i bs = Inr q \<Longrightarrow> k + 2 \<le> i \<or> i + length bs \<le> k \<Longrightarrow> ld16 q k = ld16 p k"
  by (auto simp: st_eq_Inr ld16_def nth_upd_bytes)

lemma ld8_st_other:
  "st_bytes p i bs = Inr q \<Longrightarrow> k < i \<or> i + length bs \<le> k \<Longrightarrow> ld8 q k = ld8 p k"
  by (auto simp: st_eq_Inr ld8_def nth_upd_bytes)

lemma ld32_st_other:
  "st_bytes p i bs = Inr q \<Longrightarrow> k + 4 \<le> i \<or> i + length bs \<le> k \<Longrightarrow> ld32 q k = ld32 p k"
  by (auto simp: st_eq_Inr ld32_def nth_upd_bytes)

section \<open>C strings\<close>

text \<open>A C string is the list of its characters before the terminating zero byte.
  \<open>strncmp_eq a b n\<close> is \<^verbatim>\<open>strncmp(a, b, n) == 0\<close>.\<close>

definition strncmp_eq :: "string \<Rightarrow> string \<Rightarrow> nat \<Rightarrow> bool" where
  "strncmp_eq a b n = (take n a = take n b)"

lemma strncmp_eq_refl [simp]: "strncmp_eq a a n"
  by (simp add: strncmp_eq_def)

lemma strncmp_eq_sym: "strncmp_eq a b n \<longleftrightarrow> strncmp_eq b a n"
  by (auto simp: strncmp_eq_def)

lemma strncmp_eq_full: "length a \<le> n \<Longrightarrow> length b \<le> n \<Longrightarrow> strncmp_eq a b n \<longleftrightarrow> a = b"
  by (simp add: strncmp_eq_def)

section \<open>Walking a list\<close>

lemma find_append: "find P (xs @ ys) = (case find P xs of None \<Rightarrow> find P ys | Some x \<Rightarrow> Some x)"
  by (induction xs) auto

lemma find_Some_D: "find P xs = Some x \<Longrightarrow> x \<in> set xs \<and> P x"
  by (induction xs) (auto split: if_splits)

lemma find_split:
  assumes "find P xs = Some x"
  obtains pre post where "xs = pre @ x # post" "P x" "\<forall>y\<in>set pre. \<not> P y"
  using assms
proof (induction xs arbitrary: thesis)
  case (Cons a xs)
  show ?case
  proof (cases "P a")
    case False
    with Cons.prems(2) have "find P xs = Some x" by simp
    from Cons.IH [OF _ this] obtain pre post where "xs = pre @ x # post" "P x" "\<forall>y\<in>set pre. \<not> P y" by blast
    with False show ?thesis by (intro Cons.prems(1) [of "a # pre" post]) auto
  qed (use Cons.prems(1) [of "[]" xs] Cons.prems(2) in auto)
qed simp

lemma find_None_D: "find P xs = None \<Longrightarrow> x \<in> set xs \<Longrightarrow> \<not> P x"
  by (auto simp: find_None_iff)

lemma find_filter: "find P (filter Q xs) = find (\<lambda>x. Q x \<and> P x) xs"
  by (induction xs) auto

lemma distinct_map_find:
  "distinct (map f xs) \<Longrightarrow> x \<in> set xs \<Longrightarrow> find (\<lambda>y. f y = f x) xs = Some x"
  by (induction xs) (auto dest: imageI [of _ _ f])

text \<open>Updating, in place, the first element that satisfies a predicate: what a C loop does that
  walks to a node and writes through its data pointer.\<close>

fun upd_first :: "('a \<Rightarrow> bool) \<Rightarrow> ('a \<Rightarrow> 'a) \<Rightarrow> 'a list \<Rightarrow> 'a list" where
  "upd_first P f [] = []"
| "upd_first P f (x # xs) = (if P x then f x # xs else x # upd_first P f xs)"

lemma length_upd_first [simp]: "length (upd_first P f xs) = length xs"
  by (induction xs) auto

lemma upd_first_id: "find P xs = None \<Longrightarrow> upd_first P f xs = xs"
  by (induction xs) (auto split: if_splits)

lemma map_upd_first: "(\<And>x. g (f x) = g x) \<Longrightarrow> map g (upd_first P f xs) = map g xs"
  by (induction xs) auto

lemma find_upd_first:
  "(\<And>x. P (f x) = P x) \<Longrightarrow> find P (upd_first P f xs) = map_option f (find P xs)"
  by (induction xs) auto

lemma find_upd_first_other:
  "(\<And>x. Q (f x) = Q x) \<Longrightarrow> (\<And>x. P x \<Longrightarrow> \<not> Q x) \<Longrightarrow> find Q (upd_first P f xs) = find Q xs"
  by (induction xs) auto

text \<open>Removing the first element that satisfies a predicate.\<close>

fun remove_first :: "('a \<Rightarrow> bool) \<Rightarrow> 'a list \<Rightarrow> 'a list" where
  "remove_first P [] = []"
| "remove_first P (x # xs) = (if P x then xs else x # remove_first P xs)"

lemma remove_first_id: "find P xs = None \<Longrightarrow> remove_first P xs = xs"
  by (induction xs) (auto split: if_splits)

lemma set_remove_first: "set (remove_first P xs) \<subseteq> set xs"
  by (induction xs) auto

text \<open>The position of the first element that satisfies a predicate: a pointer to a list entry that a
  walk has computed.\<close>

fun index_of :: "('a \<Rightarrow> bool) \<Rightarrow> 'a list \<Rightarrow> nat option" where
  "index_of P [] = None"
| "index_of P (x # xs) = (if P x then Some 0 else map_option Suc (index_of P xs))"

lemma index_of_Some: "index_of P xs = Some i \<Longrightarrow> i < length xs \<and> P (xs ! i)"
  by (induction xs arbitrary: i) (auto split: if_splits)

end
