(* ===== verification/Node_List.thy ===== *)
theory Node_List
  imports Scone_Prelude
begin

text \<open>
  The doubly linked lists of \<^verbatim>\<open>or_utils.c\<close> on an explicit heap: \<^verbatim>\<open>node_create\<close>,
  \<^verbatim>\<open>node_push_back\<close>, \<^verbatim>\<open>node_remove\<close>, \<^verbatim>\<open>node_length\<close>, the append idiom and the two removal loops
  the router uses on them. A freed cell is absent from the heap and touching it is a fault.
  The lemmas show that, on a well-formed list, these operations are list append, removal,
  length and \<open>filter\<close>; the component theories therefore keep every \<^verbatim>\<open>node*\<close> field of the router
  state as a HOL list.
\<close>

section \<open>Cells and operations\<close>

type_synonym addr = nat

record 'a node =
  n_prev :: "addr option"
  n_next :: "addr option"
  n_data :: "'a option"

type_synonym 'a heap = "addr \<Rightarrow> 'a node option"

definition ld_node :: "'a heap \<Rightarrow> addr \<Rightarrow> 'a node res" where
  "ld_node h a = (case h a of None \<Rightarrow> Inl UseAfterFree | Some c \<Rightarrow> Inr c)"

definition node_create :: "'a heap \<Rightarrow> addr \<Rightarrow> 'a heap" where
  "node_create h a = h(a \<mapsto> \<lparr>n_prev = None, n_next = None, n_data = None\<rparr>)"

partial_function (option) last_node :: "'a heap \<Rightarrow> addr \<Rightarrow> addr res option" where
  "last_node h cur = (case h cur of None \<Rightarrow> Some (Inl UseAfterFree)
     | Some c \<Rightarrow> (case n_next c of None \<Rightarrow> Some (Inr cur) | Some nx \<Rightarrow> last_node h nx))"

declare last_node.simps [code]

definition node_push_back :: "'a heap \<Rightarrow> addr \<Rightarrow> addr \<Rightarrow> 'a heap res" where
  "node_push_back h head n =
     bindR (returnsR (last_node h head)) (\<lambda>r. bindR r (\<lambda>cur.
     bindR (ld_node h cur) (\<lambda>c.
     let h1 = h(cur \<mapsto> c\<lparr>n_next := Some n\<rparr>) in
     bindR (ld_node h1 n) (\<lambda>d. Inr (h1(n \<mapsto> d\<lparr>n_prev := Some cur\<rparr>))))))"

definition node_remove :: "'a heap \<Rightarrow> addr option \<Rightarrow> addr \<Rightarrow> (addr option \<times> 'a heap) res" where
  "node_remove h head n = bindR (ld_node h n) (\<lambda>c.
     case n_prev c of
       None \<Rightarrow> (case n_next c of
           None \<Rightarrow> Inr (None, h(n := None))
         | Some nx \<Rightarrow> bindR (ld_node h nx) (\<lambda>d.
             Inr (Some nx, (h(nx \<mapsto> d\<lparr>n_prev := None\<rparr>))(n := None))))
     | Some pv \<Rightarrow> (case n_next c of
           None \<Rightarrow> bindR (ld_node h pv) (\<lambda>d. Inr (head, (h(pv \<mapsto> d\<lparr>n_next := None\<rparr>))(n := None)))
         | Some nx \<Rightarrow> bindR (ld_node h pv) (\<lambda>d.
             let h1 = h(pv \<mapsto> d\<lparr>n_next := Some nx\<rparr>) in
             bindR (ld_node h1 nx) (\<lambda>e.
             Inr (head, (h1(nx \<mapsto> e\<lparr>n_prev := Some pv\<rparr>))(n := None))))))"

partial_function (option) node_length_from :: "'a heap \<Rightarrow> addr option \<Rightarrow> nat \<Rightarrow> nat res option" where
  "node_length_from h walker len = (case walker of None \<Rightarrow> Some (Inr len)
     | Some a \<Rightarrow> (case h a of None \<Rightarrow> Some (Inl UseAfterFree)
         | Some c \<Rightarrow> node_length_from h (n_next c) (Suc len)))"

declare node_length_from.simps [code]

definition node_length :: "'a heap \<Rightarrow> addr option \<Rightarrow> nat res" where
  "node_length h head = bindR (returnsR (node_length_from h head 0)) id"

text \<open>A list in memory: its cells, its head pointer and the address the allocator returns next.\<close>

record 'a lmem =
  cells :: "'a heap"
  lhead :: "addr option"
  fresh :: addr

text \<open>The append idiom of the sources: \<^verbatim>\<open>n = node_create(); n->data = x; if (head == NULL) head = n;
  else node_push_back(head, n);\<close>\<close>

definition list_add :: "'a \<Rightarrow> 'a lmem \<Rightarrow> 'a lmem res" where
  "list_add x m =
     (let n = fresh m; h = node_create (cells m) n in
      bindR (ld_node h n) (\<lambda>c.
      let h = h(n \<mapsto> c\<lparr>n_data := Some x\<rparr>) in
      case lhead m of
        None \<Rightarrow> Inr \<lparr>cells = h, lhead = Some n, fresh = Suc n\<rparr>
      | Some hp \<Rightarrow> bindR (node_push_back h hp n) (\<lambda>h'. Inr \<lparr>cells = h', lhead = Some hp, fresh = Suc n\<rparr>)))"

text \<open>The removal loop of the sources: \<^verbatim>\<open>while (cur) { next = cur->next; if (matches) node_remove(&head,
  cur); cur = next; }\<close>\<close>

partial_function (option) remove_loop ::
  "('a \<Rightarrow> bool) \<Rightarrow> 'a heap \<Rightarrow> addr option \<Rightarrow> addr option \<Rightarrow> (addr option \<times> 'a heap) res option" where
  "remove_loop P h head cur = (case cur of None \<Rightarrow> Some (Inr (head, h))
     | Some a \<Rightarrow> (case h a of None \<Rightarrow> Some (Inl UseAfterFree)
         | Some c \<Rightarrow> (case n_data c of None \<Rightarrow> Some (Inl NullDeref)
             | Some x \<Rightarrow> (if P x then (case node_remove h head a of Inl e \<Rightarrow> Some (Inl e)
                   | Inr (head', h') \<Rightarrow> remove_loop P h' head' (n_next c))
                 else remove_loop P h head (n_next c)))))"

declare remove_loop.simps [code]

definition list_remove :: "('a \<Rightarrow> bool) \<Rightarrow> 'a lmem \<Rightarrow> 'a lmem res" where
  "list_remove P m = bindR (returnsR (remove_loop P (cells m) (lhead m) (lhead m))) (\<lambda>r.
     bindR r (\<lambda>(head', h'). Inr (m\<lparr>cells := h', lhead := head'\<rparr>)))"

text \<open>The clearing loop of \<^verbatim>\<open>iface_up\<close> and \<^verbatim>\<open>iface_down\<close>: \<^verbatim>\<open>cur = head; while (cur) { node_remove(&head,
  cur); }\<close>, in which \<open>cur\<close> never moves.\<close>

partial_function (option) clear_loop ::
  "'a heap \<Rightarrow> addr option \<Rightarrow> addr option \<Rightarrow> (addr option \<times> 'a heap) res option" where
  "clear_loop h head cur = (case cur of None \<Rightarrow> Some (Inr (head, h))
     | Some a \<Rightarrow> (case node_remove h head a of Inl e \<Rightarrow> Some (Inl e)
         | Inr (head', h') \<Rightarrow> clear_loop h' head' cur))"

declare clear_loop.simps [code]

section \<open>Well-formed lists\<close>

definition nxt :: "(addr \<times> 'a) list \<Rightarrow> addr option \<Rightarrow> addr option" where
  "nxt xs e = (case xs of [] \<Rightarrow> e | x # _ \<Rightarrow> Some (fst x))"

fun lst :: "addr option \<Rightarrow> (addr \<times> 'a) list \<Rightarrow> addr option" where
  "lst p [] = p"
| "lst p (x # xs) = lst (Some (fst x)) xs"

fun seg :: "'a heap \<Rightarrow> addr option \<Rightarrow> (addr \<times> 'a) list \<Rightarrow> addr option \<Rightarrow> bool" where
  "seg h p [] e = True"
| "seg h p (x # xs) e = (h (fst x) = Some \<lparr>n_prev = p, n_next = nxt xs e, n_data = Some (snd x)\<rparr> \<and>
     seg h (Some (fst x)) xs e)"

definition dlist :: "'a heap \<Rightarrow> addr option \<Rightarrow> (addr \<times> 'a) list \<Rightarrow> bool" where
  "dlist h head xs \<longleftrightarrow> head = nxt xs None \<and> distinct (map fst xs) \<and> seg h None xs None"

lemma nxt_simps [simp]: "nxt [] e = e" "nxt (x # xs) e = Some (fst x)"
  by (simp_all add: nxt_def)

lemma nxt_append [simp]: "nxt (xs @ ys) e = nxt xs (nxt ys e)"
  by (cases xs) auto

lemma lst_append [simp]: "lst p (xs @ ys) = lst (lst p xs) ys"
  by (induction xs arbitrary: p) auto

lemma seg_append [simp]: "seg h p (xs @ ys) e \<longleftrightarrow> seg h p xs (nxt ys e) \<and> seg h (lst p xs) ys e"
  by (induction xs arbitrary: p) auto

lemma seg_upd_other [simp]: "a \<notin> fst ` set xs \<Longrightarrow> seg (h(a := v)) p xs e = seg h p xs e"
  by (induction xs arbitrary: p) auto

lemma last_node_seg: "seg h p (xs @ [(a, d)]) None \<Longrightarrow> last_node h (the (nxt (xs @ [(a, d)]) None)) = Some (Inr a)"
proof (induction xs arbitrary: p)
  case Nil
  then show ?case by (simp add: last_node.simps)
next
  case (Cons x xs)
  from Cons.prems have "last_node h (the (nxt (xs @ [(a, d)]) None)) = Some (Inr a)"
    by (intro Cons.IH [of "Some (fst x)"]) simp
  with Cons.prems show ?case
    by (subst last_node.simps) (cases xs; simp)
qed

lemma node_push_back_dlist:
  assumes "dlist h (Some hp) xs" and "h n = Some \<lparr>n_prev = None, n_next = None, n_data = Some d\<rparr>"
    and "n \<notin> fst ` set xs"
  shows "\<exists>h'. node_push_back h hp n = Inr h' \<and> dlist h' (Some hp) (xs @ [(n, d)]) \<and>
    (\<forall>a. a \<notin> fst ` set xs \<and> a \<noteq> n \<longrightarrow> h' a = h a)"
proof -
  from assms(1) have "xs \<noteq> []" by (auto simp: dlist_def)
  then obtain ys a e where xs: "xs = ys @ [(a, e)]" by (metis prod.exhaust rev_exhaust)
  have last: "last_node h hp = Some (Inr a)"
    using last_node_seg [of h None ys a e] assms(1) by (simp add: dlist_def xs del: seg_append) (metis option.sel)
  show ?thesis
    using assms by (auto simp: node_push_back_def last xs dlist_def ld_node_def image_iff)
qed

lemma node_remove_dlist:
  assumes "dlist h head (xs @ (n, d) # ys)"
  shows "\<exists>h'. node_remove h head n = Inr (nxt (xs @ ys) None, h') \<and> dlist h' (nxt (xs @ ys) None) (xs @ ys) \<and>
    h' n = None \<and> (\<forall>a. a \<notin> fst ` set (xs @ (n, d) # ys) \<longrightarrow> h' a = h a)"
proof (cases xs rule: rev_cases)
  case Nil
  then show ?thesis
    using assms by (cases ys) (auto simp: node_remove_def dlist_def ld_node_def image_iff)
next
  case (snoc xs' x)
  then show ?thesis
    using assms by (cases ys) (cases x; auto simp: node_remove_def dlist_def ld_node_def image_iff)+
qed

lemma node_length_from_seg: "seg h p xs None \<Longrightarrow> node_length_from h (nxt xs None) k = Some (Inr (k + length xs))"
proof (induction xs arbitrary: p k)
  case Nil
  then show ?case by (simp add: node_length_from.simps)
next
  case (Cons x xs)
  then have "node_length_from h (nxt xs None) (Suc k) = Some (Inr (Suc k + length xs))"
    by (intro Cons.IH [of "Some (fst x)"]) simp
  with Cons.prems show ?case by (subst node_length_from.simps) simp
qed

lemma node_length_dlist: "dlist h head xs \<Longrightarrow> node_length h head = Inr (length xs)"
  by (simp add: node_length_def dlist_def node_length_from_seg [of h None])

section \<open>The append idiom and the removal loops\<close>

definition lmem_rep :: "'a lmem \<Rightarrow> 'a list \<Rightarrow> bool" where
  "lmem_rep m ds \<longleftrightarrow> (\<exists>xs. dlist (cells m) (lhead m) xs \<and> map snd xs = ds) \<and>
     (\<forall>a. fresh m \<le> a \<longrightarrow> cells m a = None)"

lemma seg_allocated: "seg h p xs e \<Longrightarrow> a \<in> fst ` set xs \<Longrightarrow> h a \<noteq> None"
  by (induction xs arbitrary: p) auto

lemma list_add_ok:
  assumes "lmem_rep m ds"
  shows "\<exists>m'. list_add x m = Inr m' \<and> lmem_rep m' (ds @ [x])"
proof -
  from assms obtain xs where xs: "dlist (cells m) (lhead m) xs" "map snd xs = ds"
    and fr: "\<And>a. fresh m \<le> a \<Longrightarrow> cells m a = None" by (auto simp: lmem_rep_def)
  let ?n = "fresh m"
  let ?h = "(cells m)(?n \<mapsto> \<lparr>n_prev = None, n_next = None, n_data = Some x\<rparr>)"
  have new: "?n \<notin> fst ` set xs"
    using xs(1) fr seg_allocated [of "cells m" None xs None ?n] by (auto simp: dlist_def)
  show ?thesis
  proof (cases "lhead m")
    case None
    with xs have "xs = []" by (cases xs) (auto simp: dlist_def)
    with xs fr None show ?thesis
      by (simp add: list_add_def node_create_def ld_node_def lmem_rep_def dlist_def Let_def) (rule exI [of _ "[(?n, x)]"], simp)
  next
    case (Some hp)
    have "dlist ?h (Some hp) xs" using xs(1) new Some by (auto simp: dlist_def)
    from node_push_back_dlist [OF this, of ?n x] new obtain h' where
      h': "node_push_back ?h hp ?n = Inr h'" "dlist h' (Some hp) (xs @ [(?n, x)])"
      "\<And>a. a \<notin> fst ` set xs \<Longrightarrow> a \<noteq> ?n \<Longrightarrow> h' a = ?h a" by auto
    have "h' a = None" if "Suc ?n \<le> a" for a
      using that h'(3) [of a] fr [of a] xs(1) seg_allocated [of "cells m" None xs None a] by (auto simp: dlist_def)
    with h' xs(2) Some show ?thesis
      by (simp add: list_add_def node_create_def ld_node_def lmem_rep_def Let_def) (rule exI [of _ "xs @ [(?n, x)]"], simp)
  qed
qed

lemma remove_loop_dlist:
  assumes "dlist h head (xs @ ys)"
  shows "\<exists>h'. remove_loop P h head (nxt ys None) = Some (Inr (nxt (xs @ filter (\<lambda>y. \<not> P (snd y)) ys) None, h')) \<and>
    dlist h' (nxt (xs @ filter (\<lambda>y. \<not> P (snd y)) ys) None) (xs @ filter (\<lambda>y. \<not> P (snd y)) ys) \<and>
    (\<forall>a. h a = None \<longrightarrow> h' a = None)"
  using assms
proof (induction ys arbitrary: xs h head)
  case Nil
  then show ?case by (auto simp: remove_loop.simps dlist_def)
next
  case (Cons y ys)
  obtain a d where y: "y = (a, d)" by (cases y)
  from Cons.prems have cell: "h a = Some \<lparr>n_prev = lst None xs, n_next = nxt ys None, n_data = Some d\<rparr>"
    by (simp add: dlist_def y)
  show ?case
  proof (cases "P d")
    case True
    from node_remove_dlist [of h head xs a d ys] Cons.prems obtain h1 where
      h1: "node_remove h head a = Inr (nxt (xs @ ys) None, h1)" "dlist h1 (nxt (xs @ ys) None) (xs @ ys)" "h1 a = None"
      "\<forall>b. b \<notin> fst ` set (xs @ (a, d) # ys) \<longrightarrow> h1 b = h b" by (auto simp: y)
    have none: "h1 b = None" if "h b = None" for b
    proof -
      from that Cons.prems have "b \<notin> fst ` set (xs @ (a, d) # ys)"
        using seg_allocated [of h None "xs @ (a, d) # ys" None b] by (auto simp: dlist_def y)
      with h1(4) that show ?thesis by simp
    qed
    from Cons.IH [OF h1(2)] True cell h1(1) none show ?thesis
      by (subst remove_loop.simps) (auto simp: y)
  next
    case False
    from Cons.prems have "dlist h head ((xs @ [y]) @ ys)" by simp
    from Cons.IH [OF this] False cell show ?thesis
      by (subst remove_loop.simps) (auto simp: y)
  qed
qed

lemma list_remove_ok:
  assumes "lmem_rep m ds"
  shows "\<exists>m'. list_remove P m = Inr m' \<and> lmem_rep m' (filter (\<lambda>x. \<not> P x) ds)"
proof -
  from assms obtain xs where xs: "dlist (cells m) (lhead m) xs" "map snd xs = ds"
    and fr: "\<And>a. fresh m \<le> a \<Longrightarrow> cells m a = None" by (auto simp: lmem_rep_def)
  let ?ys = "filter (\<lambda>y. \<not> P (snd y)) xs"
  from remove_loop_dlist [of "cells m" "lhead m" "[]" xs P] xs(1) obtain h' where
    h': "remove_loop P (cells m) (lhead m) (lhead m) = Some (Inr (nxt ?ys None, h'))" "dlist h' (nxt ?ys None) ?ys"
    "\<forall>a. cells m a = None \<longrightarrow> h' a = None" by (auto simp: dlist_def)
  have "map snd ?ys = filter (\<lambda>x. \<not> P x) ds" using xs(2) by (auto simp: filter_map o_def)
  with h' fr show ?thesis
    by (auto simp: list_remove_def lmem_rep_def intro!: exI [of _ ?ys])
qed

lemma clear_loop_nonempty:
  assumes "dlist h head (x # xs)"
  shows "clear_loop h head head = Some (Inl UseAfterFree)"
proof -
  obtain a d where x: "x = (a, d)" by (cases x)
  from node_remove_dlist [of h head "[]" a d xs] assms obtain h' where
    h': "node_remove h head a = Inr (nxt xs None, h')" "h' a = None" by (auto simp: x)
  have "clear_loop h' (nxt xs None) (Some a) = Some (Inl UseAfterFree)"
    using h'(2) by (subst clear_loop.simps) (simp add: node_remove_def ld_node_def)
  moreover have "head = Some a" using assms by (simp add: dlist_def x)
  ultimately show ?thesis using h'(1) by (subst clear_loop.simps) simp
qed

lemma clear_loop_empty: "clear_loop h None None = Some (Inr (None, h))"
  by (simp add: clear_loop.simps)

section \<open>The sequence interface\<close>

text \<open>What the rest of the router relies on: an append that never fails and puts its element last, and
  a removal loop that never fails and keeps, in order, the elements that do not match.\<close>

datatype 'a list_op = AddOp 'a | RemoveOp "'a \<Rightarrow> bool"

fun run_list :: "'a list_op list \<Rightarrow> 'a list \<Rightarrow> 'a list" where
  "run_list [] xs = xs"
| "run_list (AddOp x # ops) xs = run_list ops (xs @ [x])"
| "run_list (RemoveOp P # ops) xs = run_list ops (filter (\<lambda>x. \<not> P x) xs)"

fun run_ops :: "('a \<Rightarrow> 's \<Rightarrow> 's res) \<Rightarrow> (('a \<Rightarrow> bool) \<Rightarrow> 's \<Rightarrow> 's res) \<Rightarrow> 'a list_op list \<Rightarrow> 's \<Rightarrow> 's res" where
  "run_ops add rem [] s = Inr s"
| "run_ops add rem (AddOp x # ops) s = bindR (add x s) (run_ops add rem ops)"
| "run_ops add rem (RemoveOp P # ops) s = bindR (rem P s) (run_ops add rem ops)"

locale seq_store =
  fixes rep :: "'s \<Rightarrow> 'a list \<Rightarrow> bool"
    and add :: "'a \<Rightarrow> 's \<Rightarrow> 's res"
    and rem :: "('a \<Rightarrow> bool) \<Rightarrow> 's \<Rightarrow> 's res"
  assumes add_ok: "rep s xs \<Longrightarrow> \<exists>s'. add x s = Inr s' \<and> rep s' (xs @ [x])"
    and rem_ok: "rep s xs \<Longrightarrow> \<exists>s'. rem P s = Inr s' \<and> rep s' (filter (\<lambda>x. \<not> P x) xs)"
begin

lemma run_ops_refines: "rep s xs \<Longrightarrow> \<exists>s'. run_ops add rem ops s = Inr s' \<and> rep s' (run_list ops xs)"
proof (induction ops arbitrary: s xs)
  case Nil
  then show ?case by simp
next
  case (Cons oper ops)
  then show ?case
  proof (cases oper)
    case (AddOp x)
    with add_ok [OF Cons.prems, of x] Cons.IH show ?thesis by fastforce
  next
    case (RemoveOp P)
    with rem_ok [OF Cons.prems, of P] Cons.IH show ?thesis by fastforce
  qed
qed

end

interpretation nl: seq_store lmem_rep list_add list_remove
  by unfold_locales (simp_all add: list_add_ok list_remove_ok)

definition empty_lmem :: "'a lmem" where
  "empty_lmem = \<lparr>cells = (\<lambda>_. None), lhead = None, fresh = 0\<rparr>"

lemma empty_lmem_rep: "lmem_rep empty_lmem []"
  by (simp add: lmem_rep_def empty_lmem_def dlist_def)

section \<open>Properties\<close>

text \<open>
  Claim C6. The doubly linked list of nodes is a sequence: any history of appends
  (\<^verbatim>\<open>node_create\<close> and \<^verbatim>\<open>node_push_back\<close>) and removal loops (\<^verbatim>\<open>node_remove\<close> on every node whose data
  match) that starts from the null list runs without a null, dangling or unfinished access and ends
  in a heap whose list holds exactly what the history leaves in a HOL list.
\<close>

theorem node_list_history:
  "\<exists>m. run_ops list_add list_remove ops empty_lmem = Inr m \<and> lmem_rep m (run_list ops [])"
  by (rule nl.run_ops_refines [OF empty_lmem_rep])

text \<open>
  The loop with which \<^verbatim>\<open>iface_up\<close> and \<^verbatim>\<open>iface_down\<close> clear the neighbours of an interface
  never advances its cursor: on a list with at least one neighbour it uses a freed node.
\<close>

theorem clear_loop_use_after_free:
  assumes "dlist h head (x # xs)"
  shows "clear_loop h head head = Some (Inl UseAfterFree)"
  by (rule clear_loop_nonempty [OF assms])

theorem clear_loop_use_after_free_witness:
  "clear_loop (\<lambda>a. if a = 0 then Some \<lparr>n_prev = None, n_next = None, n_data = Some (5 :: nat)\<rparr> else None) (Some 0) (Some 0) =
    Some (Inl UseAfterFree)"
  by (rule clear_loop_use_after_free [of _ _ "(0, 5)" "[]"]) (simp add: dlist_def)

end
