(* ===== verification/Router_State.thy ===== *)
theory Router_State
  imports Scone_Prelude
begin

text \<open>
  The data types of \<^verbatim>\<open>or_data_types.h\<close>: the entries of the router's tables and queues and the
  router state itself, with the locks that guard them.

  A list of \<^verbatim>\<open>node\<close>s is the HOL list of the entries its nodes point to, in order (the theory
  of the node list shows that the C list operations are the list operations used here); a pointer
  to an entry of a list is the entry found by the walk that computed the pointer, and a write
  through it is an update of that entry in place. One-bit fields are Booleans. IP addresses,
  masks and router ids are the values of the C variables: network byte order loaded on a
  little-endian host.

  What the C code reads from its environment is part of the state too: \<open>clock\<close> is the value
  that \<^verbatim>\<open>time\<close> returns, \<open>renv\<close> holds the constants of the generated register header,
  whether the build defines \<^verbatim>\<open>_CPUMODE_\<close>, whether the driver socket accepts the \<open>n\<close>-th frame, the results
  of \<^verbatim>\<open>rand\<close> and the comparison \<^verbatim>\<open>strcmp\<close> of the C library, what the hardware answers to a read after a sequence of register writes
  and the fields of \<^verbatim>\<open>struct sr_instance\<close> that the command line shows, and what the C code emits is recorded:
  \<open>tx\<close> the frames handed to the driver, \<open>regs\<close> the register writes, \<open>sock_out\<close> the text sent to
  sockets, \<open>transport_in\<close> the packets handed to the TCP stack, \<open>signals\<close> the condition variables
  signalled. Each handler runs as one step on this state; the locks it takes are explicit.
\<close>

section \<open>Table and queue entries\<close>

record rtable_entry =
  re_ip :: u32
  re_gw :: u32
  re_mask :: u32
  re_iface :: string
  re_static :: bool
  re_active :: bool

record arp_cache_entry =
  ac_ip :: u32
  ac_ha :: "u8 list"
  ac_TTL :: int
  ac_static :: int

record arp_queue_packet_entry =
  aqp_packet :: packet

record arp_queue_entry =
  aq_out_iface_name :: string
  aq_next_hop :: u32
  aq_requests :: int
  aq_last_req_time :: int
  aq_head :: "arp_queue_packet_entry list"

record sping_queue_entry =
  sq_packet :: packet
  sq_arrival_time :: int

record nbr_router =
  nbr_router_id :: u32
  nbr_ip :: u32
  nbr_last_rcvd_hello :: int

record iface_entry =
  if_name :: string
  if_addr :: "u8 list"
  if_ip :: u32
  if_mask :: u32
  if_speed :: u32
  if_active :: bool
  if_last_sent_hello :: int
  if_nbr_routers :: "nbr_router list"
  if_is_wan :: bool

record pwospf_interface =
  pi_subnet :: u32
  pi_mask :: u32
  pi_router_id :: u32
  pi_active :: bool

text \<open>\<open>r_addr\<close> is the address of the record: \<^verbatim>\<open>prev_router\<close> points to another router of the list.\<close>

record pwospf_router =
  r_addr :: nat
  r_router_id :: u32
  r_area_id :: u32
  r_seq :: u16
  r_last_update :: int
  r_distance :: u32
  r_shortest_path_found :: bool
  r_interface_list :: "pwospf_interface list"
  r_prev_router :: "nat option"

record pwospf_lsu_queue_entry =
  lq_ip :: u32
  lq_iface :: string
  lq_packet :: packet

record nat_ip_port_pair =
  np_ip :: u32
  np_port :: u16
  np_checksum :: u16
  np_checksum_ip :: u16
  np_checksum_port :: u16

text \<open>The averages of a NAT entry, a \<^verbatim>\<open>double\<close> that only the display reads, are left out.\<close>

record nat_entry =
  nat_ext :: nat_ip_port_pair
  nat_int :: nat_ip_port_pair
  ne_last_hits :: u32
  ne_last_hits_time :: int
  ne_hits :: u32
  ne_hw_row :: u8
  ne_static :: bool

record local_ip_filter_entry =
  lf_ip :: u32
  lf_name :: string

section \<open>Registers, locks and the environment\<close>

datatype reg = WRDATA_A_HI | WRDATA_A_LOW | WRDATA_B_HI | WRDATA_B_LOW | INDIRECTADDRESS
  | INDIRECTCOMMAND | MAC_HI nat | MAC_LOW nat

text \<open>The registers the code reads: the reply of an indirect read and two counters.\<close>

datatype reply_reg = REPLY_A_HI | REPLY_A_LOW | REPLY_B_HI | REPLY_B_LOW | REPLY_MAC reg | ARP_MISS_CNTR | FORWARDED_CNTR

datatype lock = ArpCacheLock | ArpQueueLock | IfListLock | RtableLock | NatTableMutex
  | RouterListMutex | LsuQueueMutex | LsuBcastMutex | DijkstraMutex | SpingMutex
  | LocalIpFilterMutex | WriteLock | CliCommandsLock

datatype lock_mode = Rd | Wr

datatype cond = SpingCond | LsuBcastCond | DijkstraCond | NatTableCond

record environment =
  lpm_tcam_width :: nat
  lpm_tcam_address :: u32
  arp_cam_width :: nat
  arp_cam_address :: u32
  dest_ip_cam_width :: nat
  dest_ip_cam_address :: u32
  cpumode :: bool
  drv_ok :: "nat \<Rightarrow> bool"
  rand_at :: "nat \<Rightarrow> int"
  strcmp :: "string \<Rightarrow> string \<Rightarrow> int"
  hw_reply :: "(reg \<times> u32) list \<Rightarrow> reply_reg \<Rightarrow> u32"
  sr_user :: string
  sr_vhost :: string
  sr_lhost :: string
  sr_topo_id :: u16
  sr_server_port :: u16
  sr_server_ip :: u32

section \<open>The router state\<close>

record router_state =
  router_id :: u32
  area_id :: u32
  lsu_update_needed :: bool
  pwospf_hello_interval :: u16
  pwospf_lsu_interval :: u32
  pwospf_lsu_broadcast :: u32
  dijkstra_dirty :: u32
  is_netfpga :: bool
  arp_ttl :: u32
  nat_timeout :: u32
  rtable :: "rtable_entry list"
  arp_cache :: "arp_cache_entry list"
  if_list :: "iface_entry list"
  arp_queue :: "arp_queue_entry list"
  sping_queue :: "sping_queue_entry list"
  pwospf_router_list :: "pwospf_router list"
  pwospf_lsu_queue :: "pwospf_lsu_queue_entry list"
  nat_table :: "nat_entry list"
  local_ip_filter_list :: "local_ip_filter_entry list"
  held :: "(lock \<times> lock_mode) list"
  clock :: int
  tx :: "(packet \<times> string) list"
  regs :: "(reg \<times> u32) list"
  sock_out :: "(int \<times> string) list"
  transport_in :: "packet list"
  signals :: "cond list"
  rand_used :: nat
  next_router_addr :: nat
  renv :: environment

text \<open>The state that \<^verbatim>\<open>init\<close> starts from: \<^verbatim>\<open>malloc\<close> and \<^verbatim>\<open>bzero\<close>.\<close>

definition bzero_state :: "environment \<Rightarrow> router_state" where
  "bzero_state e =
    \<lparr>router_id = 0, area_id = 0, lsu_update_needed = False, pwospf_hello_interval = 0,
     pwospf_lsu_interval = 0, pwospf_lsu_broadcast = 0, dijkstra_dirty = 0, is_netfpga = False,
     arp_ttl = 0, nat_timeout = 0, rtable = [], arp_cache = [], if_list = [], arp_queue = [],
     sping_queue = [], pwospf_router_list = [], pwospf_lsu_queue = [], nat_table = [],
     local_ip_filter_list = [], held = [], clock = 0, tx = [], regs = [], sock_out = [],
     transport_in = [], signals = [], rand_used = 0, next_router_addr = 0, renv = e\<rparr>"

text \<open>A concrete environment: 32 TCAM rows, 32 ARP rows and 32 filter rows at distinct addresses, a
  driver that accepts every frame.\<close>

definition lexcmp :: "string \<Rightarrow> string \<Rightarrow> int" where
  "lexcmp a b =
    (if a = b then 0
     else if List.lexordp (\<lambda>x y. (of_char x :: nat) < of_char y) a b then - 1 else 1)"

definition demo_env :: environment where
  "demo_env =
    \<lparr>lpm_tcam_width = 32, lpm_tcam_address = 0, arp_cam_width = 32, arp_cam_address = 0x100,
     dest_ip_cam_width = 32, dest_ip_cam_address = 0x200, cpumode = True, drv_ok = (\<lambda>_. True),
     rand_at = (\<lambda>n. int n), strcmp = lexcmp, hw_reply = (\<lambda>_ _. 0), sr_user = [], sr_vhost = ''cpu'', sr_lhost = [], sr_topo_id = 0,
     sr_server_port = 0, sr_server_ip = 0\<rparr>"

type_synonym 'a act = "router_state \<Rightarrow> ('a \<times> router_state) res"

section \<open>Locks\<close>

text \<open>
  A lock is granted unless the calling thread already holds it in a conflicting mode: then the call
  blocks for ever (\<^verbatim>\<open>pthread_mutex_lock\<close>) or fails with \<^verbatim>\<open>EDEADLK\<close>, and the model faults. Releasing a
  lock that is not held is undefined behaviour and faults too.
\<close>

definition conflicts :: "lock \<Rightarrow> lock_mode \<Rightarrow> (lock \<times> lock_mode) list \<Rightarrow> bool" where
  "conflicts l m hs = list_ex (\<lambda>(l', m'). l' = l \<and> (m = Wr \<or> m' = Wr)) hs"

definition acquire :: "lock \<Rightarrow> lock_mode \<Rightarrow> router_state \<Rightarrow> router_state res" where
  "acquire l m rs =
    (if conflicts l m (held rs) then Inl Deadlock else Inr (rs\<lparr>held := (l, m) # held rs\<rparr>))"

definition release :: "lock \<Rightarrow> router_state \<Rightarrow> router_state res" where
  "release l rs =
    (if list_ex (\<lambda>h. fst h = l) (held rs) then Inr (rs\<lparr>held := remove_first (\<lambda>h. fst h = l) (held rs)\<rparr>)
     else Inl BadUnlock)"

definition pthread_cond_signal :: "cond \<Rightarrow> router_state \<Rightarrow> router_state" where
  "pthread_cond_signal c rs = rs\<lparr>signals := signals rs @ [c]\<rparr>"

definition writeReg :: "reg \<Rightarrow> u32 \<Rightarrow> router_state \<Rightarrow> router_state" where
  "writeReg r v rs = rs\<lparr>regs := regs rs @ [(r, v)]\<rparr>"

definition send_to_socket :: "int \<Rightarrow> string \<Rightarrow> router_state \<Rightarrow> router_state" where
  "send_to_socket fd s rs = rs\<lparr>sock_out := sock_out rs @ [(fd, s)]\<rparr>"

lemma acquire_free [res_simps]:
  "\<not> conflicts l m (held rs) \<Longrightarrow> acquire l m rs = Inr (rs\<lparr>held := (l, m) # held rs\<rparr>)"
  by (simp add: acquire_def)

lemma release_hd [res_simps]: "held rs = (l, m) # hs \<Longrightarrow> release l rs = Inr (rs\<lparr>held := hs\<rparr>)"
  by (simp add: release_def)

lemma conflicts_simps [simp]:
  "\<not> conflicts l m []"
  "conflicts l m (h # hs) \<longleftrightarrow> (fst h = l \<and> (m = Wr \<or> snd h = Wr)) \<or> conflicts l m hs"
  by (auto simp: conflicts_def split: prod.splits)

lemma bzero_state_simps [simp]:
  "renv (bzero_state e) = e" "held (bzero_state e) = []" "tx (bzero_state e) = []" "regs (bzero_state e) = []"
  "rtable (bzero_state e) = []" "arp_cache (bzero_state e) = []" "if_list (bzero_state e) = []" "arp_queue (bzero_state e) = []"
  "sping_queue (bzero_state e) = []" "pwospf_router_list (bzero_state e) = []" "nat_table (bzero_state e) = []"
  "local_ip_filter_list (bzero_state e) = []" "is_netfpga (bzero_state e) = False" "clock (bzero_state e) = 0"
  "pwospf_lsu_queue (bzero_state e) = []" "router_id (bzero_state e) = 0" "area_id (bzero_state e) = 0"
  "rand_used (bzero_state e) = 0" "transport_in (bzero_state e) = []" "sock_out (bzero_state e) = []"
  by (simp_all add: bzero_state_def)

section \<open>The register log\<close>

text \<open>
  The lookup tables of the hardware are written through an indirect window: the four data registers
  are loaded, then the row address, then a command of 1 commits the window to that row. \<open>hw_rows\<close>
  reads a log of register writes as the rows it commits, the last commit of a row winning.
\<close>

record hw_window =
  w_a_hi :: u32
  w_a_low :: u32
  w_b_hi :: u32
  w_b_low :: u32
  w_addr :: u32
  w_rows :: "u32 \<Rightarrow> (u32 \<times> u32 \<times> u32 \<times> u32) option"

fun hw_step :: "reg \<times> u32 \<Rightarrow> hw_window \<Rightarrow> hw_window" where
  "hw_step (WRDATA_A_HI, v) w = w\<lparr>w_a_hi := v\<rparr>"
| "hw_step (WRDATA_A_LOW, v) w = w\<lparr>w_a_low := v\<rparr>"
| "hw_step (WRDATA_B_HI, v) w = w\<lparr>w_b_hi := v\<rparr>"
| "hw_step (WRDATA_B_LOW, v) w = w\<lparr>w_b_low := v\<rparr>"
| "hw_step (INDIRECTADDRESS, v) w = w\<lparr>w_addr := v\<rparr>"
| "hw_step (INDIRECTCOMMAND, v) w =
    (if v = 1 then w\<lparr>w_rows := (w_rows w)(w_addr w \<mapsto> (w_a_hi w, w_a_low w, w_b_hi w, w_b_low w))\<rparr> else w)"
| "hw_step (MAC_HI n, v) w = w"
| "hw_step (MAC_LOW n, v) w = w"

definition hw_run :: "(reg \<times> u32) list \<Rightarrow> hw_window \<Rightarrow> hw_window" where
  "hw_run ws w = fold hw_step ws w"

definition hw_reset :: hw_window where
  "hw_reset = \<lparr>w_a_hi = 0, w_a_low = 0, w_b_hi = 0, w_b_low = 0, w_addr = 0, w_rows = Map.empty\<rparr>"

definition hw_rows :: "(reg \<times> u32) list \<Rightarrow> u32 \<Rightarrow> (u32 \<times> u32 \<times> u32 \<times> u32) option" where
  "hw_rows ws = w_rows (hw_run ws hw_reset)"

lemma hw_run_append [simp]: "hw_run (xs @ ys) w = hw_run ys (hw_run xs w)"
  by (simp add: hw_run_def)

lemma hw_run_simps [simp]: "hw_run [] w = w" "hw_run (x # xs) w = hw_run xs (hw_step x w)"
  by (simp_all add: hw_run_def)

end
