(* ===== verification/Bubble_Sort.thy ===== *)
theory Bubble_Sort
  imports Scone_Prelude
begin

text \<open>
  The bubble sort the router uses for the routing table, the local IP filters, the NAT table and the
  CLI commands: a \<^verbatim>\<open>do { swapped = 0; ... } while (swapped)\<close> loop whose pass walks the list and swaps the
  data pointers of neighbours. The loop is a partial function; the locale shows that it stops, and
  returns the stable sort of the list, whenever the swap test compares keys of a linear order.
\<close>

fun bubble_pass :: "('a \<Rightarrow> 'a \<Rightarrow> bool) \<Rightarrow> 'a list \<Rightarrow> bool \<times> 'a list" where
  "bubble_pass sw [] = (False, [])"
| "bubble_pass sw [x] = (False, [x])"
| "bubble_pass sw (a # b # xs) =
     (if sw a b then (True, b # snd (bubble_pass sw (a # xs)))
      else let r = bubble_pass sw (b # xs) in (fst r, a # snd r))"

partial_function (option) bubble_sort :: "('a \<Rightarrow> 'a \<Rightarrow> bool) \<Rightarrow> 'a list \<Rightarrow> 'a list option" where
  "bubble_sort sw xs =
     (let r = bubble_pass sw xs in if fst r then bubble_sort sw (snd r) else Some (snd r))"

declare bubble_sort.simps [code]

lemma mset_bubble_pass [simp]: "mset (snd (bubble_pass sw xs)) = mset xs"
  by (induction sw xs rule: bubble_pass.induct) (auto simp: Let_def)

lemma set_bubble_pass [simp]: "set (snd (bubble_pass sw xs)) = set xs"
  by (metis mset_bubble_pass set_mset_mset)

lemma bubble_pass_unchanged: "\<not> fst (bubble_pass sw xs) \<Longrightarrow> snd (bubble_pass sw xs) = xs"
  by (induction sw xs rule: bubble_pass.induct) (auto simp: Let_def split: if_splits)

text \<open>Whatever the swap test is, a loop that returns has permuted its list.\<close>

lemma mset_bubble_sort:
  assumes "bubble_sort sw xs = Some ys"
  shows "mset ys = mset xs"
proof (rule bubble_sort.raw_induct [where P = "\<lambda>sw xs ys. mset ys = mset xs", OF _ assms])
  fix f :: "('b \<Rightarrow> 'b \<Rightarrow> bool) \<Rightarrow> 'b list \<Rightarrow> 'b list option" and sw xs ys
  assume IH: "\<And>sw xs ys. f sw xs = Some ys \<Longrightarrow> mset ys = mset xs"
    and eq: "(let r = bubble_pass sw xs in if fst r then f sw (snd r) else Some (snd r)) = Some ys"
  show "mset ys = mset xs"
  proof (cases "fst (bubble_pass sw xs)")
    case True
    with eq have "f sw (snd (bubble_pass sw xs)) = Some ys" by (simp add: Let_def)
    from IH [OF this] show ?thesis by simp
  next
    case False
    with eq have "ys = snd (bubble_pass sw xs)" by (simp add: Let_def)
    then show ?thesis by simp
  qed
qed

section \<open>Sorting by a key\<close>

text \<open>The number of pairs a sort has to exchange; every pass that swaps lowers it.\<close>

fun inversions :: "('a \<Rightarrow> 'k::linorder) \<Rightarrow> 'a list \<Rightarrow> nat" where
  "inversions key [] = 0"
| "inversions key (x # xs) = length (filter (\<lambda>y. key y < key x) xs) + inversions key xs"

lemma length_filter_pass [simp]: "length (filter P (snd (bubble_pass sw xs))) = length (filter P xs)"
  by (metis mset_bubble_pass mset_filter size_mset)

locale bubble_key =
  fixes sw :: "'a \<Rightarrow> 'a \<Rightarrow> bool" and key :: "'a \<Rightarrow> 'k::linorder"
  assumes sw_iff: "sw a b \<longleftrightarrow> key b < key a"
begin

lemma bubble_induct [case_names nil single swap keep]:
  assumes "P []" and "\<And>a. P [a]"
    and "\<And>a b xs. key b < key a \<Longrightarrow> P (a # xs) \<Longrightarrow> P (a # b # xs)"
    and "\<And>a b xs. key a \<le> key b \<Longrightarrow> P (b # xs) \<Longrightarrow> P (a # b # xs)"
  shows "P xs"
proof (induction xs rule: length_induct)
  case (1 xs)
  show ?case
  proof (cases xs rule: remdups_adj.cases)
    case (3 a b ys)
    with 1 have "P (a # ys)" "P (b # ys)" by auto
    with 3 assms(3,4) show ?thesis by (cases "key b < key a") auto
  qed (use assms in auto)
qed

lemma pass_swap: "key b < key a \<Longrightarrow> bubble_pass sw (a # b # xs) = (True, b # snd (bubble_pass sw (a # xs)))"
  by (simp add: sw_iff)

lemma pass_keep: "key a \<le> key b \<Longrightarrow>
  bubble_pass sw (a # b # xs) = (fst (bubble_pass sw (b # xs)), a # snd (bubble_pass sw (b # xs)))"
  by (auto simp: sw_iff Let_def)

lemma inversions_pass:
  "inversions key (snd (bubble_pass sw xs)) \<le> inversions key xs \<and>
   (fst (bubble_pass sw xs) \<longrightarrow> inversions key (snd (bubble_pass sw xs)) < inversions key xs)"
  by (induction xs rule: bubble_induct) (auto simp: pass_swap pass_keep simp del: bubble_pass.simps(3))

lemma sorted_unswapped: "\<not> fst (bubble_pass sw xs) \<Longrightarrow> sorted (map key xs)"
  by (induction xs rule: bubble_induct) (auto simp: pass_swap pass_keep simp del: bubble_pass.simps(3))

lemma filter_pass: "filter (\<lambda>x. key x = k) (snd (bubble_pass sw xs)) = filter (\<lambda>x. key x = k) xs"
  by (induction xs rule: bubble_induct) (auto simp: pass_swap pass_keep simp del: bubble_pass.simps(3))

lemma sort_key_pass: "sort_key key (snd (bubble_pass sw xs)) = sort_key key xs"
proof (rule properties_for_sort_key)
  fix k
  have "filter (\<lambda>x. key x = key k) (sort_key key xs) = filter (\<lambda>x. key x = key k) (snd (bubble_pass sw xs))"
    by (simp add: filter_pass sort_key_stable)
  then show "filter (\<lambda>x. key k = key x) (sort_key key xs) = filter (\<lambda>x. key k = key x) (snd (bubble_pass sw xs))"
    by (metis (mono_tags, lifting) filter_cong)
qed simp_all

theorem bubble_sort_eq: "bubble_sort sw xs = Some (sort_key key xs)"
proof (induction "inversions key xs" arbitrary: xs rule: less_induct)
  case less
  show ?case
  proof (cases "fst (bubble_pass sw xs)")
    case True
    with inversions_pass less have "bubble_sort sw (snd (bubble_pass sw xs)) = Some (sort_key key (snd (bubble_pass sw xs)))"
      by blast
    with True show ?thesis by (subst bubble_sort.simps) (simp add: Let_def sort_key_pass)
  next
    case False
    then have "sort_key key xs = xs" by (metis sorted_unswapped sorted_sort_id sort_key_id_if_sorted)
    with False show ?thesis by (subst bubble_sort.simps) (simp add: Let_def bubble_pass_unchanged)
  qed
qed

end

end
