(* ===== verification/Netfpga.thy ===== *)
theory Netfpga
  imports Router_State Bubble_Sort
begin

text \<open>
  The hardware-facing part of the router: \<^verbatim>\<open>or_netfpga.c\<close> (port names, frame output, the local IP
  filter list and its copy in the hardware), the output path of \<^verbatim>\<open>sr_integration.c\<close>,
  \<^verbatim>\<open>sr_cpu_extension_nf.c\<close> and \<^verbatim>\<open>sr_vns.c\<close>, and \<^verbatim>\<open>send_packet\<close> of \<^verbatim>\<open>or_main.c\<close>. A frame written to a packet
  socket is accepted whole or refused.
\<close>

section \<open>Port names\<close>

definition ETH0 :: string where "ETH0 = ''eth0''"
definition ETH1 :: string where "ETH1 = ''eth1''"
definition CPU0 :: string where "CPU0 = ''cpu0''"
definition CPU1 :: string where "CPU1 = ''cpu1''"

lemmas port_names = ETH0_def ETH1_def CPU0_def CPU1_def

definition getPortNumber :: "string \<Rightarrow> u8 res" where
  "getPortNumber name =
    (if name = ETH0 then Inr 0 else if name = ETH1 then Inr 1 else Inl AssertFail)"

definition getOneHotPortNumber :: "string \<Rightarrow> u32 res" where
  "getOneHotPortNumber name =
    (if name = ETH0 then Inr 1 else if name = ETH1 then Inr 4
     else if name = CPU0 then Inr 2 else if name = CPU1 then Inr 8 else Inl AssertFail)"

definition getIfaceFromOneHotPortNumber :: "nat \<Rightarrow> u32 \<Rightarrow> string" where
  "getIfaceFromOneHotPortNumber len port =
    (if port = 1 then take len ETH0 else if port = 2 then take len CPU0
     else if port = 4 then take len ETH1 else if port = 8 then take len CPU1 else [])"

definition get_incoming_interface :: "nat \<Rightarrow> u32 \<Rightarrow> string res" where
  "get_incoming_interface len queue =
    bindR (assertR (0 \<le> queue \<and> queue \<le> 3)) (\<lambda>_.
    Inr (if queue = 0 then take len ETH0 else if queue = 1 then take len ETH1 else []))"

section \<open>Frame output\<close>

definition internal_names :: "string list" where
  "internal_names = [''eth0'', ''eth1'', ''eth2'', ''eth3'']"

text \<open>The search loop leaves \<open>i = 4\<close> for an unknown name, and \<^verbatim>\<open>raw_sockets[4]\<close> is out of bounds. Only the first two sockets are opened (\<^verbatim>\<open>init_rawsockets\<close>); the other two
  descriptors are still 0, so that a frame for \<^verbatim>\<open>eth2\<close> or \<^verbatim>\<open>eth3\<close> is written to the standard input of the process and does not reach the wire.\<close>

definition open_sockets :: nat where
  "open_sockets = 2"

fun name_index :: "string \<Rightarrow> string list \<Rightarrow> nat" where
  "name_index n [] = 0"
| "name_index n (x # xs) = (if n = x then 0 else Suc (name_index n xs))"

definition netfpga_output :: "packet \<Rightarrow> string \<Rightarrow> int act" where
  "netfpga_output p iface rs =
    (let i = name_index iface internal_names in
     if p = [] then Inr (0, rs)
     else if 4 \<le> i then Inl OutOfBounds
     else if \<not> drv_ok (renv rs) (length (tx rs)) then Inl ProcessExit
     else if i < open_sockets then Inr (0, rs\<lparr>tx := tx rs @ [(p, iface)]\<rparr>)
     else Inr (0, rs))"

definition sr_vns_send_packet :: "packet \<Rightarrow> string \<Rightarrow> int act" where
  "sr_vns_send_packet p iface rs =
    (if length p < 14 then Inr (- 1, rs)
     else if \<not> drv_ok (renv rs) (length (tx rs)) then Inr (- 1, rs)
     else Inr (0, rs\<lparr>tx := tx rs @ [(p, take 16 iface)]\<rparr>))"

definition sr_integ_low_level_output :: "packet \<Rightarrow> string \<Rightarrow> int act" where
  "sr_integ_low_level_output p iface rs =
    (if cpumode (renv rs) then netfpga_output p iface rs else sr_vns_send_packet p iface rs)"

definition pad_frame :: "packet \<Rightarrow> packet" where
  "pad_frame p = p @ replicate (60 - length p) 0"

definition send_packet :: "packet \<Rightarrow> string \<Rightarrow> int act" where
  "send_packet p iface rs =
    bindR (acquire WriteLock Wr rs) (\<lambda>rs.
    bindR (if length p < 60
           then sr_integ_low_level_output (upd_bytes (bzero 60) 0 p) iface rs
           else sr_integ_low_level_output p iface rs) (\<lambda>(result, rs).
    bindR (release WriteLock rs) (\<lambda>rs. Inr (result, rs))))"

section \<open>Local IP filters\<close>

definition lf_swap :: "environment \<Rightarrow> local_ip_filter_entry \<Rightarrow> local_ip_filter_entry \<Rightarrow> bool" where
  "lf_swap e a b = (strcmp e (lf_name a) (lf_name b) = 1)"

definition write_filter_row :: "u32 \<Rightarrow> nat \<Rightarrow> router_state \<Rightarrow> router_state" where
  "write_filter_row ip i rs =
    writeReg INDIRECTCOMMAND 1
    (writeReg INDIRECTADDRESS (dest_ip_cam_address (renv rs) OR word_of_nat i)
    (writeReg WRDATA_B_LOW ip rs))"

fun write_filter_rows :: "nat \<Rightarrow> nat \<Rightarrow> local_ip_filter_entry list \<Rightarrow> router_state \<Rightarrow> router_state" where
  "write_filter_rows i 0 cur rs = rs"
| "write_filter_rows i (Suc n) [] rs = write_filter_rows (Suc i) n [] (write_filter_row 0 i rs)"
| "write_filter_rows i (Suc n) (e # cur) rs =
    write_filter_rows (Suc i) n cur (write_filter_row (ntohl (lf_ip e)) i rs)"

definition trigger_local_ip_filters_change :: "router_state \<Rightarrow> router_state res" where
  "trigger_local_ip_filters_change rs =
    bindR (acquire LocalIpFilterMutex Wr rs) (\<lambda>rs.
    bindR (returnsR (bubble_sort (lf_swap (renv rs)) (local_ip_filter_list rs))) (\<lambda>fs.
    let rs = rs\<lparr>local_ip_filter_list := fs\<rparr>;
        rs = (if is_netfpga rs
              then write_filter_rows 0 (dest_ip_cam_width (renv rs)) (local_ip_filter_list rs) rs else rs)
    in release LocalIpFilterMutex rs))"

definition get_local_ip_filter_by_name :: "router_state \<Rightarrow> string option \<Rightarrow> local_ip_filter_entry option" where
  "get_local_ip_filter_by_name rs name =
    (case name of None \<Rightarrow> None | Some n \<Rightarrow> find (\<lambda>e. lf_name e = n) (local_ip_filter_list rs))"

definition get_local_ip_filter_by_ip :: "router_state \<Rightarrow> u32 option \<Rightarrow> local_ip_filter_entry option" where
  "get_local_ip_filter_by_ip rs ip =
    (case ip of None \<Rightarrow> None | Some a \<Rightarrow> find (\<lambda>e. lf_ip e = a) (local_ip_filter_list rs))"

definition add_local_ip_filter :: "u32 \<Rightarrow> string \<Rightarrow> int act" where
  "add_local_ip_filter ip name rs =
    (if get_local_ip_filter_by_ip rs (Some ip) \<noteq> None \<or> get_local_ip_filter_by_name rs (Some name) \<noteq> None
     then Inr (1, rs)
     else
       bindR (acquire LocalIpFilterMutex Wr rs) (\<lambda>rs.
       let rs = rs\<lparr>local_ip_filter_list :=
             local_ip_filter_list rs @ [\<lparr>lf_ip = ip, lf_name = take 31 name\<rparr>]\<rparr> in
       bindR (release LocalIpFilterMutex rs) (\<lambda>rs.
       bindR (trigger_local_ip_filters_change rs) (\<lambda>rs. Inr (0, rs)))))"

section \<open>Sending a frame\<close>

definition driver_ok :: "router_state \<Rightarrow> bool" where
  "driver_ok rs = (\<forall>n. drv_ok (renv rs) n)"

definition port_ok :: "router_state \<Rightarrow> string \<Rightarrow> bool" where
  "port_ok rs iface = (cpumode (renv rs) \<longrightarrow> iface \<in> set (take open_sockets internal_names))"

definition wire_name :: "router_state \<Rightarrow> string \<Rightarrow> string" where
  "wire_name rs iface = (if cpumode (renv rs) then iface else take 16 iface)"

definition emit :: "(packet \<times> string) list \<Rightarrow> router_state \<Rightarrow> router_state" where
  "emit fs rs = rs\<lparr>tx := tx rs @ fs\<rparr>"

lemma emit_simps [simp]:
  "tx (emit fs rs) = tx rs @ fs" "renv (emit fs rs) = renv rs" "held (emit fs rs) = held rs"
  "arp_cache (emit fs rs) = arp_cache rs" "arp_queue (emit fs rs) = arp_queue rs"
  "if_list (emit fs rs) = if_list rs" "rtable (emit fs rs) = rtable rs" "clock (emit fs rs) = clock rs"
  "pwospf_router_list (emit fs rs) = pwospf_router_list rs" "nat_table (emit fs rs) = nat_table rs"
  "sping_queue (emit fs rs) = sping_queue rs" "emit fs (emit gs rs) = emit (gs @ fs) rs" "emit [] rs = rs"
  by (simp_all add: emit_def)

lemma driver_ok_emit [simp]: "driver_ok (emit fs rs) = driver_ok rs" "port_ok (emit fs rs) = port_ok rs"
  "wire_name (emit fs rs) = wire_name rs"
  by (simp_all add: driver_ok_def port_ok_def wire_name_def fun_eq_iff)

lemma pad_frame_upd: "length p < 60 \<Longrightarrow> upd_bytes (bzero 60) 0 p = pad_frame p"
  by (simp add: upd_bytes_def bzero_def pad_frame_def)

lemma length_pad_frame: "length (pad_frame p) = max 60 (length p)"
  by (simp add: pad_frame_def)

lemma pad_frame_ge60: "60 \<le> length p \<Longrightarrow> pad_frame p = p"
  by (simp add: pad_frame_def)

lemma name_index_internal: "iface \<in> set (take open_sockets internal_names) \<Longrightarrow> name_index iface internal_names < open_sockets"
  by (auto simp: internal_names_def open_sockets_def)

lemma low_level_output_ok:
  assumes "driver_ok rs" "port_ok rs iface" "60 \<le> length p"
  shows "sr_integ_low_level_output p iface rs = Inr (0, emit [(p, wire_name rs iface)] rs)"
proof -
  have "p \<noteq> []" "\<not> length p < 14" using assms(3) by auto
  moreover have "cpumode (renv rs) \<Longrightarrow> name_index iface internal_names < open_sockets \<and> \<not> 4 \<le> name_index iface internal_names"
    using assms(2) name_index_internal [of iface] by (auto simp: port_ok_def open_sockets_def)
  ultimately show ?thesis using assms(1)
    by (simp add: sr_integ_low_level_output_def netfpga_output_def sr_vns_send_packet_def driver_ok_def wire_name_def emit_def Let_def)
qed

lemma send_packet_ok:
  assumes "\<not> conflicts WriteLock Wr (held rs)" "driver_ok rs" "port_ok rs iface"
  shows "send_packet p iface rs = Inr (0, emit [(pad_frame p, wire_name rs iface)] rs)"
proof -
  let ?rs = "rs\<lparr>held := (WriteLock, Wr) # held rs\<rparr>"
  let ?q = "if length p < 60 then upd_bytes (bzero 60) 0 p else p"
  have "?q = pad_frame p" by (simp add: pad_frame_upd pad_frame_ge60)
  moreover have "driver_ok ?rs" "port_ok ?rs iface" using assms by (simp_all add: driver_ok_def port_ok_def)
  ultimately have "(if length p < 60 then sr_integ_low_level_output (upd_bytes (bzero 60) 0 p) iface ?rs
      else sr_integ_low_level_output p iface ?rs) = Inr (0, emit [(pad_frame p, wire_name rs iface)] ?rs)"
    using low_level_output_ok [of ?rs iface "pad_frame p"] by (auto simp: length_pad_frame wire_name_def split: if_splits)
  then show ?thesis using assms(1) by (simp add: send_packet_def acquire_free release_hd) (simp add: emit_def)
qed

end
