(* ===== verification/Iface.thy ===== *)
theory Iface
  imports Netfpga
begin

text \<open>
  The interface list: the lookups of \<^verbatim>\<open>or_iface.c\<close> and \<^verbatim>\<open>or_main.c\<close>, \<^verbatim>\<open>iface_update\<close>, the test
  \<^verbatim>\<open>iface_is_active\<close> with its lock, the MAC registers, and \<^verbatim>\<open>init_add_interface\<close>. The operations that
  bring an interface up or down also change the link state database; they come with PWOSPF.
\<close>

fun iface_match_loop :: "u32 \<Rightarrow> iface_entry list \<Rightarrow> int \<Rightarrow> int" where
  "iface_match_loop ip [] r = r"
| "iface_match_loop ip (e # es) r = iface_match_loop ip es (if if_active e \<and> if_ip e = ip then 1 else r)"

definition iface_match_ip :: "router_state \<Rightarrow> u32 \<Rightarrow> int" where
  "iface_match_ip rs ip = iface_match_loop ip (if_list rs) 0"

definition get_iface :: "router_state \<Rightarrow> string \<Rightarrow> iface_entry option" where
  "get_iface rs interface = find (\<lambda>e. strncmp_eq interface (if_name e) 32) (if_list rs)"

definition get_interface :: "router_state \<Rightarrow> string \<Rightarrow> iface_entry option" where
  "get_interface rs name = find (\<lambda>e. strncmp_eq (if_name e) name 32) (if_list rs)"

text \<open>A write through the pointer that \<open>get_iface\<close> returns.\<close>

definition upd_iface :: "string \<Rightarrow> (iface_entry \<Rightarrow> iface_entry) \<Rightarrow> router_state \<Rightarrow> router_state" where
  "upd_iface interface f rs = rs\<lparr>if_list := upd_first (\<lambda>e. strncmp_eq interface (if_name e) 32) f (if_list rs)\<rparr>"

definition iface_update :: "string \<Rightarrow> u32 \<Rightarrow> u32 \<Rightarrow> router_state \<Rightarrow> int \<times> router_state" where
  "iface_update interface ip msk rs =
    (case get_iface rs interface of
       None \<Rightarrow> (0, rs)
     | Some _ \<Rightarrow> (1, upd_iface interface (\<lambda>e. e\<lparr>if_ip := ip, if_mask := msk\<rparr>) rs))"

definition iface_is_active :: "string \<Rightarrow> int act" where
  "iface_is_active interface rs =
    bindR (acquire IfListLock Rd rs) (\<lambda>rs.
    let retval = (case get_iface rs interface of None \<Rightarrow> 0 | Some e \<Rightarrow> if if_active e then 1 else 0) in
    bindR (release IfListLock rs) (\<lambda>rs. Inr (retval, rs)))"

definition get_nbr_by_rid :: "iface_entry \<Rightarrow> u32 \<Rightarrow> nbr_router option" where
  "get_nbr_by_rid iface rid = find (\<lambda>nbr. nbr_router_id nbr = rid) (if_nbr_routers iface)"

text \<open>The MAC registers. The result of a read is the register named; the ports 2 and 3 name
  the registers of port 1.\<close>

definition read_hw_iface_mac :: "(reg \<Rightarrow> u32) \<Rightarrow> u32 \<Rightarrow> u32 \<times> u32" where
  "read_hw_iface_mac readReg port =
    (if port = 0 then (readReg (MAC_HI 0), readReg (MAC_LOW 0))
     else if port = 1 then (readReg (MAC_HI 1), readReg (MAC_LOW 1))
     else if port = 2 then (readReg (MAC_HI 1), readReg (MAC_LOW 1))
     else if port = 3 then (readReg (MAC_HI 1), readReg (MAC_LOW 1))
     else (0, 0))"

definition write_hw_iface_mac :: "u32 \<Rightarrow> u32 \<Rightarrow> u32 \<Rightarrow> router_state \<Rightarrow> router_state" where
  "write_hw_iface_mac port mac_hi mac_lo rs =
    (if port = 0 then writeReg (MAC_LOW 0) mac_lo (writeReg (MAC_HI 0) mac_hi rs)
     else if port = 1 then writeReg (MAC_LOW 1) mac_lo (writeReg (MAC_HI 1) mac_hi rs)
     else if port = 2 then writeReg (MAC_LOW 2) mac_lo (writeReg (MAC_HI 2) mac_hi rs)
     else if port = 3 then writeReg (MAC_LOW 3) mac_lo (writeReg (MAC_HI 3) mac_hi rs)
     else rs)"

definition mac_hi :: "u8 list \<Rightarrow> u32" where
  "mac_hi ha = push_bit 8 (ucast (ha ! 0)) OR ucast (ha ! 1)"

definition mac_lo :: "u8 list \<Rightarrow> u32" where
  "mac_lo ha = push_bit 24 (ucast (ha ! 2)) OR push_bit 16 (ucast (ha ! 3)) OR push_bit 8 (ucast (ha ! 4)) OR ucast (ha ! 5)"

text \<open>\<^verbatim>\<open>strstr(name, "cpu")\<close>\<close>

fun has_sub :: "string \<Rightarrow> string \<Rightarrow> bool" where
  "has_sub pat [] = (pat = [])"
| "has_sub pat (c # cs) = (take (length pat) (c # cs) = pat \<or> has_sub pat cs)"

record sr_vns_if =
  vns_name :: string
  vns_addr :: "u8 list"
  vns_ip :: u32
  vns_mask :: u32
  vns_speed :: u32

definition init_add_interface :: "sr_vns_if \<Rightarrow> router_state \<Rightarrow> router_state res" where
  "init_add_interface vns rs =
    (if has_sub ''cpu'' (vns_name vns) then Inr rs
     else
       let ie = \<lparr>if_name = take 32 (vns_name vns), if_addr = vns_addr vns, if_ip = vns_ip vns, if_mask = vns_mask vns,
                 if_speed = vns_speed vns, if_active = True, if_last_sent_hello = 0, if_nbr_routers = [], if_is_wan = False\<rparr>;
           rs = (if strncmp_eq (if_name ie) ''eth0'' 32 then rs\<lparr>router_id := if_ip ie\<rparr> else rs);
           rs = rs\<lparr>if_list := if_list rs @ [ie]\<rparr> in
       bindR (if is_netfpga rs
              then bindR (getPortNumber (vns_name vns)) (\<lambda>port.
                   Inr (write_hw_iface_mac (ucast port) (mac_hi (vns_addr vns)) (mac_lo (vns_addr vns)) rs))
              else Inr rs) (\<lambda>rs.
       bindR (add_local_ip_filter (vns_ip vns) (vns_name vns) rs) (\<lambda>(_, rs). Inr rs)))"

section \<open>Lemmas\<close>

lemma iface_match_loop_eq:
  "iface_match_loop ip es r = (if \<exists>e\<in>set es. if_active e \<and> if_ip e = ip then 1 else r)"
  by (induction es arbitrary: r) auto

lemma iface_match_ip_eq: "iface_match_ip rs ip = (if \<exists>e\<in>set (if_list rs). if_active e \<and> if_ip e = ip then 1 else 0)"
  by (simp add: iface_match_ip_def iface_match_loop_eq)

lemma get_interface_eq: "get_interface rs name = get_iface rs name"
  by (simp add: get_interface_def get_iface_def strncmp_eq_sym)

lemma iface_is_active_eq:
  "\<not> conflicts IfListLock Rd (held rs) \<Longrightarrow>
   iface_is_active interface rs = Inr (case get_iface rs interface of None \<Rightarrow> 0 | Some e \<Rightarrow> if if_active e then 1 else 0, rs)"
  by (simp add: iface_is_active_def acquire_free release_hd get_iface_def Let_def)

end
