(* ===== verification/Checksum.thy ===== *)
theory Checksum
  imports Scone_Prelude
begin

unbundle bit_operations_syntax

text \<open>
  The Internet checksum routines: \<^verbatim>\<open>compute_ip_checksum\<close>, \<^verbatim>\<open>verify_checksum\<close> (\<^verbatim>\<open>or_ip.c\<close>),
  \<^verbatim>\<open>compute_icmp_checksum\<close> (\<^verbatim>\<open>or_icmp.c\<close>), \<^verbatim>\<open>compute_pwospf_checksum\<close> (\<^verbatim>\<open>or_pwospf.c\<close>) and the
  incremental update \<^verbatim>\<open>nat_checksum\<close> (\<^verbatim>\<open>or_nat.c\<close>). A header pointer is a buffer and an offset;
  \<^verbatim>\<open>unsigned long\<close> is 64 bits wide. The lemmas relate each routine to the sum modulo 65535 of the
  big-endian 16-bit words, which is the one's complement sum.
\<close>

section \<open>The routines\<close>

text \<open>The summing loop, from index \<open>i\<close> for \<open>n\<close> words, skipping the words \<open>skip\<close> names.\<close>

fun csum_loop :: "(nat \<Rightarrow> bool) \<Rightarrow> packet \<Rightarrow> nat \<Rightarrow> nat \<Rightarrow> nat \<Rightarrow> u64 \<Rightarrow> u64 res" where
  "csum_loop skip p off i 0 s = Inr s"
| "csum_loop skip p off i (Suc n) s =
     bindR (if skip i then Inr s else bindR (ld16 p (off + 2 * i)) (\<lambda>w. Inr (s + ucast (ntohs w))))
       (csum_loop skip p off (Suc i) n)"

definition fold_carry :: "u64 \<Rightarrow> u16" where
  "fold_carry s = (let s1 = drop_bit 16 s + (s AND 0xFFFF); s2 = s1 + drop_bit 16 s1
     in NOT (ucast (s2 AND 0xFFFF)))"

definition compute_ip_checksum :: "packet \<Rightarrow> nat \<Rightarrow> (u16 \<times> packet) res" where
  "compute_ip_checksum p off =
     bindR (st16 p (off + 10) 0) (\<lambda>p.
     bindR (ld8 p off) (\<lambda>b.
     bindR (csum_loop (\<lambda>i. i = 5) p off 0 (unat (b AND 15) * 2) 0) (\<lambda>s.
     Inr (fold_carry s, p))))"

fun vsum_loop :: "packet \<Rightarrow> nat \<Rightarrow> nat \<Rightarrow> nat \<Rightarrow> u32 \<Rightarrow> u32 res" where
  "vsum_loop p off i 0 s = Inr s"
| "vsum_loop p off i (Suc n) s =
     bindR (ld16 p (off + 2 * i)) (\<lambda>w. vsum_loop p off (Suc i) n (s + ucast (ntohs w)))"

definition verify_checksum :: "packet \<Rightarrow> nat \<Rightarrow> nat \<Rightarrow> int res" where
  "verify_checksum p off data_length =
     bindR (vsum_loop p off 0 (data_length div 2) 0) (\<lambda>s.
     let sum_1_comp = (ucast (drop_bit 16 s + (s AND 0xFFFF)) :: u16) in
     Inr (if sum_1_comp = 0xFFFF then 0 else 1))"

definition compute_icmp_checksum :: "packet \<Rightarrow> nat \<Rightarrow> int \<Rightarrow> (u16 \<times> packet) res" where
  "compute_icmp_checksum p off payload_len =
     bindR (st16 p (off + 2) 0) (\<lambda>p.
     bindR (csum_loop (\<lambda>i. i = 1) p off 0 (nat ((4 + payload_len) div 2)) 0) (\<lambda>s.
     Inr (fold_carry s, p)))"

definition compute_pwospf_checksum :: "packet \<Rightarrow> nat \<Rightarrow> (u16 \<times> packet) res" where
  "compute_pwospf_checksum p off =
     bindR (st16 p (off + 12) 0) (\<lambda>p.
     bindR (ld16 p (off + 2)) (\<lambda>len.
     bindR (csum_loop (\<lambda>i. \<not> (i < 8 \<or> 11 < i)) p off 0 (unat (ntohs len) div 2) 0) (\<lambda>s.
     Inr (fold_carry s, p))))"

definition nat_checksum :: "u16 \<Rightarrow> u16 \<Rightarrow> u16 \<Rightarrow> u16" where
  "nat_checksum old pos neg =
     (let word0 = (ucast old + ucast pos :: u32);
          word1 = drop_bit 16 word0 + (word0 AND 0xFFFF);
          word2 = word1 - ucast neg;
          word3 = (if word2 > 0xFFFF then word2 - 1 else word2)
      in ucast (word3 AND 0xFFFF))"

section \<open>Sums of big-endian words\<close>

definition be16 :: "packet \<Rightarrow> nat \<Rightarrow> nat" where
  "be16 p k = 256 * unat (p ! k) + unat (p ! (k + 1))"

definition sum16 :: "(nat \<Rightarrow> bool) \<Rightarrow> packet \<Rightarrow> nat \<Rightarrow> nat \<Rightarrow> nat \<Rightarrow> nat" where
  "sum16 skip p off i n = (\<Sum>j\<leftarrow>[i..<i + n]. if skip j then 0 else be16 p (off + 2 * j))"

lemma unat_ntohs_le16: "unat (ntohs (le16 a b)) = 256 * unat a + unat b"
  by (simp add: ntohs_def unat_le16)

lemma be16_ld: "ld16 p k = Inr w \<Longrightarrow> unat (ntohs w) = be16 p k"
  by (auto simp: ld_eq_Inr unat_ntohs_le16 be16_def)

lemma be16_lt: "be16 p k < 65536"
  using unat_u8_lt [of "p ! k"] unat_u8_lt [of "p ! (k + 1)"] by (simp add: be16_def)

lemma sum16_0 [simp]: "sum16 skip p off i 0 = 0"
  by (simp add: sum16_def)

lemma sum16_Suc: "sum16 skip p off i (Suc n) = (if skip i then 0 else be16 p (off + 2 * i)) + sum16 skip p off (Suc i) n"
  by (simp add: sum16_def upt_conv_Cons del: upt_Suc)

lemma sum16_le: "sum16 skip p off i n \<le> n * 65535"
proof (induction n arbitrary: i)
  case (Suc n)
  from Suc [of "Suc i"] be16_lt [of p "off + 2 * i"] show ?case by (simp add: sum16_Suc)
qed simp

lemma sum16_cong:
  "(\<And>j. i \<le> j \<Longrightarrow> j < i + n \<Longrightarrow> skip j = skip' j) \<Longrightarrow>
   (\<And>j. i \<le> j \<Longrightarrow> j < i + n \<Longrightarrow> \<not> skip j \<Longrightarrow> be16 p (off + 2 * j) = be16 q (off + 2 * j)) \<Longrightarrow>
   sum16 skip p off i n = sum16 skip' q off i n"
  by (induction n arbitrary: i) (auto simp: sum16_Suc)

lemma sum16_split: "i \<le> k \<Longrightarrow> k < i + n \<Longrightarrow> \<not> skip k \<Longrightarrow>
  sum16 skip p off i n = be16 p (off + 2 * k) + sum16 (\<lambda>j. skip j \<or> j = k) p off i n"
proof (induction n arbitrary: i)
  case (Suc n)
  show ?case
  proof (cases "i = k")
    case True
    have "sum16 skip p off (Suc k) n = sum16 (\<lambda>j. skip j \<or> j = k) p off (Suc k) n"
      by (rule sum16_cong) auto
    with True Suc.prems show ?thesis by (simp add: sum16_Suc)
  next
    case False
    with Suc.prems Suc.IH [of "Suc i"] show ?thesis by (simp add: sum16_Suc)
  qed
qed simp

lemma csum_loop_eq:
  "off + 2 * (i + n) \<le> length p \<Longrightarrow> csum_loop skip p off i n s = Inr (s + word_of_nat (sum16 skip p off i n))"
proof (induction n arbitrary: i s)
  case (Suc n)
  have "ucast (ntohs (le16 (p ! (off + 2 * i)) (p ! Suc (off + 2 * i)))) = (word_of_nat (be16 p (off + 2 * i)) :: u64)"
    by (simp only: be16_def Suc_eq_plus1 flip: unat_ntohs_le16) (rule of_nat_unat [symmetric])
  with Suc show ?case by (simp add: sum16_Suc ld16_in add.assoc)
qed simp

lemma vsum_loop_eq:
  "off + 2 * (i + n) \<le> length p \<Longrightarrow> vsum_loop p off i n s = Inr (s + word_of_nat (sum16 (\<lambda>_. False) p off i n))"
proof (induction n arbitrary: i s)
  case (Suc n)
  have "ucast (ntohs (le16 (p ! (off + 2 * i)) (p ! Suc (off + 2 * i)))) = (word_of_nat (be16 p (off + 2 * i)) :: u32)"
    by (simp only: be16_def Suc_eq_plus1 flip: unat_ntohs_le16) (rule of_nat_unat [symmetric])
  with Suc show ?case by (simp add: sum16_Suc ld16_in add.assoc)
qed simp

section \<open>One's complement arithmetic\<close>

text \<open>The one's complement sum of a total: its representative in \<open>1..65535\<close>, or 0 for 0.\<close>

definition ones :: "nat \<Rightarrow> nat" where
  "ones t = (if t = 0 then 0 else (t - 1) mod 65535 + 1)"

lemma ones_mod: "ones t mod 65535 = t mod 65535"
proof (cases t)
  case (Suc n)
  then show ?thesis by (simp add: ones_def mod_Suc_eq)
qed (simp add: ones_def)

lemma ones_le: "ones t \<le> 65535"
  by (auto simp: ones_def)

lemma ones_eq_0 [simp]: "ones t = 0 \<longleftrightarrow> t = 0"
  by (simp add: ones_def)

lemma Suc_mod_cancel: "Suc a mod m = Suc b mod m \<Longrightarrow> a mod m = b mod m"
proof -
  assume "Suc a mod m = Suc b mod m"
  then have "int (Suc a) mod int m = int (Suc b) mod int m" by (metis zmod_int)
  then have "int m dvd int a - int b" by (simp add: mod_eq_dvd_iff)
  then have "int a mod int m = int b mod int m" by (simp add: mod_eq_dvd_iff)
  then show ?thesis by (metis nat_int zmod_int)
qed

lemma ones_unique:
  assumes "r \<le> 65535" and "r mod 65535 = t mod 65535" and "r = 0 \<longleftrightarrow> t = 0"
  shows "ones t = r"
proof (cases t)
  case 0
  with assms show ?thesis by (simp add: ones_def)
next
  case (Suc a)
  with assms(3) obtain b where r: "r = Suc b" by (cases r) auto
  with Suc assms(2) have "b mod 65535 = a mod 65535" by (metis Suc_mod_cancel)
  with r Suc assms(1) show ?thesis by (simp add: ones_def)
qed

lemma ones_eq_65535: "ones t = 65535 \<longleftrightarrow> 0 < t \<and> 65535 dvd t"
proof -
  have "ones t = 65535 \<longleftrightarrow> 0 < t \<and> ones t mod 65535 = 0"
    using ones_le [of t] by (auto simp: le_less ones_def)
  then show ?thesis by (simp add: ones_mod dvd_eq_mod_eq_0)
qed

text \<open>One end-around carry: \<open>t div 65536 + t mod 65536\<close> keeps the residue and vanishes only at 0.\<close>

lemma carry_mod: "(t div 65536 + t mod 65536) mod 65535 = (t::nat) mod 65535"
proof -
  have "t = 65535 * (t div 65536) + (t div 65536 + t mod 65536)"
    using div_mult_mod_eq [of t 65536] by linarith
  then show ?thesis by (metis mod_mult_self4)
qed

lemma carry_eq_0: "t div 65536 + t mod 65536 = 0 \<longleftrightarrow> (t::nat) = 0"
  by (metis add_is_0 add_0 div_0 div_mult_mod_eq mod_0 mult_zero_left)

lemma carry_ones: "t div 65536 + t mod 65536 \<le> 65535 \<Longrightarrow> t div 65536 + t mod 65536 = ones t"
  by (rule ones_unique [symmetric]) (auto simp: carry_mod carry_eq_0)

lemma unat_carry:
  fixes s :: "'a::len word"
  assumes "16 < LENGTH('a)"
  shows "unat (drop_bit 16 s + (s AND 0xFFFF)) = (unat s div 65536 + unat s mod 65536) mod 2 ^ LENGTH('a)"
    and "unat (s AND 0xFFFF) = unat s mod 65536" and "unat (drop_bit 16 s) = unat s div 65536"
proof -
  have m: "(0xFFFF :: 'a word) = mask 16" by (simp add: mask_eq_exp_minus_1)
  show a: "unat (s AND 0xFFFF) = unat s mod 65536"
    by (simp only: m flip: take_bit_eq_mask) (simp only: unsigned_take_bit_eq, simp add: take_bit_eq_mod)
  show b: "unat (drop_bit 16 s) = unat s div 65536"
    by (simp only: unat_drop_bit_eq, simp add: drop_bit_eq_div)
  show "unat (drop_bit 16 s + (s AND 0xFFFF)) = (unat s div 65536 + unat s mod 65536) mod 2 ^ LENGTH('a)"
    by (simp add: unat_word_ariths a b)
qed

lemma unat_NOT: "unat (NOT (w :: u16)) = 65535 - unat w"
proof -
  have n: "NOT w = 65535 - w" by (simp add: not_eq_complement)
  have le: "w \<le> 65535" using unat_u16_lt [of w] by (simp add: word_le_nat_alt)
  have "unat (65535 - w) = unat (65535 :: u16) - unat w" using le by (rule unat_sub)
  with n show ?thesis by simp
qed

lemma unat_lo16: "unat (ucast (w :: 'a::len word) :: u16) = unat w mod 65536"
  by (simp only: unsigned_ucast_eq) (simp add: take_bit_eq_mod)

lemma ones_second_carry:
  assumes "s < 2 ^ 32" and "s1 = s div 65536 + s mod 65536"
  shows "(s1 + s1 div 65536) mod 65536 = ones s"
proof (cases "s1 < 65536")
  case True
  then have "(s1 + s1 div 65536) mod 65536 = s1" by simp
  then show ?thesis using True carry_ones [of s] assms(2) by simp
next
  case False
  have le: "s1 \<le> 131070" using assms mod_less_divisor [of 65536 s] by simp
  with False have "s1 div 65536 = 1" by simp
  with False le have r: "(s1 + s1 div 65536) mod 65536 = s1 - 65535" by (simp add: mod_if)
  have "(s1 - 65535) mod 65535 = s mod 65535"
    using False carry_mod [of s] by (simp add: assms(2) [symmetric] mod_if [of s1])
  moreover have "s \<noteq> 0" using False assms(2) by auto
  ultimately show ?thesis unfolding r using False le by (intro ones_unique [symmetric]) auto
qed

lemma fold_carry_eq:
  assumes "s < 2 ^ 32"
  shows "unat (fold_carry (word_of_nat s)) = 65535 - ones s"
proof -
  define w where "w = (word_of_nat s :: u64)"
  define w1 where "w1 = drop_bit 16 w + (w AND 0xFFFF)"
  define w2 where "w2 = w1 + drop_bit 16 w1"
  define s1 where "s1 = s div 65536 + s mod 65536"
  have w: "unat w = s" unfolding w_def unat_of_nat using assms by simp
  have le: "s1 \<le> 131070" using assms mod_less_divisor [of 65536 s] by (simp add: s1_def)
  have w1: "unat w1 = s1"
    using unat_carry(1) [of w] le unfolding w1_def [symmetric] w s1_def [symmetric] by simp
  have "unat w2 = s1 + s1 div 65536"
    unfolding w2_def unat_word_ariths unat_carry(3) [of w1, simplified] w1 using le by simp
  then have "unat (w2 AND 0xFFFF) = ones s"
    using unat_carry(2) [of w2] ones_second_carry [OF assms s1_def] by simp
  then have "unat (ucast (w2 AND 0xFFFF) :: u16) = ones s" using ones_le [of s] by (simp add: unat_lo16)
  then have "unat (NOT (ucast (w2 AND 0xFFFF)) :: u16) = 65535 - ones s" unfolding unat_NOT by simp
  then show ?thesis unfolding fold_carry_def Let_def w2_def w1_def w_def .
qed

lemma single_carry:
  assumes "t < 4294967295"
  shows "(t div 65536 + t mod 65536) mod 65536 = 65535 \<longleftrightarrow> ones t = 65535"
proof -
  define c where "c = t div 65536 + t mod 65536"
  have le: "c \<le> 131069"
    using assms div_mult_mod_eq [of t 65536] mod_less_divisor [of 65536 t] unfolding c_def by linarith
  have "c mod 65536 = 65535 \<longleftrightarrow> c = 65535" using le by (auto simp: mod_if split: if_splits)
  also have "\<dots> \<longleftrightarrow> ones t = 65535"
  proof
    assume "c = 65535"
    then show "ones t = 65535" using carry_ones [of t] unfolding c_def by simp
  next
    assume "ones t = 65535"
    then have "0 < t" "65535 dvd t" by (simp_all add: ones_eq_65535)
    then have "c \<noteq> 0" "65535 dvd c" using carry_mod [of t] carry_eq_0 [of t]
      unfolding c_def [symmetric] by (auto simp: dvd_eq_mod_eq_0)
    then obtain k where "c = 65535 * k" "k \<noteq> 0" by (metis dvd_def mult_0_right)
    with le show "c = 65535" by (cases k) auto
  qed
  finally show ?thesis unfolding c_def .
qed

lemma verify_checksum_eq:
  assumes "off + 2 * n \<le> length p" and "n \<le> 65535"
  shows "verify_checksum p off (2 * n) = Inr (if ones (sum16 (\<lambda>_. False) p off 0 n) = 65535 then 0 else 1)"
proof -
  define t where "t = sum16 (\<lambda>_. False) p off 0 n"
  define w where "w = (word_of_nat t :: u32)"
  define w1 where "w1 = drop_bit 16 w + (w AND 0xFFFF)"
  have "t \<le> 65535 * 65535"
    using sum16_le [of "\<lambda>_. False" p off 0 n] assms(2) unfolding t_def by simp
  then have t: "t < 4294967295" by simp
  have w: "unat w = t" unfolding w_def unat_of_nat using t by simp
  have "t div 65536 + t mod 65536 < 4294967296" using t mod_less_divisor [of 65536 t] by linarith
  then have "unat w1 = t div 65536 + t mod 65536"
    using unat_carry(1) [of w] unfolding w1_def [symmetric] w by simp
  then have "unat (ucast w1 :: u16) = 65535 \<longleftrightarrow> ones t = 65535"
    unfolding unat_lo16 using single_carry [OF t] by simp
  then have c: "(ucast w1 :: u16) = 0xFFFF \<longleftrightarrow> ones t = 65535" by (simp add: word_unat_eq_iff)
  have "vsum_loop p off 0 n 0 = Inr w" using assms(1) by (simp add: vsum_loop_eq t_def w_def)
  with c show ?thesis unfolding verify_checksum_def w1_def t_def by (simp add: Let_def)
qed

text \<open>Storing a checksum word: the other words of the header keep their values.\<close>

definition put_csum :: "packet \<Rightarrow> nat \<Rightarrow> u16 \<Rightarrow> packet" where
  "put_csum p k c = upd_bytes p k (bytes16 (htons c))"

lemma be16_put_csum:
  assumes "k + 2 \<le> length p"
  shows "be16 (put_csum p k c) k = unat c"
    and "j + 2 \<le> k \<or> k + 2 \<le> j \<Longrightarrow> j + 2 \<le> length p \<Longrightarrow> be16 (put_csum p k c) j = be16 p j"
proof -
  have "256 * (unat c div 256 mod 256) + unat c mod 256 = unat c"
    using unat_u16_lt [of c] by (simp add: less_mult_imp_div_less)
  then show "be16 (put_csum p k c) k = unat c"
    using assms by (simp add: put_csum_def be16_def nth_upd_bytes ntohs_def unat_byte16)
  show "be16 (put_csum p k c) j = be16 p j" if "j + 2 \<le> k \<or> k + 2 \<le> j" "j + 2 \<le> length p"
    using assms that by (auto simp: put_csum_def be16_def nth_upd_bytes)
qed

lemma sum16_put_csum:
  assumes "off + 2 * n \<le> length p" and "k < n"
  shows "sum16 (\<lambda>_. False) (put_csum p (off + 2 * k) c) off 0 n = unat c + sum16 (\<lambda>i. i = k) p off 0 n"
proof -
  let ?q = "put_csum p (off + 2 * k) c"
  have "sum16 (\<lambda>_. False) ?q off 0 n = be16 ?q (off + 2 * k) + sum16 (\<lambda>i. i = k) ?q off 0 n"
    using sum16_split [of 0 k n "\<lambda>_. False" ?q off] assms(2) by simp
  moreover have "sum16 (\<lambda>i. i = k) ?q off 0 n = sum16 (\<lambda>i. i = k) p off 0 n"
    using assms by (intro sum16_cong) (auto intro!: be16_put_csum(2))
  ultimately show ?thesis using assms by (simp add: be16_put_csum(1))
qed

lemma put_csum_0: "put_csum p k 0 = upd_bytes p k (bytes16 0)"
  by (simp add: put_csum_def ntohs_def le16_def byte16_def)

lemma sum16_zeroed:
  assumes "off + 2 * n \<le> length p" and "k < n"
  shows "sum16 (\<lambda>i. i = k) (upd_bytes p (off + 2 * k) (bytes16 0)) off 0 n = sum16 (\<lambda>i. i = k) p off 0 n"
  using assms unfolding put_csum_0 [symmetric] by (intro sum16_cong) (auto intro!: be16_put_csum(2))

text \<open>The complement of a folded sum, added to the sum, is a non-zero multiple of 65535.\<close>

lemma ones_complement: "ones (65535 - ones t + t) = 65535"
proof -
  have "(65535 - ones t + t) mod 65535 = (65535 - ones t + ones t) mod 65535"
    by (metis mod_add_right_eq ones_mod)
  then have "65535 dvd 65535 - ones t + t" using ones_le [of t] by (simp add: dvd_eq_mod_eq_0)
  moreover have "0 < 65535 - ones t + t" using ones_le [of t] by (cases "t = 0") (auto simp: ones_def)
  ultimately show ?thesis by (simp add: ones_eq_65535)
qed

section \<open>Computing and verifying agree\<close>

lemma put_csum_upd: "k + 2 \<le> length p \<Longrightarrow> upd_bytes (upd_bytes p k (bytes16 v)) k (bytes16 (htons c)) = put_csum p k c"
  by (simp add: put_csum_def upd_bytes_def)

lemma fold_carry_sum16:
  assumes "n \<le> 65535"
  shows "unat (fold_carry (word_of_nat (sum16 skip p off 0 n))) = 65535 - ones (sum16 skip p off 0 n)"
proof (rule fold_carry_eq)
  have "sum16 skip p off 0 n \<le> 65535 * 65535" using sum16_le [of skip p off 0 n] assms by simp
  then show "sum16 skip p off 0 n < 2 ^ 32" by simp
qed

lemma unat_nibble: "unat ((b :: u8) AND 15) \<le> 15"
proof -
  have "b AND 15 \<le> 15" by (rule word_and_le1)
  then show ?thesis by (simp add: word_le_nat_alt)
qed

lemma compute_ip_checksum_eq:
  assumes "unat (p ! off AND 15) = hl" and "3 \<le> hl" and "off + 4 * hl \<le> length p"
  shows "compute_ip_checksum p off =
    Inr (fold_carry (word_of_nat (sum16 (\<lambda>i. i = 5) p off 0 (2 * hl))), upd_bytes p (off + 10) (bytes16 0))"
proof -
  have "csum_loop (\<lambda>i. i = 5) (upd_bytes p (off + 10) (bytes16 0)) off 0 (hl * 2) 0 =
      Inr (word_of_nat (sum16 (\<lambda>i. i = 5) p off 0 (2 * hl)))"
    using assms sum16_zeroed [of off "2 * hl" p 5] by (simp add: csum_loop_eq mult.commute)
  then show ?thesis
    using assms by (simp add: compute_ip_checksum_def st16_in ld8_in nth_upd_bytes)
qed

lemma ip_checksum_roundtrip:
  assumes "unat (p ! off AND 15) = hl" and "3 \<le> hl" and "off + 4 * hl \<le> length p"
  shows "\<exists>c q. compute_ip_checksum p off = Inr (c, q) \<and> st16 q (off + 10) (htons c) = Inr (put_csum p (off + 10) c) \<and>
    verify_checksum (put_csum p (off + 10) c) off (4 * hl) = Inr 0"
proof -
  define S where "S = sum16 (\<lambda>i. i = 5) p off 0 (2 * hl)"
  define c where "c = fold_carry (word_of_nat S)"
  let ?q = "put_csum p (off + 10) c"
  have hl: "hl \<le> 15" using assms(1) unat_nibble by blast
  have len: "length ?q = length p" using assms by (simp add: put_csum_def)
  have "sum16 (\<lambda>_. False) ?q off 0 (2 * hl) = unat c + S"
    using assms sum16_put_csum [of off "2 * hl" p 5 c] by (simp add: S_def)
  moreover have "unat c = 65535 - ones S" unfolding c_def S_def using hl by (intro fold_carry_sum16) simp
  ultimately have "ones (sum16 (\<lambda>_. False) ?q off 0 (2 * hl)) = 65535" by (simp add: ones_complement)
  moreover have "verify_checksum ?q off (2 * (2 * hl)) =
      Inr (if ones (sum16 (\<lambda>_. False) ?q off 0 (2 * hl)) = 65535 then 0 else 1)"
    using assms hl len by (intro verify_checksum_eq) auto
  ultimately have "verify_checksum ?q off (4 * hl) = Inr 0" by simp
  then show ?thesis
    using assms by (simp add: compute_ip_checksum_eq S_def [symmetric] c_def [symmetric] st16_in put_csum_upd)
qed

text \<open>An ICMP message with its computed checksum sums to a multiple of 65535.\<close>

lemma icmp_checksum_roundtrip:
  assumes "4 \<le> 2 * n" and "2 * n \<le> 131070" and "off + 2 * n \<le> length p"
  shows "\<exists>c q. compute_icmp_checksum p off (int (2 * n) - 4) = Inr (c, q) \<and>
    st16 q (off + 2) (htons c) = Inr (put_csum p (off + 2) c) \<and>
    verify_checksum (put_csum p (off + 2) c) off (2 * n) = Inr 0"
proof -
  define S where "S = sum16 (\<lambda>i. i = 1) p off 0 n"
  define c where "c = fold_carry (word_of_nat S)"
  let ?q = "put_csum p (off + 2) c"
  have len: "length ?q = length p" using assms by (simp add: put_csum_def)
  have "csum_loop (\<lambda>i. i = 1) (upd_bytes p (off + 2) (bytes16 0)) off 0 n 0 = Inr (word_of_nat S)"
    using assms sum16_zeroed [of off n p 1] by (simp add: csum_loop_eq S_def)
  then have comp: "compute_icmp_checksum p off (int (2 * n) - 4) = Inr (c, upd_bytes p (off + 2) (bytes16 0))"
    using assms by (simp add: compute_icmp_checksum_def st16_in c_def)
  have "sum16 (\<lambda>_. False) ?q off 0 n = unat c + S"
    using assms sum16_put_csum [of off n p 1 c] by (simp add: S_def)
  moreover have "unat c = 65535 - ones S" unfolding c_def S_def using assms by (intro fold_carry_sum16) simp
  ultimately have "ones (sum16 (\<lambda>_. False) ?q off 0 n) = 65535" by (simp add: ones_complement)
  moreover have "verify_checksum ?q off (2 * n) =
      Inr (if ones (sum16 (\<lambda>_. False) ?q off 0 n) = 65535 then 0 else 1)"
    using assms len by (intro verify_checksum_eq) auto
  ultimately show ?thesis using comp assms by (simp add: st16_in put_csum_upd)
qed

section \<open>The incremental update\<close>

lemma unat_u16_u32: "unat (ucast (x :: u16) :: u32) = unat x"
  using unat_u16_lt [of x] by (simp only: unsigned_ucast_eq) (simp add: take_bit_eq_mod)

lemma nat_checksum_mod:
  "(unat (nat_checksum old pos neg) + unat neg) mod 65535 = (unat old + unat pos) mod 65535"
proof -
  define t where "t = unat old + unat pos"
  define w0 where "w0 = (ucast old + ucast pos :: u32)"
  define w1 where "w1 = drop_bit 16 w0 + (w0 AND 0xFFFF)"
  have ot: "unat old < 65536" "unat pos < 65536" "unat neg < 65536" by (rule unat_u16_lt)+
  have w0: "unat w0 = t" unfolding w0_def unat_word_ariths using ot
    by (simp add: t_def unat_u16_u32)
  define c where "c = t div 65536 + t mod 65536"
  have c: "c \<le> 65535" "c mod 65535 = t mod 65535"
    using ot div_mult_mod_eq [of t 65536] mod_less_divisor [of 65536 t] carry_mod [of t]
    unfolding c_def t_def by linarith+
  have w1: "unat w1 = c" using unat_carry(1) [of w0] c(1) unfolding w1_def [symmetric] w0 c_def [symmetric] by simp
  have neg: "unat (ucast neg :: u32) = unat neg" by (simp add: unat_u16_u32)
  define w3 where "w3 = (if w1 - ucast neg > 0xFFFF then w1 - ucast neg - 1 else w1 - ucast neg :: u32)"
  have w3: "unat w3 mod 65536 = (if unat neg \<le> c then c - unat neg else c + 65535 - unat neg)"
  proof (cases "unat neg \<le> c")
    case True
    then have "ucast neg \<le> w1" by (simp add: word_le_nat_alt neg w1)
    then have "unat (w1 - ucast neg) = c - unat neg" by (simp add: unat_sub neg w1)
    with True c(1) show ?thesis by (simp add: w3_def word_less_nat_alt)
  next
    case False
    then have "\<not> ucast neg \<le> w1" by (simp add: word_le_nat_alt neg w1)
    then have u: "unat (w1 - ucast neg) = c + 4294967296 - unat neg"
      by (simp add: unat_sub_if_size word_size word_le_nat_alt neg w1)
    with False ot have gt: "w1 - ucast neg > 0xFFFF" by (simp add: word_less_nat_alt)
    then have "1 \<le> w1 - ucast neg" by (simp add: word_less_nat_alt word_le_nat_alt)
    then have "unat (w1 - ucast neg - 1) = c + 4294967295 - unat neg" using u by (simp add: unat_sub)
    moreover have "c + 4294967295 - unat neg = c + 65535 - unat neg + 65536 * 65535" using ot False by simp
    ultimately have "unat w3 = c + 65535 - unat neg + 65536 * 65535" using gt by (simp add: w3_def)
    moreover have "c + 65535 - unat neg < 65536" using False by linarith
    ultimately show ?thesis using False by (simp only: mod_mult_self2 mod_less if_False)
  qed
  have "unat (nat_checksum old pos neg) = unat w3 mod 65536"
    unfolding nat_checksum_def Let_def w3_def w1_def w0_def unat_lo16 unat_carry(2) [where 'a = 32, simplified] by simp
  then have "unat (nat_checksum old pos neg) + unat neg = c \<or> unat (nat_checksum old pos neg) + unat neg = c + 65535"
    using w3 ot by (auto split: if_splits)
  then show ?thesis using c(2) unfolding t_def by auto
qed

section \<open>Properties\<close>

text \<open>
  Claim C15. For every IP header length field from 3 to 15 words, the checksum that \<open>compute_ip_checksum\<close> returns, stored
  in network order at its place, makes \<open>verify_checksum\<close> accept the header (return 0); no access
  leaves a buffer that holds the header.
\<close>

theorem ip_checksum_verifies:
  assumes "unat (p ! off AND 15) = hl" and "3 \<le> hl" and "off + 4 * hl \<le> length p"
  shows "\<exists>c q. compute_ip_checksum p off = Inr (c, q) \<and> st16 q (off + 10) (htons c) = Inr (put_csum p (off + 10) c) \<and>
    verify_checksum (put_csum p (off + 10) c) off (4 * hl) = Inr 0"
  by (rule ip_checksum_roundtrip [OF assms])

theorem ip_checksum_verifies_witness:
  "\<exists>c q. compute_ip_checksum (0x45 # replicate 19 1) 0 = Inr (c, q) \<and>
    st16 q 10 (htons c) = Inr (put_csum (0x45 # replicate 19 1) 10 c) \<and>
    verify_checksum (put_csum (0x45 # replicate 19 1) 10 c) 0 20 = Inr 0"
  using ip_checksum_verifies [of "0x45 # replicate 19 1" 0 5] by simp

text \<open>
  The checksum that \<open>compute_icmp_checksum\<close> returns for a message of an even number of bytes, stored in
  network order at its place, makes the sum over the whole message verify.
\<close>

theorem icmp_checksum_verifies:
  assumes "4 \<le> 2 * n" and "2 * n \<le> 131070" and "off + 2 * n \<le> length p"
  shows "\<exists>c q. compute_icmp_checksum p off (int (2 * n) - 4) = Inr (c, q) \<and>
    st16 q (off + 2) (htons c) = Inr (put_csum p (off + 2) c) \<and>
    verify_checksum (put_csum p (off + 2) c) off (2 * n) = Inr 0"
  by (rule icmp_checksum_roundtrip [OF assms])

theorem icmp_checksum_verifies_witness:
  "\<exists>c q. compute_icmp_checksum (replicate 8 1) 0 4 = Inr (c, q) \<and>
    st16 q 2 (htons c) = Inr (put_csum (replicate 8 1) 2 c) \<and>
    verify_checksum (put_csum (replicate 8 1) 2 c) 0 8 = Inr 0"
  using icmp_checksum_verifies [of 4 0 "replicate 8 1"] by (simp add: numeral_2_eq_2)

text \<open>
  \<open>nat_checksum\<close> is the incremental update of a one's complement checksum: in arithmetic
  modulo 65535 it adds the word that disappears from the data and subtracts the one that replaces it.
\<close>

theorem nat_checksum_update:
  "(unat (nat_checksum old pos neg) + unat neg) mod 65535 = (unat old + unat pos) mod 65535"
  by (rule nat_checksum_mod)

end
