(* ===== verification/Packet.thy ===== *)
theory Packet
  imports Checksum
begin

text \<open>
  Headers in a frame: the offsets of the packed structs of \<^verbatim>\<open>or_data_types.h\<close> and the \<^verbatim>\<open>populate_*\<close>
  functions of \<^verbatim>\<open>or_utils.c\<close>, which write a header field by field through a pointer into the
  frame. The lemmas show each of them as one write of the header's bytes.
\<close>

section \<open>Constants and offsets\<close>

abbreviation (input) ETH_HDR_LEN :: nat where "ETH_HDR_LEN \<equiv> 14"
abbreviation (input) ETH_TYPE_IP :: u16 where "ETH_TYPE_IP \<equiv> 0x0800"
abbreviation (input) ETH_TYPE_ARP :: u16 where "ETH_TYPE_ARP \<equiv> 0x0806"
abbreviation (input) IP_PROTO_ICMP :: u8 where "IP_PROTO_ICMP \<equiv> 1"
abbreviation (input) IP_PROTO_TCP :: u8 where "IP_PROTO_TCP \<equiv> 6"
abbreviation (input) IP_PROTO_UDP :: u8 where "IP_PROTO_UDP \<equiv> 17"
abbreviation (input) IP_PROTO_PWOSPF :: u8 where "IP_PROTO_PWOSPF \<equiv> 89"
abbreviation (input) ICMP_ECHO_REPLY :: u8 where "ICMP_ECHO_REPLY \<equiv> 0"
abbreviation (input) ICMP_DEST_UNREACHABLE :: u8 where "ICMP_DEST_UNREACHABLE \<equiv> 3"
abbreviation (input) ICMP_ECHO_REQUEST :: u8 where "ICMP_ECHO_REQUEST \<equiv> 8"
abbreviation (input) ICMP_TIME_EXCEEDED :: u8 where "ICMP_TIME_EXCEEDED \<equiv> 11"
abbreviation (input) ip_at :: nat where "ip_at \<equiv> 14"
abbreviation (input) icmp_at :: nat where "icmp_at \<equiv> 34"
abbreviation (input) arp_at :: nat where "arp_at \<equiv> 14"
abbreviation (input) pwospf_at :: nat where "pwospf_at \<equiv> 34"

section \<open>Sequences of stores\<close>

fun st_all :: "packet \<Rightarrow> (nat \<times> u8 list) list \<Rightarrow> packet res" where
  "st_all p [] = Inr p"
| "st_all p ((i, bs) # xs) = bindR (st_bytes p i bs) (\<lambda>p. st_all p xs)"

text \<open>\<^verbatim>\<open>memcpy(dst + doff, src + soff, n)\<close>\<close>

definition memcpy :: "packet \<Rightarrow> nat \<Rightarrow> packet \<Rightarrow> nat \<Rightarrow> nat \<Rightarrow> packet res" where
  "memcpy dst doff src soff n = bindR (ld_bytes src soff n) (\<lambda>bs. st_bytes dst doff bs)"

section \<open>Building headers\<close>

definition populate_eth_hdr :: "packet \<Rightarrow> nat \<Rightarrow> u8 list option \<Rightarrow> u8 list \<Rightarrow> u16 \<Rightarrow> packet res" where
  "populate_eth_hdr p off dhost shost type =
    bindR (case dhost of None \<Rightarrow> Inr p | Some d \<Rightarrow> memcpy p off d 0 6) (\<lambda>p.
    bindR (memcpy p (off + 6) shost 0 6) (\<lambda>p.
    st16 p (off + 12) (htons type)))"

definition populate_arp_hdr ::
  "packet \<Rightarrow> nat \<Rightarrow> u8 list option \<Rightarrow> u32 \<Rightarrow> u8 list \<Rightarrow> u32 \<Rightarrow> u16 \<Rightarrow> packet res" where
  "populate_arp_hdr p off tha tip sha sip opcode =
    bindR (st_all p [(off, bytes16 (htons 1)), (off + 2, bytes16 (htons 0x0800)), (off + 4, [6]),
                     (off + 5, [4]), (off + 6, bytes16 (htons opcode))]) (\<lambda>p.
    bindR (memcpy p (off + 8) sha 0 6) (\<lambda>p.
    bindR (st32 p (off + 14) sip) (\<lambda>p.
    bindR (case tha of None \<Rightarrow> Inr p | Some a \<Rightarrow> memcpy p (off + 18) a 0 6) (\<lambda>p.
    st32 p (off + 24) tip))))"

text \<open>The bit fields \<^verbatim>\<open>ip_hl = 5\<close> and \<^verbatim>\<open>ip_v = 4\<close> of the cleared first byte make \<open>0x45\<close>.\<close>

definition populate_ip :: "packet \<Rightarrow> nat \<Rightarrow> u16 \<Rightarrow> u8 \<Rightarrow> u32 \<Rightarrow> u32 \<Rightarrow> packet res" where
  "populate_ip p off payload_size protocol source_ip dest_ip =
    st_all p [(off, bzero 20), (off, [0x45]), (off + 6, bytes16 (htons 0x4000)),
              (off + 2, bytes16 (htons (20 + payload_size))), (off + 8, [0x40]), (off + 9, [protocol]),
              (off + 12, bytes32 source_ip), (off + 16, bytes32 dest_ip)]"

definition populate_icmp :: "packet \<Rightarrow> nat \<Rightarrow> u8 \<Rightarrow> u8 \<Rightarrow> packet \<Rightarrow> nat \<Rightarrow> nat \<Rightarrow> packet res" where
  "populate_icmp p off icmp_type icmp_code payload payload_off payload_len =
    bindR (st_all p [(off, bzero 4), (off, [icmp_type]), (off + 1, [icmp_code])]) (\<lambda>p.
    memcpy p (off + 4) payload payload_off payload_len)"

definition populate_pwospf :: "packet \<Rightarrow> nat \<Rightarrow> u8 \<Rightarrow> u16 \<Rightarrow> u32 \<Rightarrow> u32 \<Rightarrow> packet res" where
  "populate_pwospf p off type len rid aid =
    st_all p [(off, bzero 24), (off, [2]), (off + 1, [type]), (off + 2, bytes16 (htons len)),
              (off + 4, bytes32 rid), (off + 8, bytes32 (htonl aid))]"

definition populate_pwospf_hello :: "packet \<Rightarrow> nat \<Rightarrow> u32 \<Rightarrow> u16 \<Rightarrow> packet res" where
  "populate_pwospf_hello p off msk helloint =
    st_all p [(off, bzero 8), (off, bytes32 msk), (off + 4, bytes16 (htons helloint)), (off + 6, bytes16 0)]"

definition populate_pwospf_lsu :: "packet \<Rightarrow> nat \<Rightarrow> u16 \<Rightarrow> u32 \<Rightarrow> packet res" where
  "populate_pwospf_lsu p off seq num =
    st_all p [(off, bzero 8), (off, bytes16 (htons seq)), (off + 2, bytes16 (htons 64)), (off + 4, bytes32 (htonl num))]"

definition populate_padding :: "nat \<Rightarrow> u8 list" where
  "populate_padding len = map (\<lambda>i. 1 + word_of_nat i) [0..<len]"

section \<open>Headers as byte lists\<close>

definition arp_header :: "u8 list \<Rightarrow> u32 \<Rightarrow> u8 list \<Rightarrow> u32 \<Rightarrow> u16 \<Rightarrow> u8 list" where
  "arp_header tha tip sha sip opcode =
    bytes16 (htons 1) @ bytes16 (htons 0x0800) @ [6, 4] @ bytes16 (htons opcode) @ sha @ bytes32 sip @ tha @ bytes32 tip"

definition ip_header :: "u16 \<Rightarrow> u8 \<Rightarrow> u32 \<Rightarrow> u32 \<Rightarrow> u8 list" where
  "ip_header payload_size protocol source_ip dest_ip =
    [0x45, 0] @ bytes16 (htons (20 + payload_size)) @ [0, 0] @ bytes16 (htons 0x4000) @ [0x40, protocol, 0, 0]
    @ bytes32 source_ip @ bytes32 dest_ip"

definition pwospf_header :: "u8 \<Rightarrow> u16 \<Rightarrow> u32 \<Rightarrow> u32 \<Rightarrow> u8 list" where
  "pwospf_header type len rid aid =
    [2, type] @ bytes16 (htons len) @ bytes32 rid @ bytes32 (htonl aid) @ bzero 12"

lemma length_headers [simp]:
  "length (arp_header tha tip sha sip opcode) = 16 + length sha + length tha"
  "length (ip_header n pr s d) = 20" "length (pwospf_header t l r a) = 24"
  by (simp_all add: arp_header_def ip_header_def pwospf_header_def)

lemma upd_bytes_upd_bytes:
  assumes "off + length bs \<le> length p" and "k + length cs \<le> length bs"
  shows "upd_bytes (upd_bytes p off bs) (off + k) cs = upd_bytes p off (upd_bytes bs k cs)"
  using assms by (intro nth_equalityI) (auto simp: nth_upd_bytes)

lemma st_bytes_upd [simp]:
  assumes "off + length bs \<le> length p" and "k + length cs \<le> length bs"
  shows "st_bytes (upd_bytes p off bs) (off + k) cs = Inr (upd_bytes p off (upd_bytes bs k cs))"
  using assms by (simp add: st_bytes_in upd_bytes_upd_bytes)

text \<open>A sequence of stores inside a region is one store of the region's new content.\<close>

fun region_upd :: "u8 list \<Rightarrow> (nat \<times> u8 list) list \<Rightarrow> u8 list" where
  "region_upd bs [] = bs"
| "region_upd bs ((k, cs) # xs) = region_upd (upd_bytes bs k cs) xs"

lemma length_region_upd [simp]:
  "\<forall>(k, cs)\<in>set xs. k + length cs \<le> length bs \<Longrightarrow> length (region_upd bs xs) = length bs"
  by (induction bs xs rule: region_upd.induct) auto

lemma st_all_region:
  assumes "off + length bs \<le> length p" and "\<forall>(k, cs)\<in>set xs. k + length cs \<le> length bs"
  shows "st_all (upd_bytes p off bs) (map (\<lambda>(k, cs). (off + k, cs)) xs) = Inr (upd_bytes p off (region_upd bs xs))"
  using assms by (induction bs xs rule: region_upd.induct) auto

lemma upd_bytes_take_drop: "upd_bytes p i bs = take i p @ bs @ drop (i + length bs) p"
  by (simp add: upd_bytes_def)

lemma populate_ip_eq:
  "off + 20 \<le> length p \<Longrightarrow> populate_ip p off n pr s d = Inr (upd_bytes p off (ip_header n pr s d))"
proof -
  assume len: "off + 20 \<le> length p"
  let ?xs = "[(0, [0x45]), (6, bytes16 (htons 0x4000)), (2, bytes16 (htons (20 + n))), (8, [0x40]), (9, [pr]),
    (12, bytes32 s), (16, bytes32 d)]"
  have "populate_ip p off n pr s d = st_all (upd_bytes p off (bzero 20)) (map (\<lambda>(k, cs). (off + k, cs)) ?xs)"
    using len by (simp add: populate_ip_def st_bytes_in)
  also have "\<dots> = Inr (upd_bytes p off (region_upd (bzero 20) ?xs))" using len by (intro st_all_region) auto
  also have "region_upd (bzero 20) ?xs = ip_header n pr s d"
    by (simp add: ip_header_def upd_bytes_def bzero_def bytes16_def bytes32_def numeral_2_eq_2)
  finally show ?thesis .
qed

lemma populate_pwospf_eq:
  "off + 24 \<le> length p \<Longrightarrow> populate_pwospf p off t l r a = Inr (upd_bytes p off (pwospf_header t l r a))"
proof -
  assume len: "off + 24 \<le> length p"
  let ?xs = "[(0, [2]), (1, [t]), (2, bytes16 (htons l)), (4, bytes32 r), (8, bytes32 (htonl a))]"
  have "populate_pwospf p off t l r a = st_all (upd_bytes p off (bzero 24)) (map (\<lambda>(k, cs). (off + k, cs)) ?xs)"
    using len by (simp add: populate_pwospf_def st_bytes_in)
  also have "\<dots> = Inr (upd_bytes p off (region_upd (bzero 24) ?xs))" using len by (intro st_all_region) auto
  also have "region_upd (bzero 24) ?xs = pwospf_header t l r a"
    by (simp add: pwospf_header_def upd_bytes_def bzero_def bytes16_def bytes32_def)
  finally show ?thesis .
qed

lemma memcpy_in:
  "soff + n \<le> length src \<Longrightarrow> doff + n \<le> length dst \<Longrightarrow>
   memcpy dst doff src soff n = Inr (upd_bytes dst doff (take n (drop soff src)))"
  by (simp add: memcpy_def ld_bytes_in st_bytes_in)

end
