(* ===== verification/Arp.thy ===== *)
theory Arp
  imports Iface Packet
begin

text \<open>
  \<^verbatim>\<open>or_arp.c\<close>: the ARP cache, its copy in the hardware, ARP requests and replies, the queue of
  packets that wait for a reply, and \<^verbatim>\<open>send_ip\<close> of \<^verbatim>\<open>or_main.c\<close>, which either sends a packet or queues it.
  The part of the queue's aging that sends ICMP errors follows in the theory of ICMP.
\<close>

section \<open>The ARP cache\<close>

definition in_arp_cache :: "router_state \<Rightarrow> u32 \<Rightarrow> arp_cache_entry option" where
  "in_arp_cache rs next_hop = find (\<lambda>e. next_hop = ac_ip e) (arp_cache rs)"

definition get_from_arp_cache :: "router_state \<Rightarrow> u32 \<Rightarrow> arp_cache_entry option" where
  "get_from_arp_cache rs next_hop = in_arp_cache rs next_hop"

definition write_arp_cache_entry_to_hw :: "arp_cache_entry option \<Rightarrow> nat \<Rightarrow> router_state \<Rightarrow> router_state" where
  "write_arp_cache_entry_to_hw entry row rs =
    (let rs = (case entry of
         Some e \<Rightarrow> writeReg WRDATA_B_LOW (ntohl (ac_ip e))
                   (writeReg WRDATA_A_LOW (mac_lo (ac_ha e)) (writeReg WRDATA_A_HI (mac_hi (ac_ha e)) rs))
       | None \<Rightarrow> writeReg WRDATA_B_LOW 0 (writeReg WRDATA_A_LOW 0 (writeReg WRDATA_A_HI 0 rs)))
     in writeReg INDIRECTCOMMAND 1 (writeReg INDIRECTADDRESS (arp_cam_address (renv rs) OR word_of_nat row) rs))"

fun arp_static_rows :: "nat \<Rightarrow> arp_cache_entry list \<Rightarrow> nat \<Rightarrow> router_state \<Rightarrow> nat \<times> router_state" where
  "arp_static_rows w [] i rs = (i, rs)"
| "arp_static_rows w (e # es) i rs =
    (if i < w
     then if ac_static e \<noteq> 0 then arp_static_rows w es (i + 1) (write_arp_cache_entry_to_hw (Some e) i rs)
          else arp_static_rows w es i rs
     else (i, rs))"

function arp_dynamic_rows :: "nat \<Rightarrow> arp_cache_entry list \<Rightarrow> nat \<Rightarrow> router_state \<Rightarrow> router_state" where
  "arp_dynamic_rows w cur i rs =
    (if i < w
     then case cur of
         e # es \<Rightarrow> if ac_static e = 0 then arp_dynamic_rows w es (i + 1) (write_arp_cache_entry_to_hw (Some e) i rs)
                   else arp_dynamic_rows w es i rs
       | [] \<Rightarrow> arp_dynamic_rows w [] (i + 1) (write_arp_cache_entry_to_hw None i rs)
     else rs)"
  by pat_completeness auto
termination by (relation "measure (\<lambda>(w, cur, i, rs). length cur + (w - i))") auto

declare arp_dynamic_rows.simps [simp del]

definition write_arp_cache_to_hw :: "router_state \<Rightarrow> router_state" where
  "write_arp_cache_to_hw rs =
    (let w = arp_cam_width (renv rs); r = arp_static_rows w (arp_cache rs) 0 rs
     in arp_dynamic_rows w (arp_cache rs) (fst r) (snd r))"

definition trigger_arp_cache_modified :: "router_state \<Rightarrow> router_state" where
  "trigger_arp_cache_modified rs = (if is_netfpga rs then write_arp_cache_to_hw rs else rs)"

definition update_arp_cache :: "u32 \<Rightarrow> u8 list \<Rightarrow> int \<Rightarrow> router_state \<Rightarrow> int \<times> router_state" where
  "update_arp_cache remote_ip remote_mac is_static rs =
    (let ttl = (if is_static = 1 then 0 else clock rs);
         rs = (case in_arp_cache rs remote_ip of
             Some _ \<Rightarrow> rs\<lparr>arp_cache := upd_first (\<lambda>e. remote_ip = ac_ip e)
                 (\<lambda>e. e\<lparr>ac_ha := remote_mac, ac_TTL := ttl, ac_static := is_static\<rparr>) (arp_cache rs)\<rparr>
           | None \<Rightarrow> rs\<lparr>arp_cache := arp_cache rs @
                 [\<lparr>ac_ip = remote_ip, ac_ha = remote_mac, ac_TTL = ttl, ac_static = is_static\<rparr>]\<rparr>)
     in (0, trigger_arp_cache_modified rs))"

fun del_arp_loop :: "u32 \<Rightarrow> arp_cache_entry list \<Rightarrow> int \<Rightarrow> int \<times> arp_cache_entry list" where
  "del_arp_loop ip [] n = (n, [])"
| "del_arp_loop ip (e # es) n =
    (if ac_ip e = ip then del_arp_loop ip es (n + 1)
     else let r = del_arp_loop ip es n in (fst r, e # snd r))"

definition del_arp_cache :: "u32 \<Rightarrow> router_state \<Rightarrow> int \<times> router_state" where
  "del_arp_cache ip rs = (let r = del_arp_loop ip (arp_cache rs) 0 in (fst r, rs\<lparr>arp_cache := snd r\<rparr>))"

definition arp_expired :: "router_state \<Rightarrow> arp_cache_entry \<Rightarrow> bool" where
  "arp_expired rs e = (ac_static e \<noteq> 1 \<and> clock rs - ac_TTL e > uint (arp_ttl rs))"

definition expire_arp_cache :: "router_state \<Rightarrow> router_state" where
  "expire_arp_cache rs =
    (let kept = filter (\<lambda>e. \<not> arp_expired rs e) (arp_cache rs);
         timedout_entry = list_ex (arp_expired rs) (arp_cache rs);
         rs = rs\<lparr>arp_cache := kept\<rparr>
     in if timedout_entry then trigger_arp_cache_modified rs else rs)"

section \<open>Requests and replies\<close>

definition get_arp_hdr :: "packet \<Rightarrow> nat res" where
  "get_arp_hdr p =
    bindR (ld16 p 12) (\<lambda>t. bindR (assertR (ntohs t = ETH_TYPE_ARP)) (\<lambda>_. Inr ETH_HDR_LEN))"

definition send_arp_reply :: "packet \<Rightarrow> iface_entry \<Rightarrow> router_state \<Rightarrow> router_state res" where
  "send_arp_reply p iface rs =
    bindR (get_arp_hdr p) (\<lambda>arp_req.
    bindR (ld_bytes p 6 6) (\<lambda>shost.
    bindR (populate_eth_hdr (bzero 42) 0 (Some shost) (if_addr iface) ETH_TYPE_ARP) (\<lambda>np.
    bindR (get_arp_hdr np) (\<lambda>new_arp.
    bindR (ld_bytes p (arp_req + 8) 6) (\<lambda>sha.
    bindR (ld32 p (arp_req + 14)) (\<lambda>sip.
    bindR (populate_arp_hdr np new_arp (Some sha) sip (if_addr iface) (if_ip iface) 2) (\<lambda>np.
    bindR (send_packet np (if_name iface) rs) (\<lambda>(_, rs). Inr rs))))))))"

definition send_arp_request :: "u32 \<Rightarrow> string \<Rightarrow> router_state \<Rightarrow> router_state res" where
  "send_arp_request tip interface rs =
    bindR (derefR (get_interface rs interface)) (\<lambda>inter.
    bindR (populate_eth_hdr (bzero 42) 0 (Some (replicate 6 0xFF)) (if_addr inter) ETH_TYPE_ARP) (\<lambda>rp.
    bindR (populate_arp_hdr rp 14 None tip (if_addr inter) (if_ip inter) 1) (\<lambda>rp.
    bindR (send_packet rp interface rs) (\<lambda>(_, rs). Inr rs))))"

section \<open>The ARP queue and send_ip\<close>

definition get_from_arp_queue :: "router_state \<Rightarrow> u32 \<Rightarrow> arp_queue_entry option" where
  "get_from_arp_queue rs next_hop = find (\<lambda>aqe. aq_next_hop aqe = next_hop) (arp_queue rs)"

definition arp_queue_entry_add_packet :: "packet \<Rightarrow> arp_queue_entry \<Rightarrow> arp_queue_entry" where
  "arp_queue_entry_add_packet p aqe = aqe\<lparr>aq_head := aq_head aqe @ [\<lparr>aqp_packet = p\<rparr>]\<rparr>"

definition arp_queue_add :: "packet \<Rightarrow> string \<Rightarrow> u32 \<Rightarrow> router_state \<Rightarrow> router_state res" where
  "arp_queue_add p out_iface_name next_hop rs =
    (case get_from_arp_queue rs next_hop of
       None \<Rightarrow>
         let aqe = \<lparr>aq_out_iface_name = take 32 out_iface_name, aq_next_hop = next_hop, aq_requests = 1,
                    aq_last_req_time = clock rs, aq_head = []\<rparr> in
         bindR (send_arp_request next_hop out_iface_name rs) (\<lambda>rs.
         Inr (rs\<lparr>arp_queue := arp_queue rs @ [arp_queue_entry_add_packet p aqe]\<rparr>))
     | Some _ \<Rightarrow>
         Inr (rs\<lparr>arp_queue := upd_first (\<lambda>aqe. aq_next_hop aqe = next_hop) (arp_queue_entry_add_packet p) (arp_queue rs)\<rparr>))"

definition send_ip :: "packet \<Rightarrow> u32 \<Rightarrow> string \<Rightarrow> int act" where
  "send_ip p next_hop out_iface rs =
    (case get_from_arp_cache rs next_hop of
       Some ace \<Rightarrow>
         bindR (memcpy p 0 (ac_ha ace) 0 6) (\<lambda>p.
         bindR (send_packet p out_iface rs) (\<lambda>(result, rs).
         if result \<noteq> 0 then Inr (1, rs) else Inr (0, rs)))
     | None \<Rightarrow> bindR (arp_queue_add p out_iface next_hop rs) (\<lambda>rs. Inr (0, rs)))"

text \<open>The entry at position \<open>i\<close> of the queue, and the loop that sends its packets: the current packet is
  always the first of the entry, its successor is read before the packet is sent.\<close>

definition upd_queue_at :: "nat \<Rightarrow> (arp_queue_entry \<Rightarrow> arp_queue_entry) \<Rightarrow> router_state \<Rightarrow> router_state" where
  "upd_queue_at i f rs = rs\<lparr>arp_queue := (arp_queue rs)[i := f (arp_queue rs ! i)]\<rparr>"

definition remove_queue_at :: "nat \<Rightarrow> router_state \<Rightarrow> router_state" where
  "remove_queue_at i rs = rs\<lparr>arp_queue := take i (arp_queue rs) @ drop (Suc i) (arp_queue rs)\<rparr>"

partial_function (option) send_entry_packets :: "nat \<Rightarrow> router_state \<Rightarrow> router_state res option" where
  "send_entry_packets i rs =
    (let aqe = arp_queue rs ! i in
     case aq_head aqe of
       [] \<Rightarrow> Some (Inr rs)
     | aqpe # rest \<Rightarrow>
        (case send_ip (aqp_packet aqpe) (aq_next_hop aqe) (aq_out_iface_name aqe) rs of
           Inl f \<Rightarrow> Some (Inl f)
         | Inr (_, rs') \<Rightarrow>
             let rs'' = upd_queue_at i (\<lambda>a. a\<lparr>aq_head := tl (aq_head a)\<rparr>) rs' in
             if rest = [] then Some (Inr rs'') else send_entry_packets i rs''))"

declare send_entry_packets.simps [code]

text \<open>The loop over the queue; \<open>n\<close> is \<^verbatim>\<open>n != NULL\<close>, the position of the current node is \<open>i\<close>. The
  successor is read before the node is handled, and removing the node moves it to position \<open>i\<close>.\<close>

partial_function (option) send_queued_from :: "u32 \<Rightarrow> nat \<Rightarrow> bool \<Rightarrow> router_state \<Rightarrow> router_state res option" where
  "send_queued_from dest_ip i n rs =
    (if \<not> n then Some (Inr rs)
     else
       let more = Suc i < length (arp_queue rs) in
       if dest_ip = aq_next_hop (arp_queue rs ! i)
       then Option.bind (send_entry_packets i rs) (\<lambda>r.
              case r of Inl f \<Rightarrow> Some (Inl f)
              | Inr rs' \<Rightarrow> send_queued_from dest_ip i more (remove_queue_at i rs'))
       else send_queued_from dest_ip (Suc i) more rs)"

declare send_queued_from.simps [code]

definition send_queued_packets :: "u32 \<Rightarrow> router_state \<Rightarrow> router_state res" where
  "send_queued_packets dest_ip rs =
    (case send_queued_from dest_ip 0 (arp_queue rs \<noteq> []) rs of None \<Rightarrow> Inl NonTermination | Some r \<Rightarrow> r)"

text \<open>\<^verbatim>\<open>update_arp_queue\<close>, which no caller uses, is the same pair of loops.\<close>

definition update_arp_queue :: "u32 \<Rightarrow> router_state \<Rightarrow> router_state res" where
  "update_arp_queue arp_sip rs =
    (case send_queued_from arp_sip 0 (arp_queue rs \<noteq> []) rs of None \<Rightarrow> Inl NonTermination | Some r \<Rightarrow> r)"

definition process_arp_request :: "packet \<Rightarrow> router_state \<Rightarrow> router_state res" where
  "process_arp_request p rs =
    bindR (get_arp_hdr p) (\<lambda>arp.
    bindR (acquire IfListLock Rd rs) (\<lambda>rs.
    bindR (if if_list rs = [] then Inr rs
           else bindR (ld32 p (arp + 24)) (\<lambda>tip.
                case find (\<lambda>e. if_ip e = tip) (if_list rs) of
                  None \<Rightarrow> Inr rs
                | Some iface \<Rightarrow> send_arp_reply p iface rs)) (\<lambda>rs.
    release IfListLock rs)))"

definition process_arp_reply :: "packet \<Rightarrow> router_state \<Rightarrow> router_state res" where
  "process_arp_reply p rs =
    bindR (get_arp_hdr p) (\<lambda>arp.
    bindR (acquire ArpCacheLock Wr rs) (\<lambda>rs.
    bindR (ld32 p (arp + 14)) (\<lambda>sip.
    bindR (ld_bytes p (arp + 8) 6) (\<lambda>sha.
    bindR (release ArpCacheLock (snd (update_arp_cache sip sha 0 rs))) (\<lambda>rs.
    bindR (acquire ArpCacheLock Rd rs) (\<lambda>rs.
    bindR (acquire ArpQueueLock Wr rs) (\<lambda>rs.
    bindR (send_queued_packets sip rs) (\<lambda>rs.
    bindR (release ArpQueueLock rs) (\<lambda>rs.
    release ArpCacheLock rs)))))))))"

definition process_arp_packet :: "packet \<Rightarrow> router_state \<Rightarrow> router_state res" where
  "process_arp_packet p rs =
    bindR (get_arp_hdr p) (\<lambda>arp.
    bindR (ld16 p (arp + 6)) (\<lambda>opc.
    if ntohs opc = 1 then process_arp_request p rs
    else if ntohs opc = 2 then process_arp_reply p rs
    else Inr rs))"

section \<open>The cache as a map\<close>

definition arp_lookup :: "router_state \<Rightarrow> u32 \<Rightarrow> (u8 list \<times> int) option" where
  "arp_lookup rs ip = map_option (\<lambda>e. (ac_ha e, ac_static e)) (in_arp_cache rs ip)"

definition arp_cache_inv :: "router_state \<Rightarrow> bool" where
  "arp_cache_inv rs = distinct (map ac_ip (arp_cache rs))"

text \<open>What a client of a keyed cache relies on, and what any history of calls then leaves in it.\<close>

datatype ('k, 'v) cache_op = Upd 'k 'v | Del 'k

fun cache_map :: "('k, 'v) cache_op list \<Rightarrow> ('k \<Rightarrow> 'v option) \<Rightarrow> 'k \<Rightarrow> 'v option" where
  "cache_map [] m = m"
| "cache_map (Upd k v # ops) m = cache_map ops (m(k \<mapsto> v))"
| "cache_map (Del k # ops) m = cache_map ops (m(k := None))"

fun cache_run :: "('k \<Rightarrow> 'v \<Rightarrow> 's \<Rightarrow> 's) \<Rightarrow> ('k \<Rightarrow> 's \<Rightarrow> 's) \<Rightarrow> ('k, 'v) cache_op list \<Rightarrow> 's \<Rightarrow> 's" where
  "cache_run u d [] s = s"
| "cache_run u d (Upd k v # ops) s = cache_run u d ops (u k v s)"
| "cache_run u d (Del k # ops) s = cache_run u d ops (d k s)"

locale keyed_cache =
  fixes inv :: "'s \<Rightarrow> bool" and lookup :: "'s \<Rightarrow> 'k \<Rightarrow> 'v option"
    and upd :: "'k \<Rightarrow> 'v \<Rightarrow> 's \<Rightarrow> 's" and del :: "'k \<Rightarrow> 's \<Rightarrow> 's"
  assumes upd_inv: "inv s \<Longrightarrow> inv (upd k v s)" and del_inv: "inv s \<Longrightarrow> inv (del k s)"
    and upd_lookup: "inv s \<Longrightarrow> lookup (upd k v s) = (lookup s)(k \<mapsto> v)"
    and del_lookup: "inv s \<Longrightarrow> lookup (del k s) = (lookup s)(k := None)"
begin

lemma run_map: "inv s \<Longrightarrow> inv (cache_run upd del ops s) \<and> lookup (cache_run upd del ops s) = cache_map ops (lookup s)"
proof (induction ops arbitrary: s)
  case (Cons a ops)
  then show ?case by (cases a) (auto simp: upd_inv del_inv upd_lookup del_lookup fun_upd_def)
qed simp

end

definition arp_upd :: "u32 \<Rightarrow> u8 list \<times> int \<Rightarrow> router_state \<Rightarrow> router_state" where
  "arp_upd ip v rs = snd (update_arp_cache ip (fst v) (snd v) rs)"

definition arp_del :: "u32 \<Rightarrow> router_state \<Rightarrow> router_state" where
  "arp_del ip rs = snd (del_arp_cache ip rs)"

lemma arp_rows_frame [simp]:
  "arp_cache (snd (arp_static_rows w es i rs)) = arp_cache rs"
  "arp_cache (arp_dynamic_rows w es i rs) = arp_cache rs"
proof -
  have w: "arp_cache (write_arp_cache_entry_to_hw e i rs) = arp_cache rs" for e i rs
    by (simp add: write_arp_cache_entry_to_hw_def writeReg_def Let_def split: option.splits)
  show "arp_cache (snd (arp_static_rows w es i rs)) = arp_cache rs"
    by (induction w es i rs rule: arp_static_rows.induct) (auto simp: w)
  show "arp_cache (arp_dynamic_rows w es i rs) = arp_cache rs"
    by (induction w es i rs rule: arp_dynamic_rows.induct) (subst arp_dynamic_rows.simps, auto simp: w split: list.splits)
qed

lemma trigger_arp_cache_frame [simp]: "arp_cache (trigger_arp_cache_modified rs) = arp_cache rs"
  by (simp add: trigger_arp_cache_modified_def write_arp_cache_to_hw_def Let_def)

lemma update_arp_cache_list:
  "arp_cache (snd (update_arp_cache ip ha st rs)) =
    (let ttl = (if st = 1 then 0 else clock rs) in
     if in_arp_cache rs ip = None then arp_cache rs @ [\<lparr>ac_ip = ip, ac_ha = ha, ac_TTL = ttl, ac_static = st\<rparr>]
     else upd_first (\<lambda>e. ip = ac_ip e) (\<lambda>e. e\<lparr>ac_ha := ha, ac_TTL := ttl, ac_static := st\<rparr>) (arp_cache rs))"
  by (simp add: update_arp_cache_def Let_def split: option.splits)

lemma del_arp_loop_eq:
  "del_arp_loop ip es n = (n + int (length (filter (\<lambda>e. ac_ip e = ip) es)), filter (\<lambda>e. ac_ip e \<noteq> ip) es)"
  by (induction es arbitrary: n) (auto simp: Let_def)

interpretation arp: keyed_cache arp_cache_inv arp_lookup arp_upd arp_del
proof
  fix s k v
  assume inv: "arp_cache_inv s"
  show "arp_cache_inv (arp_upd k v s)"
    using inv by (auto simp: arp_cache_inv_def arp_upd_def update_arp_cache_list Let_def map_upd_first in_arp_cache_def find_None_iff)
  show "arp_cache_inv (arp_del k s)"
    using inv by (simp add: arp_cache_inv_def arp_del_def del_arp_cache_def del_arp_loop_eq Let_def distinct_map_filter)
  show "arp_lookup (arp_upd k v s) = (arp_lookup s)(k \<mapsto> v)"
  proof
    fix x
    obtain ha st where v: "v = (ha, st)" by (cases v)
    show "arp_lookup (arp_upd k v s) x = ((arp_lookup s)(k \<mapsto> v)) x"
      by (cases "find (\<lambda>e. k = ac_ip e) (arp_cache s)"; cases "x = k")
        (auto simp: arp_lookup_def in_arp_cache_def arp_upd_def update_arp_cache_list Let_def find_append
          find_upd_first find_upd_first_other v split: option.splits)
  qed
  show "arp_lookup (arp_del k s) = (arp_lookup s)(k := None)"
  proof
    fix x
    have "find (\<lambda>e. ac_ip e \<noteq> k \<and> x = ac_ip e) xs = (if x = k then None else find (\<lambda>e. x = ac_ip e) xs)"
      for xs :: "arp_cache_entry list"
      by (induction xs) auto
    then show "arp_lookup (arp_del k s) x = ((arp_lookup s)(k := None)) x"
      by (auto simp: arp_lookup_def in_arp_cache_def arp_del_def del_arp_cache_def del_arp_loop_eq Let_def find_filter)
  qed
qed

section \<open>The copy in the hardware\<close>

text \<open>The rows, in the order in which they are written: static entries first.\<close>

definition arp_order :: "arp_cache_entry list \<Rightarrow> arp_cache_entry list" where
  "arp_order es = filter (\<lambda>e. ac_static e \<noteq> 0) es @ filter (\<lambda>e. ac_static e = 0) es"

definition arp_row_log :: "u32 \<Rightarrow> nat \<Rightarrow> arp_cache_entry option \<Rightarrow> (reg \<times> u32) list" where
  "arp_row_log a i e =
    [(WRDATA_A_HI, case e of None \<Rightarrow> 0 | Some e \<Rightarrow> mac_hi (ac_ha e)),
     (WRDATA_A_LOW, case e of None \<Rightarrow> 0 | Some e \<Rightarrow> mac_lo (ac_ha e)),
     (WRDATA_B_LOW, case e of None \<Rightarrow> 0 | Some e \<Rightarrow> ntohl (ac_ip e)),
     (INDIRECTADDRESS, a OR word_of_nat i), (INDIRECTCOMMAND, 1)]"

definition arp_log :: "u32 \<Rightarrow> nat \<Rightarrow> nat \<Rightarrow> arp_cache_entry list \<Rightarrow> (reg \<times> u32) list" where
  "arp_log a i n es = concat (map (\<lambda>k. arp_row_log a (i + k) (if k < length es then Some (es ! k) else None)) [0..<n])"

definition log_regs :: "(reg \<times> u32) list \<Rightarrow> router_state \<Rightarrow> router_state" where
  "log_regs l rs = rs\<lparr>regs := regs rs @ l\<rparr>"

lemma log_regs_simps [simp]:
  "renv (log_regs l rs) = renv rs" "log_regs l (log_regs l' rs) = log_regs (l' @ l) rs" "log_regs [] rs = rs"
  by (simp_all add: log_regs_def)

lemma write_arp_row: "write_arp_cache_entry_to_hw e i rs = log_regs (arp_row_log (arp_cam_address (renv rs)) i e) rs"
  by (simp add: write_arp_cache_entry_to_hw_def writeReg_def arp_row_log_def log_regs_def split: option.splits)

lemma arp_log_Suc:
  "arp_log a i (Suc n) es =
    arp_row_log a i (case es of [] \<Rightarrow> None | e # _ \<Rightarrow> Some e) @ arp_log a (Suc i) n (tl es)"
proof -
  have "[0..<Suc n] = 0 # map Suc [0..<n]" by (simp add: upt_conv_Cons map_Suc_upt del: upt_Suc)
  then show ?thesis unfolding arp_log_def by (cases es) (auto simp: o_def simp del: upt_Suc cong: if_cong)
qed

lemma arp_log_add: "arp_log a i (m + n) es = arp_log a i m es @ arp_log a (i + m) n (drop m es)"
proof (induction m arbitrary: i es)
  case (Suc m)
  then show ?case by (simp add: arp_log_Suc drop_Suc)
qed (simp add: arp_log_def)

lemma arp_log_take: "m \<le> length es \<Longrightarrow> arp_log a i m (es @ xs) = arp_log a i m es"
  unfolding arp_log_def by (intro arg_cong [where f = concat] map_cong) (auto simp: nth_append)

lemma arp_static_rows_eq:
  "i \<le> w \<Longrightarrow> arp_static_rows w es i rs =
    (let st = filter (\<lambda>e. ac_static e \<noteq> 0) es; n = min (length st) (w - i)
     in (i + n, log_regs (arp_log (arp_cam_address (renv rs)) i n st) rs))"
proof (induction w es i rs rule: arp_static_rows.induct)
  case (2 w e es i rs)
  show ?case
  proof (cases "i < w \<and> ac_static e \<noteq> 0")
    case True
    then have "min (Suc m) (w - i) = Suc (min m (w - Suc i))" for m by linarith
    with True 2 show ?thesis by (simp add: Let_def write_arp_row arp_log_Suc)
  next
    case False
    with 2 show ?thesis by (auto simp: Let_def arp_log_def)
  qed
qed (simp add: arp_log_def)

lemma arp_dynamic_rows_eq:
  "arp_dynamic_rows w cur i rs = log_regs (arp_log (arp_cam_address (renv rs)) i (w - i) (filter (\<lambda>e. ac_static e = 0) cur)) rs"
proof (induction w cur i rs rule: arp_dynamic_rows.induct)
  case (1 w cur i rs)
  show ?case
  proof (cases "i < w")
    case True
    then have "w - i = Suc (w - Suc i)" by simp
    with True 1 show ?thesis
      by (subst arp_dynamic_rows.simps) (auto simp: write_arp_row arp_log_Suc split: list.splits)
  next
    case False
    then show ?thesis by (subst arp_dynamic_rows.simps) (simp add: arp_log_def)
  qed
qed

lemma write_arp_cache_eq:
  "write_arp_cache_to_hw rs =
    log_regs (arp_log (arp_cam_address (renv rs)) 0 (arp_cam_width (renv rs)) (arp_order (arp_cache rs))) rs"
proof -
  let ?w = "arp_cam_width (renv rs)" and ?a = "arp_cam_address (renv rs)"
  let ?st = "filter (\<lambda>e. ac_static e \<noteq> 0) (arp_cache rs)" and ?dy = "filter (\<lambda>e. ac_static e = 0) (arp_cache rs)"
  define n where "n = min (length ?st) ?w"
  have split: "arp_log ?a 0 ?w (?st @ ?dy) = arp_log ?a 0 n ?st @ arp_log ?a n (?w - n) ?dy"
  proof -
    have "arp_log ?a 0 (n + (?w - n)) (?st @ ?dy) = arp_log ?a 0 n (?st @ ?dy) @ arp_log ?a n (?w - n) (drop n (?st @ ?dy))"
      using arp_log_add [of ?a 0 n] by simp
    moreover have "arp_log ?a n (?w - n) (drop n (?st @ ?dy)) = arp_log ?a n (?w - n) ?dy"
      by (cases "length ?st \<le> ?w") (auto simp: n_def min_def arp_log_def)
    moreover have "n + (?w - n) = ?w" by (simp add: n_def)
    ultimately show ?thesis by (simp add: arp_log_take n_def)
  qed
  show ?thesis unfolding write_arp_cache_to_hw_def Let_def
    by (simp add: arp_static_rows_eq Let_def arp_dynamic_rows_eq arp_order_def split n_def [symmetric])
qed

lemma hw_run_arp_row:
  "w_rows (hw_run (arp_row_log a i e) w) = (w_rows w)((a OR word_of_nat i) \<mapsto>
    (case e of None \<Rightarrow> 0 | Some e \<Rightarrow> mac_hi (ac_ha e), case e of None \<Rightarrow> 0 | Some e \<Rightarrow> mac_lo (ac_ha e),
     w_b_hi w, case e of None \<Rightarrow> 0 | Some e \<Rightarrow> ntohl (ac_ip e)))"
  by (simp add: arp_row_log_def)

lemma hw_run_arp_log:
  assumes "inj_on (\<lambda>k. a OR word_of_nat k :: u32) {..<n}" and "j < n"
  shows "\<exists>b. w_rows (hw_run (arp_log a 0 n es) w) (a OR word_of_nat j) =
    Some (if j < length es then (mac_hi (ac_ha (es ! j)), mac_lo (ac_ha (es ! j)), b, ntohl (ac_ip (es ! j))) else (0, 0, b, 0))"
  using assms
proof (induction n)
  case (Suc n)
  have split: "arp_log a 0 (Suc n) es = arp_log a 0 n es @ arp_row_log a n (if n < length es then Some (es ! n) else None)"
    by (simp add: arp_log_def)
  have inj: "inj_on (\<lambda>k. a OR word_of_nat k :: u32) {..<n}"
    using Suc.prems(1) by (rule inj_on_subset) auto
  show ?case
  proof (cases "j = n")
    case False
    with Suc.prems have "j < n" "a OR word_of_nat j \<noteq> (a OR word_of_nat n :: u32)"
      by (auto dest: inj_onD)
    then show ?thesis using Suc.IH [OF inj] by (simp add: split hw_run_arp_row)
  qed (auto simp: split hw_run_arp_row)
qed simp

section \<open>Flushing the queue\<close>

abbreviation unlocked :: "lock \<Rightarrow> router_state \<Rightarrow> bool" where
  "unlocked l rs \<equiv> \<not> conflicts l Wr (held rs)"

definition with_dhost :: "u8 list \<Rightarrow> packet \<Rightarrow> packet" where
  "with_dhost ha p = ha @ drop 6 p"

lemma send_ip_hit:
  assumes "in_arp_cache rs nh = Some ace" "length (ac_ha ace) = 6" "6 \<le> length p"
    and "unlocked WriteLock rs" "driver_ok rs" "port_ok rs iface"
  shows "send_ip p nh iface rs = Inr (0, emit [(pad_frame (with_dhost (ac_ha ace) p), wire_name rs iface)] rs)"
  using assms by (simp add: send_ip_def get_from_arp_cache_def memcpy_in send_packet_ok upd_bytes_def with_dhost_def)

definition entry_frames :: "router_state \<Rightarrow> u8 list \<Rightarrow> arp_queue_entry \<Rightarrow> (packet \<times> string) list" where
  "entry_frames rs ha aqe =
    map (\<lambda>q. (pad_frame (with_dhost ha (aqp_packet q)), wire_name rs (aq_out_iface_name aqe))) (aq_head aqe)"

definition entry_ready :: "router_state \<Rightarrow> arp_queue_entry \<Rightarrow> bool" where
  "entry_ready rs aqe = (port_ok rs (aq_out_iface_name aqe) \<and> list_all (\<lambda>q. 6 \<le> length (aqp_packet q)) (aq_head aqe))"

lemma send_entry_packets_eq:
  assumes "arp_queue rs = pre @ aqe # post" and "in_arp_cache rs (aq_next_hop aqe) = Some ace" "length (ac_ha ace) = 6"
    and "unlocked WriteLock rs" "driver_ok rs" "entry_ready rs aqe"
  shows "send_entry_packets (length pre) rs =
    Some (Inr (emit (entry_frames rs (ac_ha ace) aqe) (rs\<lparr>arp_queue := pre @ aqe\<lparr>aq_head := []\<rparr> # post\<rparr>)))"
  using assms
proof (induction "aq_head aqe" arbitrary: rs aqe)
  case Nil
  then have "aqe\<lparr>aq_head := []\<rparr> = aqe" by simp
  with Nil show ?case by (subst send_entry_packets.simps) (simp add: entry_frames_def)
next
  case (Cons q qs)
  let ?fr = "(pad_frame (with_dhost (ac_ha ace) (aqp_packet q)), wire_name rs (aq_out_iface_name aqe))"
  let ?aqe = "aqe\<lparr>aq_head := qs\<rparr>"
  define rs1 where "rs1 = (emit [?fr] rs)\<lparr>arp_queue := pre @ ?aqe # post\<rparr>"
  have send: "send_ip (aqp_packet q) (aq_next_hop aqe) (aq_out_iface_name aqe) rs = Inr (0, emit [?fr] rs)"
    using Cons.prems Cons.hyps(2) [symmetric] by (intro send_ip_hit) (auto simp: entry_ready_def)
  have upd: "upd_queue_at (length pre) (\<lambda>a. a\<lparr>aq_head := tl (aq_head a)\<rparr>) (emit [?fr] rs) = rs1"
    using Cons.prems(1) Cons.hyps(2) [symmetric] by (simp add: upd_queue_at_def rs1_def)
  have step: "send_entry_packets (length pre) rs = (if qs = [] then Some (Inr rs1) else send_entry_packets (length pre) rs1)"
    using Cons.prems(1) Cons.hyps(2) [symmetric] by (subst send_entry_packets.simps) (simp add: send upd [symmetric])
  have frames: "entry_frames rs (ac_ha ace) aqe = ?fr # entry_frames rs (ac_ha ace) ?aqe"
    using Cons.hyps(2) [symmetric] by (simp add: entry_frames_def)
  show ?case
  proof (cases "qs = []")
    case True
    then show ?thesis using step frames by (simp add: rs1_def entry_frames_def emit_def)
  next
    case False
    have "send_entry_packets (length pre) rs1 =
      Some (Inr (emit (entry_frames rs1 (ac_ha ace) ?aqe) (rs1\<lparr>arp_queue := pre @ ?aqe\<lparr>aq_head := []\<rparr> # post\<rparr>)))"
      using Cons.prems Cons.hyps(2) [symmetric]
      by (intro Cons.hyps(1)) (auto simp: rs1_def in_arp_cache_def entry_ready_def port_ok_def driver_ok_def)
    then show ?thesis using step frames False by (simp add: rs1_def entry_frames_def wire_name_def emit_def)
  qed
qed

lemma env_only:
  "renv rs' = renv rs \<Longrightarrow> entry_frames rs' = entry_frames rs" "renv rs' = renv rs \<Longrightarrow> entry_ready rs' = entry_ready rs"
  "renv rs' = renv rs \<Longrightarrow> driver_ok rs' = driver_ok rs" "renv rs' = renv rs \<Longrightarrow> port_ok rs' = port_ok rs"
  "renv rs' = renv rs \<Longrightarrow> wire_name rs' = wire_name rs"
  by (simp_all add: fun_eq_iff entry_frames_def entry_ready_def wire_name_def port_ok_def driver_ok_def)

lemma send_queued_from_eq:
  assumes "arp_queue rs = pre @ rest" and "in_arp_cache rs dst = Some ace" "length (ac_ha ace) = 6"
    and "unlocked WriteLock rs" "driver_ok rs" "list_all (\<lambda>e. aq_next_hop e = dst \<longrightarrow> entry_ready rs e) rest"
  shows "send_queued_from dst (length pre) (rest \<noteq> []) rs =
    Some (Inr (emit (concat (map (entry_frames rs (ac_ha ace)) (filter (\<lambda>e. aq_next_hop e = dst) rest)))
      (rs\<lparr>arp_queue := pre @ filter (\<lambda>e. aq_next_hop e \<noteq> dst) rest\<rparr>)))"
  using assms
proof (induction rest arbitrary: pre rs)
  case Nil
  then show ?case by (subst send_queued_from.simps) simp
next
  case (Cons e rest)
  have more: "(Suc (length pre) < length (arp_queue rs)) = (rest \<noteq> [])" using Cons.prems(1) by simp
  show ?case
  proof (cases "aq_next_hop e = dst")
    case True
    let ?fs = "entry_frames rs (ac_ha ace) e"
    define rs1 where "rs1 = emit ?fs (rs\<lparr>arp_queue := pre @ e\<lparr>aq_head := []\<rparr> # rest\<rparr>)"
    have sent: "send_entry_packets (length pre) rs = Some (Inr rs1)"
      unfolding rs1_def using Cons.prems True by (intro send_entry_packets_eq) auto
    have "send_queued_from dst (length pre) True rs =
        send_queued_from dst (length pre) (rest \<noteq> []) (remove_queue_at (length pre) rs1)"
      using Cons.prems(1) True more by (subst send_queued_from.simps) (simp add: sent Let_def)
    moreover have "remove_queue_at (length pre) rs1 = emit ?fs (rs\<lparr>arp_queue := pre @ rest\<rparr>)"
      by (simp add: remove_queue_at_def rs1_def emit_def)
    moreover have "send_queued_from dst (length pre) (rest \<noteq> []) (emit ?fs (rs\<lparr>arp_queue := pre @ rest\<rparr>)) =
        Some (Inr (emit (concat (map (entry_frames rs (ac_ha ace)) (filter (\<lambda>e. aq_next_hop e = dst) rest)))
          ((emit ?fs (rs\<lparr>arp_queue := pre @ rest\<rparr>))\<lparr>arp_queue := pre @ filter (\<lambda>e. aq_next_hop e \<noteq> dst) rest\<rparr>)))"
      using Cons.prems Cons.IH [of "emit ?fs (rs\<lparr>arp_queue := pre @ rest\<rparr>)" pre]
        env_only [of "emit ?fs (rs\<lparr>arp_queue := pre @ rest\<rparr>)" rs]
      by (simp add: in_arp_cache_def)
    ultimately show ?thesis using True by (simp add: emit_def)
  next
    case False
    have "send_queued_from dst (length pre) True rs = send_queued_from dst (length (pre @ [e])) (rest \<noteq> []) rs"
      using Cons.prems(1) False more by (subst send_queued_from.simps) (simp add: Let_def)
    with Cons.prems Cons.IH [of rs "pre @ [e]"] False show ?thesis by simp
  qed
qed

lemma send_queued_packets_eq:
  assumes "in_arp_cache rs dst = Some ace" "length (ac_ha ace) = 6"
    and "unlocked WriteLock rs" "driver_ok rs" "list_all (\<lambda>e. aq_next_hop e = dst \<longrightarrow> entry_ready rs e) (arp_queue rs)"
  shows "send_queued_packets dst rs =
    Inr (emit (concat (map (entry_frames rs (ac_ha ace)) (filter (\<lambda>e. aq_next_hop e = dst) (arp_queue rs))))
      (rs\<lparr>arp_queue := filter (\<lambda>e. aq_next_hop e \<noteq> dst) (arp_queue rs)\<rparr>))"
  unfolding send_queued_packets_def using send_queued_from_eq [of rs "[]" "arp_queue rs" dst ace] assms by simp

lemma update_arp_cache_frame [simp]:
  "arp_queue (snd (update_arp_cache ip ha st rs)) = arp_queue rs" "held (snd (update_arp_cache ip ha st rs)) = held rs"
  "renv (snd (update_arp_cache ip ha st rs)) = renv rs" "tx (snd (update_arp_cache ip ha st rs)) = tx rs"
  "if_list (snd (update_arp_cache ip ha st rs)) = if_list rs"
  by (simp_all add: update_arp_cache_def trigger_arp_cache_modified_def write_arp_cache_eq log_regs_def Let_def split: option.splits)

lemma update_arp_cache_held: "snd (update_arp_cache ip ha st (rs\<lparr>held := h\<rparr>)) = (snd (update_arp_cache ip ha st rs))\<lparr>held := h\<rparr>"
  by (simp add: update_arp_cache_def trigger_arp_cache_modified_def write_arp_cache_eq log_regs_def in_arp_cache_def Let_def split: option.splits)

lemma in_arp_cache_update:
  "\<exists>e. in_arp_cache (snd (update_arp_cache ip ha st rs)) ip = Some e \<and> ac_ha e = ha \<and> ac_static e = st"
  by (cases "find (\<lambda>e. ip = ac_ip e) (arp_cache rs)")
    (auto simp: in_arp_cache_def update_arp_cache_list Let_def find_append find_upd_first)

definition arp_frame :: "packet \<Rightarrow> bool" where
  "arp_frame p = (42 \<le> length p \<and> ld16 p 12 = Inr (htons ETH_TYPE_ARP))"

lemma get_arp_hdr_ok: "arp_frame p \<Longrightarrow> get_arp_hdr p = Inr 14"
  by (simp add: arp_frame_def get_arp_hdr_def)

lemma process_arp_reply_eq:
  assumes "arp_frame p" and "held rs = []" "driver_ok rs"
    and "ld32 p 28 = Inr sip" "ld_bytes p 22 6 = Inr sha"
    and "list_all (\<lambda>e. aq_next_hop e = sip \<longrightarrow> entry_ready rs e) (arp_queue rs)"
  shows "process_arp_reply p rs =
    Inr (emit (concat (map (entry_frames rs sha) (filter (\<lambda>e. aq_next_hop e = sip) (arp_queue rs))))
      ((snd (update_arp_cache sip sha 0 rs))\<lparr>arp_queue := filter (\<lambda>e. aq_next_hop e \<noteq> sip) (arp_queue rs)\<rparr>))"
proof -
  let ?u = "snd (update_arp_cache sip sha 0 rs)"
  define rs2 where "rs2 = ?u\<lparr>held := [(ArpQueueLock, Wr), (ArpCacheLock, Rd)]\<rparr>"
  obtain e where e: "in_arp_cache ?u sip = Some e" "ac_ha e = sha" using in_arp_cache_update by blast
  have sha: "length sha = 6" using assms(5) by (auto simp: ld_bytes_def split: if_splits)
  have fr: "entry_frames rs2 = entry_frames rs" "entry_ready rs2 = entry_ready rs" "driver_ok rs2"
    using assms(3) env_only [of rs2 rs] by (simp_all add: rs2_def)
  have "send_queued_packets sip rs2 =
    Inr (emit (concat (map (entry_frames rs2 (ac_ha e)) (filter (\<lambda>e. aq_next_hop e = sip) (arp_queue rs2))))
      (rs2\<lparr>arp_queue := filter (\<lambda>e. aq_next_hop e \<noteq> sip) (arp_queue rs2)\<rparr>))"
    using e sha assms(6) fr by (intro send_queued_packets_eq) (auto simp: rs2_def in_arp_cache_def)
  then have q: "send_queued_packets sip (?u\<lparr>held := [(ArpQueueLock, Wr), (ArpCacheLock, Rd)]\<rparr>) =
    Inr (emit (concat (map (entry_frames rs sha) (filter (\<lambda>e. aq_next_hop e = sip) (arp_queue rs))))
      (?u\<lparr>held := [(ArpQueueLock, Wr), (ArpCacheLock, Rd)], arp_queue := filter (\<lambda>e. aq_next_hop e \<noteq> sip) (arp_queue rs)\<rparr>))"
    using fr e(2) by (simp add: rs2_def)
  have h: "?u\<lparr>held := []\<rparr> = ?u" using assms(2) by simp
  show ?thesis unfolding process_arp_reply_def
    using assms by (simp add: get_arp_hdr_ok acquire_def update_arp_cache_held release_hd q) (simp add: emit_def h)
qed

lemma populate_eth_eq:
  "off + 14 \<le> length p \<Longrightarrow> length d = 6 \<Longrightarrow> length s = 6 \<Longrightarrow>
   populate_eth_hdr p off (Some d) s type = Inr (upd_bytes p off (d @ s @ bytes16 (htons type)))"
  "off + 14 \<le> length p \<Longrightarrow> length s = 6 \<Longrightarrow>
   populate_eth_hdr p off None s type = Inr (upd_bytes p (off + 6) (s @ bytes16 (htons type)))"
  by (simp_all add: populate_eth_hdr_def memcpy_in st16_in upd_bytes_def min_def add.commute)

lemma populate_arp_eq:
  assumes "length p = 42" "length sha = 6" "length tha = 6"
  shows "populate_arp_hdr p 14 (Some tha) tip sha sip opc = Inr (take 14 p @ arp_header tha tip sha sip opc)"
    and "drop 32 p = bzero 10 \<Longrightarrow>
      populate_arp_hdr p 14 None tip sha sip opc = Inr (take 14 p @ arp_header (bzero 6) tip sha sip opc)"
  using assms
  by (simp_all add: populate_arp_hdr_def memcpy_in st32_in st_bytes_in upd_bytes_def arp_header_def bzero_def
      bytes16_def min_def drop_take)

lemma arp_request_bytes:
  assumes "arp_frame p"
  obtains shost sha sip tip where "ld_bytes p 6 6 = Inr shost" "length shost = 6" "ld_bytes p 22 6 = Inr sha" "length sha = 6"
    "ld32 p 28 = Inr sip" "ld32 p 38 = Inr tip"
  using assms that by (auto simp: arp_frame_def ld_bytes_in ld32_in)

lemma send_arp_reply_eq:
  assumes "arp_frame p" "ld_bytes p 6 6 = Inr shost" "ld_bytes p 22 6 = Inr sha" "ld32 p 28 = Inr sip"
    and "length (if_addr iface) = 6" "unlocked WriteLock rs" "driver_ok rs" "port_ok rs (if_name iface)"
  shows "send_arp_reply p iface rs =
    Inr (emit [(pad_frame (shost @ if_addr iface @ bytes16 (htons ETH_TYPE_ARP) @ arp_header sha sip (if_addr iface) (if_ip iface) 2),
      wire_name rs (if_name iface))] rs)"
proof -
  have len: "length shost = 6" "length sha = 6" using assms(2,3) by (auto simp: ld_bytes_def split: if_splits)
  let ?eth = "shost @ if_addr iface @ bytes16 (htons ETH_TYPE_ARP)"
  have u: "upd_bytes (bzero 42) 0 ?eth = ?eth @ bzero 28" using len assms(5) by (simp add: upd_bytes_def bzero_def)
  have h: "get_arp_hdr (shost @ if_addr iface @ bytes16 (htons ETH_TYPE_ARP) @ bzero 28) = Inr 14"
    using len assms(5) by (simp add: get_arp_hdr_def ld16_def nth_append bytes16_def)
  show ?thesis using assms len
    by (simp add: send_arp_reply_def get_arp_hdr_ok populate_eth_eq u h populate_arp_eq send_packet_ok)
qed

section \<open>Properties\<close>

text \<open>
  Claim C19. The ARP cache is a map from addresses to hardware addresses: after any history of
  updates and deletions from the initial state no address occurs twice and a lookup gives the last
  value written, or nothing when it was deleted since.
\<close>

theorem arp_cache_history:
  "arp_cache_inv (cache_run arp_upd arp_del ops (bzero_state e)) \<and>
   arp_lookup (cache_run arp_upd arp_del ops (bzero_state e)) = cache_map ops Map.empty"
proof -
  have "arp_cache_inv (bzero_state e)" "arp_lookup (bzero_state e) = Map.empty"
    by (auto simp: arp_cache_inv_def arp_lookup_def in_arp_cache_def bzero_state_def fun_eq_iff)
  with arp.run_map [of "bzero_state e" ops] show ?thesis by simp
qed

text \<open>
  Claim C12. An ARP reply is learnt and releases the packets that wait for it: \<open>process_arp_reply\<close> returns,
  the sender's address now maps to the sender's hardware address (as a dynamic entry), every packet
  queued for that next hop has been sent, in order, on the interface recorded for it and with the
  learnt destination address, the entry has left the queue and the other entries are untouched, and
  no lock stays held.
\<close>

theorem process_arp_reply_flushes:
  assumes "arp_frame p" and "held rs = []" and "driver_ok rs"
    and "ld32 p 28 = Inr sip" and "ld_bytes p 22 6 = Inr sha"
    and "list_all (\<lambda>e. aq_next_hop e = sip \<longrightarrow> entry_ready rs e) (arp_queue rs)"
  shows "\<exists>rs'. process_arp_reply p rs = Inr rs' \<and> arp_lookup rs' sip = Some (sha, 0) \<and>
    tx rs' = tx rs @ concat (map (entry_frames rs sha) (filter (\<lambda>e. aq_next_hop e = sip) (arp_queue rs))) \<and>
    arp_queue rs' = filter (\<lambda>e. aq_next_hop e \<noteq> sip) (arp_queue rs) \<and> held rs' = []"
proof -
  obtain e where "in_arp_cache (snd (update_arp_cache sip sha 0 rs)) sip = Some e" "ac_ha e = sha" "ac_static e = 0"
    using in_arp_cache_update by blast
  then show ?thesis using process_arp_reply_eq [OF assms] assms(2) by (simp add: arp_lookup_def in_arp_cache_def)
qed

text \<open>
  An ARP request for the address of one of the router's interfaces is answered by exactly one frame: a reply, padded
  to 60 bytes, from that interface to the requester, that carries the interface's hardware and IP address
  as sender and the requester's as target; nothing else changes and no lock stays held.
\<close>

theorem process_arp_request_replies:
  assumes "arp_frame p" and "held rs = []" and "driver_ok rs"
    and "ld_bytes p 6 6 = Inr shost" and "ld_bytes p 22 6 = Inr sha" and "ld32 p 28 = Inr sip" and "ld32 p 38 = Inr tip"
    and "find (\<lambda>e. if_ip e = tip) (if_list rs) = Some iface"
    and "length (if_addr iface) = 6" and "port_ok rs (if_name iface)"
  shows "process_arp_request p rs =
    Inr (emit [(pad_frame (shost @ if_addr iface @ bytes16 (htons ETH_TYPE_ARP) @ arp_header sha sip (if_addr iface) tip 2),
      wire_name rs (if_name iface))] rs)"
proof -
  let ?rs = "rs\<lparr>held := [(IfListLock, Rd)]\<rparr>"
  have ip: "if_ip iface = tip" and ne: "if_list rs \<noteq> []" using find_Some_D [OF assms(8)] by auto
  have env: "driver_ok ?rs" "port_ok ?rs (if_name iface)" "wire_name ?rs = wire_name rs"
    using assms(3,10) env_only [of ?rs rs] by simp_all
  have "send_arp_reply p iface ?rs =
    Inr (emit [(pad_frame (shost @ if_addr iface @ bytes16 (htons ETH_TYPE_ARP) @ arp_header sha sip (if_addr iface) tip 2),
      wire_name rs (if_name iface))] ?rs)"
    using send_arp_reply_eq [of p shost sha sip iface ?rs] assms env ip by simp
  then show ?thesis using assms ne
    by (simp add: process_arp_request_def get_arp_hdr_ok acquire_def release_hd) (simp add: emit_def)
qed

text \<open>The hardware's rows hold the cache: static entries first, the rest of the rows zero.\<close>

definition arp_rows_distinct :: "router_state \<Rightarrow> bool" where
  "arp_rows_distinct rs = distinct (map (\<lambda>i. arp_cam_address (renv rs) OR word_of_nat i) [0..<arp_cam_width (renv rs)])"

definition arp_row_ok :: "router_state \<Rightarrow> nat \<Rightarrow> bool" where
  "arp_row_ok rs j =
    (let es = arp_order (arp_cache rs) in
     \<exists>b. hw_rows (regs rs) (arp_cam_address (renv rs) OR word_of_nat j) =
       Some (if j < length es then (mac_hi (ac_ha (es ! j)), mac_lo (ac_ha (es ! j)), b, ntohl (ac_ip (es ! j))) else (0, 0, b, 0)))"

definition arp_hw_in_sync :: "router_state \<Rightarrow> bool" where
  "arp_hw_in_sync rs = (is_netfpga rs \<longrightarrow> (\<forall>j<arp_cam_width (renv rs). arp_row_ok rs j))"

lemma trigger_arp_in_sync:
  assumes "arp_rows_distinct rs"
  shows "arp_hw_in_sync (trigger_arp_cache_modified rs)"
proof -
  have inj: "inj_on (\<lambda>k. arp_cam_address (renv rs) OR word_of_nat k) {..<arp_cam_width (renv rs)}"
    using assms by (simp add: arp_rows_distinct_def distinct_map atLeast0LessThan)
  have "arp_row_ok (log_regs (arp_log (arp_cam_address (renv rs)) 0 (arp_cam_width (renv rs)) (arp_order (arp_cache rs))) rs) j"
    if "j < arp_cam_width (renv rs)" for j
    using hw_run_arp_log [OF inj that] by (simp add: arp_row_ok_def hw_rows_def log_regs_def Let_def)
  then show ?thesis by (simp add: arp_hw_in_sync_def trigger_arp_cache_modified_def write_arp_cache_eq)
qed

text \<open>
  Claim C20. The hardware ARP table follows the cache under update and expiry: every update leaves it in agreement with the
  cache, and expiry keeps the agreement, whether or not an entry has timed out. Expiry removes exactly
  the entries that are not static and older than the configured time to live. Deletion removes the entries of the
  address from the cache and writes no register itself; its caller, the command \<^verbatim>\<open>ip arp del\<close>, triggers the hardware when the count it returns is above zero, and that keeps the agreement.
\<close>

theorem arp_hw_follows_cache:
  assumes "arp_rows_distinct rs"
  shows "arp_hw_in_sync (snd (update_arp_cache ip ha st rs)) \<and>
    (arp_hw_in_sync rs \<longrightarrow> arp_hw_in_sync (expire_arp_cache rs)) \<and>
    arp_cache (expire_arp_cache rs) = filter (\<lambda>e. ac_static e = 1 \<or> clock rs - ac_TTL e \<le> uint (arp_ttl rs)) (arp_cache rs) \<and>
    arp_cache (snd (del_arp_cache ip rs)) = filter (\<lambda>e. ac_ip e \<noteq> ip) (arp_cache rs) \<and> regs (snd (del_arp_cache ip rs)) = regs rs \<and>
    (arp_hw_in_sync rs \<longrightarrow> arp_hw_in_sync (if fst (del_arp_cache ip rs) > 0 then trigger_arp_cache_modified (snd (del_arp_cache ip rs)) else snd (del_arp_cache ip rs)))"
proof (intro conjI impI)
  show "arp_cache (snd (del_arp_cache ip rs)) = filter (\<lambda>e. ac_ip e \<noteq> ip) (arp_cache rs)" "regs (snd (del_arp_cache ip rs)) = regs rs"
    by (simp_all add: del_arp_cache_def del_arp_loop_eq Let_def)
  have d: "renv rs' = renv rs \<Longrightarrow> arp_rows_distinct rs'" for rs' using assms by (simp add: arp_rows_distinct_def)
  show "arp_hw_in_sync (if fst (del_arp_cache ip rs) > 0 then trigger_arp_cache_modified (snd (del_arp_cache ip rs)) else snd (del_arp_cache ip rs))"
    if "arp_hw_in_sync rs"
  proof (cases "fst (del_arp_cache ip rs) > 0")
    case True
    then show ?thesis by (simp add: trigger_arp_in_sync d del_arp_cache_def Let_def)
  next
    case False
    then have "filter (\<lambda>e. ac_ip e = ip) (arp_cache rs) = []" by (simp add: del_arp_cache_def del_arp_loop_eq Let_def)
    then have "filter (\<lambda>e. ac_ip e \<noteq> ip) (arp_cache rs) = arp_cache rs" by (simp add: filter_empty_conv filter_id_conv)
    then have "snd (del_arp_cache ip rs) = rs" by (simp add: del_arp_cache_def del_arp_loop_eq Let_def)
    with False that show ?thesis by simp
  qed
  show "arp_hw_in_sync (snd (update_arp_cache ip ha st rs))"
    unfolding update_arp_cache_def Let_def snd_conv by (rule trigger_arp_in_sync, rule d) (simp split: option.splits)
  show "arp_hw_in_sync (expire_arp_cache rs)" if "arp_hw_in_sync rs"
  proof (cases "list_ex (arp_expired rs) (arp_cache rs)")
    case True
    then show ?thesis unfolding expire_arp_cache_def Let_def by (auto intro!: trigger_arp_in_sync d)
  next
    case False
    then have "filter (\<lambda>e. \<not> arp_expired rs e) (arp_cache rs) = arp_cache rs" by (simp add: list_ex_iff filter_id_conv)
    with False that show ?thesis by (simp add: expire_arp_cache_def Let_def)
  qed
  have "(\<lambda>e. \<not> arp_expired rs e) = (\<lambda>e. ac_static e = 1 \<or> clock rs - ac_TTL e \<le> uint (arp_ttl rs))"
    by (auto simp: arp_expired_def fun_eq_iff)
  then show "arp_cache (expire_arp_cache rs) = filter (\<lambda>e. ac_static e = 1 \<or> clock rs - ac_TTL e \<le> uint (arp_ttl rs)) (arp_cache rs)"
    by (simp add: expire_arp_cache_def Let_def)
qed

section \<open>Witnesses\<close>

definition demo_arp :: "u16 \<Rightarrow> packet" where
  "demo_arp opc = replicate 12 1 @ bytes16 (htons ETH_TYPE_ARP) @ arp_header (bzero 6) 9 (replicate 6 2) 7 opc"

definition demo_iface :: "string \<Rightarrow> u32 \<Rightarrow> u32 \<Rightarrow> iface_entry" where
  "demo_iface name ip msk = \<lparr>if_name = name, if_addr = replicate 6 3, if_ip = ip, if_mask = msk, if_speed = 0,
    if_active = True, if_last_sent_hello = 0, if_nbr_routers = [], if_is_wan = False\<rparr>"

lemma demo_arp_fields:
  "arp_frame (demo_arp opc)" "ld_bytes (demo_arp opc) 6 6 = Inr (replicate 6 1)"
  "ld_bytes (demo_arp opc) 22 6 = Inr (replicate 6 2)" "ld32 (demo_arp opc) 28 = Inr 7" "ld32 (demo_arp opc) 38 = Inr 9"
  by (simp_all add: arp_frame_def demo_arp_def arp_header_def ld16_def ld32_def ld_bytes_def nth_append drop_append bzero_def)

lemma demo_env_ok: "renv rs = demo_env \<Longrightarrow> driver_ok rs" "renv rs = demo_env \<Longrightarrow> port_ok rs ''eth0''"
  by (simp_all add: driver_ok_def port_ok_def demo_env_def internal_names_def open_sockets_def)

theorem process_arp_reply_flushes_witness:
  "\<exists>rs'. process_arp_reply (demo_arp 2) (bzero_state demo_env\<lparr>arp_queue := [\<lparr>aq_out_iface_name = ''eth0'', aq_next_hop = 7,
      aq_requests = 1, aq_last_req_time = 0, aq_head = [\<lparr>aqp_packet = replicate 60 5\<rparr>]\<rparr>]\<rparr>) = Inr rs' \<and>
    arp_lookup rs' 7 = Some (replicate 6 2, 0) \<and> tx rs' = [(replicate 6 2 @ replicate 54 5, ''eth0'')] \<and> arp_queue rs' = []"
proof -
  let ?rs = "bzero_state demo_env\<lparr>arp_queue := [\<lparr>aq_out_iface_name = ''eth0'', aq_next_hop = 7,
      aq_requests = 1, aq_last_req_time = 0, aq_head = [\<lparr>aqp_packet = replicate 60 5\<rparr>]\<rparr>]\<rparr>"
  have "renv ?rs = demo_env" by simp
  with demo_env_ok [of ?rs] process_arp_reply_flushes [of "demo_arp 2" ?rs 7 "replicate 6 2"] demo_arp_fields [of 2]
  show ?thesis by (auto simp: entry_ready_def entry_frames_def with_dhost_def wire_name_def demo_env_def pad_frame_def)
qed

theorem process_arp_request_replies_witness:
  "process_arp_request (demo_arp 1) (bzero_state demo_env\<lparr>if_list := [demo_iface ''eth0'' 9 0]\<rparr>) =
    Inr (emit [(pad_frame (replicate 6 1 @ replicate 6 3 @ bytes16 (htons ETH_TYPE_ARP) @
      arp_header (replicate 6 2) 7 (replicate 6 3) 9 2), ''eth0'')] (bzero_state demo_env\<lparr>if_list := [demo_iface ''eth0'' 9 0]\<rparr>))"
proof -
  let ?rs = "bzero_state demo_env\<lparr>if_list := [demo_iface ''eth0'' 9 0]\<rparr>"
  have "renv ?rs = demo_env" "wire_name ?rs ''eth0'' = ''eth0''" by (simp_all add: wire_name_def)
  with demo_env_ok [of ?rs] process_arp_request_replies [of "demo_arp 1" ?rs "replicate 6 1" "replicate 6 2" 7 9 "demo_iface ''eth0'' 9 0"]
    demo_arp_fields [of 1]
  show ?thesis by (simp add: demo_iface_def)
qed

theorem arp_hw_follows_cache_witness:
  "arp_hw_in_sync (snd (update_arp_cache 7 (replicate 6 2) 0 (bzero_state (demo_env\<lparr>arp_cam_address := 0\<rparr>)\<lparr>is_netfpga := True\<rparr>)))"
proof -
  have "n \<le> 65536 \<Longrightarrow> distinct (map (word_of_nat :: nat \<Rightarrow> u32) [0..<n])" for n
    by (auto simp: distinct_map inj_on_def word_of_nat_eq_iff take_bit_nat_eq_self)
  from this [of 32] have "arp_rows_distinct (bzero_state (demo_env\<lparr>arp_cam_address := 0\<rparr>)\<lparr>is_netfpga := True\<rparr>)"
    by (simp add: arp_rows_distinct_def demo_env_def)
  from arp_hw_follows_cache [OF this] show ?thesis by blast
qed

end
