(* ===== verification/Rtable.thy ===== *)
theory Rtable
  imports Netfpga "HOL-Library.Product_Lexorder"
begin

text \<open>
  \<^verbatim>\<open>or_rtable.c\<close>: the routing table. The lookup \<open>get_next_hop\<close>, the operations that add, delete,
  deactivate and activate routes, the sort that follows every modification and the copy of the
  table in the hardware's TCAM. Shown here: the lookup is the longest match; every modification
  returns with the table sorted by mask, address and origin; and on a sorted table with prefix masks
  the first matching TCAM row gives the software's answer.
\<close>

section \<open>Lookup\<close>

definition mask_bits :: "u32 \<Rightarrow> int" where
  "mask_bits msk = fold (\<lambda>i n. if drop_bit i msk AND 1 \<noteq> 0 then n + 1 else n) [0..<32] 0"

definition re_match :: "u32 \<Rightarrow> rtable_entry \<Rightarrow> bool" where
  "re_match dst e =
    (let msk = ntohl (re_mask e); ip = ntohl (re_ip e) AND msk; dest_ip = ntohl dst AND msk
     in ip = dest_ip)"

fun lpm_loop :: "u32 \<Rightarrow> rtable_entry list \<Rightarrow> rtable_entry option \<Rightarrow> int \<Rightarrow> rtable_entry option" where
  "lpm_loop dst [] lpm most = lpm"
| "lpm_loop dst (e # es) lpm most =
    (if re_active e \<and> re_match dst e \<and> mask_bits (ntohl (re_mask e)) > most
     then lpm_loop dst es (Some e) (mask_bits (ntohl (re_mask e)))
     else lpm_loop dst es lpm most)"

text \<open>\<open>None\<close> is the return value 1, where the out parameters are not written.\<close>

definition get_next_hop :: "router_state \<Rightarrow> nat \<Rightarrow> u32 \<Rightarrow> (u32 \<times> string) option" where
  "get_next_hop rs len dst =
    (case lpm_loop dst (rtable rs) None (- 1) of
       None \<Rightarrow> None
     | Some e \<Rightarrow> Some (if re_gw e = 0 then dst else re_gw e, take len (re_iface e)))"

section \<open>Modification\<close>

definition rt_swap :: "rtable_entry \<Rightarrow> rtable_entry \<Rightarrow> bool" where
  "rt_swap a b =
    (ntohl (re_mask a) < ntohl (re_mask b) \<or>
     (re_mask a = re_mask b \<and> ntohl (re_ip a) < ntohl (re_ip b)) \<or>
     (re_mask a = re_mask b \<and> re_ip a = re_ip b \<and> \<not> re_static a \<and> re_static b))"

definition write_tcam_row :: "u32 \<Rightarrow> u32 \<Rightarrow> u32 \<Rightarrow> u32 \<Rightarrow> nat \<Rightarrow> router_state \<Rightarrow> router_state" where
  "write_tcam_row ip msk gw port i rs =
    writeReg INDIRECTCOMMAND 1
    (writeReg INDIRECTADDRESS (lpm_tcam_address (renv rs) OR word_of_nat i)
    (writeReg WRDATA_B_LOW port
    (writeReg WRDATA_A_LOW gw
    (writeReg WRDATA_B_HI msk
    (writeReg WRDATA_A_HI ip rs)))))"

fun write_tcam_rows :: "nat \<Rightarrow> nat \<Rightarrow> rtable_entry list \<Rightarrow> router_state \<Rightarrow> router_state res" where
  "write_tcam_rows i 0 cur rs = Inr rs"
| "write_tcam_rows i (Suc n) [] rs = write_tcam_rows (Suc i) n [] (write_tcam_row 0 0 0 0 i rs)"
| "write_tcam_rows i (Suc n) (e # cur) rs =
    bindR (getOneHotPortNumber (re_iface e)) (\<lambda>port.
    write_tcam_rows (Suc i) n (dropWhile (\<lambda>e. \<not> re_active e) cur)
      (write_tcam_row (ntohl (re_ip e)) (ntohl (re_mask e)) (ntohl (re_gw e)) port i rs))"

definition write_rtable_to_hw :: "router_state \<Rightarrow> router_state res" where
  "write_rtable_to_hw rs =
    write_tcam_rows 0 (lpm_tcam_width (renv rs)) (dropWhile (\<lambda>e. \<not> re_active e) (rtable rs)) rs"

definition trigger_rtable_modified :: "router_state \<Rightarrow> router_state res" where
  "trigger_rtable_modified rs =
    bindR (returnsR (bubble_sort rt_swap (rtable rs))) (\<lambda>es.
    let rs = rs\<lparr>rtable := es\<rparr> in
    if is_netfpga rs then write_rtable_to_hw rs else Inr rs)"

definition add_route :: "u32 \<Rightarrow> u32 \<Rightarrow> u32 \<Rightarrow> string \<Rightarrow> int act" where
  "add_route dest gateway msk interface rs =
    (let entry = \<lparr>re_ip = dest, re_gw = gateway, re_mask = msk, re_iface = take 32 interface,
                  re_static = True, re_active = True\<rparr>;
         rs = rs\<lparr>rtable := rtable rs @ [entry]\<rparr>
     in bindR (trigger_rtable_modified rs) (\<lambda>rs. Inr (0, rs)))"

fun del_loop :: "u32 \<Rightarrow> u32 \<Rightarrow> rtable_entry list \<Rightarrow> int \<Rightarrow> int \<times> rtable_entry list" where
  "del_loop dest msk [] n = (n, [])"
| "del_loop dest msk (e # es) n =
    (if dest = re_ip e \<and> msk = re_mask e then del_loop dest msk es (n + 1)
     else let r = del_loop dest msk es n in (fst r, e # snd r))"

definition del_route :: "u32 \<Rightarrow> u32 \<Rightarrow> int act" where
  "del_route dest msk rs =
    (let r = del_loop dest msk (rtable rs) 0 in
     bindR (trigger_rtable_modified (rs\<lparr>rtable := snd r\<rparr>)) (\<lambda>rs. Inr (fst r, rs)))"

text \<open>The interface test of the two loops below compares only \<^verbatim>\<open>strlen(interface)\<close> characters.\<close>

definition on_iface :: "string \<Rightarrow> rtable_entry \<Rightarrow> bool" where
  "on_iface interface e = strncmp_eq (re_iface e) interface (length interface)"

fun deactivate_loop :: "string \<Rightarrow> rtable_entry list \<Rightarrow> rtable_entry list" where
  "deactivate_loop interface [] = []"
| "deactivate_loop interface (e # es) =
    (if on_iface interface e
     then if re_static e then e\<lparr>re_active := False\<rparr> # deactivate_loop interface es
          else deactivate_loop interface es
     else e # deactivate_loop interface es)"

definition deactivate_routes :: "string \<Rightarrow> int act" where
  "deactivate_routes interface rs =
    bindR (trigger_rtable_modified (rs\<lparr>rtable := deactivate_loop interface (rtable rs)\<rparr>)) (\<lambda>rs. Inr (0, rs))"

definition activate_routes :: "string \<Rightarrow> int act" where
  "activate_routes interface rs =
    bindR (trigger_rtable_modified
      (rs\<lparr>rtable := map (\<lambda>e. if on_iface interface e then e\<lparr>re_active := True\<rparr> else e) (rtable rs)\<rparr>))
    (\<lambda>rs. Inr (0, rs))"

section \<open>The lookup is a longest match\<close>

text \<open>The entry a longest-match lookup has to return: it is active, it matches, no active matching
  entry has more mask bits, and those before it have fewer.\<close>

abbreviation cand :: "u32 \<Rightarrow> rtable_entry \<Rightarrow> bool" where
  "cand dst e \<equiv> re_active e \<and> re_match dst e"

abbreviation re_bits :: "rtable_entry \<Rightarrow> int" where
  "re_bits e \<equiv> mask_bits (ntohl (re_mask e))"

definition is_lpm :: "u32 \<Rightarrow> rtable_entry list \<Rightarrow> rtable_entry \<Rightarrow> bool" where
  "is_lpm dst es e =
    (\<exists>pre post. es = pre @ e # post \<and> cand dst e \<and>
      (\<forall>x\<in>set pre. cand dst x \<longrightarrow> re_bits x < re_bits e) \<and>
      (\<forall>x\<in>set post. cand dst x \<longrightarrow> re_bits x \<le> re_bits e))"

lemma is_lpmI:
  "es = pre @ e # post \<Longrightarrow> cand dst e \<Longrightarrow> (\<And>x. x \<in> set pre \<Longrightarrow> cand dst x \<Longrightarrow> re_bits x < re_bits e) \<Longrightarrow>
   (\<And>x. x \<in> set post \<Longrightarrow> cand dst x \<Longrightarrow> re_bits x \<le> re_bits e) \<Longrightarrow> is_lpm dst es e"
  unfolding is_lpm_def by blast

lemma is_lpmE:
  assumes "is_lpm dst es e"
  obtains pre post where "es = pre @ e # post" "cand dst e"
    "\<And>x. x \<in> set pre \<Longrightarrow> cand dst x \<Longrightarrow> re_bits x < re_bits e"
    "\<And>x. x \<in> set post \<Longrightarrow> cand dst x \<Longrightarrow> re_bits x \<le> re_bits e"
  using assms unfolding is_lpm_def by blast

lemma is_lpm_Cons: "is_lpm dst es e \<Longrightarrow> (cand dst a \<Longrightarrow> re_bits a < re_bits e) \<Longrightarrow> is_lpm dst (a # es) e"
  by (erule is_lpmE, rule is_lpmI [of _ "a # pre" for pre]) auto

lemma mask_bits_fold_ge: "n \<le> fold (\<lambda>i n. if P i then n + 1 else n) is (n :: int)"
proof (induction "is" arbitrary: n)
  case (Cons a xs)
  from Cons [of n] Cons [of "n + 1"] show ?case by auto
qed simp

lemma mask_bits_nonneg: "0 \<le> mask_bits m"
  unfolding mask_bits_def by (rule mask_bits_fold_ge)

lemma lpm_loop_cases:
  "(lpm_loop dst es lpm most = lpm \<and> (\<forall>x\<in>set es. cand dst x \<longrightarrow> re_bits x \<le> most)) \<or>
   (\<exists>e. lpm_loop dst es lpm most = Some e \<and> is_lpm dst es e \<and> most < re_bits e)"
proof (induction es arbitrary: lpm most)
  case (Cons a es)
  show ?case
  proof (cases "cand dst a \<and> re_bits a > most")
    case True
    then have step: "lpm_loop dst (a # es) lpm most = lpm_loop dst es (Some a) (re_bits a)" by simp
    from Cons.IH [of "Some a" "re_bits a"] show ?thesis
    proof (elim disjE conjE exE)
      assume a: "lpm_loop dst es (Some a) (re_bits a) = Some a"
        and "\<forall>x\<in>set es. cand dst x \<longrightarrow> re_bits x \<le> re_bits a"
      then have "is_lpm dst (a # es) a" using True by (intro is_lpmI [of _ "[]"]) auto
      with step a True show ?thesis by auto
    next
      fix e assume e: "lpm_loop dst es (Some a) (re_bits a) = Some e" "is_lpm dst es e" and "re_bits a < re_bits e"
      then show ?thesis using step True is_lpm_Cons [of dst es e a] by (metis order_less_trans)
    qed
  next
    case False
    then have step: "lpm_loop dst (a # es) lpm most = lpm_loop dst es lpm most" by auto
    from Cons.IH [of lpm most] show ?thesis
    proof (elim disjE conjE exE)
      fix e assume e: "lpm_loop dst es lpm most = Some e" "is_lpm dst es e" and "most < re_bits e"
      then show ?thesis using step False is_lpm_Cons [of dst es e a] by (metis not_le order_le_less_trans)
    qed (use step False in auto)
  qed
qed simp

lemma lpm_loop_None: "lpm_loop dst es None (- 1) = None \<longleftrightarrow> (\<forall>x\<in>set es. \<not> cand dst x)"
proof -
  have "\<not> re_bits x \<le> - 1" for x using mask_bits_nonneg [of "ntohl (re_mask x)"] by linarith
  moreover have "is_lpm dst es e \<Longrightarrow> \<exists>x\<in>set es. cand dst x" for e
    by (auto elim: is_lpmE)
  ultimately show ?thesis using lpm_loop_cases [of dst es None "- 1"] by auto
qed

lemma lpm_loop_Some: "lpm_loop dst es None (- 1) = Some e \<Longrightarrow> is_lpm dst es e"
  using lpm_loop_cases [of dst es None "- 1"] by auto

lemma is_lpm_unique:
  assumes "is_lpm dst es e" and "is_lpm dst es e'"
  shows "e = e'"
proof -
  obtain p q where s: "es = p @ e # q" and c: "cand dst e"
    and m: "\<And>x. x \<in> set p \<Longrightarrow> cand dst x \<Longrightarrow> re_bits x < re_bits e"
      "\<And>x. x \<in> set q \<Longrightarrow> cand dst x \<Longrightarrow> re_bits x \<le> re_bits e"
    using assms(1) by (rule is_lpmE) (rule that)
  obtain p' q' where s': "es = p' @ e' # q'" and c': "cand dst e'"
    and m': "\<And>x. x \<in> set p' \<Longrightarrow> cand dst x \<Longrightarrow> re_bits x < re_bits e'"
      "\<And>x. x \<in> set q' \<Longrightarrow> cand dst x \<Longrightarrow> re_bits x \<le> re_bits e'"
    using assms(2) by (rule is_lpmE) (rule that)
  from s s' have "p @ e # q = p' @ e' # q'" by simp
  then consider us where "p = p' @ e' # us" "q' = us @ e # q"
    | us where "p' = p @ e # us" "q = us @ e' # q'" | "e = e'"
    by (auto simp: append_eq_append_conv2 Cons_eq_append_conv append_eq_Cons_conv)
  then show ?thesis
  proof cases
    case 1
    then have "e' \<in> set p" "e \<in> set q'" by auto
    with m(1) [of e'] m'(2) [of e] c c' show ?thesis by force
  next
    case 2
    then have "e \<in> set p'" "e' \<in> set q" by auto
    with m(2) [of e'] m'(1) [of e] c c' show ?thesis by force
  qed simp
qed

section \<open>Sorting\<close>

definition rt_key :: "rtable_entry \<Rightarrow> int \<times> int \<times> bool" where
  "rt_key e = (- uint (ntohl (re_mask e)), - uint (ntohl (re_ip e)), \<not> re_static e)"

interpretation rt_bubble: bubble_key rt_swap rt_key
proof
  fix a b :: rtable_entry
  have "re_mask a = re_mask b \<longleftrightarrow> uint (ntohl (re_mask a)) = uint (ntohl (re_mask b))"
    and "re_ip a = re_ip b \<longleftrightarrow> uint (ntohl (re_ip a)) = uint (ntohl (re_ip b))"
    by (simp_all add: word_uint_eq_iff [symmetric])
  then show "rt_swap a b \<longleftrightarrow> rt_key b < rt_key a"
    by (auto simp: rt_swap_def rt_key_def less_prod_def less_eq_prod_def word_less_def simp del: ntohl_inj)
qed

lemma trigger_rtable_modified_eq:
  "trigger_rtable_modified rs =
    (let rs' = rs\<lparr>rtable := sort_key rt_key (rtable rs)\<rparr> in
     if is_netfpga rs then write_rtable_to_hw rs' else Inr rs')"
  by (simp add: trigger_rtable_modified_def rt_bubble.bubble_sort_eq Let_def)

definition rtable_sorted :: "router_state \<Rightarrow> bool" where
  "rtable_sorted rs = sorted (map rt_key (rtable rs))"

section \<open>The hardware copy\<close>

text \<open>The register writes of one row, and of the rows the loop writes.\<close>

definition tcam_row_log :: "u32 \<Rightarrow> nat \<Rightarrow> u32 \<times> u32 \<times> u32 \<times> u32 \<Rightarrow> (reg \<times> u32) list" where
  "tcam_row_log a i = (\<lambda>(ip, gw, m, port).
    [(WRDATA_A_HI, ip), (WRDATA_B_HI, m), (WRDATA_A_LOW, gw), (WRDATA_B_LOW, port),
     (INDIRECTADDRESS, a OR word_of_nat i), (INDIRECTCOMMAND, 1)])"

definition port_known :: "rtable_entry \<Rightarrow> bool" where
  "port_known e = (re_iface e \<in> {ETH0, ETH1, CPU0, CPU1})"

definition port_of :: "string \<Rightarrow> u32" where
  "port_of n = (case getOneHotPortNumber n of Inl _ \<Rightarrow> 0 | Inr p \<Rightarrow> p)"

definition entry_row :: "rtable_entry \<Rightarrow> u32 \<times> u32 \<times> u32 \<times> u32" where
  "entry_row e = (ntohl (re_ip e), ntohl (re_gw e), ntohl (re_mask e), port_of (re_iface e))"

definition tcam_row :: "rtable_entry list \<Rightarrow> nat \<Rightarrow> u32 \<times> u32 \<times> u32 \<times> u32" where
  "tcam_row es i = (if i < length es then entry_row (es ! i) else (0, 0, 0, 0))"

lemma port_known_iff: "getOneHotPortNumber (re_iface e) = (if port_known e then Inr (port_of (re_iface e)) else Inl AssertFail)"
  by (auto simp: port_known_def getOneHotPortNumber_def port_of_def)

lemma port_of_round_trip: "port_known e \<Longrightarrow> getIfaceFromOneHotPortNumber 32 (port_of (re_iface e)) = re_iface e"
  "port_known e \<Longrightarrow> port_of (re_iface e) \<noteq> 0"
  by (auto simp: port_known_def getOneHotPortNumber_def port_of_def getIfaceFromOneHotPortNumber_def port_names)

lemma write_tcam_row_regs:
  "write_tcam_row ip m gw port i rs =
    rs\<lparr>regs := regs rs @ tcam_row_log (lpm_tcam_address (renv rs)) i (ip, gw, m, port)\<rparr>"
  by (simp add: write_tcam_row_def writeReg_def tcam_row_log_def)

lemma dropWhile_Cons_filter:
  "dropWhile (\<lambda>x. \<not> P x) xs = y # ys \<Longrightarrow> filter P xs = y # filter P ys"
  by (induction xs) (auto split: if_splits)

lemma dropWhile_Nil_filter: "dropWhile (\<lambda>x. \<not> P x) xs = [] \<Longrightarrow> filter P xs = []"
  by (simp add: filter_empty_conv)

definition tcam_log :: "u32 \<Rightarrow> nat \<Rightarrow> nat \<Rightarrow> rtable_entry list \<Rightarrow> (reg \<times> u32) list" where
  "tcam_log a i n as = concat (map (\<lambda>k. tcam_row_log a (i + k) (tcam_row as k)) [0..<n])"

lemma tcam_log_Suc:
  "tcam_log a i (Suc n) as = tcam_row_log a i (tcam_row as 0) @ tcam_log a (Suc i) n (tl as)"
proof -
  have "tcam_row as (Suc k) = tcam_row (tl as) k" for k by (cases as) (auto simp: tcam_row_def)
  moreover have "[0..<Suc n] = 0 # map Suc [0..<n]" by (simp add: upt_conv_Cons map_Suc_upt del: upt_Suc)
  ultimately show ?thesis unfolding tcam_log_def by (simp add: o_def del: upt_Suc)
qed

lemma write_tcam_rows_eq:
  assumes "\<forall>e\<in>set (take n (filter re_active es)). port_known e"
  shows "write_tcam_rows i n (dropWhile (\<lambda>e. \<not> re_active e) es) rs =
    Inr (rs\<lparr>regs := regs rs @ tcam_log (lpm_tcam_address (renv rs)) i n (filter re_active es)\<rparr>)"
  using assms
proof (induction n arbitrary: i es rs)
  case (Suc n)
  show ?case
  proof (cases "dropWhile (\<lambda>e. \<not> re_active e) es")
    case Nil
    have f: "filter re_active es = []" using dropWhile_Nil_filter [OF Nil] .
    have "write_tcam_rows (Suc i) n [] rs' =
      Inr (rs'\<lparr>regs := regs rs' @ tcam_log (lpm_tcam_address (renv rs')) (Suc i) n []\<rparr>)" for rs'
      using Suc.IH [of "[]" "Suc i" rs'] by simp
    then show ?thesis unfolding Nil f
      by (simp add: tcam_log_Suc write_tcam_row_regs tcam_row_def)
  next
    case (Cons e es')
    note f = dropWhile_Cons_filter [OF Cons]
    have "port_known e" "\<forall>e\<in>set (take n (filter re_active es')). port_known e" using Suc.prems f by auto
    then show ?thesis unfolding Cons f using Suc.IH [of es' "Suc i"]
      by (simp add: tcam_log_Suc write_tcam_row_regs tcam_row_def entry_row_def port_known_iff)
  qed
qed (simp add: tcam_log_def)

lemma hw_run_row:
  "w_rows (hw_run (tcam_row_log a i row) w) = (w_rows w)((a OR word_of_nat i) \<mapsto> row)"
  by (simp add: tcam_row_log_def split: prod.splits)

lemma hw_run_tcam_log:
  assumes "inj_on (\<lambda>k. a OR word_of_nat k :: u32) {..<n}" and "j < n"
  shows "w_rows (hw_run (tcam_log a 0 n as) w) (a OR word_of_nat j) = Some (tcam_row as j)"
  using assms
proof (induction n)
  case (Suc n)
  have split: "tcam_log a 0 (Suc n) as = tcam_log a 0 n as @ tcam_row_log a n (tcam_row as n)"
    by (simp add: tcam_log_def)
  have inj: "inj_on (\<lambda>k. a OR word_of_nat k :: u32) {..<n}"
    using Suc.prems(1) by (rule inj_on_subset) auto
  show ?case
  proof (cases "j = n")
    case False
    with Suc.prems have "j < n" "a OR word_of_nat j \<noteq> (a OR word_of_nat n :: u32)"
      by (auto dest: inj_onD)
    then show ?thesis using Suc.IH [OF inj] by (simp add: split hw_run_row)
  qed (simp add: split hw_run_row)
qed simp

text \<open>What the hardware answers: the first row whose masked address matches; port 0, the content of an
  unused row, is a miss, and next hop 0 stands for the destination itself.\<close>

definition row_match :: "u32 \<Rightarrow> u32 \<times> u32 \<times> u32 \<times> u32 \<Rightarrow> bool" where
  "row_match d = (\<lambda>(ip, gw, m, port). ip AND m = d AND m)"

definition hw_next_hop :: "router_state \<Rightarrow> u32 \<Rightarrow> (u32 \<times> string) option" where
  "hw_next_hop rs dst =
    (let a = lpm_tcam_address (renv rs);
         rows = map (\<lambda>i. the (hw_rows (regs rs) (a OR word_of_nat i))) [0..<lpm_tcam_width (renv rs)]
     in case find (row_match (ntohl dst)) rows of
          None \<Rightarrow> None
        | Some (ip, gw, m, port) \<Rightarrow>
            if port = 0 then None
            else Some (if gw = 0 then dst else htonl gw, getIfaceFromOneHotPortNumber 32 port))"

definition prefix_mask :: "u32 \<Rightarrow> bool" where
  "prefix_mask m = list_ex (\<lambda>n. m = push_bit (32 - n) (- 1)) [0..<33]"

lemma fold_count: "fold (\<lambda>i n. if P i then n + 1 else n) is (n :: int) = n + int (length (filter P is))"
  by (induction "is" arbitrary: n) auto

lemma mask_bits_eq: "mask_bits m = int (card {i. i < 32 \<and> bit m i})"
proof -
  have "(drop_bit i m AND 1 \<noteq> 0) = bit m i" for i by (simp add: and_one_eq bit_iff_odd_drop_bit odd_iff_mod_2_eq_one)
  moreover have "length (filter (bit m) [0..<n]) = card {i. i < n \<and> bit m i}" for n
    by (simp add: length_filter_conv_card cong: conj_cong)
  ultimately show ?thesis unfolding mask_bits_def fold_count by simp
qed

lemma mask_bits_mono: "(\<And>i. bit m i \<Longrightarrow> bit m' i) \<Longrightarrow> mask_bits m \<le> mask_bits m'"
  unfolding mask_bits_eq by (auto intro: card_mono)

lemma prefix_maskE:
  assumes "prefix_mask m"
  obtains k where "m = push_bit k (- 1)"
proof -
  have "list_ex P [0..<N] \<Longrightarrow> \<exists>n. P n" for P N by (auto simp: list_ex_iff)
  with assms that show ?thesis unfolding prefix_mask_def by blast
qed

lemma prefix_mask_mono:
  assumes "prefix_mask m" and "prefix_mask m'" and "m \<le> m'"
  shows "mask_bits m \<le> mask_bits m'"
proof -
  obtain k k' where k: "m = push_bit k (- 1)" "m' = push_bit k' (- 1)"
    using assms(1,2) by (metis prefix_maskE)
  show ?thesis
  proof (cases "k' \<le> k")
    case True
    with k show ?thesis by (intro mask_bits_mono) (auto simp: bit_simps)
  next
    case False
    with k have "m AND m' = m'" by (intro bit_word_eqI) (auto simp: bit_simps)
    then have "m' \<le> m" by (metis word_and_le2)
    with assms(3) show ?thesis by simp
  qed
qed

lemma sorted_first_match:
  assumes "sorted (map rt_key es)" and "\<forall>e\<in>set es. re_active e \<longrightarrow> prefix_mask (ntohl (re_mask e))"
  shows "lpm_loop dst es None (- 1) = find (cand dst) es"
proof (cases "find (cand dst) es")
  case None
  then have "lpm_loop dst es None (- 1) = None" unfolding lpm_loop_None by (simp add: find_None_iff)
  with None show ?thesis by simp
next
  case (Some e)
  then obtain pre post where s: "es = pre @ e # post" and c: "cand dst e" "\<forall>x\<in>set pre. \<not> cand dst x"
    by (rule find_split)
  have "is_lpm dst es e"
  proof (rule is_lpmI [OF s c(1)])
    fix x assume "x \<in> set post" "cand dst x"
    moreover from this have "rt_key e \<le> rt_key x" using assms(1) s by (auto simp: sorted_append)
    then have "ntohl (re_mask x) \<le> ntohl (re_mask e)"
      by (auto simp: rt_key_def less_eq_prod_def word_le_def)
    ultimately show "re_bits x \<le> re_bits e" using assms(2) s c(1) by (intro prefix_mask_mono) auto
  qed (use c in auto)
  moreover obtain e' where "lpm_loop dst es None (- 1) = Some e'"
    using c s lpm_loop_None [of dst es] by (cases "lpm_loop dst es None (- 1)") auto
  ultimately show ?thesis using Some lpm_loop_Some is_lpm_unique by metis
qed

section \<open>What a modification leaves behind\<close>

text \<open>The state after the table has become \<open>es\<close>: sorted, and copied to the hardware on a NetFPGA.\<close>

definition rtable_commit :: "rtable_entry list \<Rightarrow> router_state \<Rightarrow> router_state" where
  "rtable_commit es rs =
    rs\<lparr>rtable := sort_key rt_key es,
       regs := regs rs @ (if is_netfpga rs
         then tcam_log (lpm_tcam_address (renv rs)) 0 (lpm_tcam_width (renv rs)) (filter re_active (sort_key rt_key es))
         else [])\<rparr>"

text \<open>The names of the interfaces of all rows the hardware receives are port names.\<close>

definition ports_ok :: "rtable_entry list \<Rightarrow> router_state \<Rightarrow> bool" where
  "ports_ok es rs = (is_netfpga rs \<longrightarrow> list_all (\<lambda>e. re_active e \<longrightarrow> port_known e) es)"

definition rows_distinct :: "router_state \<Rightarrow> bool" where
  "rows_distinct rs = distinct (map (\<lambda>i. lpm_tcam_address (renv rs) OR word_of_nat i) [0..<lpm_tcam_width (renv rs)])"

lemma rtable_commit_simps [simp]:
  "rtable (rtable_commit es rs) = sort_key rt_key es" "renv (rtable_commit es rs) = renv rs"
  "is_netfpga (rtable_commit es rs) = is_netfpga rs" "if_list (rtable_commit es rs) = if_list rs"
  "arp_cache (rtable_commit es rs) = arp_cache rs" "held (rtable_commit es rs) = held rs"
  "pwospf_router_list (rtable_commit es rs) = pwospf_router_list rs"
  by (simp_all add: rtable_commit_def)

lemma trigger_rtable_commit:
  assumes "ports_ok es rs"
  shows "trigger_rtable_modified (rs\<lparr>rtable := es\<rparr>) = Inr (rtable_commit es rs)"
proof -
  have "is_netfpga rs \<Longrightarrow> \<forall>e\<in>set (take n (filter re_active (sort_key rt_key es))). port_known e" for n
    using assms by (auto simp: ports_ok_def list_all_iff dest: in_set_takeD)
  then show ?thesis
    by (simp add: trigger_rtable_modified_eq write_rtable_to_hw_def write_tcam_rows_eq rtable_commit_def)
qed

lemma trigger_rtable_fails:
  "trigger_rtable_modified rs = Inr rs' \<Longrightarrow> rtable rs' = sort_key rt_key (rtable rs)"
proof -
  have "write_tcam_rows i n cur rs1 = Inr rs2 \<Longrightarrow> rtable rs2 = rtable rs1" for i n cur rs1 rs2
    by (induction i n cur rs1 rule: write_tcam_rows.induct) (auto simp: bindR_eq_Inr write_tcam_row_regs)
  then show "trigger_rtable_modified rs = Inr rs' \<Longrightarrow> rtable rs' = sort_key rt_key (rtable rs)"
    by (auto simp: trigger_rtable_modified_eq write_rtable_to_hw_def Let_def split: if_splits)
qed

text \<open>The hardware answers a lookup as the software does.\<close>

definition hw_in_sync :: "router_state \<Rightarrow> bool" where
  "hw_in_sync rs = (\<forall>dst. hw_next_hop rs dst = get_next_hop rs 32 dst)"

lemma find_map_nth: "find P (map f [0..<n]) = map_option f (find (P \<circ> f) [0..<n])"
  by (induction n) (auto simp: find_append split: option.splits)

lemma tcam_rows_map:
  assumes "length as \<le> n"
  shows "map (tcam_row as) [0..<n] = map entry_row as @ replicate (n - length as) (0, 0, 0, 0)"
  using assms by (intro nth_equalityI) (auto simp: tcam_row_def nth_append)

lemma row_match_entry: "row_match (ntohl dst) (entry_row e) = re_match dst e"
  by (simp add: row_match_def entry_row_def re_match_def Let_def)

lemma find_zero_rows: "find (row_match d) (replicate n (0, 0, 0, 0)) \<in> {None, Some (0, 0, 0, 0)}"
  by (induction n) (auto simp: row_match_def)

lemma hw_rows_commit:
  assumes "is_netfpga rs" and "rows_distinct rs" and "i < lpm_tcam_width (renv rs)"
  shows "hw_rows (regs (rtable_commit es rs)) (lpm_tcam_address (renv rs) OR word_of_nat i) =
    Some (tcam_row (filter re_active (sort_key rt_key es)) i)"
proof -
  have "inj_on (\<lambda>i. lpm_tcam_address (renv rs) OR word_of_nat i) {..<lpm_tcam_width (renv rs)}"
    using assms(2) by (simp add: rows_distinct_def distinct_map atLeast0LessThan)
  from hw_run_tcam_log [OF this assms(3)] show ?thesis using assms(1) by (simp add: hw_rows_def rtable_commit_def)
qed

lemma rtable_commit_in_sync:
  assumes "is_netfpga rs" "rows_distinct rs" "ports_ok es rs"
    and "list_all (\<lambda>e. re_active e \<longrightarrow> prefix_mask (ntohl (re_mask e))) es"
    and "length (filter re_active es) \<le> lpm_tcam_width (renv rs)"
  shows "hw_in_sync (rtable_commit es rs)"
  unfolding hw_in_sync_def
proof
  fix dst
  let ?es = "sort_key rt_key es" and ?w = "lpm_tcam_width (renv rs)"
  let ?as = "filter re_active ?es"
  have "mset ?as = mset (filter re_active es)" by simp
  then have len: "length ?as \<le> ?w" using assms(5) by (metis size_mset)
  have rows: "map (\<lambda>i. the (hw_rows (regs (rtable_commit es rs)) (lpm_tcam_address (renv rs) OR word_of_nat i))) [0..<?w]
      = map entry_row ?as @ replicate (?w - length ?as) (0, 0, 0, 0)"
    unfolding tcam_rows_map [OF len, symmetric] using hw_rows_commit [OF assms(1,2)] by simp
  have find: "find (row_match (ntohl dst)) (map entry_row xs) = map_option entry_row (find (re_match dst) xs)" for xs
    by (induction xs) (auto simp: row_match_entry)
  have sw: "lpm_loop dst ?es None (- 1) = find (re_match dst) ?as"
    using assms(4) by (subst sorted_first_match) (auto simp: list_all_iff find_filter)
  show "hw_next_hop (rtable_commit es rs) dst = get_next_hop (rtable_commit es rs) 32 dst"
  proof (cases "find (re_match dst) ?as")
    case None
    with find_zero_rows [of "ntohl dst" "?w - length ?as"] show ?thesis
      by (auto simp: hw_next_hop_def get_next_hop_def rows sw find_append find Let_def)
  next
    case (Some e)
    then have "port_known e" using assms(1,3) find_Some_D [OF Some] by (auto simp: ports_ok_def list_all_iff)
    moreover from this have "take 32 (re_iface e) = re_iface e" by (auto simp: port_known_def port_names)
    ultimately show ?thesis using Some
      by (auto simp: hw_next_hop_def get_next_hop_def rows sw find_append find Let_def entry_row_def
          port_of_round_trip)
  qed
qed

text \<open>
  The four operations share one contract: they rewrite the table by a pure function and hand it to
  \<open>trigger_rtable_modified\<close>. The lemmas of the locale hold for each of them.
\<close>

locale route_update =
  fixes upd :: "int act" and f :: "rtable_entry list \<Rightarrow> rtable_entry list" and ret :: "rtable_entry list \<Rightarrow> int"
  assumes upd_eq: "upd rs = bindR (trigger_rtable_modified (rs\<lparr>rtable := f (rtable rs)\<rparr>)) (\<lambda>rs'. Inr (ret (rtable rs), rs'))"
begin

lemma upd_returns:
  "ports_ok (f (rtable rs)) rs \<Longrightarrow> upd rs = Inr (ret (rtable rs), rtable_commit (f (rtable rs)) rs)"
  by (simp add: upd_eq trigger_rtable_commit)

lemma upd_table:
  "upd rs = Inr (r, rs') \<Longrightarrow> r = ret (rtable rs) \<and> rtable rs' = sort_key rt_key (f (rtable rs))"
  by (auto simp: upd_eq bindR_eq_Inr dest: trigger_rtable_fails)

lemma upd_sorted: "upd rs = Inr (r, rs') \<Longrightarrow> rtable_sorted rs'"
  by (simp add: rtable_sorted_def upd_table)

end

lemma del_loop_eq:
  "del_loop dest m es n =
    (n + int (length (filter (\<lambda>e. re_ip e = dest \<and> re_mask e = m) es)),
     filter (\<lambda>e. \<not> (re_ip e = dest \<and> re_mask e = m)) es)"
  by (induction es arbitrary: n) auto

interpretation add: route_update "add_route dest gateway m interface"
  "\<lambda>es. es @ [\<lparr>re_ip = dest, re_gw = gateway, re_mask = m, re_iface = take 32 interface, re_static = True, re_active = True\<rparr>]"
  "\<lambda>es. 0" for dest gateway m interface
  by unfold_locales (simp add: add_route_def)

interpretation del: route_update "del_route dest m" "filter (\<lambda>e. \<not> (re_ip e = dest \<and> re_mask e = m))"
  "\<lambda>es. int (length (filter (\<lambda>e. re_ip e = dest \<and> re_mask e = m) es))" for dest m
  by unfold_locales (simp add: del_route_def del_loop_eq)

interpretation deact: route_update "deactivate_routes interface" "deactivate_loop interface" "\<lambda>es. 0" for interface
  by unfold_locales (simp add: deactivate_routes_def)

interpretation act: route_update "activate_routes interface"
  "map (\<lambda>e. if on_iface interface e then e\<lparr>re_active := True\<rparr> else e)" "\<lambda>es. 0" for interface
  by unfold_locales (simp add: activate_routes_def)

text \<open>Any sequence of table operations.\<close>

datatype rt_op = AddRoute u32 u32 u32 string | DelRoute u32 u32 | DeactivateRoutes string | ActivateRoutes string

fun rt_exec :: "rt_op \<Rightarrow> int act" where
  "rt_exec (AddRoute d g m i) = add_route d g m i"
| "rt_exec (DelRoute d m) = del_route d m"
| "rt_exec (DeactivateRoutes i) = deactivate_routes i"
| "rt_exec (ActivateRoutes i) = activate_routes i"

fun rt_effect :: "rt_op \<Rightarrow> rtable_entry list \<Rightarrow> rtable_entry list" where
  "rt_effect (AddRoute d g m i) es =
    es @ [\<lparr>re_ip = d, re_gw = g, re_mask = m, re_iface = take 32 i, re_static = True, re_active = True\<rparr>]"
| "rt_effect (DelRoute d m) es = filter (\<lambda>e. \<not> (re_ip e = d \<and> re_mask e = m)) es"
| "rt_effect (DeactivateRoutes i) es = deactivate_loop i es"
| "rt_effect (ActivateRoutes i) es = map (\<lambda>e. if on_iface i e then e\<lparr>re_active := True\<rparr> else e) es"

lemma rt_exec_returns:
  "ports_ok (rt_effect opn (rtable rs)) rs \<Longrightarrow>
   \<exists>r. rt_exec opn rs = Inr (r, rtable_commit (rt_effect opn (rtable rs)) rs)"
  by (cases opn) (auto simp: add.upd_returns del.upd_returns deact.upd_returns act.upd_returns)

lemma deactivate_loop_inactive: "e \<in> set (deactivate_loop i es) \<Longrightarrow> on_iface i e \<Longrightarrow> \<not> re_active e"
  by (induction es) (auto split: if_splits simp: on_iface_def)

lemma lpm_loop_iff: "lpm_loop dst es None (- 1) = Some e \<longleftrightarrow> is_lpm dst es e"
proof
  assume e: "is_lpm dst es e"
  then have "e \<in> set es \<and> cand dst e" by (auto elim: is_lpmE)
  then obtain e' where "lpm_loop dst es None (- 1) = Some e'"
    using lpm_loop_None [of dst es] by (cases "lpm_loop dst es None (- 1)") auto
  then show "lpm_loop dst es None (- 1) = Some e" using is_lpm_unique [OF e] lpm_loop_Some by blast
qed (rule lpm_loop_Some)

lemma get_next_hop_Some:
  "get_next_hop rs len dst = Some (nh, i) \<longleftrightarrow>
   (\<exists>e. is_lpm dst (rtable rs) e \<and> nh = (if re_gw e = 0 then dst else re_gw e) \<and> i = take len (re_iface e))"
  unfolding lpm_loop_iff [symmetric] by (auto simp: get_next_hop_def split: option.splits)

lemma get_next_hop_None: "get_next_hop rs len dst = None \<longleftrightarrow> filter (cand dst) (rtable rs) = []"
  unfolding filter_empty_conv lpm_loop_None [symmetric] by (auto simp: get_next_hop_def split: option.splits)

section \<open>Properties\<close>

text \<open>
  Claim C2. \<open>get_next_hop\<close> is a longest-prefix match: it fails (returns 1) exactly when no active route
  matches the destination, and otherwise returns the gateway (or the destination itself, for gateway
  0.0.0.0) and the interface of the route that \<open>is_lpm\<close> selects: an active matching route with the
  most mask bits, the first one in the table among those.
\<close>

theorem get_next_hop_lpm:
  "(get_next_hop rs len dst = None \<longleftrightarrow> filter (cand dst) (rtable rs) = []) \<and>
   (get_next_hop rs len dst = Some (nh, i) \<longleftrightarrow>
     (\<exists>e. is_lpm dst (rtable rs) e \<and> nh = (if re_gw e = 0 then dst else re_gw e) \<and> i = take len (re_iface e)))"
  using get_next_hop_None get_next_hop_Some by blast

text \<open>
  Claim C4. After any routing table operation on a NetFPGA the hardware answers every lookup as the software
  does: reading the rows that the register log has committed, the first matching row gives the next
  hop and interface of \<open>get_next_hop\<close>. The hypotheses are that the interfaces of the active routes are
  port names (otherwise the code asserts), that their masks are prefix masks, that they fit into the
  TCAM and that the row addresses of the register map are distinct.
\<close>

theorem rt_exec_hw_in_sync:
  assumes "is_netfpga rs" and "rows_distinct rs"
    and "ports_ok (rt_effect opn (rtable rs)) rs"
    and "list_all (\<lambda>e. re_active e \<longrightarrow> prefix_mask (ntohl (re_mask e))) (rt_effect opn (rtable rs))"
    and "length (filter re_active (rt_effect opn (rtable rs))) \<le> lpm_tcam_width (renv rs)"
  shows "\<exists>r rs'. rt_exec opn rs = Inr (r, rs') \<and> rtable rs' = sort_key rt_key (rt_effect opn (rtable rs)) \<and>
    (\<forall>dst. hw_next_hop rs' dst = get_next_hop rs' 32 dst)"
proof -
  obtain r where "rt_exec opn rs = Inr (r, rtable_commit (rt_effect opn (rtable rs)) rs)"
    using rt_exec_returns [OF assms(3)] by blast
  with rtable_commit_in_sync [OF assms] show ?thesis by (auto simp: hw_in_sync_def)
qed

lemma prefix_maskI: "n \<le> 32 \<Longrightarrow> m = push_bit (32 - n) (- 1) \<Longrightarrow> prefix_mask m"
proof -
  have "n < N \<Longrightarrow> P n \<Longrightarrow> list_ex P [0..<N]" for P N by (auto simp: list_ex_iff)
  then show "n \<le> 32 \<Longrightarrow> m = push_bit (32 - n) (- 1) \<Longrightarrow> prefix_mask m" unfolding prefix_mask_def by force
qed

lemma distinct_word_of_nat: "n \<le> 65536 \<Longrightarrow> distinct (map (word_of_nat :: nat \<Rightarrow> u32) [0..<n])"
  by (auto simp: distinct_map inj_on_def word_of_nat_eq_iff take_bit_nat_eq_self)

theorem rt_exec_hw_in_sync_witness:
  "\<exists>r rs'. rt_exec (AddRoute 0x0A 0 0xFF ''eth0'') (bzero_state demo_env\<lparr>is_netfpga := True\<rparr>) = Inr (r, rs') \<and>
    rtable rs' = sort_key rt_key [\<lparr>re_ip = 0x0A, re_gw = 0, re_mask = 0xFF, re_iface = ''eth0'', re_static = True, re_active = True\<rparr>] \<and>
    (\<forall>dst. hw_next_hop rs' dst = get_next_hop rs' 32 dst)"
proof -
  let ?rs = "bzero_state demo_env\<lparr>is_netfpga := True\<rparr>" and ?op = "AddRoute 0x0A 0 0xFF ''eth0''"
  have m: "prefix_mask (ntohl 0xFF)"
    by (rule prefix_maskI [of 8]) (simp_all add: ntohl_def byte32_def le32_def mask_eq_exp_minus_1 not_eq_complement)
  have d: "rows_distinct ?rs" unfolding rows_distinct_def demo_env_def
    by (simp add: distinct_word_of_nat [of 32])
  show ?thesis using rt_exec_hw_in_sync [of ?rs ?op, OF _ d] m
    by (simp add: bzero_state_def demo_env_def ports_ok_def port_known_def ETH0_def)
qed

text \<open>
  \<open>del_route\<close> returns the number of routes with the given destination and mask and leaves exactly the
  others, in the order of the sort, whatever their interface or origin.
\<close>

theorem del_route_removes:
  assumes "del_route dest m rs = Inr (r, rs')"
  shows "r = int (length (filter (\<lambda>e. re_ip e = dest \<and> re_mask e = m) (rtable rs))) \<and>
    rtable rs' = sort_key rt_key (filter (\<lambda>e. \<not> (re_ip e = dest \<and> re_mask e = m)) (rtable rs)) \<and>
    filter (\<lambda>e. re_ip e = dest \<and> re_mask e = m) (rtable rs') = []"
  using del.upd_table [OF assms] by (auto simp: filter_empty_conv)

lemma demo_routes:
  "ports_ok es (bzero_state demo_env)" "ports_ok es (bzero_state demo_env\<lparr>rtable := xs\<rparr>)"
  by (simp_all add: ports_ok_def bzero_state_def)

theorem del_route_removes_witness:
  "\<exists>rs'. del_route 1 2 (bzero_state demo_env\<lparr>rtable := [\<lparr>re_ip = 1, re_gw = 0, re_mask = 2, re_iface = ''eth0'',
      re_static = True, re_active = True\<rparr>]\<rparr>) = Inr (1, rs') \<and> rtable rs' = []"
proof -
  let ?rs = "bzero_state demo_env\<lparr>rtable := [\<lparr>re_ip = 1, re_gw = 0, re_mask = 2, re_iface = ''eth0'',
      re_static = True, re_active = True\<rparr>]\<rparr>"
  obtain rs' r where d: "del_route 1 2 ?rs = Inr (r, rs')" using del.upd_returns [of 1 2 ?rs] demo_routes by blast
  from del_route_removes [OF d] d show ?thesis by simp
qed

text \<open>
  Once the routes of an interface have been deactivated, no lookup leads to that interface: the
  interface that \<open>get_next_hop\<close> returns never starts with the deactivated name.
\<close>

theorem deactivate_routes_no_hop:
  assumes "deactivate_routes interface rs = Inr (r, rs')" and "length interface \<le> 32"
    and "get_next_hop rs' 32 dst = Some (nh, i)"
  shows "\<not> strncmp_eq i interface (length interface)"
proof -
  from assms(3) obtain e where e: "is_lpm dst (rtable rs') e" and i: "i = take 32 (re_iface e)"
    by (auto simp: get_next_hop_Some)
  from e have "e \<in> set (rtable rs')" "re_active e" by (auto elim: is_lpmE)
  then have "\<not> on_iface interface e" using deact.upd_table [OF assms(1)] deactivate_loop_inactive by auto
  then show ?thesis using i assms(2) by (simp add: on_iface_def strncmp_eq_def min_def)
qed

theorem deactivate_routes_no_hop_witness:
  "\<exists>rs'. deactivate_routes ''eth0'' (bzero_state demo_env\<lparr>rtable := [\<lparr>re_ip = 0, re_gw = 7, re_mask = 0, re_iface = ''eth1'',
      re_static = True, re_active = True\<rparr>]\<rparr>) = Inr (0, rs') \<and> get_next_hop rs' 32 5 = Some (7, ''eth1'') \<and>
    \<not> strncmp_eq ''eth1'' ''eth0'' (length ''eth0'')"
proof -
  let ?rs = "bzero_state demo_env\<lparr>rtable := [\<lparr>re_ip = 0, re_gw = 7, re_mask = 0, re_iface = ''eth1'',
      re_static = True, re_active = True\<rparr>]\<rparr>"
  obtain rs' r where d: "deactivate_routes ''eth0'' ?rs = Inr (r, rs')"
    using deact.upd_returns [of "''eth0''" ?rs] demo_routes by blast
  have "rtable rs' = rtable ?rs" "r = 0"
    using deact.upd_table [OF d] by (simp_all add: on_iface_def strncmp_eq_def)
  then have h: "get_next_hop rs' 32 5 = Some (7, ''eth1'')"
    using mask_bits_nonneg [of 0] by (simp add: get_next_hop_def re_match_def)
  from deactivate_routes_no_hop [OF d _ h] h d \<open>r = 0\<close> show ?thesis by auto
qed

text \<open>
  Bringing an interface down and up again restores the table: on a sorted table of static,
  active routes, \<open>activate_routes\<close> after \<open>deactivate_routes\<close> gives the table back.
\<close>

theorem deactivate_activate_restores:
  assumes "rtable_sorted rs" and "list_all (\<lambda>e. re_static e \<and> re_active e) (rtable rs)"
    and "deactivate_routes interface rs = Inr (r, rs')" and "activate_routes interface rs' = Inr (r', rs'')"
  shows "rtable rs'' = rtable rs"
proof -
  let ?up = "\<lambda>e. if on_iface interface e then e\<lparr>re_active := True\<rparr> else e"
  have key: "map rt_key (deactivate_loop interface es) = map rt_key es" if "list_all re_static es" for es
    using that by (induction es) (auto simp: rt_key_def)
  have up: "map ?up (deactivate_loop interface es) = es" if "list_all (\<lambda>e. re_static e \<and> re_active e) es" for es
    using that by (induction es) (auto simp: on_iface_def)
  have st: "list_all re_static (rtable rs)" using assms(2) by (auto simp: list_all_iff)
  have "rtable rs' = deactivate_loop interface (rtable rs)"
    using deact.upd_table [OF assms(3)] assms(1) key [OF st] by (simp add: rtable_sorted_def sort_key_id_if_sorted)
  then have "rtable rs'' = sort_key rt_key (map ?up (deactivate_loop interface (rtable rs)))"
    using act.upd_table [OF assms(4)] by simp
  then show ?thesis using up [OF assms(2)] assms(1) by (simp add: rtable_sorted_def sort_key_id_if_sorted)
qed

theorem deactivate_activate_restores_witness:
  "\<exists>rs' rs''. deactivate_routes ''eth0'' (bzero_state demo_env\<lparr>rtable := [\<lparr>re_ip = 0, re_gw = 7, re_mask = 0, re_iface = ''eth0'',
      re_static = True, re_active = True\<rparr>]\<rparr>) = Inr (0, rs') \<and> activate_routes ''eth0'' rs' = Inr (0, rs'') \<and>
    rtable rs'' = [\<lparr>re_ip = 0, re_gw = 7, re_mask = 0, re_iface = ''eth0'', re_static = True, re_active = True\<rparr>]"
proof -
  let ?rs = "bzero_state demo_env\<lparr>rtable := [\<lparr>re_ip = 0, re_gw = 7, re_mask = 0, re_iface = ''eth0'',
      re_static = True, re_active = True\<rparr>]\<rparr>"
  have d: "deactivate_routes ''eth0'' ?rs = Inr (0, rtable_commit (deactivate_loop ''eth0'' (rtable ?rs)) ?rs)"
    using deact.upd_returns [of "''eth0''" ?rs] demo_routes by blast
  define rs' where "rs' = rtable_commit (deactivate_loop ''eth0'' (rtable ?rs)) ?rs"
  have "ports_ok es rs'" for es by (simp add: ports_ok_def rs'_def bzero_state_def)
  then obtain rs'' where a: "activate_routes ''eth0'' rs' = Inr (0, rs'')" using act.upd_returns [of "''eth0''" rs'] by blast
  have "rtable_sorted ?rs" by (simp add: rtable_sorted_def)
  from deactivate_activate_restores [OF this _ d a [unfolded rs'_def]] d a show ?thesis by (auto simp: rs'_def)
qed

end
