(* ===== verification/Icmp.thy ===== *)
theory Icmp
  imports Arp Rtable
begin

text \<open>
  \<^verbatim>\<open>or_icmp.c\<close>: building and sending ICMP messages, the reaction to echo requests and replies; and
  the aging of the ARP queue in \<^verbatim>\<open>or_arp.c\<close> (\<open>process_arp_queue\<close>, one iteration of \<open>arp_thread\<close>), which
  returns ICMP host unreachable for the packets of a next hop that never answered.
\<close>

section \<open>Building and sending a message\<close>

text \<open>The common end of both senders: the ICMP checksum, the IP header and its checksum, the Ethernet
  header.\<close>

definition seal_icmp :: "packet \<Rightarrow> nat \<Rightarrow> u32 \<Rightarrow> u32 \<Rightarrow> iface_entry \<Rightarrow> packet res" where
  "seal_icmp p icmp_payload_len ip_from ip_to iface =
    bindR (compute_icmp_checksum p icmp_at (int icmp_payload_len)) (\<lambda>(c, p).
    bindR (st16 p (icmp_at + 2) (htons c)) (\<lambda>p.
    bindR (populate_ip p ip_at (word_of_nat (4 + icmp_payload_len)) IP_PROTO_ICMP ip_from ip_to) (\<lambda>p.
    bindR (compute_ip_checksum p ip_at) (\<lambda>(c, p).
    bindR (st16 p (ip_at + 10) (htons c)) (\<lambda>p.
    populate_eth_hdr p 0 None (if_addr iface) ETH_TYPE_IP)))))"

text \<open>The part of \<^verbatim>\<open>send_icmp_packet\<close> that writes the new packet, once the outgoing interface is known.\<close>

definition build_icmp :: "packet \<Rightarrow> u8 \<Rightarrow> u8 \<Rightarrow> iface_entry \<Rightarrow> packet res" where
  "build_icmp src icmp_type icmp_code iface =
    (let new_packet_len = (if icmp_type = ICMP_ECHO_REPLY then length src else 14 + 20 + 4 + 4 + 20 + 8);
         icmp_payload_len = (if icmp_type = ICMP_ECHO_REPLY then new_packet_len - (14 + 20 + 4) else 4 + 20 + 8) in
     bindR (if icmp_type = ICMP_ECHO_REPLY
            then populate_icmp (bzero new_packet_len) icmp_at icmp_type icmp_code src (icmp_at + 4) icmp_payload_len
            else bindR (memcpy (bzero icmp_payload_len) 4 src ip_at (icmp_payload_len - 4)) (\<lambda>new_payload.
                 populate_icmp (bzero new_packet_len) icmp_at icmp_type icmp_code new_payload 0 icmp_payload_len)) (\<lambda>np.
     bindR (ld32 src (ip_at + 12)) (\<lambda>ip_src.
     bindR (if icmp_type = ICMP_ECHO_REPLY \<or> (icmp_type = ICMP_DEST_UNREACHABLE \<and> icmp_code = 3)
            then ld32 src (ip_at + 16) else Inr (if_ip iface)) (\<lambda>from.
     seal_icmp np icmp_payload_len from ip_src iface))))"

definition send_icmp_packet :: "packet \<Rightarrow> u8 \<Rightarrow> u8 \<Rightarrow> int act" where
  "send_icmp_packet src icmp_type icmp_code rs =
    bindR (ld32 src (ip_at + 12)) (\<lambda>ip_src.
    case get_next_hop rs 32 ip_src of
      None \<Rightarrow> Inr (1, rs)
    | Some (next_hop, iface) \<Rightarrow>
        (case get_iface rs iface of
           None \<Rightarrow> Inl AssertFail
         | Some iface_struct \<Rightarrow>
             bindR (build_icmp src icmp_type icmp_code iface_struct) (\<lambda>np.
             send_ip np next_hop (if_name iface_struct) rs)))"

definition send_icmp_echo_request_packet :: "u32 \<Rightarrow> u16 \<Rightarrow> int act" where
  "send_icmp_echo_request_packet dst ident rs =
    (case get_next_hop rs 32 dst of
       None \<Rightarrow> Inr (1, rs)
     | Some (next_hop, iface) \<Rightarrow>
         bindR (derefR (get_iface rs iface)) (\<lambda>iface_struct.
         bindR (st_all (bzero 60) [(0, bytes16 ident), (4, populate_padding 56)]) (\<lambda>icmp_payload.
         bindR (populate_icmp (bzero 98) icmp_at ICMP_ECHO_REQUEST 0 icmp_payload 0 60) (\<lambda>p.
         bindR (seal_icmp p 60 (if_ip iface_struct) dst iface_struct) (\<lambda>p.
         send_ip p next_hop (if_name iface_struct) rs)))))"

section \<open>Incoming messages\<close>

definition process_icmp_echo_reply_packet :: "packet \<Rightarrow> int act" where
  "process_icmp_echo_reply_packet p rs =
    (let sping_entry = \<lparr>sq_packet = p, sq_arrival_time = clock rs\<rparr> in
     bindR (acquire SpingMutex Wr rs) (\<lambda>rs.
     let rs = pthread_cond_signal SpingCond (rs\<lparr>sping_queue := sping_queue rs @ [sping_entry]\<rparr>) in
     bindR (release SpingMutex rs) (\<lambda>rs. Inr (1, rs))))"

definition process_icmp_packet :: "packet \<Rightarrow> router_state \<Rightarrow> router_state res" where
  "process_icmp_packet p rs =
    bindR (ld8 p icmp_at) (\<lambda>icmp_type.
    bindR (if icmp_type = ICMP_ECHO_REQUEST
           then bindR (send_icmp_packet p ICMP_ECHO_REPLY 0 rs) (\<lambda>(_, rs). Inr rs) else Inr rs) (\<lambda>rs.
    if icmp_type = ICMP_ECHO_REPLY
    then bindR (process_icmp_echo_reply_packet p rs) (\<lambda>(_, rs). Inr rs) else Inr rs))"

section \<open>Aging the ARP queue\<close>

text \<open>The ICMP error for one packet of an entry that has used up its requests.\<close>

definition unreachable_packet :: "packet \<Rightarrow> router_state \<Rightarrow> router_state res" where
  "unreachable_packet p rs =
    bindR (ld8 p (ip_at + 9)) (\<lambda>ip_p.
    bindR (if ip_p \<noteq> IP_PROTO_ICMP then Inr True
           else bindR (ld8 p icmp_at) (\<lambda>t. Inr (t = ICMP_ECHO_REPLY \<or> t = ICMP_ECHO_REQUEST))) (\<lambda>reply.
    if \<not> reply then Inr rs
    else
      bindR (ld32 p (ip_at + 12)) (\<lambda>ip_src.
      if iface_match_ip rs ip_src \<noteq> 0 then Inr rs
      else
        bindR (ld8 p (ip_at + 8)) (\<lambda>ttl.
        bindR (if ttl < 255
               then bindR (st8 p (ip_at + 8) (ttl + 1)) (\<lambda>p.
                    bindR (st16 p (ip_at + 10) 0) (\<lambda>p.
                    bindR (compute_ip_checksum p ip_at) (\<lambda>(c, p). st16 p (ip_at + 10) (htons c))))
               else Inr p) (\<lambda>p.
        bindR (send_icmp_packet p ICMP_DEST_UNREACHABLE 1 rs) (\<lambda>(_, rs). Inr rs))))))"

partial_function (option) expire_entry_packets :: "nat \<Rightarrow> router_state \<Rightarrow> router_state res option" where
  "expire_entry_packets i rs =
    (case aq_head (arp_queue rs ! i) of
       [] \<Rightarrow> Some (Inr rs)
     | aqpe # _ \<Rightarrow>
        (case unreachable_packet (aqp_packet aqpe) rs of
           Inl f \<Rightarrow> Some (Inl f)
         | Inr rs' \<Rightarrow> expire_entry_packets i (upd_queue_at i (\<lambda>a. a\<lparr>aq_head := tl (aq_head a)\<rparr>) rs')))"

declare expire_entry_packets.simps [code]

partial_function (option) process_arp_queue_from :: "nat \<Rightarrow> bool \<Rightarrow> router_state \<Rightarrow> router_state res option" where
  "process_arp_queue_from i n rs =
    (if \<not> n then Some (Inr rs)
     else
       let more = Suc i < length (arp_queue rs); aqe = arp_queue rs ! i in
       if clock rs - aq_last_req_time aqe > 1
       then if aq_requests aqe < 5
            then case send_arp_request (aq_next_hop aqe) (aq_out_iface_name aqe)
                   (upd_queue_at i (\<lambda>a. a\<lparr>aq_last_req_time := clock rs, aq_requests := aq_requests a + 1\<rparr>) rs) of
                   Inl f \<Rightarrow> Some (Inl f)
                 | Inr rs' \<Rightarrow> process_arp_queue_from (Suc i) more rs'
            else Option.bind (expire_entry_packets i rs) (\<lambda>r.
                   case r of Inl f \<Rightarrow> Some (Inl f)
                   | Inr rs' \<Rightarrow> process_arp_queue_from i more (remove_queue_at i rs'))
       else process_arp_queue_from (Suc i) more rs)"

declare process_arp_queue_from.simps [code]

definition process_arp_queue :: "router_state \<Rightarrow> router_state res" where
  "process_arp_queue rs =
    (case process_arp_queue_from 0 (arp_queue rs \<noteq> []) rs of None \<Rightarrow> Inl NonTermination | Some r \<Rightarrow> r)"

text \<open>One iteration of the endless loop of \<^verbatim>\<open>arp_thread\<close>, up to its \<^verbatim>\<open>sleep\<close>.\<close>

definition arp_thread_step :: "router_state \<Rightarrow> router_state res" where
  "arp_thread_step rs =
    bindR (acquire ArpCacheLock Wr rs) (\<lambda>rs.
    bindR (release ArpCacheLock (expire_arp_cache rs)) (\<lambda>rs.
    bindR (acquire ArpCacheLock Rd rs) (\<lambda>rs.
    bindR (acquire ArpQueueLock Wr rs) (\<lambda>rs.
    bindR (acquire IfListLock Rd rs) (\<lambda>rs.
    bindR (acquire RtableLock Rd rs) (\<lambda>rs.
    bindR (process_arp_queue rs) (\<lambda>rs.
    bindR (release RtableLock rs) (\<lambda>rs.
    bindR (release IfListLock rs) (\<lambda>rs.
    bindR (release ArpQueueLock rs) (\<lambda>rs.
    release ArpCacheLock rs))))))))))"

section \<open>The messages that are built\<close>

lemma vsum_loop_cong:
  "(\<And>k. off + 2 * i \<le> k \<Longrightarrow> k < off + 2 * (i + n) \<Longrightarrow> p ! k = q ! k) \<Longrightarrow> off + 2 * (i + n) \<le> length p \<Longrightarrow>
   off + 2 * (i + n) \<le> length q \<Longrightarrow> vsum_loop p off i n s = vsum_loop q off i n s"
proof (induction n arbitrary: i s)
  case (Suc n)
  have "p ! (off + 2 * i) = q ! (off + 2 * i)" "p ! (off + 2 * i + 1) = q ! (off + 2 * i + 1)" by (rule Suc.prems(1); simp)+
  moreover have "vsum_loop p off (Suc i) n s' = vsum_loop q off (Suc i) n s'" for s'
    using Suc.prems(2,3) by (intro Suc.IH Suc.prems(1)) auto
  ultimately show ?case using Suc.prems(2,3) by (simp add: ld16_def)
qed simp

lemma verify_checksum_cong:
  assumes "\<And>k. off \<le> k \<Longrightarrow> k < off + n \<Longrightarrow> p ! k = q ! k" and "off + n \<le> length p" "off + n \<le> length q"
  shows "verify_checksum p off n = verify_checksum q off n"
proof -
  have "2 * (n div 2) \<le> n" by simp
  then have "vsum_loop p off 0 (n div 2) 0 = vsum_loop q off 0 (n div 2) 0" using assms by (intro vsum_loop_cong) auto
  then show ?thesis by (simp add: verify_checksum_def)
qed

lemma put_csum_nth:
  "k + 2 \<le> length p \<Longrightarrow> i < length p \<Longrightarrow> i \<noteq> k \<Longrightarrow> i \<noteq> k + 1 \<Longrightarrow> put_csum p k c ! i = p ! i"
  "k + 2 \<le> length p \<Longrightarrow> length (put_csum p k c) = length p"
  by (auto simp: put_csum_def nth_upd_bytes)

lemma ip_header_nth:
  "ip_header n pr s d ! 0 = 0x45" "ip_header n pr s d ! 9 = pr"
  "j < 4 \<Longrightarrow> ip_header n pr s d ! (12 + j) = bytes32 s ! j" "j < 4 \<Longrightarrow> ip_header n pr s d ! (16 + j) = bytes32 d ! j"
  by (simp_all add: ip_header_def nth_append bytes16_def)

lemma seal_icmp_ok:
  assumes "length p = 38 + 2 * m" "2 * m \<le> 65000" "length (if_addr iface) = 6"
  shows "\<exists>q. seal_icmp p (2 * m) ip_from ip_to iface = Inr q \<and> length q = length p \<and>
    verify_checksum q 14 20 = Inr 0 \<and> verify_checksum q 34 (4 + 2 * m) = Inr 0 \<and>
    (\<forall>k<length p. 34 \<le> k \<longrightarrow> k \<noteq> 36 \<longrightarrow> k \<noteq> 37 \<longrightarrow> q ! k = p ! k) \<and>
    q ! 23 = 1 \<and> ld32 q 26 = Inr ip_from \<and> ld32 q 30 = Inr ip_to"
proof -
  have e: "2 * (m + 2) = 4 + 2 * m" "int (4 + 2 * m) - 4 = int (2 * m)" by simp_all
  obtain c q1 where c: "compute_icmp_checksum p 34 (int (2 * m)) = Inr (c, q1)" "st16 q1 36 (htons c) = Inr (put_csum p 36 c)"
    "verify_checksum (put_csum p 36 c) 34 (4 + 2 * m) = Inr 0"
    using icmp_checksum_roundtrip [of "m + 2" 34 p, unfolded e] assms by auto
  define p1 where "p1 = put_csum p 36 c"
  have l1: "length p1 = length p" using assms by (simp add: p1_def put_csum_nth)
  define h where "h = ip_header (word_of_nat (4 + 2 * m)) 1 ip_from ip_to"
  define p2 where "p2 = upd_bytes p1 14 h"
  have lh: "length h = 20" by (simp add: h_def)
  have l2: "length p2 = length p" using assms l1 lh by (simp add: p2_def)
  have n2: "p2 ! k = (if k < 14 \<or> 34 \<le> k then p1 ! k else h ! (k - 14))" if "k < length p" for k
    using that assms l1 lh by (simp add: p2_def nth_upd_bytes)
  have b: "p2 ! 14 = 0x45" "p2 ! 23 = 1" using assms by (simp_all add: n2 h_def ip_header_nth)
  obtain d q2 where d: "compute_ip_checksum p2 14 = Inr (d, q2)" "st16 q2 24 (htons d) = Inr (put_csum p2 24 d)"
    "verify_checksum (put_csum p2 24 d) 14 20 = Inr 0"
    using ip_checksum_roundtrip [of p2 14 5] b(1) l2 assms(1) by auto
  define p3 where "p3 = put_csum p2 24 d"
  have l3: "length p3 = length p" using assms l2 by (simp add: p3_def put_csum_nth)
  define q where "q = upd_bytes p3 6 (if_addr iface @ bytes16 (htons 0x0800))"
  have lq: "length q = length p" using assms l3 by (simp add: q_def)
  have nq: "q ! k = p3 ! k" if "14 \<le> k" "k < length p" for k
    using that assms l3 by (simp add: q_def nth_upd_bytes)
  have nq2: "q ! k = p2 ! k" if "14 \<le> k" "k < length p" "k \<noteq> 24" "k \<noteq> 25" for k
    using that nq assms(1) l2 by (simp add: p3_def put_csum_nth)
  have nq1: "q ! k = p1 ! k" if "34 \<le> k" "k < length p" for k using that nq2 n2 by simp
  have eth: "populate_eth_hdr p3 0 None (if_addr iface) 0x0800 = Inr q"
    using assms l3 by (simp add: populate_eth_eq q_def)
  have ip: "populate_ip p1 14 (word_of_nat (4 + 2 * m)) 1 ip_from ip_to = Inr p2"
    using assms l1 by (simp add: populate_ip_eq p2_def h_def)
  have run: "seal_icmp p (2 * m) ip_from ip_to iface = Inr q"
    using c d ip eth by (simp add: seal_icmp_def p1_def p3_def)
  have v1: "verify_checksum q 14 20 = Inr 0"
    using verify_checksum_cong [of 14 20 q p3] nq d(3) lq l3 assms(1) by (simp add: p3_def)
  have v2: "verify_checksum q 34 (4 + 2 * m) = Inr 0"
    using verify_checksum_cong [of 34 "4 + 2 * m" q p1] nq1 c(3) lq l1 assms(1) by (simp add: p1_def)
  have keep: "\<forall>k<length p. 34 \<le> k \<longrightarrow> k \<noteq> 36 \<longrightarrow> k \<noteq> 37 \<longrightarrow> q ! k = p ! k"
    using nq1 assms(1) by (simp add: p1_def put_csum_nth)
  have "q ! (26 + j) = bytes32 ip_from ! j \<and> q ! (30 + j) = bytes32 ip_to ! j" if "j < 4" for j
    using that nq2 [of "26 + j"] nq2 [of "30 + j"] assms(1) by (simp add: n2 h_def ip_header_nth)
  from this [of 0] this [of 1] this [of 2] this [of 3]
  have "ld32 q 26 = Inr ip_from" "ld32 q 30 = Inr ip_to" using lq assms(1) by (simp_all add: ld32_def)
  moreover have "q ! 23 = 1" using nq2 [of 23] b(2) assms(1) by simp
  ultimately show ?thesis using run v1 v2 keep lq by blast
qed

lemma populate_icmp_eq:
  assumes "poff + n \<le> length pl"
  shows "populate_icmp (bzero (38 + n)) 34 t c pl poff n = Inr (bzero 34 @ [t, c, 0, 0] @ take n (drop poff pl))"
  using assms by (auto simp: populate_icmp_def memcpy_in st_bytes_in upd_bytes_def bzero_def min_def numeral_2_eq_2)

lemma nth_icmp_part:
  "(bzero 34 @ t # c # pl) ! 34 = t" "(bzero 34 @ t # c # pl) ! 35 = c"
  by (simp_all add: nth_append)

lemma take_drop_agree:
  assumes "length q = length p" and "\<forall>k<length p. m \<le> k \<longrightarrow> q ! k = p ! k"
  shows "drop m q = drop m p"
  using assms by (intro nth_equalityI) auto

lemma build_icmp_error_ok:
  assumes "42 \<le> length src" "length (if_addr iface) = 6" "t \<noteq> 0"
    and "ld32 src 26 = Inr ip_src" "ld32 src 30 = Inr ip_dst"
  shows "\<exists>q. build_icmp src t c iface = Inr q \<and> length q = 70 \<and>
    verify_checksum q 14 20 = Inr 0 \<and> verify_checksum q 34 36 = Inr 0 \<and>
    q ! 23 = 1 \<and> ld32 q 26 = Inr (if t = 3 \<and> c = 3 then ip_dst else if_ip iface) \<and> ld32 q 30 = Inr ip_src \<and>
    q ! 34 = t \<and> q ! 35 = c \<and> drop 42 q = take 28 (drop 14 src)"
proof -
  let ?from = "if t = 3 \<and> c = 3 then ip_dst else if_ip iface"
  let ?pl = "bzero 4 @ take 28 (drop 14 src)"
  have pl: "memcpy (bzero 32) 4 src 14 28 = Inr ?pl" "length ?pl = 32"
    using assms(1) by (simp_all add: memcpy_in upd_bytes_def bzero_def)
  define p where "p = bzero 34 @ [t, c, 0, 0] @ ?pl"
  have lp: "length p = 38 + 2 * 16" using pl by (simp add: p_def)
  have pop: "populate_icmp (bzero 70) 34 t c ?pl 0 32 = Inr p" using populate_icmp_eq [of 0 32 ?pl t c] pl by (simp add: p_def)
  obtain q where q: "seal_icmp p (2 * 16) ?from ip_src iface = Inr q" "length q = length p"
    "verify_checksum q 14 20 = Inr 0" "verify_checksum q 34 (4 + 2 * 16) = Inr 0"
    "\<forall>k<length p. 34 \<le> k \<longrightarrow> k \<noteq> 36 \<longrightarrow> k \<noteq> 37 \<longrightarrow> q ! k = p ! k"
    "q ! 23 = 1" "ld32 q 26 = Inr ?from" "ld32 q 30 = Inr ip_src"
    using seal_icmp_ok [OF lp _ assms(2), of ?from ip_src] by auto
  have "build_icmp src t c iface = Inr q" using assms pl(1) pop q(1) by (auto simp: build_icmp_def Let_def split: if_splits)
  moreover have "drop 42 q = drop 42 p" using q(2,5) by (intro take_drop_agree) auto
  moreover have "q ! 34 = t" "q ! 35 = c" using q(5) lp by (simp_all add: p_def nth_icmp_part)
  ultimately show ?thesis using q lp by (simp add: p_def bzero_def)
qed

lemma build_icmp_echo_ok:
  assumes "length src = 38 + 2 * m" "2 * m \<le> 65000" "length (if_addr iface) = 6"
    and "ld32 src 26 = Inr ip_src" "ld32 src 30 = Inr ip_dst"
  shows "\<exists>q. build_icmp src 0 0 iface = Inr q \<and> length q = length src \<and>
    verify_checksum q 14 20 = Inr 0 \<and> verify_checksum q 34 (length q - 34) = Inr 0 \<and>
    q ! 23 = 1 \<and> ld32 q 26 = Inr ip_dst \<and> ld32 q 30 = Inr ip_src \<and>
    q ! 34 = 0 \<and> q ! 35 = 0 \<and> drop 38 q = drop 38 src"
proof -
  define p where "p = bzero 34 @ [0, 0, 0, 0] @ drop 38 src"
  have lp: "length p = 38 + 2 * m" using assms(1) by (simp add: p_def)
  have pop: "populate_icmp (bzero (38 + 2 * m)) 34 0 0 src 38 (2 * m) = Inr p"
    using populate_icmp_eq [of 38 "2 * m" src 0 0] assms(1) by (simp add: p_def)
  obtain q where q: "seal_icmp p (2 * m) ip_dst ip_src iface = Inr q" "length q = length p"
    "verify_checksum q 14 20 = Inr 0" "verify_checksum q 34 (4 + 2 * m) = Inr 0"
    "\<forall>k<length p. 34 \<le> k \<longrightarrow> k \<noteq> 36 \<longrightarrow> k \<noteq> 37 \<longrightarrow> q ! k = p ! k"
    "q ! 23 = 1" "ld32 q 26 = Inr ip_dst" "ld32 q 30 = Inr ip_src"
    using seal_icmp_ok [OF lp assms(2,3), of ip_dst ip_src] by auto
  have "build_icmp src 0 0 iface = Inr q" using assms pop q(1) by (simp add: build_icmp_def Let_def)
  moreover have "drop 38 q = drop 38 p" using q(2,5) by (intro take_drop_agree) auto
  moreover have "q ! 34 = 0" "q ! 35 = 0" using q(5) lp by (simp_all add: p_def nth_icmp_part)
  ultimately show ?thesis using q lp assms(1) by (simp add: p_def bzero_def)
qed

section \<open>Properties\<close>

text \<open>
  The router answers an echo request of even length correctly: \<open>send_icmp_packet\<close> with type echo reply and an ARP entry
  for the next hop back to the sender sends exactly one frame. It has the length of the request (padded to 60), its IP and ICMP
  checksums verify, its source is the address the request was sent to, its destination the request's
  source, its type is 0, and identifier, sequence number and data are those of the request.
\<close>

theorem send_icmp_echo_reply:
  assumes "length src = 38 + 2 * m" and "2 * m \<le> 65000" and "ld32 src 26 = Inr ip_src" and "ld32 src 30 = Inr ip_dst"
    and "get_next_hop rs 32 ip_src = Some (nh, ifn)" and "get_iface rs ifn = Some iface" and "length (if_addr iface) = 6"
    and "in_arp_cache rs nh = Some ace" and "length (ac_ha ace) = 6"
    and "unlocked WriteLock rs" and "driver_ok rs" and "port_ok rs (if_name iface)"
  shows "\<exists>q. send_icmp_packet src 0 0 rs = Inr (0, emit [(pad_frame (with_dhost (ac_ha ace) q), wire_name rs (if_name iface))] rs) \<and>
    length q = length src \<and> verify_checksum q 14 20 = Inr 0 \<and> verify_checksum q 34 (length q - 34) = Inr 0 \<and>
    q ! 23 = IP_PROTO_ICMP \<and> ld32 q 26 = Inr ip_dst \<and> ld32 q 30 = Inr ip_src \<and>
    q ! 34 = 0 \<and> q ! 35 = 0 \<and> drop 38 q = drop 38 src"
proof -
  obtain q where q: "build_icmp src 0 0 iface = Inr q" "length q = length src" "verify_checksum q 14 20 = Inr 0"
    "verify_checksum q 34 (length q - 34) = Inr 0" "q ! 23 = 1" "ld32 q 26 = Inr ip_dst" "ld32 q 30 = Inr ip_src"
    "q ! 34 = 0" "q ! 35 = 0" "drop 38 q = drop 38 src"
    using build_icmp_echo_ok [OF assms(1,2,7,3,4)] by blast
  have "6 \<le> length q" using q(2) assms(1) by simp
  then have "send_icmp_packet src 0 0 rs =
      Inr (0, emit [(pad_frame (with_dhost (ac_ha ace) q), wire_name rs (if_name iface))] rs)"
    using assms q(1) by (simp add: send_icmp_packet_def send_ip_hit)
  with q show ?thesis by blast
qed

text \<open>
  An ICMP error quotes the offending packet: for every packet that holds an IP header and eight bytes,
  the message that \<open>build_icmp\<close> makes for a type other than echo reply has 70 bytes, valid IP and ICMP
  checksums, the given type and code, the offender's source as destination, and carries the IP header
  and the first eight data bytes of the offender. Its source is the outgoing interface, or the
  address the offender was sent to for a port unreachable.
\<close>

theorem icmp_error_message:
  assumes "42 \<le> length src" and "length (if_addr iface) = 6" and "t \<noteq> ICMP_ECHO_REPLY"
    and "ld32 src 26 = Inr ip_src" and "ld32 src 30 = Inr ip_dst"
  shows "\<exists>q. build_icmp src t c iface = Inr q \<and> length q = 70 \<and>
    verify_checksum q 14 20 = Inr 0 \<and> verify_checksum q 34 36 = Inr 0 \<and>
    q ! 23 = IP_PROTO_ICMP \<and> ld32 q 26 = Inr (if t = ICMP_DEST_UNREACHABLE \<and> c = 3 then ip_dst else if_ip iface) \<and>
    ld32 q 30 = Inr ip_src \<and> q ! 34 = t \<and> q ! 35 = c \<and> drop 42 q = take 28 (drop 14 src)"
  by (rule build_icmp_error_ok [OF assms])

text \<open>
  A packet with an IP header but fewer than eight bytes after it makes the ICMP error code read past
  the end of the packet: the copy of header and eight bytes is not limited by the packet's length.
\<close>

theorem icmp_error_overread:
  assumes "length src < 42" and "t \<noteq> ICMP_ECHO_REPLY"
  shows "build_icmp src t c iface = Inl OutOfBounds"
  using assms by (simp add: build_icmp_def memcpy_def ld_bytes_def Let_def)

theorem icmp_error_message_witness:
  "\<exists>q. build_icmp (replicate 60 1) 3 1 (demo_iface ''eth0'' 9 0) = Inr q \<and> length q = 70 \<and> verify_checksum q 34 36 = Inr 0"
proof -
  have "ld32 (replicate 60 1) 26 = Inr (le32 1 1 1 1)" "ld32 (replicate 60 1) 30 = Inr (le32 1 1 1 1)" by (simp_all add: ld32_def)
  from icmp_error_message [OF _ _ _ this, of "demo_iface ''eth0'' 9 0" 3 1] show ?thesis by (auto simp: demo_iface_def)
qed

theorem icmp_error_overread_witness: "build_icmp (replicate 34 1) 3 1 (demo_iface ''eth0'' 9 0) = Inl OutOfBounds"
  by (rule icmp_error_overread) simp_all

theorem send_icmp_echo_reply_witness:
  "\<exists>q fr. send_icmp_packet (replicate 60 1) 0 0 (bzero_state demo_env\<lparr>if_list := [demo_iface ''eth0'' 9 0],
      rtable := [\<lparr>re_ip = 0, re_gw = 7, re_mask = 0, re_iface = ''eth0'', re_static = True, re_active = True\<rparr>],
      arp_cache := [\<lparr>ac_ip = 7, ac_ha = replicate 6 2, ac_TTL = 0, ac_static = 0\<rparr>]\<rparr>) = Inr (0, fr) \<and>
    tx fr = [(with_dhost (replicate 6 2) q, ''eth0'')] \<and> drop 38 q = replicate 22 1"
proof -
  let ?rs = "bzero_state demo_env\<lparr>if_list := [demo_iface ''eth0'' 9 0],
      rtable := [\<lparr>re_ip = 0, re_gw = 7, re_mask = 0, re_iface = ''eth0'', re_static = True, re_active = True\<rparr>],
      arp_cache := [\<lparr>ac_ip = 7, ac_ha = replicate 6 2, ac_TTL = 0, ac_static = 0\<rparr>]\<rparr>"
  let ?p = "replicate 60 1 :: packet"
  have ld: "ld32 ?p 26 = Inr (le32 1 1 1 1)" "ld32 ?p 30 = Inr (le32 1 1 1 1)" by (simp_all add: ld32_def)
  have nh: "get_next_hop ?rs 32 (le32 1 1 1 1) = Some (7, ''eth0'')"
    using mask_bits_nonneg [of 0] by (simp add: get_next_hop_def re_match_def)
  have ifc: "get_iface ?rs ''eth0'' = Some (demo_iface ''eth0'' 9 0)" by (simp add: get_iface_def demo_iface_def)
  have ok: "driver_ok ?rs" "port_ok ?rs ''eth0''" by (rule demo_env_ok; simp)+
  have w: "wire_name ?rs ''eth0'' = ''eth0''" by (simp add: wire_name_def)
  have ac: "in_arp_cache ?rs 7 = Some \<lparr>ac_ip = 7, ac_ha = replicate 6 2, ac_TTL = 0, ac_static = 0\<rparr>" by (simp add: in_arp_cache_def)
  have n: "if_name (demo_iface ''eth0'' 9 0) = ''eth0''" "length (if_addr (demo_iface ''eth0'' 9 0)) = 6" by (simp_all add: demo_iface_def)
  from send_icmp_echo_reply [of ?p 11, OF _ _ ld nh ifc n(2) ac] ok w
  obtain q where "send_icmp_packet ?p 0 0 ?rs = Inr (0, emit [(pad_frame (with_dhost (replicate 6 2) q), ''eth0'')] ?rs)"
    "length q = 60" "drop 38 q = drop 38 ?p" by (auto simp: n)
  moreover from this have "pad_frame (with_dhost (replicate 6 2) q) = with_dhost (replicate 6 2) q"
    by (intro pad_frame_ge60) (simp add: with_dhost_def)
  ultimately show ?thesis by auto
qed

end
