(* ===== verification/Arp_Queue.thy ===== *)
theory Arp_Queue
  imports Icmp
begin

text \<open>
  The aging of the ARP queue stops. The loop of \<open>process_arp_queue\<close> walks a queue that grows under its
  feet: the ICMP errors it sends may have to wait for an ARP reply themselves, so they are appended to
  entries of the queue or open new ones. The errors are ICMP messages that cause no further error, and
  new entries are too young to be aged; the weight of the unvisited part of the queue falls with
  every step.
\<close>

section \<open>What sending does to the queue\<close>

lemma low_level_output_emit:
  "sr_integ_low_level_output p i rs = Inr (r, rs') \<Longrightarrow> \<exists>fs. rs' = emit fs rs"
  by (auto simp: sr_integ_low_level_output_def netfpga_output_def sr_vns_send_packet_def Let_def emit_def
      split: if_splits intro: exI [of _ "[]"])

lemma send_packet_emit:
  assumes "send_packet p i rs = Inr (r, rs')"
  shows "\<exists>fs. rs' = emit fs rs"
proof -
  let ?rs = "rs\<lparr>held := (WriteLock, Wr) # held rs\<rparr>"
  let ?q = "if length p < 60 then upd_bytes (bzero 60) 0 p else p"
  have "bindR (sr_integ_low_level_output ?q i ?rs) (\<lambda>(result, rs). bindR (release WriteLock rs) (\<lambda>rs. Inr (result, rs))) = Inr (r, rs')"
    using assms by (cases "conflicts WriteLock Wr (held rs)"; cases "length p < 60") (simp_all add: send_packet_def acquire_def)
  then obtain r1 rs1 where out: "sr_integ_low_level_output ?q i ?rs = Inr (r1, rs1)" and rel: "release WriteLock rs1 = Inr rs'"
    by (auto simp: bindR_eq_Inr)
  from low_level_output_emit [OF out] obtain fs where "rs1 = emit fs ?rs" ..
  with rel have "rs' = emit fs rs" by (simp add: release_hd) (simp add: emit_def)
  then show ?thesis ..
qed

lemma send_arp_request_emit: "send_arp_request tip i rs = Inr rs' \<Longrightarrow> \<exists>fs. rs' = emit fs rs"
  by (auto simp: send_arp_request_def bindR_eq_Inr dest!: send_packet_emit)

text \<open>A queue after one packet has been handed to \<open>send_ip\<close>: unchanged, the packet appended to an entry, or
  a new entry made now.\<close>

definition queued :: "packet \<Rightarrow> int \<Rightarrow> arp_queue_entry list \<Rightarrow> arp_queue_entry list \<Rightarrow> bool" where
  "queued p now q q' =
    (q' = q \<or> (\<exists>nh. q' = upd_first (\<lambda>a. aq_next_hop a = nh) (arp_queue_entry_add_packet p) q) \<or>
     (\<exists>e. q' = q @ [e] \<and> aq_last_req_time e = now \<and> aq_requests e = 1 \<and> aq_head e = [\<lparr>aqp_packet = p\<rparr>]))"

lemma send_ip_queued:
  "send_ip p nh i rs = Inr (r, rs') \<Longrightarrow>
   clock rs' = clock rs \<and> queued p (clock rs) (arp_queue rs) (arp_queue rs') \<and> held rs' = held rs \<and> if_list rs' = if_list rs"
  by (auto simp: send_ip_def arp_queue_add_def arp_queue_entry_add_packet_def queued_def bindR_eq_Inr
      dest!: send_packet_emit send_arp_request_emit split: option.splits if_splits)

section \<open>Packets that cause an error\<close>

definition wants_error :: "packet \<Rightarrow> bool" where
  "wants_error p = (ld8 p 23 \<noteq> Inr 1 \<or> ld8 p 34 = Inr 0 \<or> ld8 p 34 = Inr 8)"

lemma populate_eth_take: "populate_eth_hdr p off None (take 6 s) type = populate_eth_hdr p off None s type"
  by (simp add: populate_eth_hdr_def memcpy_def ld_bytes_def)

lemma build_icmp_take: "build_icmp src t c (iface\<lparr>if_addr := take 6 (if_addr iface)\<rparr>) = build_icmp src t c iface"
  by (simp add: build_icmp_def seal_icmp_def populate_eth_take Let_def)

lemma build_icmp_addr: "build_icmp src t c iface = Inr q \<Longrightarrow> 6 \<le> length (if_addr iface)"
  by (auto simp: build_icmp_def seal_icmp_def Let_def bindR_eq_Inr populate_eth_hdr_def memcpy_def ld_bytes_def
      split: if_splits prod.splits)

lemma error_wants_none:
  assumes "build_icmp src 3 c iface = Inr q"
  shows "\<not> wants_error q"
proof -
  let ?i = "iface\<lparr>if_addr := take 6 (if_addr iface)\<rparr>"
  have "42 \<le> length src" using assms by (auto simp: build_icmp_def memcpy_def ld_bytes_def Let_def split: if_splits)
  moreover have "length (if_addr ?i) = 6" using build_icmp_addr [OF assms] by simp
  moreover have "\<exists>a b. ld32 src 26 = Inr a \<and> ld32 src 30 = Inr b" using \<open>42 \<le> length src\<close> by (simp add: ld32_def)
  ultimately obtain q' where "build_icmp src 3 c ?i = Inr q'" "length q' = 70" "q' ! 23 = 1" "q' ! 34 = 3"
    using build_icmp_error_ok [of src ?i 3 _ _ c] by auto
  then show ?thesis using assms by (simp add: build_icmp_take wants_error_def ld8_def)
qed

lemma send_icmp_queued:
  assumes "send_icmp_packet src 3 c rs = Inr (r, rs')"
  shows "clock rs' = clock rs \<and> (\<exists>q. \<not> wants_error q \<and> queued q (clock rs) (arp_queue rs) (arp_queue rs'))"
proof -
  have triv: "\<exists>q. \<not> wants_error q \<and> queued q n xs xs" for n xs
    by (rule exI [of _ "replicate 60 1"]) (simp add: wants_error_def queued_def ld8_def)
  from assms obtain x where x: "ld32 src 26 = Inr x" by (auto simp: send_icmp_packet_def bindR_eq_Inr)
  show ?thesis
  proof (cases "get_next_hop rs 32 x")
    case None
    with assms x triv show ?thesis by (simp add: send_icmp_packet_def)
  next
    case (Some h)
    obtain nh i where h: "h = (nh, i)" by (cases h)
    from assms x Some h obtain iface q where "build_icmp src 3 c iface = Inr q" "send_ip q nh (if_name iface) rs = Inr (r, rs')"
      by (auto simp: send_icmp_packet_def bindR_eq_Inr split: option.splits)
    then show ?thesis using error_wants_none send_ip_queued by blast
  qed
qed

lemma unreachable_queued:
  assumes "unreachable_packet p rs = Inr rs'"
  shows "clock rs' = clock rs \<and> (rs' = rs \<or> wants_error p \<and> (\<exists>q. \<not> wants_error q \<and> queued q (clock rs) (arp_queue rs) (arp_queue rs')))"
proof -
  from assms obtain b reply where b: "ld8 p 23 = Inr b"
    and reply: "(if b \<noteq> 1 then Inr True else bindR (ld8 p 34) (\<lambda>t. Inr (t = 0 \<or> t = 8))) = Inr reply"
    by (auto simp: unreachable_packet_def bindR_eq_Inr)
  show ?thesis
  proof (cases reply)
    case False
    then show ?thesis using assms b reply by (simp add: unreachable_packet_def)
  next
    case True
    then have "wants_error p" using b reply by (auto simp: wants_error_def bindR_eq_Inr split: if_splits)
    moreover have "rs' = rs \<or> (\<exists>p' r. send_icmp_packet p' 3 1 rs = Inr (r, rs'))"
      using assms b reply True by (auto simp: unreachable_packet_def bindR_eq_Inr split: if_splits; blast)
    ultimately show ?thesis using send_icmp_queued by blast
  qed
qed

section \<open>The weight of the queue\<close>

abbreviation wanting :: "arp_queue_packet_entry list \<Rightarrow> nat" where
  "wanting hs \<equiv> length (filter (\<lambda>q. wants_error (aqp_packet q)) hs)"

definition aged :: "int \<Rightarrow> arp_queue_entry \<Rightarrow> bool" where
  "aged now e = (now - aq_last_req_time e > 1 \<and> \<not> aq_requests e < 5)"

definition weight :: "int \<Rightarrow> arp_queue_entry \<Rightarrow> nat" where
  "weight now e = 1 + (if aged now e then wanting (aq_head e) else 0)"

abbreviation weight_from :: "int \<Rightarrow> nat \<Rightarrow> arp_queue_entry list \<Rightarrow> nat" where
  "weight_from now i q \<equiv> sum_list (drop i (map (weight now) q))"

lemma weight_add: "\<not> wants_error p \<Longrightarrow> weight now (arp_queue_entry_add_packet p e) = weight now e"
  by (simp add: weight_def aged_def arp_queue_entry_add_packet_def)

lemma upd_first_nth: "i < length xs \<Longrightarrow> upd_first P f xs ! i = xs ! i \<or> upd_first P f xs ! i = f (xs ! i)"
  by (induction xs arbitrary: i) (auto simp: nth_Cons split: nat.splits)

lemma queued_effect:
  assumes "queued p now q q'" "\<not> wants_error p" "i < length q"
  shows "weight_from now (Suc i) q' \<le> weight_from now (Suc i) q + 1 \<and> length q \<le> length q' \<and>
    (aq_head (q' ! i) = aq_head (q ! i) \<or> aq_head (q' ! i) = aq_head (q ! i) @ [\<lparr>aqp_packet = p\<rparr>])"
  using assms(1) unfolding queued_def
proof (elim disjE exE conjE)
  fix nh assume q': "q' = upd_first (\<lambda>a. aq_next_hop a = nh) (arp_queue_entry_add_packet p) q"
  have "map (weight now) q' = map (weight now) q" unfolding q' by (rule map_upd_first) (rule weight_add [OF assms(2)])
  moreover have "q' ! i = q ! i \<or> q' ! i = arp_queue_entry_add_packet p (q ! i)" unfolding q' by (rule upd_first_nth [OF assms(3)])
  ultimately show ?thesis using assms(3) q' by (auto simp: arp_queue_entry_add_packet_def)
next
  fix e assume "q' = q @ [e]" "aq_last_req_time e = now"
  then show ?thesis using assms(3) by (simp add: weight_def aged_def nth_append)
qed (use assms(3) in simp)

lemma upd_queue_at_effect:
  "i < length (arp_queue rs) \<Longrightarrow> weight_from now (Suc i) (arp_queue (upd_queue_at i f rs)) = weight_from now (Suc i) (arp_queue rs)"
  "i < length (arp_queue rs) \<Longrightarrow> arp_queue (upd_queue_at i f rs) ! i = f (arp_queue rs ! i)"
  "length (arp_queue (upd_queue_at i f rs)) = length (arp_queue rs)" "clock (upd_queue_at i f rs) = clock rs"
  by (simp_all add: upd_queue_at_def drop_map drop_update_cancel)

text \<open>The inner loop: every step removes a packet, and only a packet that causes an error can add one.\<close>

lemma expire_entry_terminates:
  assumes "i < length (arp_queue rs)"
  shows "\<exists>r. expire_entry_packets i rs = Some r \<and> (\<forall>rs'. r = Inr rs' \<longrightarrow>
    clock rs' = clock rs \<and> length (arp_queue rs) \<le> length (arp_queue rs') \<and>
    weight_from (clock rs) (Suc i) (arp_queue rs') \<le> weight_from (clock rs) (Suc i) (arp_queue rs) + wanting (aq_head (arp_queue rs ! i)))"
  using assms
proof (induction "length (aq_head (arp_queue rs ! i)) + wanting (aq_head (arp_queue rs ! i))" arbitrary: rs rule: less_induct)
  case less
  show ?case
  proof (cases "aq_head (arp_queue rs ! i)")
    case Nil
    then show ?thesis using less.prems by (subst expire_entry_packets.simps) simp
  next
    case (Cons a hs)
    show ?thesis
    proof (cases "unreachable_packet (aqp_packet a) rs")
      case (Inl f)
      then show ?thesis using Cons by (subst expire_entry_packets.simps) simp
    next
      case (Inr rs1)
      define rs2 where "rs2 = upd_queue_at i (\<lambda>a. a\<lparr>aq_head := tl (aq_head a)\<rparr>) rs1"
      let ?w = "if wants_error (aqp_packet a) then 1 else 0 :: nat"
      have step: "expire_entry_packets i rs = expire_entry_packets i rs2"
        using Cons Inr by (subst expire_entry_packets.simps) (simp add: rs2_def)
      have eff: "clock rs1 = clock rs \<and> length (arp_queue rs) \<le> length (arp_queue rs1) \<and>
        weight_from (clock rs) (Suc i) (arp_queue rs1) \<le> weight_from (clock rs) (Suc i) (arp_queue rs) + ?w \<and>
        length (tl (aq_head (arp_queue rs1 ! i))) \<le> length hs + ?w \<and> wanting (tl (aq_head (arp_queue rs1 ! i))) = wanting hs"
        using unreachable_queued [OF Inr]
      proof (elim conjE disjE exE)
        fix q assume "clock rs1 = clock rs" "wants_error (aqp_packet a)" "\<not> wants_error q"
          "queued q (clock rs) (arp_queue rs) (arp_queue rs1)"
        then show ?thesis using queued_effect [OF _ _ less.prems, of q "clock rs" "arp_queue rs1"] Cons by auto
      qed (use less.prems Cons in simp)
      have i2: "i < length (arp_queue rs2)" "length (arp_queue rs2) = length (arp_queue rs1)" "clock rs2 = clock rs" "aq_head (arp_queue rs2 ! i) = tl (aq_head (arp_queue rs1 ! i))"
        "weight_from (clock rs) (Suc i) (arp_queue rs2) = weight_from (clock rs) (Suc i) (arp_queue rs1)"
        using eff less.prems by (simp_all add: rs2_def upd_queue_at_effect)
      have "length (aq_head (arp_queue rs2 ! i)) + wanting (aq_head (arp_queue rs2 ! i)) <
        length (aq_head (arp_queue rs ! i)) + wanting (aq_head (arp_queue rs ! i))"
        using eff i2(4) Cons by auto
      from less.hyps [OF this i2(1)] show ?thesis using step eff i2 Cons by auto
    qed
  qed
qed

text \<open>The outer loop: the weight of the entries from the current one on falls with every step.\<close>

lemma weight_from_step: "i < length q \<Longrightarrow> weight_from now i q = weight now (q ! i) + weight_from now (Suc i) q"
  by (simp add: drop_map Cons_nth_drop_Suc [symmetric])

lemma process_arp_queue_terminates:
  "n = (i < length (arp_queue rs)) \<Longrightarrow> \<exists>r. process_arp_queue_from i n rs = Some r"
proof (induction "weight_from (clock rs) i (arp_queue rs)" arbitrary: i n rs rule: less_induct)
  case less
  show ?case
  proof (cases n)
    case False
    then show ?thesis by (subst process_arp_queue_from.simps) simp
  next
    case True
    with less.prems have i: "i < length (arp_queue rs)" by simp
    let ?e = "arp_queue rs ! i" and ?now = "clock rs"
    have drops: "weight_from ?now (Suc i) (arp_queue rs) < weight_from ?now i (arp_queue rs)"
      using i by (simp add: weight_from_step weight_def)
    consider (young) "\<not> ?now - aq_last_req_time ?e > 1" | (again) "?now - aq_last_req_time ?e > 1" "aq_requests ?e < 5"
      | (aged) "?now - aq_last_req_time ?e > 1" "\<not> aq_requests ?e < 5" by blast
    then show ?thesis
    proof cases
      case young
      from less.hyps [OF drops refl] show ?thesis using True young by (subst process_arp_queue_from.simps) (simp add: Let_def)
    next
      case again
      let ?u = "upd_queue_at i (\<lambda>a. a\<lparr>aq_last_req_time := ?now, aq_requests := aq_requests a + 1\<rparr>) rs"
      show ?thesis
      proof (cases "send_arp_request (aq_next_hop ?e) (aq_out_iface_name ?e) ?u")
        case (Inl f)
        then show ?thesis using True again by (subst process_arp_queue_from.simps) (simp add: Let_def)
      next
        case (Inr rs1)
        then obtain fs where rs1: "rs1 = emit fs ?u" using send_arp_request_emit by blast
        have "weight_from (clock rs1) (Suc i) (arp_queue rs1) < weight_from ?now i (arp_queue rs)"
          using drops i by (simp add: rs1 upd_queue_at_effect)
        from less.hyps [OF this refl] show ?thesis using True again Inr
          by (subst process_arp_queue_from.simps) (simp add: Let_def rs1 upd_queue_at_effect)
      qed
    next
      case aged
      from expire_entry_terminates [OF i] obtain r where r: "expire_entry_packets i rs = Some r"
        and eff: "\<And>rs'. r = Inr rs' \<Longrightarrow> clock rs' = ?now \<and> length (arp_queue rs) \<le> length (arp_queue rs') \<and>
          weight_from ?now (Suc i) (arp_queue rs') \<le> weight_from ?now (Suc i) (arp_queue rs) + wanting (aq_head ?e)" by blast
      show ?thesis
      proof (cases r)
        case (Inl f)
        then show ?thesis using True aged r by (subst process_arp_queue_from.simps) (simp add: Let_def)
      next
        case (Inr rs1)
        let ?rs2 = "remove_queue_at i rs1"
        have q2: "arp_queue ?rs2 = take i (arp_queue rs1) @ drop (Suc i) (arp_queue rs1)" "clock ?rs2 = clock rs1"
          by (simp_all add: remove_queue_at_def)
        have "weight_from ?now i (arp_queue ?rs2) = weight_from ?now (Suc i) (arp_queue rs1)"
          using eff [OF Inr] i by (simp add: q2 drop_map)
        moreover have "weight_from ?now i (arp_queue rs) = 1 + wanting (aq_head ?e) + weight_from ?now (Suc i) (arp_queue rs)"
          using i aged by (simp add: weight_from_step weight_def aged_def)
        ultimately have lt: "weight_from (clock ?rs2) i (arp_queue ?rs2) < weight_from ?now i (arp_queue rs)"
          using eff [OF Inr] q2 by simp
        have "\<exists>r. process_arp_queue_from i (Suc i < length (arp_queue rs)) ?rs2 = Some r"
        proof (cases "Suc i < length (arp_queue rs)")
          case False
          then show ?thesis by (subst process_arp_queue_from.simps) simp
        next
          case more: True
          have "length (arp_queue rs) \<le> length (arp_queue rs1)" using eff [OF Inr] by blast
          with more have "Suc i < length (arp_queue rs1)" by linarith
          then have "i < length (arp_queue ?rs2)" unfolding q2 by simp
          then show ?thesis using less.hyps [OF lt refl] more by simp
        qed
        then show ?thesis using True aged r Inr by (subst process_arp_queue_from.simps) (simp add: Let_def)
      qed
    qed
  qed
qed

section \<open>Properties\<close>

text \<open>
  Claim C32. The aging of the ARP queue always comes to an end: whatever the queue holds, \<open>process_arp_queue\<close> does not
  loop for ever, although it may append to the queue it walks.
\<close>

theorem process_arp_queue_ends:
  "\<exists>r. process_arp_queue_from 0 (arp_queue rs \<noteq> []) rs = Some r \<and> process_arp_queue rs = r"
proof -
  obtain r where "process_arp_queue_from 0 (arp_queue rs \<noteq> []) rs = Some r"
    using process_arp_queue_terminates [of "arp_queue rs \<noteq> []" 0 rs] by auto
  then show ?thesis by (simp add: process_arp_queue_def)
qed

end
