(* ===== verification/Arp_Drain.thy ===== *)
theory Arp_Drain
  imports Arp_Queue
begin

text \<open>
  Packets do not wait for ever. When no reply comes, the ARP thread sends up to five requests for a next hop, then answers the packets
  that waited with ICMP errors, which may have to wait for a next hop of their own. A rank of the entries falls with every round of the
  thread, so the queue is empty after a fixed number of rounds.
\<close>

section \<open>A router that can send\<close>

text \<open>The driver works, the interfaces have names and hardware addresses, the routes lead to interfaces, the cached addresses are
  hardware addresses, and nobody holds the write lock.\<close>

definition net_ok :: "router_state \<Rightarrow> bool" where
  "net_ok rs =
    (driver_ok rs \<and> list_all (\<lambda>e. length (if_addr e) = 6 \<and> length (if_name e) < 32 \<and> port_ok rs (if_name e)) (if_list rs) \<and>
     list_all (\<lambda>e. get_iface rs (re_iface e) \<noteq> None) (rtable rs) \<and> list_all (\<lambda>e. length (ac_ha e) = 6) (arp_cache rs) \<and>
     \<not> conflicts WriteLock Wr (held rs))"

text \<open>A queued packet has the 28 bytes that an error quotes, and one that would cause an error has a header of at least 20 bytes inside the
  frame.\<close>

definition packet_ok :: "packet \<Rightarrow> bool" where
  "packet_ok p = (42 \<le> length p \<and> (wants_error p \<longrightarrow> 5 \<le> unat (p ! 14 AND 15) \<and> 14 + 4 * unat (p ! 14 AND 15) \<le> length p))"

definition heads_ok :: "arp_queue_packet_entry list \<Rightarrow> bool" where
  "heads_ok hs = list_all (\<lambda>q. packet_ok (aqp_packet q)) hs"

definition entry_ok :: "router_state \<Rightarrow> arp_queue_entry \<Rightarrow> bool" where
  "entry_ok rs e = (get_interface rs (aq_out_iface_name e) \<noteq> None \<and> port_ok rs (aq_out_iface_name e) \<and> heads_ok (aq_head e))"

lemma net_ok_sent [simp]:
  "net_ok (emit fs rs) = net_ok rs" "net_ok (rs\<lparr>arp_queue := q\<rparr>) = net_ok rs" "entry_ok (emit fs rs) = entry_ok rs"
  "entry_ok (rs\<lparr>arp_queue := q\<rparr>) = entry_ok rs"
  by (simp_all add: net_ok_def entry_ok_def get_iface_def get_interface_def driver_ok_def port_ok_def fun_eq_iff)

lemma emit_queue [simp]: "emit fs (rs\<lparr>arp_queue := q\<rparr>) = (emit fs rs)\<lparr>arp_queue := q\<rparr>"
  by (simp add: emit_def)

lemma get_interface_ok:
  "net_ok rs \<Longrightarrow> get_interface rs name = Some i \<Longrightarrow> length (if_addr i) = 6"
  by (auto simp: net_ok_def get_interface_def find_Some_iff list_all_iff)

lemma get_iface_ok:
  assumes "net_ok rs" "get_iface rs name = Some i"
  shows "length (if_addr i) = 6" "port_ok rs (if_name i)" "get_interface rs (if_name i) \<noteq> None" "length (if_name i) < 32"
proof -
  have i: "i \<in> set (if_list rs)" using assms(2) by (auto simp: get_iface_def find_Some_iff)
  then show "length (if_addr i) = 6" "port_ok rs (if_name i)" "length (if_name i) < 32" using assms(1) by (auto simp: net_ok_def list_all_iff)
  show "get_interface rs (if_name i) \<noteq> None" using i by (auto simp: get_interface_def find_None_iff)
qed

lemma send_arp_request_ok:
  assumes "net_ok rs" "get_interface rs name \<noteq> None" "port_ok rs name"
  shows "\<exists>fs. send_arp_request tip name rs = Inr (emit fs rs)"
proof -
  obtain i where i: "get_interface rs name = Some i" using assms(2) by blast
  have "length (if_addr i) = 6" using get_interface_ok [OF assms(1) i] .
  then obtain p where "bindR (populate_eth_hdr (bzero 42) 0 (Some (replicate 6 0xFF)) (if_addr i) ETH_TYPE_ARP) (\<lambda>rp.
      populate_arp_hdr rp 14 None tip (if_addr i) (if_ip i) 1) = Inr p"
    by (simp add: populate_eth_eq populate_arp_eq upd_bytes_def bzero_def)
  moreover have "send_packet p name rs = Inr (0, emit [(pad_frame p, wire_name rs name)] rs)" for p
    using assms(1,3) by (intro send_packet_ok) (simp_all add: net_ok_def)
  ultimately show ?thesis using i by (auto simp: send_arp_request_def bindR_eq_Inr derefR_def)
qed

text \<open>The queue after a packet of at least 42 bytes that causes no error: unchanged, the packet appended to an entry, or a new entry.\<close>

definition waits :: "router_state \<Rightarrow> arp_queue_entry list \<Rightarrow> bool" where
  "waits rs q =
    (q = arp_queue rs \<or>
     (\<exists>p nh. 42 \<le> length p \<and> \<not> wants_error p \<and> q = upd_first (\<lambda>a. aq_next_hop a = nh) (arp_queue_entry_add_packet p) (arp_queue rs)) \<or>
     (\<exists>e. q = arp_queue rs @ [e] \<and> aq_last_req_time e = clock rs \<and> aq_requests e = 1 \<and> entry_ok rs e \<and> wanting (aq_head e) = 0))"

lemma waits_refl: "waits rs (arp_queue rs)"
  by (simp add: waits_def)

lemma send_ip_waits:
  assumes "net_ok rs" "get_iface rs name = Some i" "42 \<le> length p" "\<not> wants_error p"
  shows "\<exists>r fs q. send_ip p nh (if_name i) rs = Inr (r, (emit fs rs)\<lparr>arp_queue := q\<rparr>) \<and> waits rs q"
proof (cases "get_from_arp_cache rs nh")
  case (Some ace)
  then have "length (ac_ha ace) = 6" using assms(1) by (auto simp: get_from_arp_cache_def in_arp_cache_def find_Some_iff net_ok_def list_all_iff)
  then obtain p' where "memcpy p 0 (ac_ha ace) 0 6 = Inr p'" using assms(3) by (simp add: memcpy_in)
  moreover have "send_packet p' (if_name i) rs = Inr (0, (emit [(pad_frame p', wire_name rs (if_name i))] rs)\<lparr>arp_queue := arp_queue rs\<rparr>)"
    using assms(1) get_iface_ok(2) [OF assms(1,2)] by (subst send_packet_ok) (simp_all add: net_ok_def emit_def)
  ultimately show ?thesis using Some by (simp add: send_ip_def) (rule exI, rule exI, rule conjI, rule refl, simp add: waits_def)
next
  case None
  note i = get_iface_ok [OF assms(1,2)]
  show ?thesis
  proof (cases "get_from_arp_queue rs nh")
    case (Some a)
    let ?q = "upd_first (\<lambda>a. aq_next_hop a = nh) (arp_queue_entry_add_packet p) (arp_queue rs)"
    have "send_ip p nh (if_name i) rs = Inr (0, (emit [] rs)\<lparr>arp_queue := ?q\<rparr>)" using None Some by (simp add: send_ip_def arp_queue_add_def)
    moreover have "waits rs ?q" using assms(3,4) by (auto simp: waits_def)
    ultimately show ?thesis by blast
  next
    case new: None
    let ?e = "\<lparr>aq_out_iface_name = take 32 (if_name i), aq_next_hop = nh, aq_requests = 1, aq_last_req_time = clock rs, aq_head = [\<lparr>aqp_packet = p\<rparr>]\<rparr>"
    obtain fs where "send_arp_request nh (if_name i) rs = Inr (emit fs rs)" using send_arp_request_ok [OF assms(1) i(3,2)] by blast
    then have "send_ip p nh (if_name i) rs = Inr (0, (emit fs rs)\<lparr>arp_queue := arp_queue rs @ [?e]\<rparr>)"
      using None new by (simp add: send_ip_def arp_queue_add_def arp_queue_entry_add_packet_def)
    moreover have "entry_ok rs ?e" using i assms(3,4) by (simp add: entry_ok_def heads_ok_def packet_ok_def)
    then have "waits rs (arp_queue rs @ [?e])" using assms(4) by (simp add: waits_def)
    ultimately show ?thesis by blast
  qed
qed

lemma send_icmp_waits:
  assumes "net_ok rs" "42 \<le> length p"
  shows "\<exists>r fs q. send_icmp_packet p 3 c rs = Inr (r, (emit fs rs)\<lparr>arp_queue := q\<rparr>) \<and> waits rs q"
proof -
  obtain s d where sd: "ld32 p 26 = Inr s" "ld32 p 30 = Inr d" using assms(2) by (simp add: ld32_def)
  show ?thesis
  proof (cases "get_next_hop rs 32 s")
    case None
    then have "send_icmp_packet p 3 c rs = Inr (1, (emit [] rs)\<lparr>arp_queue := arp_queue rs\<rparr>)" using sd by (simp add: send_icmp_packet_def)
    then show ?thesis using waits_refl by blast
  next
    case (Some h)
    obtain nh out where h: "h = (nh, out)" by (cases h)
    from Some h obtain e where "is_lpm s (rtable rs) e" "out = take 32 (re_iface e)" by (auto simp: get_next_hop_Some)
    moreover from this have "e \<in> set (rtable rs)" by (auto simp: is_lpm_def)
    ultimately have "e \<in> set (rtable rs)" "out = take 32 (re_iface e)" by simp_all
    then obtain i where i: "get_iface rs out = Some i" using assms(1) by (auto simp: net_ok_def list_all_iff get_iface_def strncmp_eq_def)
    obtain q where q: "build_icmp p 3 c i = Inr q" "length q = 70"
      using build_icmp_error_ok [OF assms(2) get_iface_ok(1) [OF assms(1) i] _ sd, of 3 c] by auto
    have "send_icmp_packet p 3 c rs = send_ip q nh (if_name i) rs" using sd Some h i q(1) by (simp add: send_icmp_packet_def)
    then show ?thesis using send_ip_waits [OF assms(1) i _ error_wants_none [OF q(1)], of nh] q(2) by simp
  qed
qed

lemma restore_ttl:
  assumes "packet_ok p" "wants_error p" "ld8 p 22 = Inr ttl"
  shows "\<exists>p'. (if ttl < 255 then bindR (st8 p 22 (ttl + 1)) (\<lambda>p. bindR (st16 p 24 0) (\<lambda>p.
      bindR (compute_ip_checksum p 14) (\<lambda>(c, p). st16 p 24 (htons c)))) else Inr p) = Inr p' \<and> 42 \<le> length p'"
proof -
  let ?p = "upd_bytes (upd_bytes p 22 [ttl + 1]) 24 (bytes16 0)"
  have len: "42 \<le> length p" and hl: "5 \<le> unat (p ! 14 AND 15)" "14 + 4 * unat (p ! 14 AND 15) \<le> length p"
    using assms(1,2) by (simp_all add: packet_ok_def)
  have p: "length ?p = length p" "?p ! 14 = p ! 14" using len by (simp_all add: nth_upd_bytes)
  then have "\<exists>c q. compute_ip_checksum ?p 14 = Inr (c, q) \<and> length q = length p" using compute_ip_checksum_eq [of ?p 14] hl by simp
  then show ?thesis using len p by (auto simp: st8_in st16_in)
qed

lemma unreachable_waits:
  assumes "net_ok rs" "packet_ok p"
  shows "\<exists>fs q. unreachable_packet p rs = Inr ((emit fs rs)\<lparr>arp_queue := q\<rparr>) \<and> waits rs q \<and> (\<not> wants_error p \<longrightarrow> q = arp_queue rs)"
proof -
  have quiet: "\<exists>fs q. Inr rs = (Inr ((emit fs rs)\<lparr>arp_queue := q\<rparr>) :: router_state res) \<and> waits rs q \<and> (\<not> wants_error p \<longrightarrow> q = arp_queue rs)"
    by (rule exI [of _ "[]"], rule exI [of _ "arp_queue rs"]) (simp add: waits_def)
  have "42 \<le> length p" using assms(2) by (simp add: packet_ok_def)
  then obtain b t s ttl where ld: "ld8 p 23 = Inr b" "ld8 p 34 = Inr t" "ld32 p 26 = Inr s" "ld8 p 22 = Inr ttl" by (simp add: ld8_def ld32_def)
  have w: "wants_error p \<longleftrightarrow> b \<noteq> 1 \<or> t = 0 \<or> t = 8" using ld by (simp add: wants_error_def)
  show ?thesis
  proof (cases "wants_error p \<and> iface_match_ip rs s = 0")
    case True
    from restore_ttl [OF assms(2) _ ld(4)] True obtain p' where p': "(if ttl < 255 then bindR (st8 p 22 (ttl + 1)) (\<lambda>p. bindR (st16 p 24 0) (\<lambda>p.
      bindR (compute_ip_checksum p 14) (\<lambda>(c, p). st16 p 24 (htons c)))) else Inr p) = Inr p'" "42 \<le> length p'" by blast
    from send_icmp_waits [OF assms(1) p'(2), of 1] obtain r fs q where
      "send_icmp_packet p' 3 1 rs = Inr (r, (emit fs rs)\<lparr>arp_queue := q\<rparr>)" and q: "waits rs q" by blast
    then have "unreachable_packet p rs = Inr ((emit fs rs)\<lparr>arp_queue := q\<rparr>)" using ld w True p'(1) by (auto simp: unreachable_packet_def)
    then show ?thesis using q True by blast
  next
    case False
    then have "unreachable_packet p rs = Inr rs" using ld w by (auto simp: unreachable_packet_def)
    then show ?thesis using quiet by simp
  qed
qed

section \<open>The rank of an entry\<close>

text \<open>The rounds an entry has left before it is removed are counted twice, since rounds that are a second apart send every other time;
  a packet that causes an error is worth the ten rounds that the error may wait.\<close>

definition rank :: "int \<Rightarrow> arp_queue_entry \<Rightarrow> nat" where
  "rank now e =
    (if wanting (aq_head e) = 0 then 0 else 10) + 2 * (nat (5 - aq_requests e) + 1) - (if now - aq_last_req_time e \<ge> 1 then 1 else 0)"

text \<open>Before a round, an entry that the last round at \<open>prev\<close> left; after it; and an entry made in it.\<close>

definition before :: "int \<Rightarrow> nat \<Rightarrow> router_state \<Rightarrow> arp_queue_entry \<Rightarrow> bool" where
  "before prev k rs e = (entry_ok rs e \<and> aq_last_req_time e \<le> prev \<and> rank prev e \<le> Suc k)"

definition after :: "nat \<Rightarrow> router_state \<Rightarrow> arp_queue_entry \<Rightarrow> bool" where
  "after k rs e = (entry_ok rs e \<and> aq_last_req_time e \<le> clock rs \<and> rank (clock rs) e \<le> k)"

definition made :: "nat \<Rightarrow> router_state \<Rightarrow> arp_queue_entry \<Rightarrow> bool" where
  "made k rs e = (entry_ok rs e \<and> aq_last_req_time e = clock rs \<and> rank (clock rs) e \<le> k)"

lemmas stage_defs = before_def after_def made_def rank_def

lemma made_after: "made k rs e \<Longrightarrow> after k rs e"
  by (simp add: made_def after_def)

lemma stage_add:
  assumes "42 \<le> length p" "\<not> wants_error p"
  shows "before prev k rs e \<Longrightarrow> before prev k rs (arp_queue_entry_add_packet p e)" "after k rs e \<Longrightarrow> after k rs (arp_queue_entry_add_packet p e)"
    "made k rs e \<Longrightarrow> made k rs (arp_queue_entry_add_packet p e)"
  using assms by (auto simp: stage_defs entry_ok_def heads_ok_def packet_ok_def arp_queue_entry_add_packet_def)

lemma stage_again:
  assumes "before prev k rs e" "clock rs - aq_last_req_time e > 1" "aq_requests e < 5"
  shows "after k rs (e\<lparr>aq_last_req_time := clock rs, aq_requests := aq_requests e + 1\<rparr>)"
proof -
  have "nat (5 - aq_requests e) = Suc (nat (4 - aq_requests e))" using assms(3) by linarith
  then show ?thesis using assms(1) by (simp add: stage_defs entry_ok_def split: if_splits)
qed

lemma stage_young: "before prev k rs e \<Longrightarrow> prev < clock rs \<Longrightarrow> \<not> clock rs - aq_last_req_time e > 1 \<Longrightarrow> after k rs e"
  by (simp add: stage_defs split: if_splits)

lemma stage_errors: "before prev k rs e \<Longrightarrow> wanting (aq_head e) \<noteq> 0 \<Longrightarrow> 10 \<le> k"
  by (simp add: stage_defs split: if_splits)

lemma stage_new:
  "10 \<le> k \<Longrightarrow> entry_ok rs e \<Longrightarrow> aq_last_req_time e = clock rs \<Longrightarrow> aq_requests e = 1 \<Longrightarrow> wanting (aq_head e) = 0 \<Longrightarrow> made k rs e"
  by (simp add: made_def rank_def)

lemma stage_sent [simp]:
  "before prev k (emit fs rs) = before prev k rs" "after k (emit fs rs) = after k rs" "made k (emit fs rs) = made k rs"
  "before prev k (rs\<lparr>arp_queue := q\<rparr>) = before prev k rs" "after k (rs\<lparr>arp_queue := q\<rparr>) = after k rs" "made k (rs\<lparr>arp_queue := q\<rparr>) = made k rs"
  by (simp_all add: stage_defs fun_eq_iff)

section \<open>One round\<close>

text \<open>While the packets of entry \<open>i\<close> are answered, \<open>m\<close> entries are left of the queue the thread started with.\<close>

definition serving :: "int \<Rightarrow> nat \<Rightarrow> nat \<Rightarrow> nat \<Rightarrow> router_state \<Rightarrow> bool" where
  "serving prev k i m rs =
    (net_ok rs \<and> i < m \<and> m \<le> length (arp_queue rs) \<and> heads_ok (aq_head (arp_queue rs ! i)) \<and> (wanting (aq_head (arp_queue rs ! i)) \<noteq> 0 \<longrightarrow> 10 \<le> k) \<and>
     (\<forall>j<length (arp_queue rs). (j < i \<longrightarrow> after k rs (arp_queue rs ! j)) \<and>
       (i < j \<and> j < m \<longrightarrow> before prev k rs (arp_queue rs ! j) \<or> made k rs (arp_queue rs ! j)) \<and> (m \<le> j \<longrightarrow> made k rs (arp_queue rs ! j))))"

lemma serving_waits:
  assumes "serving prev k i m rs" "waits rs q" "10 \<le> k"
  shows "serving prev k i m (rs\<lparr>arp_queue := q\<rparr>) \<and> (\<exists>hs. aq_head (q ! i) = aq_head (arp_queue rs ! i) @ hs)"
  using assms(2) unfolding waits_def
proof (elim disjE exE conjE)
  fix p nh
  assume p: "42 \<le> length p" "\<not> wants_error p" and q: "q = upd_first (\<lambda>a. aq_next_hop a = nh) (arp_queue_entry_add_packet p) (arp_queue rs)"
  have nth: "j < length (arp_queue rs) \<Longrightarrow> q ! j = arp_queue rs ! j \<or> q ! j = arp_queue_entry_add_packet p (arp_queue rs ! j)" for j
    unfolding q by (rule upd_first_nth)
  have i: "i < length (arp_queue rs)" and l: "length q = length (arp_queue rs)" using assms(1) by (simp_all add: serving_def q)
  have hd: "heads_ok (aq_head (q ! i))" "\<exists>hs. aq_head (q ! i) = aq_head (arp_queue rs ! i) @ hs"
    using nth [OF i] p assms(1) by (auto simp: serving_def heads_ok_def packet_ok_def arp_queue_entry_add_packet_def)
  have "(j < i \<longrightarrow> after k rs (q ! j)) \<and> (i < j \<and> j < m \<longrightarrow> before prev k rs (q ! j) \<or> made k rs (q ! j)) \<and> (m \<le> j \<longrightarrow> made k rs (q ! j))"
    if "j < length (arp_queue rs)" for j
    using nth [OF that] that assms(1) stage_add [OF p] unfolding serving_def by metis
  then show ?thesis using assms(1,3) hd l by (simp add: serving_def)
next
  fix e
  assume q: "q = arp_queue rs @ [e]" and e: "aq_last_req_time e = clock rs" "aq_requests e = 1" "entry_ok rs e" "wanting (aq_head e) = 0"
  have "made k rs e" by (rule stage_new [OF assms(3) e(3,1,2,4)])
  then show ?thesis using assms(1,3) q by (auto simp: serving_def nth_append less_Suc_eq)
qed (use assms(1) in simp)

lemma serving_tl:
  assumes "serving prev k i m rs"
  shows "serving prev k i m (upd_queue_at i (\<lambda>a. a\<lparr>aq_head := tl (aq_head a)\<rparr>) rs)"
proof -
  have i: "i < length (arp_queue rs)" using assms by (simp add: serving_def)
  have "heads_ok (tl hs)" if "heads_ok hs" for hs using that by (cases hs) (simp_all add: heads_ok_def)
  moreover have "wanting (tl hs) \<noteq> 0 \<Longrightarrow> wanting hs \<noteq> 0" for hs by (cases hs) auto
  ultimately show ?thesis using assms i by (simp add: serving_def upd_queue_at_def nth_list_update)
qed

lemma expire_entry_serves:
  assumes "expire_entry_packets i rs = Some r" "serving prev k i m rs"
  shows "\<exists>fs q. r = Inr ((emit fs rs)\<lparr>arp_queue := q\<rparr>) \<and> serving prev k i m (rs\<lparr>arp_queue := q\<rparr>)"
  using assms
proof (induction rule: expire_entry_packets.raw_induct [rotated, consumes 1])
  case (1 f i rs r)
  show ?case
  proof (cases "aq_head (arp_queue rs ! i)")
    case Nil
    then have "r = Inr ((emit [] rs)\<lparr>arp_queue := arp_queue rs\<rparr>)" using 1(2) by simp
    then show ?thesis using 1(3) by - (rule exI [of _ "[]"], rule exI [of _ "arp_queue rs"], simp)
  next
    case (Cons a hs)
    have p: "net_ok rs" "packet_ok (aqp_packet a)" "wants_error (aqp_packet a) \<longrightarrow> 10 \<le> k" using 1(3) Cons by (auto simp: serving_def heads_ok_def)
    from unreachable_waits [OF p(1,2)] obtain fs q where u: "unreachable_packet (aqp_packet a) rs = Inr ((emit fs rs)\<lparr>arp_queue := q\<rparr>)"
      and q: "waits rs q" "\<not> wants_error (aqp_packet a) \<longrightarrow> q = arp_queue rs" by blast
    have s: "serving prev k i m (rs\<lparr>arp_queue := q\<rparr>)" using serving_waits [OF 1(3) q(1)] q(2) p(3) 1(3) by auto
    let ?rs = "upd_queue_at i (\<lambda>a. a\<lparr>aq_head := tl (aq_head a)\<rparr>) (rs\<lparr>arp_queue := q\<rparr>)"
    have "f i (emit fs ?rs) = Some r" using 1(2) Cons u by (simp add: upd_queue_at_def)
    moreover have "serving prev k i m (emit fs ?rs)" using serving_tl [OF s] by (simp add: serving_def)
    ultimately obtain gs q' where "r = Inr ((emit gs (emit fs ?rs))\<lparr>arp_queue := q'\<rparr>)" "serving prev k i m ((emit fs ?rs)\<lparr>arp_queue := q'\<rparr>)"
      using 1(1) by blast
    then show ?thesis by - (rule exI [of _ "fs @ gs"], rule exI [of _ q'], simp add: upd_queue_at_def serving_def)
  qed
qed

text \<open>The walk over the queue: what is behind the current entry has been aged, what is ahead has not or was made in this round.\<close>

definition aging :: "int \<Rightarrow> nat \<Rightarrow> nat \<Rightarrow> bool \<Rightarrow> router_state \<Rightarrow> bool" where
  "aging prev k i n rs =
    (net_ok rs \<and> prev < clock rs \<and> (n \<longrightarrow> i < length (arp_queue rs)) \<and>
     (\<forall>j<length (arp_queue rs). (j < i \<longrightarrow> after k rs (arp_queue rs ! j)) \<and>
       (i \<le> j \<longrightarrow> (if n then before prev k rs (arp_queue rs ! j) \<or> made k rs (arp_queue rs ! j) else after k rs (arp_queue rs ! j)))))"

lemma aging_next:
  assumes "aging prev k i True rs" "after k rs e"
  shows "aging prev k (Suc i) (Suc i < length (arp_queue rs)) (rs\<lparr>arp_queue := (arp_queue rs)[i := e]\<rparr>)"
  using assms by (auto simp: aging_def nth_list_update less_Suc_eq)

lemma aging_remove:
  assumes "serving prev k i m (rs\<lparr>arp_queue := q\<rparr>)" "prev < clock rs"
  shows "aging prev k i (Suc i < m) (rs\<lparr>arp_queue := take i q @ drop (Suc i) q\<rparr>)"
proof -
  have m: "i < m" "m \<le> length q" "net_ok rs" and s: "j < length q \<Longrightarrow> (j < i \<longrightarrow> after k rs (q ! j)) \<and>
      (i < j \<and> j < m \<longrightarrow> before prev k rs (q ! j) \<or> made k rs (q ! j)) \<and> (m \<le> j \<longrightarrow> made k rs (q ! j))" for j
    using assms(1) by (simp_all add: serving_def)
  have "(if Suc i < m then before prev k rs (q ! Suc j) \<or> made k rs (q ! Suc j) else after k rs (q ! Suc j))"
    if "i \<le> j" "Suc j < length q" for j
    using s [of "Suc j"] that m(1) made_after by (cases "Suc j < m") auto
  then show ?thesis using s m assms(2) by (auto simp: aging_def nth_append min_def not_less)
qed

lemma process_arp_queue_ages:
  assumes "process_arp_queue_from i n rs = Some r" "aging prev k i n rs"
  shows "\<exists>fs q. r = Inr ((emit fs rs)\<lparr>arp_queue := q\<rparr>) \<and> list_all (after k rs) q"
  using assms
proof (induction rule: process_arp_queue_from.raw_induct [rotated, consumes 1])
  case (1 f i n rs r)
  have goes_on: "\<exists>fs q. r = Inr ((emit fs rs)\<lparr>arp_queue := q\<rparr>) \<and> list_all (after k rs) q"
    if "f j b ((emit fs rs)\<lparr>arp_queue := q\<rparr>) = Some r" "aging prev k j b (rs\<lparr>arp_queue := q\<rparr>)" for j b fs q
  proof -
    have "aging prev k j b ((emit fs rs)\<lparr>arp_queue := q\<rparr>)" using that(2) by (cases b) (simp_all add: aging_def)
    with 1(1) [OF that(1)] obtain gs q' where "r = Inr (emit gs ((emit fs rs)\<lparr>arp_queue := q\<rparr>)\<lparr>arp_queue := q'\<rparr>)" "list_all (after k rs) q'" by auto
    then show ?thesis by - (rule exI [of _ "fs @ gs"], rule exI [of _ q'], simp)
  qed
  show ?case
  proof (cases n)
    case False
    then have "r = Inr ((emit [] rs)\<lparr>arp_queue := arp_queue rs\<rparr>)" "list_all (after k rs) (arp_queue rs)"
      using 1(2,3) by (simp_all add: aging_def list_all_length) (metis not_less)
    then show ?thesis by blast
  next
    case True
    let ?q = "arp_queue rs" and ?e = "arp_queue rs ! i" and ?more = "Suc i < length (arp_queue rs)"
    have a: "aging prev k i True rs" "net_ok rs" "prev < clock rs" "i < length ?q" and e: "before prev k rs ?e \<or> made k rs ?e"
      using 1(3) True by (simp_all add: aging_def)
    consider (young) "\<not> clock rs - aq_last_req_time ?e > 1" | (again) "clock rs - aq_last_req_time ?e > 1" "aq_requests ?e < 5"
      | (aged) "clock rs - aq_last_req_time ?e > 1" "\<not> aq_requests ?e < 5" by blast
    then show ?thesis
    proof cases
      case young
      then have "after k rs ?e" using e a(3) stage_young made_after by blast
      then have "aging prev k (Suc i) ?more (rs\<lparr>arp_queue := ?q\<rparr>)" using aging_next [OF a(1), of ?e] by simp
      moreover have "f (Suc i) ?more ((emit [] rs)\<lparr>arp_queue := ?q\<rparr>) = Some r" using 1(2) True young by simp
      ultimately show ?thesis using goes_on by blast
    next
      case again
      then have b: "before prev k rs ?e" using e by (auto simp: made_def)
      let ?e' = "?e\<lparr>aq_last_req_time := clock rs, aq_requests := aq_requests ?e + 1\<rparr>" and ?rs = "rs\<lparr>arp_queue := ?q[i := ?e\<lparr>aq_last_req_time := clock rs, aq_requests := aq_requests ?e + 1\<rparr>]\<rparr>"
      have "net_ok ?rs" "get_interface ?rs (aq_out_iface_name ?e) \<noteq> None" "port_ok ?rs (aq_out_iface_name ?e)"
        using a(2) b by (simp_all add: before_def entry_ok_def get_interface_def port_ok_def)
      from send_arp_request_ok [OF this] obtain fs where "send_arp_request (aq_next_hop ?e) (aq_out_iface_name ?e) ?rs = Inr (emit fs ?rs)" by blast
      then have "f (Suc i) ?more ((emit fs rs)\<lparr>arp_queue := ?q[i := ?e']\<rparr>) = Some r" using 1(2) True again by (simp add: Let_def upd_queue_at_def)
      then show ?thesis using goes_on aging_next [OF a(1) stage_again [OF b again]] by blast
    next
      case aged
      then have b: "before prev k rs ?e" using e by (auto simp: made_def)
      have s: "serving prev k i (length ?q) rs"
        using a b stage_errors [OF b] by (auto simp: serving_def aging_def before_def entry_ok_def)
      from expire_entry_terminates [OF a(4)] obtain x where x: "expire_entry_packets i rs = Some x" by blast
      from expire_entry_serves [OF x s] obtain fs q where q: "x = Inr ((emit fs rs)\<lparr>arp_queue := q\<rparr>)" "serving prev k i (length ?q) (rs\<lparr>arp_queue := q\<rparr>)" by blast
      have "f i ?more ((emit fs rs)\<lparr>arp_queue := take i q @ drop (Suc i) q\<rparr>) = Some r"
        using 1(2) True aged x q(1) by (simp add: Let_def remove_queue_at_def)
      then show ?thesis using goes_on aging_remove [OF q(2) a(3)] by blast
    qed
  qed
qed

section \<open>Rounds of the thread\<close>

text \<open>The router between two rounds, and rounds of \<^verbatim>\<open>arp_thread\<close> that start the given seconds after each other.\<close>

definition idle :: "nat \<Rightarrow> router_state \<Rightarrow> bool" where
  "idle k rs = (held rs = [] \<and> net_ok rs \<and> list_all (after k rs) (arp_queue rs))"

fun arp_rounds :: "int list \<Rightarrow> router_state \<Rightarrow> router_state res" where
  "arp_rounds [] rs = Inr rs"
| "arp_rounds (d # ds) rs = bindR (arp_thread_step (rs\<lparr>clock := clock rs + d\<rparr>)) (arp_rounds ds)"

lemma expire_cache_state: "\<exists>r. expire_arp_cache rs = rs\<lparr>arp_cache := filter (\<lambda>e. \<not> arp_expired rs e) (arp_cache rs), regs := r\<rparr>"
  by (cases "list_ex (arp_expired rs) (arp_cache rs)") (auto simp: expire_arp_cache_def trigger_arp_cache_modified_def write_arp_cache_eq log_regs_def Let_def
      intro: exI [of _ "regs rs"])

lemma ages_all:
  assumes "net_ok rs" "prev < clock rs" "list_all (before prev k rs) (arp_queue rs)"
  shows "\<exists>fs q. process_arp_queue rs = Inr ((emit fs rs)\<lparr>arp_queue := q\<rparr>) \<and> list_all (after k rs) q"
proof -
  obtain r where r: "process_arp_queue_from 0 (arp_queue rs \<noteq> []) rs = Some r" using process_arp_queue_terminates [of "arp_queue rs \<noteq> []" 0 rs] by auto
  have "aging prev k 0 (arp_queue rs \<noteq> []) rs" using assms by (auto simp: aging_def list_all_length)
  from process_arp_queue_ages [OF r this] r show ?thesis by (auto simp: process_arp_queue_def)
qed

lemma arp_round:
  assumes "idle (Suc k) rs" "1 \<le> d"
  shows "\<exists>rs'. arp_thread_step (rs\<lparr>clock := clock rs + d\<rparr>) = Inr rs' \<and> idle k rs'"
proof -
  let ?in = "rs\<lparr>clock := clock rs + d, held := [(ArpCacheLock, Wr)]\<rparr>"
  obtain r where r: "expire_arp_cache ?in = ?in\<lparr>arp_cache := filter (\<lambda>e. \<not> arp_expired ?in e) (arp_cache rs), regs := r\<rparr>"
    using expire_cache_state [of ?in] by auto
  define rs1 where "rs1 = (expire_arp_cache ?in)\<lparr>held := [(RtableLock, Rd), (IfListLock, Rd), (ArpQueueLock, Wr), (ArpCacheLock, Rd)]\<rparr>"
  have idle: "held rs = []" "net_ok rs" "list_all (after (Suc k) rs) (arp_queue rs)" using assms(1) by (simp_all add: idle_def)
  have ok: "net_ok rs1" "clock rs1 = clock rs + d" "arp_queue rs1 = arp_queue rs" "entry_ok rs1 = entry_ok rs"
    using idle(2) by (auto simp: rs1_def r net_ok_def entry_ok_def get_iface_def get_interface_def driver_ok_def port_ok_def list_all_iff conflicts_def fun_eq_iff)
  have "list_all (before (clock rs) k rs1) (arp_queue rs1)" using idle(3) ok by (simp add: list_all_iff after_def before_def)
  with ages_all [of rs1 "clock rs" k] ok(1,2) assms(2) obtain fs q where q: "process_arp_queue rs1 = Inr ((emit fs rs1)\<lparr>arp_queue := q\<rparr>)"
    "list_all (after k rs1) q" by auto
  have "arp_thread_step (rs\<lparr>clock := clock rs + d\<rparr>) = Inr ((emit fs rs1)\<lparr>arp_queue := q, held := []\<rparr>)"
    using idle(1) q(1) by (simp add: arp_thread_step_def acquire_free release_hd conflicts_def r rs1_def)
  moreover have "idle k ((emit fs rs1)\<lparr>arp_queue := q, held := []\<rparr>)"
    using ok(1) q(2) by (auto simp: idle_def net_ok_def conflicts_def after_def entry_ok_def get_iface_def get_interface_def driver_ok_def port_ok_def list_all_iff)
  ultimately show ?thesis by blast
qed

section \<open>Properties\<close>

text \<open>
  Claim C10. No packet waits for ever: if the router can send, whatever packets wait for ARP replies that do not come, twenty rounds of
  the ARP thread, each at least a second after the last, all return and leave the queue empty, the ICMP errors that they produced included.
\<close>

theorem arp_queue_drains:
  assumes "held rs = []" "net_ok rs" "list_all (\<lambda>e. entry_ok rs e \<and> 1 \<le> aq_requests e \<and> aq_last_req_time e \<le> clock rs) (arp_queue rs)"
    and "length ds = 20" "list_all (\<lambda>d. 1 \<le> d) ds"
  shows "\<exists>rs'. arp_rounds ds rs = Inr rs' \<and> arp_queue rs' = []"
proof -
  have rounds: "\<exists>rs'. arp_rounds ds rs = Inr rs' \<and> idle 0 rs'" if "idle (length ds) rs" "list_all (\<lambda>d. 1 \<le> d) ds" for rs ds
    using that
  proof (induction ds arbitrary: rs)
    case (Cons d ds)
    with arp_round [of "length ds" rs d] obtain rs1 where "arp_thread_step (rs\<lparr>clock := clock rs + d\<rparr>) = Inr rs1" "idle (length ds) rs1" by auto
    then show ?case using Cons by simp
  qed simp
  have "rank (clock rs) e \<le> 20" if "1 \<le> aq_requests e" for e
  proof -
    have "nat (5 - aq_requests e) \<le> 4" using that by simp
    then show ?thesis by (simp add: rank_def)
  qed
  then have "idle (length ds) rs" using assms by (auto simp: idle_def after_def list_all_iff)
  from rounds [OF this assms(5)] obtain rs' where "arp_rounds ds rs = Inr rs'" "idle 0 rs'" by blast
  moreover have "rank now e \<noteq> 0" for now e by (simp add: rank_def)
  ultimately show ?thesis by (cases "arp_queue rs'") (auto simp: idle_def after_def)
qed

section \<open>Witness\<close>

text \<open>A datagram waits for a next hop; the way back to its sender goes through the same interface.\<close>

definition demo_waiting :: router_state where
  "demo_waiting = (bzero_state demo_env)\<lparr>if_list := [demo_iface ''eth0'' 9 0],
    rtable := [\<lparr>re_ip = 0, re_gw = 0, re_mask = 0, re_iface = ''eth0'', re_static = True, re_active = True\<rparr>],
    arp_queue := [\<lparr>aq_out_iface_name = ''eth0'', aq_next_hop = 7, aq_requests = 1, aq_last_req_time = 0,
      aq_head = [\<lparr>aqp_packet = replicate 14 0 @ [0x45] @ replicate 8 0 @ [17] @ replicate 36 0\<rparr>]\<rparr>]\<rparr>"

theorem arp_queue_drains_witness:
  "arp_queue demo_waiting \<noteq> [] \<and> (\<exists>rs'. arp_rounds (replicate 20 1) demo_waiting = Inr rs' \<and> arp_queue rs' = [])"
proof
  have "renv demo_waiting = demo_env" by (simp add: demo_waiting_def)
  note env = demo_env_ok [OF this]
  have net: "net_ok demo_waiting" using env by (simp add: net_ok_def demo_waiting_def demo_iface_def get_iface_def conflicts_def)
  have "packet_ok (replicate 14 0 @ [0x45] @ replicate 8 0 @ [17] @ replicate 36 0)" by (simp add: packet_ok_def nth_append)
  then have entry: "list_all (\<lambda>e. entry_ok demo_waiting e \<and> 1 \<le> aq_requests e \<and> aq_last_req_time e \<le> clock demo_waiting) (arp_queue demo_waiting)"
    by (simp add: entry_ok_def heads_ok_def demo_waiting_def get_interface_def demo_iface_def port_ok_def demo_env_def internal_names_def open_sockets_def)
  show "\<exists>rs'. arp_rounds (replicate 20 1) demo_waiting = Inr rs' \<and> arp_queue rs' = []"
    by (rule arp_queue_drains [OF _ net entry]) (simp_all add: demo_waiting_def list_all_iff)
qed (simp add: demo_waiting_def)

end
