(* ===== verification/Dijkstra.thy ===== *)
theory Dijkstra
  imports Iface Rtable
begin

text \<open>
  \<^verbatim>\<open>or_dijkstra.c\<close>: the routing table computed from the link states. \<open>shortest_paths\<close> is the first
  part of \<^verbatim>\<open>compute_rtable\<close>, which sets the distance and the predecessor of every router;
  \<open>build_route_wrapper_list\<close> collects the advertised subnets with the first router on the way
  to them; \<open>unwrap_routes\<close> is the last part, which finds the interface and the gateway.

  A pointer to a router is its \<open>r_addr\<close>; \<^verbatim>\<open>prev_router\<close> is followed by looking the address up
  in the list, and an address that is no longer there is a freed router.
\<close>

section \<open>Shortest paths\<close>

definition get_router_by_rid :: "u32 \<Rightarrow> pwospf_router list \<Rightarrow> pwospf_router option" where
  "get_router_by_rid rid rl = find (\<lambda>r. r_router_id r = rid) rl"

definition upd_router :: "nat \<Rightarrow> (pwospf_router \<Rightarrow> pwospf_router) \<Rightarrow> pwospf_router list \<Rightarrow> pwospf_router list" where
  "upd_router a f rl = map (\<lambda>r. if r_addr r = a then f r else r) rl"

fun shortest_loop :: "pwospf_router list \<Rightarrow> pwospf_router option \<Rightarrow> u32 \<Rightarrow> pwospf_router option" where
  "shortest_loop [] shortest_router shortest_distance = shortest_router"
| "shortest_loop (r # rl) shortest_router shortest_distance =
    (if \<not> r_shortest_path_found r \<and> r_distance r < shortest_distance
     then shortest_loop rl (Some r) (r_distance r)
     else shortest_loop rl shortest_router shortest_distance)"

definition get_shortest :: "pwospf_router list \<Rightarrow> pwospf_router option" where
  "get_shortest rl = shortest_loop rl None 0xFFFFFFFF"

text \<open>The loop never writes \<open>w\<close> itself, whose path is already found.\<close>

fun update_neighbor_loop :: "pwospf_router \<Rightarrow> pwospf_interface list \<Rightarrow> pwospf_router list \<Rightarrow> pwospf_router list" where
  "update_neighbor_loop w [] rl = rl"
| "update_neighbor_loop w (i # is) rl =
    update_neighbor_loop w is
      (if pi_router_id i \<noteq> 0 \<and> pi_active i
       then case get_router_by_rid (pi_router_id i) rl of
           None \<Rightarrow> rl
         | Some v \<Rightarrow>
             if \<not> r_shortest_path_found v \<and> r_distance w + 1 < r_distance v
             then upd_router (r_addr v) (\<lambda>v. v\<lparr>r_distance := r_distance w + 1, r_prev_router := Some (r_addr w)\<rparr>) rl
             else rl
       else rl)"

definition update_neighbor_distance :: "pwospf_router \<Rightarrow> pwospf_router list \<Rightarrow> pwospf_router list" where
  "update_neighbor_distance w rl = update_neighbor_loop w (r_interface_list w) rl"

definition init_distance :: "u32 \<Rightarrow> pwospf_router \<Rightarrow> pwospf_router" where
  "init_distance our_router_id r =
    (if r_router_id r = our_router_id then r\<lparr>r_distance := 0, r_shortest_path_found := True\<rparr>
     else if r_router_id r \<noteq> 0 then r\<lparr>r_distance := 0xFFFFFFFF, r_shortest_path_found := False\<rparr>
     else r)"

definition mark_found :: "pwospf_router \<Rightarrow> pwospf_router" where
  "mark_found r = r\<lparr>r_shortest_path_found := True\<rparr>"

text \<open>What an iteration leaves alone: the updates change distances and predecessors only, so the set of
  routers without a path shrinks by the chosen one, which bounds the loop.\<close>

abbreviation unfound :: "pwospf_router list \<Rightarrow> pwospf_router list" where
  "unfound rl \<equiv> filter (\<lambda>r. \<not> r_shortest_path_found r) rl"

lemma upd_router_addrs:
  assumes "\<And>r. r_addr (f r) = r_addr r" "\<And>r. r_shortest_path_found (f r) = r_shortest_path_found r"
  shows "map r_addr (unfound (upd_router a f rl)) = map r_addr (unfound rl)"
  using assms by (induction rl) (auto simp: upd_router_def)

lemma update_neighbor_addrs: "map r_addr (unfound (update_neighbor_loop w is rl)) = map r_addr (unfound rl)"
  by (induction w "is" rl rule: update_neighbor_loop.induct)
    (auto simp: upd_router_addrs split: option.splits)

lemma mark_addrs: "map r_addr (unfound (upd_router a mark_found rl)) = filter (\<lambda>x. x \<noteq> a) (map r_addr (unfound rl))"
  by (induction rl) (auto simp: upd_router_def mark_found_def)

lemma shortest_loop_in:
  "shortest_loop rl s d = Some r \<Longrightarrow> s = Some r \<or> (r \<in> set rl \<and> \<not> r_shortest_path_found r)"
  by (induction rl s d rule: shortest_loop.induct) (auto split: if_splits)

lemma get_shortest_in: "get_shortest rl = Some r \<Longrightarrow> r \<in> set (unfound rl)"
  using shortest_loop_in [of rl None] by (auto simp: get_shortest_def)

definition spf_measure :: "pwospf_router option \<Rightarrow> pwospf_router list \<Rightarrow> nat" where
  "spf_measure p rl = (case p of None \<Rightarrow> 0 | Some r \<Rightarrow> Suc (length (filter (\<lambda>x. x \<noteq> r_addr r) (map r_addr (unfound rl)))))"

lemma spf_measure_decreases:
  "spf_measure (get_shortest (update_neighbor_distance w (upd_router (r_addr r) mark_found rl)))
     (update_neighbor_distance w (upd_router (r_addr r) mark_found rl)) < spf_measure (Some r) rl"
proof -
  let ?rl = "update_neighbor_distance w (upd_router (r_addr r) mark_found rl)"
  have addrs: "map r_addr (unfound ?rl) = filter (\<lambda>x. x \<noteq> r_addr r) (map r_addr (unfound rl))"
    by (simp add: update_neighbor_distance_def update_neighbor_addrs mark_addrs)
  show ?thesis
  proof (cases "get_shortest ?rl")
    case (Some r')
    then have "r_addr r' \<in> set (map r_addr (unfound ?rl))" using get_shortest_in by (metis imageI list.set_map)
    then have "length (filter (\<lambda>x. x \<noteq> r_addr r') (map r_addr (unfound ?rl))) < length (map r_addr (unfound ?rl))"
      by (rule length_filter_less) simp
    then show ?thesis using Some by (simp add: spf_measure_def addrs)
  qed (simp add: spf_measure_def)
qed

function spf_loop :: "pwospf_router option \<Rightarrow> pwospf_router list \<Rightarrow> pwospf_router list" where
  "spf_loop None rl = rl"
| "spf_loop (Some r) rl =
    (let rl' = update_neighbor_distance (mark_found r) (upd_router (r_addr r) mark_found rl)
     in spf_loop (get_shortest rl') rl')"
  by pat_completeness auto
termination
  by (relation "measure (\<lambda>(p, rl). spf_measure p rl)") (auto simp: spf_measure_decreases)

definition shortest_paths :: "u32 \<Rightarrow> pwospf_router list \<Rightarrow> pwospf_router list" where
  "shortest_paths our_router_id rl =
    (let rl = map (init_distance our_router_id) rl in spf_loop (get_router_by_rid our_router_id rl) rl)"

section \<open>Route wrappers\<close>

record route_wrapper =
  rw_ip :: u32
  rw_mask :: u32
  rw_distance :: u16
  rw_next_rid :: u32
  rw_directly_connected :: bool

definition get_route_wrapper :: "route_wrapper list \<Rightarrow> u32 \<Rightarrow> u32 \<Rightarrow> route_wrapper option" where
  "get_route_wrapper ws subnet msk = find (\<lambda>w. rw_ip w = (subnet AND msk) \<and> rw_mask w = msk) ws"

text \<open>The walk down the predecessors until the next router is the source.\<close>

partial_function (option) first_hop_walk :: "pwospf_router list \<Rightarrow> pwospf_router \<Rightarrow> u32 res option" where
  "first_hop_walk rl cur_router =
    (case r_prev_router cur_router of
       None \<Rightarrow> Some (Inl NullDeref)
     | Some a \<Rightarrow>
        (case find (\<lambda>r. r_addr r = a) rl of
           None \<Rightarrow> Some (Inl UseAfterFree)
         | Some p \<Rightarrow> if r_distance p \<noteq> 0 then first_hop_walk rl p else Some (Inr (r_router_id cur_router))))"

declare first_hop_walk.simps [code]

definition next_rid :: "pwospf_router list \<Rightarrow> pwospf_router \<Rightarrow> pwospf_interface \<Rightarrow> u32 res" where
  "next_rid rl r i =
    (if r_prev_router r = None then Inr (pi_router_id i)
     else case first_hop_walk rl r of None \<Rightarrow> Inl NonTermination | Some res \<Rightarrow> res)"

fun add_wrappers_loop ::
  "u32 \<Rightarrow> pwospf_router list \<Rightarrow> pwospf_router \<Rightarrow> pwospf_interface list \<Rightarrow> route_wrapper list \<Rightarrow> route_wrapper list res" where
  "add_wrappers_loop our_rid rl r [] ws = Inr ws"
| "add_wrappers_loop our_rid rl r (i # is) ws =
    (case get_route_wrapper ws (pi_subnet i) (pi_mask i) of
       Some w \<Rightarrow>
         if r_distance r \<ge> ucast (rw_distance w) then add_wrappers_loop our_rid rl r is ws
         else bindR (next_rid rl r i) (\<lambda>rid.
              add_wrappers_loop our_rid rl r is
                (upd_first (\<lambda>w. rw_ip w = (pi_subnet i AND pi_mask i) \<and> rw_mask w = pi_mask i)
                  (\<lambda>w. w\<lparr>rw_distance := ucast (r_distance r), rw_next_rid := rid,
                         rw_directly_connected := (our_rid = r_router_id r \<or> rw_directly_connected w)\<rparr>) ws))
     | None \<Rightarrow>
         bindR (next_rid rl r i) (\<lambda>rid.
         add_wrappers_loop our_rid rl r is
           (ws @ [\<lparr>rw_ip = pi_subnet i AND pi_mask i, rw_mask = pi_mask i, rw_distance = ucast (r_distance r),
                   rw_next_rid = rid, rw_directly_connected = (our_rid = r_router_id r)\<rparr>])))"

definition add_route_wrappers :: "u32 \<Rightarrow> pwospf_router list \<Rightarrow> route_wrapper list \<Rightarrow> pwospf_router \<Rightarrow> route_wrapper list res" where
  "add_route_wrappers our_rid rl ws r = add_wrappers_loop our_rid rl r (r_interface_list r) ws"

fun build_wrappers_loop :: "u32 \<Rightarrow> pwospf_router list \<Rightarrow> pwospf_router list \<Rightarrow> route_wrapper list \<Rightarrow> route_wrapper list res" where
  "build_wrappers_loop our_rid rl [] ws = Inr ws"
| "build_wrappers_loop our_rid rl (r # rs) ws =
    bindR (add_route_wrappers our_rid rl ws r) (\<lambda>ws. build_wrappers_loop our_rid rl rs ws)"

definition build_route_wrapper_list :: "u32 \<Rightarrow> pwospf_router list \<Rightarrow> route_wrapper list res" where
  "build_route_wrapper_list our_rid rl = build_wrappers_loop our_rid rl rl []"

section \<open>Routes\<close>

definition get_iface_by_rid :: "u32 \<Rightarrow> iface_entry list \<Rightarrow> iface_entry option" where
  "get_iface_by_rid rid ifs =
    (if rid = 0 then None else find (\<lambda>i. list_ex (\<lambda>nbr. nbr_router_id nbr = rid) (if_nbr_routers i)) ifs)"

definition get_iface_by_subnet_mask :: "u32 \<Rightarrow> u32 \<Rightarrow> iface_entry list \<Rightarrow> iface_entry option" where
  "get_iface_by_subnet_mask subnet msk ifs = find (\<lambda>i. (if_ip i AND if_mask i) = subnet \<and> if_mask i = msk) ifs"

fun unwrap_routes :: "iface_entry list \<Rightarrow> route_wrapper list \<Rightarrow> rtable_entry list res" where
  "unwrap_routes ifs [] = Inr []"
| "unwrap_routes ifs (w # ws) =
    (case (case get_iface_by_rid (rw_next_rid w) ifs of
             Some i \<Rightarrow> Some i | None \<Rightarrow> get_iface_by_subnet_mask (rw_ip w) (rw_mask w) ifs) of
       None \<Rightarrow> unwrap_routes ifs ws
     | Some iface \<Rightarrow>
         bindR (if rw_directly_connected w then Inr 0
                else case get_nbr_by_rid iface (rw_next_rid w) of
                    None \<Rightarrow> Inl AssertFail | Some nbr \<Rightarrow> Inr (nbr_ip nbr)) (\<lambda>gw.
         bindR (unwrap_routes ifs ws) (\<lambda>es.
         Inr (\<lparr>re_ip = rw_ip w, re_gw = gw, re_mask = rw_mask w, re_iface = if_name iface,
               re_static = False, re_active = True\<rparr> # es))))"

definition compute_rtable :: "u32 \<Rightarrow> pwospf_router list \<Rightarrow> iface_entry list \<Rightarrow> (rtable_entry list \<times> pwospf_router list) res" where
  "compute_rtable our_router_id rl ifs =
    (let rl = shortest_paths our_router_id rl in
     bindR (build_route_wrapper_list our_router_id rl) (\<lambda>ws.
     bindR (unwrap_routes ifs ws) (\<lambda>es. Inr (es, rl))))"

text \<open>One iteration of the loop of \<^verbatim>\<open>dijkstra_thread\<close>, from the wake-up (which reacquires the mutex that the
  timed wait released) to the next wait; \<open>timedout\<close> is the result \<^verbatim>\<open>ETIMEDOUT\<close> of the wait.\<close>

definition dijkstra_thread_step :: "bool \<Rightarrow> router_state \<Rightarrow> router_state res" where
  "dijkstra_thread_step timedout rs =
    bindR (acquire DijkstraMutex Wr rs) (\<lambda>rs.
    if timedout \<and> dijkstra_dirty rs = 0 then release DijkstraMutex rs
    else
      let rs = rs\<lparr>dijkstra_dirty := 0\<rparr> in
      bindR (acquire IfListLock Rd rs) (\<lambda>rs.
      bindR (acquire RtableLock Wr rs) (\<lambda>rs.
      bindR (acquire RouterListMutex Wr rs) (\<lambda>rs.
      let rs = rs\<lparr>rtable := filter re_static (rtable rs)\<rparr> in
      bindR (compute_rtable (router_id rs) (pwospf_router_list rs) (if_list rs)) (\<lambda>(dijkstra_rtable, rl).
      let rs = rs\<lparr>pwospf_router_list := rl, rtable := rtable rs @ dijkstra_rtable\<rparr> in
      bindR (trigger_rtable_modified rs) (\<lambda>rs.
      bindR (release RouterListMutex rs) (\<lambda>rs.
      bindR (release RtableLock rs) (\<lambda>rs.
      bindR (release IfListLock rs) (\<lambda>rs.
      release DijkstraMutex rs)))))))))"

definition dijkstra_trigger :: "router_state \<Rightarrow> router_state" where
  "dijkstra_trigger rs = pthread_cond_signal DijkstraCond (rs\<lparr>dijkstra_dirty := 1\<rparr>)"

section \<open>The shortest paths are shortest\<close>

text \<open>The graph the link states describe: \<open>w\<close> is adjacent to \<open>v\<close> when one of its active interfaces names
  \<open>v\<close>. \<open>link\<close> is that relation on the ids of the known routers, \<open>hop_distance\<close> the length of
  a shortest path.\<close>

definition adj :: "pwospf_router \<Rightarrow> pwospf_router \<Rightarrow> bool" where
  "adj w v = list_ex (\<lambda>i. pi_router_id i \<noteq> 0 \<and> pi_active i \<and> pi_router_id i = r_router_id v) (r_interface_list w)"

definition link :: "pwospf_router list \<Rightarrow> u32 \<Rightarrow> u32 \<Rightarrow> bool" where
  "link rl a b = list_ex (\<lambda>w. r_router_id w = a \<and> list_ex (\<lambda>v. r_router_id v = b \<and> adj w v) rl) rl"

definition hop_distance :: "pwospf_router list \<Rightarrow> u32 \<Rightarrow> u32 \<Rightarrow> nat \<Rightarrow> bool" where
  "hop_distance rl a b n = ((link rl ^^ n) a b \<and> (\<forall>k<n. \<not> (link rl ^^ k) a b))"

abbreviation dist :: "pwospf_router \<Rightarrow> nat" where
  "dist r \<equiv> unat (r_distance r)"

abbreviation (input) far :: nat where
  "far \<equiv> 4294967295"

definition ids_ok :: "pwospf_router list \<Rightarrow> bool" where
  "ids_ok rl = (distinct (map r_router_id rl) \<and> distinct (map r_addr rl))"

lemma ids_okD:
  "ids_ok rl \<Longrightarrow> v \<in> set rl \<Longrightarrow> u \<in> set rl \<Longrightarrow> r_router_id v = r_router_id u \<longleftrightarrow> v = u"
  "ids_ok rl \<Longrightarrow> v \<in> set rl \<Longrightarrow> u \<in> set rl \<Longrightarrow> r_addr v = r_addr u \<longleftrightarrow> v = u"
  by (auto simp: ids_ok_def distinct_map dest: inj_onD)

lemma ids_ok_map:
  "(\<And>r. r_router_id (f r) = r_router_id r) \<Longrightarrow> (\<And>r. r_addr (f r) = r_addr r) \<Longrightarrow> ids_ok (map f rl) = ids_ok rl"
  by (simp add: ids_ok_def comp_def)

lemma link_map:
  assumes "\<And>r. r_router_id (f r) = r_router_id r" "\<And>r. r_interface_list (f r) = r_interface_list r"
  shows "link (map f rl) = link rl"
  using assms by (auto simp: fun_eq_iff link_def adj_def list_ex_iff)

lemma linkI: "w \<in> set rl \<Longrightarrow> v \<in> set rl \<Longrightarrow> adj w v \<Longrightarrow> link rl (r_router_id w) (r_router_id v)"
  by (auto simp: link_def list_ex_iff)

lemma linkE:
  assumes "link rl a b"
  obtains w v where "w \<in> set rl" "v \<in> set rl" "adj w v" "r_router_id w = a" "r_router_id v = b"
  using assms by (auto simp: link_def list_ex_iff)

lemma find_rid: "ids_ok rl \<Longrightarrow> v \<in> set rl \<Longrightarrow> get_router_by_rid (r_router_id v) rl = Some v"
  by (cases "find (\<lambda>r. r_router_id r = r_router_id v) rl")
    (auto simp: get_router_by_rid_def find_None_iff dest!: find_Some_D simp: ids_okD)

lemma find_addr: "ids_ok rl \<Longrightarrow> v \<in> set rl \<Longrightarrow> find (\<lambda>r. r_addr r = r_addr v) rl = Some v"
  by (cases "find (\<lambda>r. r_addr r = r_addr v) rl") (auto simp: find_None_iff dest!: find_Some_D simp: ids_okD)

text \<open>One call of \<open>update_neighbor_distance\<close> relaxes every edge of \<open>w\<close>.\<close>

definition relax :: "pwospf_router \<Rightarrow> pwospf_interface list \<Rightarrow> pwospf_router \<Rightarrow> pwospf_router" where
  "relax w is v =
    (if list_ex (\<lambda>i. pi_router_id i \<noteq> 0 \<and> pi_active i \<and> pi_router_id i = r_router_id v) is \<and>
        \<not> r_shortest_path_found v \<and> r_distance w + 1 < r_distance v
     then v\<lparr>r_distance := r_distance w + 1, r_prev_router := Some (r_addr w)\<rparr> else v)"

lemma relax_fields [simp]:
  "r_router_id (relax w is v) = r_router_id v" "r_addr (relax w is v) = r_addr v"
  "r_interface_list (relax w is v) = r_interface_list v" "r_shortest_path_found (relax w is v) = r_shortest_path_found v"
  by (simp_all add: relax_def)

lemma relax_Cons: "relax w (i # is) v = relax w is (relax w [i] v)"
  by (auto simp: relax_def)

lemma relax_single:
  assumes "ids_ok rl"
  shows "(if pi_router_id i \<noteq> 0 \<and> pi_active i
       then case get_router_by_rid (pi_router_id i) rl of
           None \<Rightarrow> rl
         | Some v \<Rightarrow>
             if \<not> r_shortest_path_found v \<and> r_distance w + 1 < r_distance v
             then upd_router (r_addr v) (\<lambda>v. v\<lparr>r_distance := r_distance w + 1, r_prev_router := Some (r_addr w)\<rparr>) rl
             else rl
       else rl) = map (relax w [i]) rl"
proof (cases "get_router_by_rid (pi_router_id i) rl")
  case None
  then have "\<And>v. v \<in> set rl \<Longrightarrow> relax w [i] v = v"
    by (auto simp: get_router_by_rid_def find_None_iff relax_def)
  then show ?thesis using None by (simp add: map_idI)
next
  case (Some v)
  then have v: "v \<in> set rl" "r_router_id v = pi_router_id i"
    by (auto simp: get_router_by_rid_def dest: find_Some_D)
  have "u \<in> set rl \<Longrightarrow> pi_router_id i = r_router_id u \<longleftrightarrow> u = v" "u \<in> set rl \<Longrightarrow> r_addr u = r_addr v \<longleftrightarrow> u = v" for u
    using assms v ids_okD by metis+
  then have e: "u \<in> set rl \<Longrightarrow> relax w [i] u =
      (if u = v \<and> pi_router_id i \<noteq> 0 \<and> pi_active i \<and> \<not> r_shortest_path_found v \<and> r_distance w + 1 < r_distance v
       then u\<lparr>r_distance := r_distance w + 1, r_prev_router := Some (r_addr w)\<rparr> else u)"
    "u \<in> set rl \<Longrightarrow> r_addr u = r_addr v \<longleftrightarrow> u = v" for u
    by (auto simp: relax_def)
  show ?thesis using Some by (simp add: e upd_router_def cong: map_cong)
qed

lemma update_neighbor_loop_eq: "ids_ok rl \<Longrightarrow> update_neighbor_loop w is rl = map (relax w is) rl"
proof (induction "is" arbitrary: rl)
  case Nil
  then show ?case by (simp add: relax_def map_idI)
next
  case (Cons i "is")
  have "update_neighbor_loop w (i # is) rl = update_neighbor_loop w is (map (relax w [i]) rl)"
    by (simp only: update_neighbor_loop.simps relax_single [OF Cons.prems])
  also have "\<dots> = map (relax w is) (map (relax w [i]) rl)"
    using Cons.prems by (intro Cons.IH) (simp add: ids_ok_map)
  also have "\<dots> = map (relax w (i # is)) rl" by (simp add: relax_Cons [of w i "is"])
  finally show ?case .
qed

lemma shortest_loop_min:
  "shortest_loop rl s d = Some r \<Longrightarrow> (\<And>x. s = Some x \<Longrightarrow> r_distance x = d) \<Longrightarrow>
   (r_distance r < d \<or> s = Some r) \<and> (\<forall>v\<in>set (unfound rl). r_distance r \<le> r_distance v)"
proof (induction rl s d rule: shortest_loop.induct)
  case (2 a rl s d)
  show ?case
  proof (cases "\<not> r_shortest_path_found a \<and> r_distance a < d")
    case True
    have h: "(r_distance r < r_distance a \<or> Some a = Some r) \<and> (\<forall>v\<in>set (unfound rl). r_distance r \<le> r_distance v)"
      using 2(3) True by (intro 2(1) [OF True]) simp_all
    then have "r_distance r \<le> r_distance a" by (elim conjE disjE) simp_all
    moreover from this True have "r_distance r < d" by (blast intro: le_less_trans)
    ultimately show ?thesis using h True by simp
  next
    case False
    have h: "(r_distance r < d \<or> s = Some r) \<and> (\<forall>v\<in>set (unfound rl). r_distance r \<le> r_distance v)"
      using 2(3) False by (intro 2(2) [OF False] 2(4)) simp_all
    then have "r_distance r \<le> d" using 2(4) [of r] by (elim conjE disjE) simp_all
    moreover from this False have "\<not> r_shortest_path_found a \<Longrightarrow> r_distance r \<le> r_distance a" by (metis not_less order.trans)
    ultimately show ?thesis using h by simp
  qed
qed simp

lemma shortest_loop_None:
  "shortest_loop rl s d = None \<longleftrightarrow> s = None \<and> (\<forall>v\<in>set (unfound rl). d \<le> r_distance v)"
  by (induction rl s d rule: shortest_loop.induct) (auto simp: not_less)

text \<open>The invariant of the loop. Distances below the initial value are lengths of paths; every router
  with such a distance, other than the source, has a predecessor one hop closer whose path is
  found; distances are bounded by the number of routers found, so that the addition never wraps.\<close>

abbreviation nfound :: "pwospf_router list \<Rightarrow> nat" where
  "nfound rl \<equiv> length (filter r_shortest_path_found rl)"

definition tree_step :: "pwospf_router list \<Rightarrow> pwospf_router \<Rightarrow> bool" where
  "tree_step rl v =
    (\<exists>p\<in>set rl. r_prev_router v = Some (r_addr p) \<and> r_shortest_path_found p \<and> adj p v \<and> dist v = Suc (dist p))"

definition spf_node :: "u32 \<Rightarrow> pwospf_router list \<Rightarrow> pwospf_router \<Rightarrow> bool" where
  "spf_node us rl v =
    ((r_router_id v = us \<longrightarrow> r_shortest_path_found v \<and> dist v = 0) \<and>
     (r_shortest_path_found v \<longrightarrow> dist v < nfound rl) \<and>
     (dist v \<noteq> far \<longrightarrow> dist v \<le> nfound rl \<and> (link rl ^^ dist v) us (r_router_id v) \<and>
       (r_router_id v \<noteq> us \<longrightarrow> tree_step rl v)))"

definition spf_base :: "u32 \<Rightarrow> pwospf_router list \<Rightarrow> bool" where
  "spf_base us rl = (ids_ok rl \<and> length rl < far \<and> (\<forall>v\<in>set rl. spf_node us rl v))"

definition relaxed :: "pwospf_router list \<Rightarrow> pwospf_router \<Rightarrow> bool" where
  "relaxed rl v = (\<forall>u\<in>set rl. adj v u \<longrightarrow> dist u \<le> Suc (dist v))"

definition split_at :: "pwospf_router list \<Rightarrow> nat \<Rightarrow> bool" where
  "split_at rl m = (\<forall>v\<in>set rl. if r_shortest_path_found v then dist v \<le> m else m \<le> dist v)"

definition spf_ready :: "u32 \<Rightarrow> pwospf_router \<Rightarrow> pwospf_router list \<Rightarrow> bool" where
  "spf_ready us w rl =
    (spf_base us rl \<and> w \<in> set rl \<and> r_shortest_path_found w \<and> split_at rl (dist w) \<and>
     (\<forall>v\<in>set rl. r_shortest_path_found v \<longrightarrow> v \<noteq> w \<longrightarrow> relaxed rl v))"

definition spf_relaxed :: "u32 \<Rightarrow> nat \<Rightarrow> pwospf_router list \<Rightarrow> bool" where
  "spf_relaxed us m rl =
    (spf_base us rl \<and> split_at rl m \<and> (\<forall>v\<in>set rl. r_shortest_path_found v \<longrightarrow> relaxed rl v))"

lemma adj_cong: "r_interface_list w' = r_interface_list w \<Longrightarrow> r_router_id v' = r_router_id v \<Longrightarrow> adj w' v' = adj w v"
  by (simp add: adj_def)

lemma nfound_le: "nfound rl \<le> length rl"
  by simp

lemma spf_no_wrap:
  assumes "spf_base us rl" "w \<in> set rl" "r_shortest_path_found w"
  shows "unat (r_distance w + 1) = Suc (dist w)" "dist w < nfound rl" "dist w \<noteq> far"
proof -
  have "dist w < nfound rl" "nfound rl \<le> length rl" "length rl < far"
    using assms nfound_le by (auto simp: spf_base_def spf_node_def)
  moreover from this have "Suc (dist w) < far" by linarith
  ultimately show "unat (r_distance w + 1) = Suc (dist w)" "dist w < nfound rl" "dist w \<noteq> far"
    by (simp_all add: unat_word_ariths)
qed

lemma relax_step:
  assumes "spf_ready us w rl"
  shows "spf_relaxed us (dist w) (map (relax w (r_interface_list w)) rl)"
proof -
  let ?f = "relax w (r_interface_list w)" let ?rl = "map ?f rl"
  have base: "spf_base us rl" and w: "w \<in> set rl" "r_shortest_path_found w" and sp: "split_at rl (dist w)"
    and rx: "\<And>v. v \<in> set rl \<Longrightarrow> r_shortest_path_found v \<Longrightarrow> v \<noteq> w \<Longrightarrow> relaxed rl v"
    using assms by (auto simp: spf_ready_def)
  note nw = spf_no_wrap [OF base w]
  have ids: "ids_ok ?rl" "length ?rl < far" using base by (simp_all add: spf_base_def ids_ok_map)
  have lk: "link ?rl = link rl" by (simp add: link_map)
  have nf: "length (filter (r_shortest_path_found \<circ> ?f) rl) = nfound rl" by (simp add: comp_def)
  have aj: "adj (?f a) (?f b) = adj a b" for a b by (simp add: adj_def)
  have same: "r_shortest_path_found v \<Longrightarrow> ?f v = v" for v by (simp add: relax_def)
  have new: "?f v = (if adj w v \<and> \<not> r_shortest_path_found v \<and> Suc (dist w) < dist v
      then v\<lparr>r_distance := r_distance w + 1, r_prev_router := Some (r_addr w)\<rparr> else v)" for v
    by (auto simp: relax_def adj_def word_less_nat_alt nw(1))
  have le: "dist (?f v) \<le> dist v" for v by (simp add: new nw(1))
  have node: "spf_node us rl v" if "v \<in> set rl" for v using base that by (simp add: spf_base_def)
  have keep: "tree_step ?rl v" if "tree_step rl v" for v using that same by (force simp: tree_step_def)
  have "spf_node us ?rl (?f v)" if v: "v \<in> set rl" for v
  proof (cases "adj w v \<and> \<not> r_shortest_path_found v \<and> Suc (dist w) < dist v")
    case True
    have p: "(link rl ^^ dist w) us (r_router_id w)" using node [OF w(1)] nw(3) by (simp add: spf_node_def)
    have "(link rl ^^ Suc (dist w)) us (r_router_id v)"
      using p linkI [OF w(1) v] True by (auto simp: relcompp_apply)
    moreover have "tree_step ?rl (?f v)"
      using True w same [OF w(2)] by (auto simp: tree_step_def new nw(1) adj_def intro!: bexI [of _ w] image_eqI [of w ?f w])
    ultimately show ?thesis using True node [OF v] nw by (simp add: spf_node_def new lk nf filter_map)
  next
    case False
    then have "?f v = v" unfolding new by (rule if_not_P)
    with node [OF v] keep show ?thesis by (simp add: spf_node_def lk nf filter_map)
  qed
  then have "spf_base us ?rl" using ids by (simp add: spf_base_def)
  moreover have "split_at ?rl (dist w)" using sp by (auto simp: split_at_def new nw(1))
  moreover have "relaxed ?rl (?f v)" if v: "v \<in> set rl" "r_shortest_path_found (?f v)" for v
  proof -
    have fv: "?f v = v" "r_shortest_path_found v" using v same by simp_all
    have "dist (?f u) \<le> Suc (dist v)" if u: "u \<in> set rl" "adj v u" for u
    proof (cases "v = w")
      case True
      then show ?thesis using sp u fv by (auto simp: new nw(1) split_at_def dest!: bspec [of _ _ u] split: if_splits)
    next
      case False
      then show ?thesis using rx [OF v(1) fv(2)] u le [of u] by (auto simp: relaxed_def)
    qed
    then show ?thesis by (auto simp: relaxed_def fv(1) adj_def)
  qed
  ultimately show ?thesis by (auto simp: spf_relaxed_def)
qed

lemma mark_step:
  assumes "spf_relaxed us m rl" "get_shortest rl = Some r"
  shows "spf_ready us (mark_found r) (upd_router (r_addr r) mark_found rl)"
proof -
  define f where "f v = (if r_addr v = r_addr r then mark_found v else v)" for v
  let ?rl = "map f rl"
  have base: "spf_base us rl" and sp: "split_at rl m"
    and rx: "\<And>v. v \<in> set rl \<Longrightarrow> r_shortest_path_found v \<Longrightarrow> relaxed rl v"
    using assms(1) by (auto simp: spf_relaxed_def)
  have r: "r \<in> set rl" "\<not> r_shortest_path_found r" using get_shortest_in [OF assms(2)] by auto
  have mn: "r_distance r < 0xFFFFFFFF" "\<And>v. v \<in> set rl \<Longrightarrow> \<not> r_shortest_path_found v \<Longrightarrow> dist r \<le> dist v"
    using shortest_loop_min [of rl None "0xFFFFFFFF" r] assms(2) by (auto simp: get_shortest_def word_le_nat_alt)
  have ids: "ids_ok rl" using base by (simp add: spf_base_def)
  have fld: "r_router_id (f v) = r_router_id v" "r_addr (f v) = r_addr v" "r_interface_list (f v) = r_interface_list v"
    "r_distance (f v) = r_distance v" "r_prev_router (f v) = r_prev_router v"
    "v \<in> set rl \<Longrightarrow> r_shortest_path_found (f v) = (r_shortest_path_found v \<or> v = r)" for v
    using ids_okD(2) [OF ids _ r(1)] by (auto simp: f_def mark_found_def)
  have aj: "adj (f a) (f b) = adj a b" "adj (f a) b = adj a b" "adj a (f b) = adj a b" for a b by (simp_all add: adj_def fld)
  have lk: "link ?rl = link rl" by (rule link_map) (simp_all add: fld)
  have "length (filter (\<lambda>v. r_shortest_path_found v \<or> v = r) rl) = Suc (nfound rl)"
    using r ids by (induction rl) (auto simp: ids_ok_def intro!: arg_cong [where f = length] filter_cong)
  then have nf: "length (filter (r_shortest_path_found \<circ> f) rl) = Suc (nfound rl)" by (simp add: comp_def fld cong: filter_cong)
  have ts: "tree_step ?rl (f v)" if "tree_step rl v" for v
    using that by (force simp: tree_step_def fld aj)
  have "spf_node us ?rl (f v)" if v: "v \<in> set rl" for v
  proof -
    have "spf_node us rl v" "spf_node us rl r" using v r base by (auto simp: spf_base_def)
    moreover have "dist r \<noteq> far" using mn(1) by (simp add: word_less_nat_alt)
    ultimately show ?thesis using ts [of v] v by (auto simp: spf_node_def fld lk nf filter_map)
  qed
  then have "spf_base us ?rl" using base by (simp add: spf_base_def ids_ok_map fld)
  moreover have "m \<le> dist r" using sp r by (auto simp: split_at_def)
  then have "(if r_shortest_path_found (f v) then dist v \<le> dist r else dist r \<le> dist v)" if "v \<in> set rl" for v
    using sp mn(2) [of v] that by (auto simp: split_at_def fld dest!: bspec [of _ _ v])
  then have "split_at ?rl (dist r)" by (simp add: split_at_def fld)
  moreover have "relaxed ?rl (f v)" if "v \<in> set rl" "r_shortest_path_found (f v)" "f v \<noteq> mark_found r" for v
    using that rx [of v] by (auto simp: fld relaxed_def aj f_def [of r])
  moreover have "mark_found r = f r" "dist (mark_found r) = dist r" "r_shortest_path_found (mark_found r)"
    by (simp_all add: f_def mark_found_def)
  moreover have "upd_router (r_addr r) mark_found rl = ?rl" by (simp add: upd_router_def f_def)
  ultimately show ?thesis using r by (auto simp: spf_ready_def)
qed

lemma spf_loop_done:
  assumes "spf_ready us (mark_found r) (upd_router (r_addr r) mark_found rl)"
  shows "\<exists>m. spf_relaxed us m (spf_loop (Some r) rl) \<and> get_shortest (spf_loop (Some r) rl) = None"
  using assms
proof (induction "Some r" rl arbitrary: r rule: spf_loop.induct)
  case (2 r rl)
  let ?rl = "update_neighbor_distance (mark_found r) (upd_router (r_addr r) mark_found rl)"
  have "ids_ok (upd_router (r_addr r) mark_found rl)" using 2(2) by (simp add: spf_ready_def spf_base_def)
  then have rlx: "spf_relaxed us (dist (mark_found r)) ?rl"
    using relax_step [OF 2(2)] by (simp add: update_neighbor_distance_def update_neighbor_loop_eq)
  show ?case
  proof (cases "get_shortest ?rl")
    case None
    with rlx show ?thesis by (auto simp: Let_def)
  next
    case (Some r')
    have "spf_ready us (mark_found r') (upd_router (r_addr r') mark_found ?rl)" using mark_step [OF rlx Some] .
    with 2(1) [OF refl Some] Some show ?thesis by (simp add: Let_def)
  qed
qed

text \<open>What no step changes: ids, addresses and link states.\<close>

definition topo :: "pwospf_router \<Rightarrow> u32 \<times> nat \<times> pwospf_interface list" where
  "topo r = (r_router_id r, r_addr r, r_interface_list r)"

lemma topo_fields [simp]:
  "topo (r\<lparr>r_distance := d\<rparr>) = topo r" "topo (r\<lparr>r_prev_router := q\<rparr>) = topo r" "topo (r\<lparr>r_shortest_path_found := b\<rparr>) = topo r"
  by (simp_all add: topo_def)

lemma topo_upd_router: "(\<And>r. topo (f r) = topo r) \<Longrightarrow> map topo (upd_router a f rl) = map topo rl"
  by (simp add: upd_router_def)

lemma topo_update_neighbor: "map topo (update_neighbor_loop w is rl) = map topo rl"
  by (induction w "is" rl rule: update_neighbor_loop.induct) (auto simp: topo_upd_router split: option.splits)

lemma topo_spf_loop: "map topo (spf_loop p rl) = map topo rl"
  by (induction p rl rule: spf_loop.induct)
    (simp_all add: Let_def update_neighbor_distance_def topo_update_neighbor topo_upd_router mark_found_def)

lemma topo_init: "topo (init_distance us r) = topo r"
  by (simp add: init_distance_def topo_def)

lemma topo_shortest_paths: "map topo (shortest_paths us rl) = map topo rl"
  by (simp add: shortest_paths_def Let_def topo_spf_loop topo_init comp_def)

lemma link_topo: "map topo rl = map topo rl' \<Longrightarrow> link rl = link rl'"
proof -
  have "link rl a b = list_ex (\<lambda>(w, _, is). w = a \<and> list_ex (\<lambda>(v, _). v = b \<and>
      list_ex (\<lambda>i. pi_router_id i \<noteq> 0 \<and> pi_active i \<and> pi_router_id i = v) is) (map topo rl)) (map topo rl)" for rl a b
    by (simp add: link_def adj_def topo_def list_ex_iff)
  then show "map topo rl = map topo rl' \<Longrightarrow> link rl = link rl'" by (simp add: fun_eq_iff)
qed

lemma ids_topo: "map topo rl = map topo rl' \<Longrightarrow> map r_router_id rl = map r_router_id rl'"
proof -
  have "map r_router_id rl = map fst (map topo rl)" for rl by (simp add: topo_def)
  then show "map topo rl = map topo rl' \<Longrightarrow> map r_router_id rl = map r_router_id rl'" by metis
qed

definition spf_input :: "u32 \<Rightarrow> pwospf_router list \<Rightarrow> bool" where
  "spf_input us rl =
    (ids_ok rl \<and> length rl < far \<and> us \<in> set (map r_router_id rl) \<and> 0 \<notin> set (map r_router_id rl))"

lemma spf_start_ready:
  assumes ids: "ids_ok rl" "length rl < far" and r: "r \<in> set rl" "r_router_id r = us" "r_shortest_path_found r" "dist r = 0"
    and other: "\<And>u. u \<in> set rl \<Longrightarrow> r_router_id u \<noteq> us \<Longrightarrow> \<not> r_shortest_path_found u \<and> dist u = far"
  shows "spf_ready us r rl"
proof -
  have same: "u = r" if "u \<in> set rl" "r_router_id u = us" for u using ids_okD(1) [OF ids(1) that(1) r(1)] that r by simp
  have "r \<in> set (filter r_shortest_path_found rl)" using r by simp
  then have pos: "0 < nfound rl" by (rule length_pos_if_in_set)
  have node: "spf_node us rl u" if u: "u \<in> set rl" for u
  proof (cases "r_router_id u = us")
    case True
    then have "u = r" using same u by blast
    with r pos show ?thesis by (simp add: spf_node_def)
  next
    case False
    with other [OF u] show ?thesis by (simp only: spf_node_def simp_thms)
  qed
  have found: "v = r" if "v \<in> set rl" "r_shortest_path_found v" for v using that other [of v] same [of v] by metis
  then have "\<forall>v\<in>set rl. r_shortest_path_found v \<longrightarrow> v \<noteq> r \<longrightarrow> relaxed rl v" by blast
  moreover have "if r_shortest_path_found v then dist v \<le> 0 else 0 \<le> dist v" if "v \<in> set rl" for v
    using found [OF that] r(4) by (cases "r_shortest_path_found v") auto
  then have "split_at rl 0" by (simp only: split_at_def) blast
  moreover have "spf_base us rl" using node ids by (simp add: spf_base_def)
  ultimately show ?thesis using r by (simp add: spf_ready_def)
qed

lemma spf_init_ready:
  assumes "spf_input us rl"
  obtains r where "get_router_by_rid us (map (init_distance us) rl) = Some r"
    "spf_ready us (mark_found r) (upd_router (r_addr r) mark_found (map (init_distance us) rl))"
proof -
  define rl' where "rl' = map (init_distance us) rl"
  have ids: "ids_ok rl'" "length rl' < far"
    using assms by (simp_all add: rl'_def spf_input_def ids_ok_map init_distance_def)
  obtain v where v: "v \<in> set rl" "r_router_id v = us" using assms by (auto simp: spf_input_def)
  define r where "r = init_distance us v"
  have r: "r \<in> set rl'" "r_router_id r = us" "r_shortest_path_found r" "dist r = 0"
    using v by (simp_all add: r_def rl'_def init_distance_def)
  have "\<not> r_shortest_path_found u \<and> dist u = far" if "u \<in> set rl'" "r_router_id u \<noteq> us" for u
    using that assms by (auto simp: init_distance_def spf_input_def rl'_def)
  with ids r have ready: "spf_ready us r rl'" by (intro spf_start_ready) auto
  have mk: "mark_found r = r" using r by (simp add: mark_found_def)
  then have "upd_router (r_addr r) mark_found rl' = rl'"
    unfolding upd_router_def using ids_okD(2) [OF ids(1) _ r(1)] by (intro map_idI) auto
  moreover have "get_router_by_rid us rl' = Some r" using find_rid [OF ids(1) r(1)] r(2) by simp
  ultimately show ?thesis using that [of r] mk ready by (simp add: rl'_def)
qed

lemma shortest_paths_done:
  assumes "spf_input us rl"
  obtains m where "spf_relaxed us m (shortest_paths us rl)" "get_shortest (shortest_paths us rl) = None"
proof -
  obtain r where "get_router_by_rid us (map (init_distance us) rl) = Some r"
    "spf_ready us (mark_found r) (upd_router (r_addr r) mark_found (map (init_distance us) rl))"
    using spf_init_ready [OF assms] .
  with spf_loop_done [of us r] that show ?thesis by (auto simp: shortest_paths_def Let_def)
qed

lemma spf_reaches:
  assumes "spf_relaxed us m rl" "get_shortest rl = None"
  shows "(link rl ^^ k) us b \<Longrightarrow> v \<in> set rl \<Longrightarrow> r_router_id v = b \<Longrightarrow> r_shortest_path_found v \<and> dist v \<le> k"
proof (induction k arbitrary: b v)
  case 0
  then show ?case using assms by (auto simp: spf_relaxed_def spf_base_def spf_node_def)
next
  case (Suc k)
  obtain a where a: "(link rl ^^ k) us a" "link rl a b" using Suc.prems(1) by auto
  obtain w v' where w: "w \<in> set rl" "v' \<in> set rl" "adj w v'" "r_router_id w = a" "r_router_id v' = b"
    using a(2) by (rule linkE)
  have base: "spf_base us rl" using assms(1) by (simp add: spf_relaxed_def)
  then have "v' = v" using ids_okD(1) Suc.prems w by (auto simp: spf_base_def)
  have found: "r_shortest_path_found w" "dist w \<le> k" using Suc.IH [OF a(1) w(1,4)] by auto
  have le: "dist v \<le> Suc (dist w)" using assms(1) w found \<open>v' = v\<close> by (auto simp: spf_relaxed_def relaxed_def)
  have "length rl < far" using base by (simp add: spf_base_def)
  then have "Suc (dist w) < far" using spf_no_wrap(2) [OF base w(1) found(1)] nfound_le [of rl] by linarith
  moreover have "\<not> r_shortest_path_found v \<Longrightarrow> far \<le> dist v"
    using assms(2) Suc.prems(2) by (auto simp: get_shortest_def shortest_loop_None word_le_nat_alt)
  ultimately show ?case using le found by auto
qed

lemma spf_predecessor:
  assumes "spf_relaxed us m rl" "v \<in> set rl" "dist v \<noteq> far" "r_router_id v \<noteq> us"
  shows "(\<exists>!p. p \<in> set rl \<and> r_prev_router v = Some (r_addr p)) \<and>
    (\<forall>p\<in>set rl. r_prev_router v = Some (r_addr p) \<longrightarrow> link rl (r_router_id p) (r_router_id v) \<and> dist p \<noteq> far \<and> dist v = Suc (dist p))"
proof -
  have base: "spf_base us rl" using assms(1) by (simp add: spf_relaxed_def)
  then have ids: "ids_ok rl" by (simp add: spf_base_def)
  obtain p where p: "p \<in> set rl" "r_prev_router v = Some (r_addr p)" "r_shortest_path_found p" "adj p v" "dist v = Suc (dist p)"
    using base assms(2-4) by (auto simp: spf_base_def spf_node_def tree_step_def)
  have "q = p" if "q \<in> set rl" "r_prev_router v = Some (r_addr q)" for q
    using ids_okD(2) [OF ids that(1) p(1)] that(2) p(2) by simp
  then show ?thesis using p linkI [OF p(1) assms(2) p(4)] spf_no_wrap(3) [OF base p(1,3)] by blast
qed

text \<open>
  Claim C5. The distances that \<open>compute_rtable\<close> works with are hop distances: when the router ids are
  distinct and not zero, our own router is in the list and the list is shorter than \<open>2^32 - 1\<close>, the loop ends with every router that can be reached over
  active links at exactly the length of a shortest path from our router, and every other router at
  the maximal distance. The predecessor of a reached router other than our own is a router of the list with an active link to it, one hop
  nearer to our router, and no other router has the address it names. Ids, addresses and link states are unchanged.
\<close>

theorem shortest_paths_correct:
  assumes "spf_input us rl"
  shows "map topo (shortest_paths us rl) = map topo rl \<and>
    (\<forall>v\<in>set (shortest_paths us rl).
      (r_distance v = 0xFFFFFFFF \<longleftrightarrow> \<not> (\<exists>n. (link rl ^^ n) us (r_router_id v))) \<and>
      (r_distance v \<noteq> 0xFFFFFFFF \<longrightarrow> hop_distance rl us (r_router_id v) (unat (r_distance v))) \<and>
      (r_distance v \<noteq> 0xFFFFFFFF \<longrightarrow> r_router_id v \<noteq> us \<longrightarrow>
        (\<exists>!p. p \<in> set (shortest_paths us rl) \<and> r_prev_router v = Some (r_addr p)) \<and>
        (\<forall>p\<in>set (shortest_paths us rl). r_prev_router v = Some (r_addr p) \<longrightarrow>
          link rl (r_router_id p) (r_router_id v) \<and> r_distance p \<noteq> 0xFFFFFFFF \<and> unat (r_distance v) = Suc (unat (r_distance p)))))"
proof -
  let ?rl = "shortest_paths us rl"
  obtain m where m: "spf_relaxed us m ?rl" "get_shortest ?rl = None" using shortest_paths_done [OF assms] .
  have lk: "link ?rl = link rl" using link_topo [OF topo_shortest_paths] .
  have far: "r_distance v = 0xFFFFFFFF \<longleftrightarrow> dist v = far" for v by (simp add: word_unat_eq_iff)
  have "(dist v = far \<longleftrightarrow> \<not> (\<exists>n. (link rl ^^ n) us (r_router_id v))) \<and>
      (dist v \<noteq> far \<longrightarrow> hop_distance rl us (r_router_id v) (dist v))" if v: "v \<in> set ?rl" for v
  proof -
    have base: "spf_base us ?rl" using m(1) by (simp add: spf_relaxed_def)
    have r: "(link rl ^^ n) us (r_router_id v) \<Longrightarrow> dist v \<le> n \<and> dist v \<noteq> far" for n
      using spf_reaches [OF m _ v refl, of n] spf_no_wrap(3) [OF base v] by (simp add: lk)
    have p: "dist v \<noteq> far \<Longrightarrow> (link rl ^^ dist v) us (r_router_id v)"
      using base v by (auto simp: spf_base_def spf_node_def lk)
    show ?thesis using r p by (auto simp: hop_distance_def) (meson leD r)
  qed
  moreover have "(\<exists>!p. p \<in> set ?rl \<and> r_prev_router v = Some (r_addr p)) \<and>
      (\<forall>p\<in>set ?rl. r_prev_router v = Some (r_addr p) \<longrightarrow> link rl (r_router_id p) (r_router_id v) \<and> dist p \<noteq> far \<and> dist v = Suc (dist p))"
    if v: "v \<in> set ?rl" "dist v \<noteq> far" "r_router_id v \<noteq> us" for v
    using spf_predecessor [OF m(1) v] by (simp add: lk)
  ultimately show ?thesis by (simp add: far topo_shortest_paths)
qed

section \<open>The first hop\<close>

lemma first_hop_walk_tree:
  assumes m: "spf_relaxed us m rl"
  shows "v \<in> set rl \<Longrightarrow> dist v \<noteq> far \<Longrightarrow> r_router_id v \<noteq> us \<Longrightarrow>
    \<exists>h. first_hop_walk rl v = Some (Inr h) \<and> link rl us h \<and> (link rl ^^ (dist v - 1)) h (r_router_id v)"
proof (induction "dist v" arbitrary: v rule: less_induct)
  case less
  have base: "spf_base us rl" "ids_ok rl" using m by (simp_all add: spf_relaxed_def spf_base_def)
  obtain p where p: "p \<in> set rl" "r_prev_router v = Some (r_addr p)" "r_shortest_path_found p" "adj p v" "dist v = Suc (dist p)"
    using base(1) less.prems by (auto simp: spf_base_def spf_node_def tree_step_def)
  have lk: "link rl (r_router_id p) (r_router_id v)" using linkI p less.prems by blast
  have far: "dist p \<noteq> far" using spf_no_wrap(3) [OF base(1) p(1,3)] .
  have walk: "first_hop_walk rl v = (if dist p \<noteq> 0 then first_hop_walk rl p else Some (Inr (r_router_id v)))"
    using p(2) find_addr [OF base(2) p(1)] by (subst first_hop_walk.simps) (simp add: unat_eq_zero)
  show ?case
  proof (cases "r_router_id p = us")
    case True
    then have "dist p = 0" using base(1) p(1) by (simp add: spf_base_def spf_node_def)
    then show ?thesis using walk lk True p(5) by simp
  next
    case False
    have "(link rl ^^ dist p) us (r_router_id p)" using base(1) p(1) far by (simp add: spf_base_def spf_node_def)
    with False have nz: "dist p \<noteq> 0" by (cases "dist p") auto
    obtain h where h: "first_hop_walk rl p = Some (Inr h)" "link rl us h" "(link rl ^^ (dist p - 1)) h (r_router_id p)"
      using less.hyps [OF _ p(1) far False] p(5) by auto
    have "(link rl ^^ Suc (dist p - 1)) h (r_router_id v)" using h(3) lk by (auto simp: relcompp_apply)
    then show ?thesis using walk nz h p(5) by simp
  qed
qed

section \<open>Every subnet is routed towards its nearest router\<close>

definition wkey :: "route_wrapper \<Rightarrow> u32 \<times> u32" where
  "wkey w = (rw_ip w, rw_mask w)"

definition akey :: "pwospf_interface \<Rightarrow> u32 \<times> u32" where
  "akey i = (pi_subnet i AND pi_mask i, pi_mask i)"

lemma wkey_akey: "rw_ip w = (pi_subnet i AND pi_mask i) \<and> rw_mask w = pi_mask i \<longleftrightarrow> wkey w = akey i"
  by (simp add: wkey_def akey_def)

lemma get_route_wrapper_key: "get_route_wrapper ws (pi_subnet i) (pi_mask i) = find (\<lambda>w. wkey w = akey i) ws"
  by (simp add: get_route_wrapper_def wkey_akey)

lemma wkey_upd [simp]:
  "wkey (w\<lparr>rw_distance := d\<rparr>) = wkey w" "wkey (w\<lparr>rw_next_rid := n\<rparr>) = wkey w" "wkey (w\<lparr>rw_directly_connected := c\<rparr>) = wkey w"
  by (simp_all add: wkey_def)

text \<open>\<open>(r, i)\<close> is the advertisement the wrapper stands for, the nearest of those in \<open>seen\<close>.\<close>

definition stands_for ::
  "u32 \<Rightarrow> pwospf_router list \<Rightarrow> (pwospf_router \<times> pwospf_interface) set \<Rightarrow> route_wrapper \<Rightarrow> pwospf_router \<Rightarrow> pwospf_interface \<Rightarrow> bool" where
  "stands_for us rl seen w r i =
    ((r, i) \<in> seen \<and> akey i = wkey w \<and> rw_distance w = ucast (r_distance r) \<and> next_rid rl r i = Inr (rw_next_rid w) \<and>
     rw_directly_connected w = (r_router_id r = us) \<and>
     (\<forall>(r', i')\<in>seen. akey i' = wkey w \<longrightarrow> r_distance r \<le> r_distance r'))"

definition wrap_inv ::
  "u32 \<Rightarrow> pwospf_router list \<Rightarrow> (pwospf_router \<times> pwospf_interface) set \<Rightarrow> route_wrapper list \<Rightarrow> bool" where
  "wrap_inv us rl seen ws =
    (distinct (map wkey ws) \<and> wkey ` set ws = akey ` snd ` seen \<and> (\<forall>w\<in>set ws. \<exists>r i. stands_for us rl seen w r i))"

text \<open>Distances that the 16 bits of a wrapper can tell apart.\<close>

definition near :: "u32 \<Rightarrow> bool" where
  "near d = (unat d < 65535 \<or> d = 0xFFFFFFFF)"

lemma near_compare:
  assumes "near x" "near y"
  shows "(ucast (ucast y :: u16) :: u32) \<le> x \<longleftrightarrow> y \<le> x"
proof (cases "y = 0xFFFFFFFF")
  case True
  have "(ucast (ucast (0xFFFFFFFF :: u32) :: u16) :: u32) = 0xFFFF" by simp
  then show ?thesis using assms True unat_u32_lt [of x] by (auto simp: near_def word_le_nat_alt)
next
  case False
  then have "unat y < 65535" using assms by (simp add: near_def)
  then have "(ucast (ucast y :: u16) :: u32) = y" by (simp add: word_unat_eq_iff unsigned_ucast_eq take_bit_eq_mod unat_mod_distrib)
  then show ?thesis by simp
qed

lemma stands_for_more:
  assumes "stands_for us rl seen w r i" "akey j = wkey w \<Longrightarrow> r_distance r \<le> r_distance q"
  shows "stands_for us rl (insert (q, j) seen) w r i"
  using assms by (auto simp: stands_for_def)

lemma upd_first_split:
  assumes "find P xs = Some x"
  obtains pre post where "xs = pre @ x # post" "upd_first P f xs = pre @ f x # post" "P x"
proof -
  obtain pre post where s: "xs = pre @ x # post" "P x" "\<forall>y\<in>set pre. \<not> P y" using assms by (rule find_split)
  then have "upd_first P f (pre @ x # post) = pre @ f x # post" by (induction pre arbitrary: xs) auto
  with s that show ?thesis by simp
qed

text \<open>What the loop needs of the routers it visits.\<close>

definition wrap_router :: "u32 \<Rightarrow> pwospf_router list \<Rightarrow> pwospf_router \<Rightarrow> bool" where
  "wrap_router us rl r =
    (near (r_distance r) \<and> (r_router_id r = us \<longrightarrow> r_distance r = 0) \<and> (\<forall>i. \<exists>rid. next_rid rl r i = Inr rid))"

lemma wrap_keep:
  assumes "wrap_inv us rl seen ws" "get_route_wrapper ws (pi_subnet i) (pi_mask i) = Some w"
    and "ucast (rw_distance w) \<le> r_distance r" "wrap_router us rl r" "\<forall>(r, i)\<in>seen. wrap_router us rl r"
  shows "wrap_inv us rl (insert (r, i) seen) ws"
proof -
  have w: "w \<in> set ws" "akey i = wkey w" using find_Some_D [OF assms(2) [unfolded get_route_wrapper_key]] by auto
  have "\<exists>q j. stands_for us rl (insert (r, i) seen) v q j" if v: "v \<in> set ws" for v
  proof -
    obtain q j where q: "stands_for us rl seen v q j" using assms(1) v by (auto simp: wrap_inv_def)
    have "r_distance q \<le> r_distance r" if "akey i = wkey v"
    proof -
      have "v = w" using assms(1) v w that by (auto simp: wrap_inv_def distinct_map dest: inj_onD)
      moreover have "near (r_distance q)" using q assms(5) by (auto simp: stands_for_def wrap_router_def)
      ultimately show ?thesis
        using q assms(3,4) near_compare [of "r_distance r" "r_distance q"] by (simp add: stands_for_def wrap_router_def)
    qed
    with q show ?thesis by (blast intro: stands_for_more)
  qed
  moreover have "akey i \<in> wkey ` set ws" using w by auto
  ultimately show ?thesis using assms(1) by (simp add: wrap_inv_def insert_absorb)
qed

lemma wrap_replace:
  assumes inv: "wrap_inv us rl seen ws" and g: "get_route_wrapper ws (pi_subnet i) (pi_mask i) = Some w"
    and d: "\<not> ucast (rw_distance w) \<le> r_distance r" "wrap_router us rl r" "\<forall>(r, i)\<in>seen. wrap_router us rl r"
    and n: "next_rid rl r i = Inr rid"
  shows "wrap_inv us rl (insert (r, i) seen)
    (upd_first (\<lambda>w. rw_ip w = (pi_subnet i AND pi_mask i) \<and> rw_mask w = pi_mask i)
      (\<lambda>w. w\<lparr>rw_distance := ucast (r_distance r), rw_next_rid := rid,
             rw_directly_connected := (us = r_router_id r \<or> rw_directly_connected w)\<rparr>) ws)"
proof -
  let ?f = "\<lambda>w. w\<lparr>rw_distance := ucast (r_distance r), rw_next_rid := rid,
             rw_directly_connected := (us = r_router_id r \<or> rw_directly_connected w)\<rparr>"
  obtain pre post where s: "ws = pre @ w # post" "upd_first (\<lambda>w. wkey w = akey i) ?f ws = pre @ ?f w # post" "wkey w = akey i"
    using g unfolding get_route_wrapper_key by (rule upd_first_split [where f = ?f])
  then have k: "akey i = wkey w" by simp
  obtain q j where q: "stands_for us rl seen w q j" using inv s(1) by (auto simp: wrap_inv_def)
  have qr: "wrap_router us rl q" using q d(3) by (auto simp: stands_for_def)
  have "near (r_distance r)" "near (r_distance q)" "rw_distance w = ucast (r_distance q)"
    using q d(2) qr by (simp_all add: stands_for_def wrap_router_def)
  then have lt: "r_distance r < r_distance q" using d(1) near_compare [of "r_distance r" "r_distance q"] by (metis not_le)
  have le: "r_distance r \<le> r_distance r'" if "(r', i') \<in> seen" "akey i' = wkey w" for r' i'
  proof -
    have "r_distance q \<le> r_distance r'" using q that by (auto simp: stands_for_def)
    with lt show ?thesis by (simp add: order.trans less_imp_le)
  qed
  have "\<not> rw_directly_connected w" using q qr lt by (auto simp: stands_for_def wrap_router_def)
  then have "stands_for us rl (insert (r, i) seen) (?f w) r i" using k n le by (auto simp: stands_for_def)
  moreover have "\<exists>q j. stands_for us rl (insert (r, i) seen) v q j" if v: "v \<in> set pre \<union> set post" for v
  proof -
    have "v \<in> set ws" using v s(1) by auto
    then obtain q j where q: "stands_for us rl seen v q j" using inv unfolding wrap_inv_def by blast
    have "wkey w \<notin> wkey ` set pre" "wkey w \<notin> wkey ` set post" using inv s(1) by (simp_all add: wrap_inv_def)
    with v have "wkey v \<noteq> wkey w" by (metis Un_iff imageI)
    with q k show ?thesis by (intro exI [of _ q] exI [of _ j] stands_for_more) auto
  qed
  moreover have "akey i \<in> akey ` snd ` seen" using q k by (force simp: stands_for_def)
  ultimately show ?thesis using inv s unfolding wkey_akey s(2) by (simp add: wrap_inv_def insert_absorb ball_Un) blast
qed

lemma wrap_new:
  assumes inv: "wrap_inv us rl seen ws" and g: "get_route_wrapper ws (pi_subnet i) (pi_mask i) = None"
    and w: "wkey w = akey i" "rw_distance w = ucast (r_distance r)" "next_rid rl r i = Inr (rw_next_rid w)"
      "rw_directly_connected w = (r_router_id r = us)"
  shows "wrap_inv us rl (insert (r, i) seen) (ws @ [w])"
proof -
  have k: "akey i \<notin> wkey ` set ws" using g by (auto simp: get_route_wrapper_key find_None_iff)
  then have no: "akey i \<notin> akey ` snd ` seen" using inv by (simp add: wrap_inv_def)
  then have "akey j \<noteq> akey i" if "(q, j) \<in> seen" for q j using that by (metis imageI snd_conv)
  then have "stands_for us rl (insert (r, i) seen) w r i" using w by (auto simp: stands_for_def)
  moreover have "\<exists>q j. stands_for us rl (insert (r, i) seen) v q j" if v: "v \<in> set ws" for v
  proof -
    obtain q j where q: "stands_for us rl seen v q j" using inv v by (auto simp: wrap_inv_def)
    have "wkey v \<noteq> akey i" using k v by (metis imageI)
    with q show ?thesis by (intro exI [of _ q] exI [of _ j] stands_for_more) auto
  qed
  ultimately show ?thesis using inv k w(1) by (auto simp: wrap_inv_def)
qed

lemma add_wrappers_inv:
  assumes "wrap_inv us rl seen ws" "wrap_router us rl r" "\<forall>(r, i)\<in>seen. wrap_router us rl r"
  shows "\<exists>ws'. add_wrappers_loop us rl r is ws = Inr ws' \<and> wrap_inv us rl (seen \<union> Pair r ` set is) ws'"
  using assms
proof (induction "is" arbitrary: seen ws)
  case (Cons i "is")
  obtain rid where rid: "next_rid rl r i = Inr rid" using Cons.prems(2) by (auto simp: wrap_router_def)
  let ?step = "\<lambda>ws'. wrap_inv us rl (insert (r, i) seen) ws' \<and>
    add_wrappers_loop us rl r (i # is) ws = add_wrappers_loop us rl r is ws'"
  have "\<exists>ws'. ?step ws'"
  proof (cases "get_route_wrapper ws (pi_subnet i) (pi_mask i)")
    case None
    let ?w = "\<lparr>rw_ip = pi_subnet i AND pi_mask i, rw_mask = pi_mask i, rw_distance = ucast (r_distance r),
      rw_next_rid = rid, rw_directly_connected = (us = r_router_id r)\<rparr>"
    have "wrap_inv us rl (insert (r, i) seen) (ws @ [?w])"
      using rid by (intro wrap_new [OF Cons.prems(1) None]) (auto simp: wkey_def akey_def)
    then show ?thesis using None rid by auto
  next
    case (Some w)
    show ?thesis
    proof (cases "ucast (rw_distance w) \<le> r_distance r")
      case True
      then show ?thesis using Some wrap_keep [OF Cons.prems(1) Some True Cons.prems(2,3)] by auto
    next
      case False
      then show ?thesis using Some rid wrap_replace [OF Cons.prems(1) Some False Cons.prems(2,3) rid] by auto
    qed
  qed
  then obtain ws' where s: "?step ws'" by blast
  then have "\<exists>ws''. add_wrappers_loop us rl r is ws' = Inr ws'' \<and> wrap_inv us rl (insert (r, i) seen \<union> Pair r ` set is) ws''"
    using Cons.prems by (intro Cons.IH) auto
  with s show ?case by simp
qed simp

definition advertised :: "pwospf_router list \<Rightarrow> (pwospf_router \<times> pwospf_interface) set" where
  "advertised rl = (\<Union>r\<in>set rl. Pair r ` set (r_interface_list r))"

lemma build_wrappers_inv:
  assumes "wrap_inv us rl seen ws" "\<forall>r\<in>set rs. wrap_router us rl r" "\<forall>(r, i)\<in>seen. wrap_router us rl r"
  shows "\<exists>ws'. build_wrappers_loop us rl rs ws = Inr ws' \<and> wrap_inv us rl (seen \<union> advertised rs) ws'"
  using assms
proof (induction rs arbitrary: seen ws)
  case (Cons r rs)
  have "wrap_router us rl r" using Cons.prems(2) by simp
  then obtain ws' where s: "add_wrappers_loop us rl r (r_interface_list r) ws = Inr ws'"
      "wrap_inv us rl (seen \<union> Pair r ` set (r_interface_list r)) ws'"
    using add_wrappers_inv [OF Cons.prems(1) _ Cons.prems(3)] by blast
  have "\<exists>ws''. build_wrappers_loop us rl rs ws' = Inr ws'' \<and>
      wrap_inv us rl (seen \<union> Pair r ` set (r_interface_list r) \<union> advertised rs) ws''"
    using Cons.prems by (intro Cons.IH [OF s(2)]) auto
  then show ?case using s(1) by (simp add: add_route_wrappers_def advertised_def Un_assoc)
qed (simp add: advertised_def)

lemma spf_near:
  assumes "spf_relaxed us m rl" "get_shortest rl = None" "length rl < 65535" "r \<in> set rl"
  shows "near (r_distance r)"
proof (cases "r_shortest_path_found r")
  case True
  have "dist r < nfound rl" using assms(1,4) True by (auto simp: spf_relaxed_def spf_base_def spf_node_def)
  then show ?thesis using assms(3) nfound_le [of rl] unfolding near_def by linarith
next
  case False
  then have "0xFFFFFFFF \<le> r_distance r" using assms(2,4) by (simp add: get_shortest_def shortest_loop_None)
  then show ?thesis using unat_u32_lt [of "r_distance r"] by (simp add: near_def word_unat_eq_iff word_le_nat_alt)
qed

definition no_stale_prev :: "u32 \<Rightarrow> pwospf_router list \<Rightarrow> bool" where
  "no_stale_prev us rl = list_all (\<lambda>r. r_router_id r = us \<or> r_distance r = 0xFFFFFFFF \<longrightarrow> r_prev_router r = None) rl"

text \<open>
  Claim C18. Routes lead to the nearest router that advertises their subnet: with fewer than 65535 routers
  and no predecessor left over from an earlier run at a router that cannot be reached, the route list is built
  without a fault, it has exactly one wrapper for every advertised subnet and mask, and each wrapper stands for an advertisement
  of minimal distance; when that router is not ourselves and can be reached, the wrapper's next router is a neighbour of ours
  from which it is one hop less to that router.
\<close>

theorem route_wrappers_nearest:
  assumes "spf_input us rl" and "length rl < 65535" and "no_stale_prev us (shortest_paths us rl)"
  shows "\<exists>ws. build_route_wrapper_list us (shortest_paths us rl) = Inr ws \<and> distinct (map wkey ws) \<and>
    wkey ` set ws = akey ` snd ` advertised (shortest_paths us rl) \<and>
    (\<forall>w\<in>set ws. \<exists>r i. stands_for us (shortest_paths us rl) (advertised (shortest_paths us rl)) w r i \<and>
      (r_router_id r \<noteq> us \<and> r_distance r \<noteq> 0xFFFFFFFF \<longrightarrow>
        link rl us (rw_next_rid w) \<and> (link rl ^^ (unat (r_distance r) - 1)) (rw_next_rid w) (r_router_id r)))"
proof -
  let ?rl = "shortest_paths us rl"
  obtain m where m: "spf_relaxed us m ?rl" "get_shortest ?rl = None" using shortest_paths_done [OF assms(1)] .
  have len: "length ?rl < 65535" using assms(2) arg_cong [OF topo_shortest_paths [of us rl], of length] by simp
  have lk: "link ?rl = link rl" using link_topo [OF topo_shortest_paths] .
  have far: "r_distance v = 0xFFFFFFFF \<longleftrightarrow> dist v = far" for v by (simp add: word_unat_eq_iff)
  have hop: "\<exists>h. next_rid ?rl r i = Inr h \<and>
      (r_router_id r \<noteq> us \<and> dist r \<noteq> far \<longrightarrow> link rl us h \<and> (link rl ^^ (dist r - 1)) h (r_router_id r))" if r: "r \<in> set ?rl" for r i
  proof (cases "r_router_id r = us \<or> dist r = far")
    case True
    then have "r_prev_router r = None" using assms(3) r by (auto simp: no_stale_prev_def list_all_iff far)
    with True show ?thesis by (auto simp: next_rid_def)
  next
    case False
    with first_hop_walk_tree [OF m(1) r] obtain h where h: "first_hop_walk ?rl r = Some (Inr h)" "link rl us h"
      "(link rl ^^ (dist r - 1)) h (r_router_id r)" by (auto simp: lk)
    have "r_prev_router r \<noteq> None" using m(1) r False by (auto simp: spf_relaxed_def spf_base_def spf_node_def tree_step_def)
    with h show ?thesis by (auto simp: next_rid_def)
  qed
  have "wrap_router us ?rl r" if "r \<in> set ?rl" for r
  proof -
    have "\<forall>i. \<exists>rid. next_rid ?rl r i = Inr rid" using hop [OF that] by blast
    moreover have "r_router_id r = us \<longrightarrow> r_distance r = 0"
      using that m(1) by (auto simp: spf_relaxed_def spf_base_def spf_node_def unat_eq_zero)
    ultimately show ?thesis using spf_near [OF m len that] by (simp add: wrap_router_def)
  qed
  then obtain ws where ws: "build_route_wrapper_list us ?rl = Inr ws" "wrap_inv us ?rl (advertised ?rl) ws"
    using build_wrappers_inv [of us ?rl "{}" "[]" ?rl] by (auto simp: build_route_wrapper_list_def wrap_inv_def)
  have "\<exists>r i. stands_for us ?rl (advertised ?rl) w r i \<and> (r_router_id r \<noteq> us \<and> r_distance r \<noteq> 0xFFFFFFFF \<longrightarrow>
        link rl us (rw_next_rid w) \<and> (link rl ^^ (dist r - 1)) (rw_next_rid w) (r_router_id r))" if w: "w \<in> set ws" for w
  proof -
    obtain r i where s: "stands_for us ?rl (advertised ?rl) w r i" using ws(2) w unfolding wrap_inv_def by blast
    then have "r \<in> set ?rl" "next_rid ?rl r i = Inr (rw_next_rid w)" by (auto simp: stands_for_def advertised_def)
    with hop [of r i] s show ?thesis unfolding far by (metis sum.inject(2))
  qed
  then show ?thesis using ws by (simp add: wrap_inv_def)
qed

text \<open>A line of three routers with the ids 1, 2 and 3; the link between 1 and 2 is the subnet 16, the one between 2 and 3
  is 32.\<close>

definition demo_link :: "u32 \<Rightarrow> u32 \<Rightarrow> pwospf_interface" where
  "demo_link subnet rid = \<lparr>pi_subnet = subnet, pi_mask = 0xF0, pi_router_id = rid, pi_active = True\<rparr>"

definition demo_router :: "u32 \<Rightarrow> pwospf_interface list \<Rightarrow> pwospf_router" where
  "demo_router rid is = \<lparr>r_addr = unat rid, r_router_id = rid, r_area_id = 0, r_seq = 0, r_last_update = 0, r_distance = 0,
    r_shortest_path_found = False, r_interface_list = is, r_prev_router = None\<rparr>"

definition demo_line :: "pwospf_router list" where
  "demo_line = [demo_router 1 [demo_link 0x10 2], demo_router 2 [demo_link 0x10 1, demo_link 0x20 3], demo_router 3 [demo_link 0x20 2]]"

theorem shortest_paths_correct_witness:
  "spf_input 1 demo_line \<and> map r_distance (shortest_paths 1 demo_line) = [0, 1, 2] \<and>
   list_all (\<lambda>v. hop_distance demo_line 1 (r_router_id v) (unat (r_distance v))) (shortest_paths 1 demo_line)"
proof -
  have d: "map r_distance (shortest_paths 1 demo_line) = [0, 1, 2]" by code_simp
  have i: "spf_input 1 demo_line" by (simp add: spf_input_def ids_ok_def demo_line_def demo_router_def)
  have "r_distance v \<in> set (map r_distance (shortest_paths 1 demo_line))" if "v \<in> set (shortest_paths 1 demo_line)" for v
    using that by simp
  then have "r_distance v \<noteq> 0xFFFFFFFF" if "v \<in> set (shortest_paths 1 demo_line)" for v unfolding d using that by force
  then show ?thesis using shortest_paths_correct [OF i] d i by (simp add: list_all_iff)
qed

theorem route_wrappers_nearest_witness:
  "\<exists>ws. build_route_wrapper_list 1 (shortest_paths 1 demo_line) = Inr ws \<and>
    wkey ` set ws = akey ` snd ` advertised (shortest_paths 1 demo_line)"
proof -
  have "no_stale_prev 1 (shortest_paths 1 demo_line)" by code_simp
  moreover have "spf_input 1 demo_line" "length demo_line < 65535"
    by (simp_all add: spf_input_def ids_ok_def demo_line_def demo_router_def)
  ultimately show ?thesis using route_wrappers_nearest [of 1 demo_line] by blast
qed

end
