(* ===== verification/Pwospf.thy ===== *)
theory Pwospf
  imports Dijkstra Icmp
begin

text \<open>
  \<^verbatim>\<open>or_pwospf.c\<close>: the link state protocol. Hello packets discover neighbours, link state updates
  (LSUs) carry the interface list of a router and are flooded; every change recomputes which links
  are active, triggers the computation of routes and queues our own LSU for every neighbour. Then
  the threads that send hellos and LSUs and time out neighbours and routers, each as one iteration of its
  endless loop, and \<^verbatim>\<open>iface_up\<close> and \<^verbatim>\<open>iface_down\<close> of \<^verbatim>\<open>or_iface.c\<close>, which announce an interface.

  Our own router is the first entry of the router list with our id; a write through the pointer that
  \<^verbatim>\<open>get_router_by_rid\<close> returns is an update of the first such entry.
\<close>

abbreviation (input) PWOSPF_TYPE_HELLO :: u8 where "PWOSPF_TYPE_HELLO \<equiv> 1"
abbreviation (input) PWOSPF_TYPE_LINK_STATE_UPDATE :: u8 where "PWOSPF_TYPE_LINK_STATE_UPDATE \<equiv> 4"
abbreviation (input) PWOSPF_HELLO_TIP :: u32 where "PWOSPF_HELLO_TIP \<equiv> 0xE0000005"
abbreviation (input) hello_at :: nat where "hello_at \<equiv> 58"
abbreviation (input) lsu_at :: nat where "lsu_at \<equiv> 58"
abbreviation (input) adv_at :: nat where "adv_at \<equiv> 66"

section \<open>Checking a packet\<close>

text \<open>The checksum routine clears the checksum field of the packet, which the model returns.\<close>

definition is_pwospf_packet_valid :: "packet \<Rightarrow> router_state \<Rightarrow> (bool \<times> packet) res" where
  "is_pwospf_packet_valid p rs =
    bindR (ld8 p pwospf_at) (\<lambda>ver.
    if ver \<noteq> 2 then Inr (False, p)
    else
      bindR (ld16 p (pwospf_at + 12)) (\<lambda>pckt_sum.
      bindR (compute_pwospf_checksum p pwospf_at) (\<lambda>(s, p).
      if htons pckt_sum \<noteq> s then Inr (False, p)
      else
        bindR (ld16 p (pwospf_at + 14)) (\<lambda>atype.
        bindR (ld32 p (pwospf_at + 8)) (\<lambda>aid.
        bindR (ld32 p (pwospf_at + 4)) (\<lambda>rid.
        Inr (\<not> (ntohs atype \<noteq> 0 \<or> ntohl aid \<noteq> area_id rs \<or> ntohl rid = router_id rs), p)))))))"

section \<open>The router list\<close>

definition upd_by_rid :: "u32 \<Rightarrow> (pwospf_router \<Rightarrow> pwospf_router) \<Rightarrow> router_state \<Rightarrow> router_state" where
  "upd_by_rid rid f rs = rs\<lparr>pwospf_router_list := upd_first (\<lambda>r. r_router_id r = rid) f (pwospf_router_list rs)\<rparr>"

definition get_our_router :: "router_state \<Rightarrow> pwospf_router option" where
  "get_our_router rs = get_router_by_rid (router_id rs) (pwospf_router_list rs)"

text \<open>The advertisements of an LSU: subnet, mask and router id, 12 bytes each.\<close>

fun read_advs :: "packet \<Rightarrow> nat \<Rightarrow> nat \<Rightarrow> (u32 \<times> u32 \<times> u32) list res" where
  "read_advs p off 0 = Inr []"
| "read_advs p off (Suc n) =
    bindR (ld32 p off) (\<lambda>sub.
    bindR (ld32 p (off + 4)) (\<lambda>msk.
    bindR (ld32 p (off + 8)) (\<lambda>rid.
    bindR (read_advs p (off + 12) n) (\<lambda>advs. Inr ((sub, msk, rid) # advs)))))"

definition adv_match :: "pwospf_interface \<Rightarrow> u32 \<times> u32 \<times> u32 \<Rightarrow> bool" where
  "adv_match i adv = (case adv of (sub, msk, rid) \<Rightarrow> pi_subnet i = (sub AND msk) \<and> pi_mask i = msk \<and> pi_router_id i = rid)"

text \<open>An advertisement not in the list yet is appended with its subnet unmasked (the code writes
  \<^verbatim>\<open>sub & sub\<close>); entries that no advertisement matches are removed afterwards.\<close>

definition add_advs :: "(u32 \<times> u32 \<times> u32) list \<Rightarrow> pwospf_interface list \<Rightarrow> pwospf_interface list" where
  "add_advs advs il =
    fold (\<lambda>adv il. if list_ex (\<lambda>i. adv_match i adv) il then il
      else il @ [case adv of (sub, msk, rid) \<Rightarrow>
        \<lparr>pi_subnet = sub AND sub, pi_mask = msk, pi_router_id = rid, pi_active = False\<rparr>]) advs il"

definition populate_pwospf_router_interface_list ::
  "packet \<Rightarrow> pwospf_interface list \<Rightarrow> (int \<times> pwospf_interface list) res" where
  "populate_pwospf_router_interface_list p il =
    bindR (ld32 p (lsu_at + 4)) (\<lambda>num.
    bindR (read_advs p adv_at (unat (ntohl num))) (\<lambda>advs.
    if il = []
    then Inr (1, map (\<lambda>(sub, msk, rid). \<lparr>pi_subnet = sub AND msk, pi_mask = msk, pi_router_id = rid, pi_active = False\<rparr>) advs)
    else
      let il1 = add_advs advs il;
          il2 = filter (\<lambda>i. list_ex (adv_match i) advs) il1
      in Inr (if length il1 \<noteq> length il \<or> length il2 \<noteq> length il1 then 1 else 0, il2)))"

definition add_new_router_neighbor :: "packet \<Rightarrow> router_state \<Rightarrow> router_state res" where
  "add_new_router_neighbor p rs =
    bindR (ld32 p (pwospf_at + 4)) (\<lambda>rid.
    bindR (ld32 p (pwospf_at + 8)) (\<lambda>aid.
    bindR (ld16 p lsu_at) (\<lambda>seq.
    bindR (populate_pwospf_router_interface_list p []) (\<lambda>(_, il).
    let new_router = \<lparr>r_addr = next_router_addr rs, r_router_id = rid, r_area_id = ntohl aid, r_seq = ntohs seq,
          r_last_update = clock rs, r_distance = 0, r_shortest_path_found = False, r_interface_list = il, r_prev_router = None\<rparr>
    in Inr (rs\<lparr>pwospf_router_list := pwospf_router_list rs @ [new_router], next_router_addr := Suc (next_router_addr rs)\<rparr>)))))"

section \<open>Active links\<close>

text \<open>An interface of the router list is named by the positions of its router and of itself.\<close>

definition pif :: "pwospf_router list \<Rightarrow> nat \<Rightarrow> nat \<Rightarrow> pwospf_interface" where
  "pif rl k i = r_interface_list (rl ! k) ! i"

definition set_active :: "nat \<Rightarrow> nat \<Rightarrow> bool \<Rightarrow> pwospf_router list \<Rightarrow> pwospf_router list" where
  "set_active k i b rl =
    rl[k := (rl ! k)\<lparr>r_interface_list := (r_interface_list (rl ! k))[i := (pif rl k i)\<lparr>pi_active := b\<rparr>]\<rparr>]"

definition same_link :: "pwospf_interface \<Rightarrow> pwospf_interface \<Rightarrow> bool" where
  "same_link a b = (pi_subnet a = pi_subnet b \<and> pi_mask a = pi_mask b \<and> \<not> (pi_router_id a = 0 \<or> pi_router_id b = 0))"

definition activate_pair :: "nat \<Rightarrow> nat \<Rightarrow> nat \<Rightarrow> nat \<Rightarrow> pwospf_router list \<Rightarrow> pwospf_router list" where
  "activate_pair k i k' j rl =
    (if same_link (pif rl k i) (pif rl k' j) then set_active k' j True (set_active k i True rl) else rl)"

definition activate_one :: "nat \<Rightarrow> nat \<Rightarrow> pwospf_router list \<Rightarrow> pwospf_router list" where
  "activate_one k i rl =
    (let rl = set_active k i False rl in
     case index_of (\<lambda>r. r_router_id r = pi_router_id (pif rl k i)) rl of
       None \<Rightarrow> rl
     | Some k' \<Rightarrow> fold (activate_pair k i k') [0..<length (r_interface_list (rl ! k'))] rl)"

definition determine_active_interfaces :: "nat \<Rightarrow> pwospf_router list \<Rightarrow> pwospf_router list" where
  "determine_active_interfaces k rl = fold (activate_one k) [0..<length (r_interface_list (rl ! k))] rl"

section \<open>Building and queueing LSUs\<close>

definition construct_pwospf_lsu_adv :: "router_state \<Rightarrow> (u8 list \<times> nat) res" where
  "construct_pwospf_lsu_adv rs =
    (case get_our_router rs of
       None \<Rightarrow> Inl AssertFail
     | Some r \<Rightarrow> Inr (concat (map (\<lambda>i. bytes32 (pi_subnet i) @ bytes32 (pi_mask i) @ bytes32 (pi_router_id i)) (r_interface_list r)),
                      length (r_interface_list r)))"

definition construct_pwospf_lsu_packet :: "router_state \<Rightarrow> (packet \<times> router_state) res" where
  "construct_pwospf_lsu_packet rs =
    (case get_our_router rs of
       None \<Rightarrow> Inl AssertFail
     | Some our_router \<Rightarrow>
         bindR (construct_pwospf_lsu_adv rs) (\<lambda>(iface_adv, pwospf_num).
         let len = 24 + 8 + pwospf_num * 12 in
         bindR (populate_pwospf (bzero len) 0 PWOSPF_TYPE_LINK_STATE_UPDATE (word_of_nat len) (router_id rs) (area_id rs)) (\<lambda>p.
         bindR (populate_pwospf_lsu p 24 (r_seq our_router) (word_of_nat pwospf_num)) (\<lambda>p.
         bindR (memcpy p 32 iface_adv 0 (pwospf_num * 12)) (\<lambda>p.
         bindR (compute_pwospf_checksum p 0) (\<lambda>(s, p).
         bindR (st16 p 12 (htons s)) (\<lambda>p.
         Inr (p, upd_by_rid (router_id rs) (\<lambda>r. r\<lparr>r_last_update := clock rs, r_seq := r_seq r + 1\<rparr>) rs))))))))"

definition lsu_frame :: "packet \<Rightarrow> iface_entry \<Rightarrow> nbr_router \<Rightarrow> packet res" where
  "lsu_frame pwospf iface nbr =
    bindR (ld16 pwospf 2) (\<lambda>plen.
    let n = unat (ntohs plen) in
    bindR (memcpy (bzero (34 + n)) pwospf_at pwospf 0 n) (\<lambda>p.
    bindR (populate_ip p ip_at (ntohs plen) IP_PROTO_PWOSPF (if_ip iface) (nbr_ip nbr)) (\<lambda>p.
    bindR (compute_ip_checksum p ip_at) (\<lambda>(s, p).
    bindR (st16 p (ip_at + 10) (htons s)) (\<lambda>p.
    populate_eth_hdr p 0 None (if_addr iface) ETH_TYPE_IP)))))"

fun queue_lsu_nbrs :: "packet \<Rightarrow> u32 option \<Rightarrow> iface_entry \<Rightarrow> nbr_router list \<Rightarrow> router_state \<Rightarrow> router_state res" where
  "queue_lsu_nbrs pwospf src_ip iface [] rs = Inr rs"
| "queue_lsu_nbrs pwospf src_ip iface (nbr # nbrs) rs =
    bindR (if src_ip = None \<or> src_ip \<noteq> Some (nbr_ip nbr)
           then bindR (lsu_frame pwospf iface nbr) (\<lambda>p.
                bindR (acquire LsuQueueMutex Wr rs) (\<lambda>rs.
                let lqe = \<lparr>lq_ip = if_ip iface, lq_iface = if_name iface, lq_packet = p\<rparr> in
                release LsuQueueMutex (rs\<lparr>pwospf_lsu_queue := pwospf_lsu_queue rs @ [lqe]\<rparr>)))
           else Inr rs) (\<lambda>rs.
    queue_lsu_nbrs pwospf src_ip iface nbrs rs)"

fun queue_lsu_ifaces :: "packet \<Rightarrow> u32 option \<Rightarrow> iface_entry list \<Rightarrow> router_state \<Rightarrow> router_state res" where
  "queue_lsu_ifaces pwospf src_ip [] rs = Inr rs"
| "queue_lsu_ifaces pwospf src_ip (iface # ifs) rs =
    bindR (if if_active iface \<and> if_nbr_routers iface \<noteq> [] then queue_lsu_nbrs pwospf src_ip iface (if_nbr_routers iface) rs
           else Inr rs) (\<lambda>rs.
    queue_lsu_ifaces pwospf src_ip ifs rs)"

definition broadcast_pwospf_lsu_packet :: "packet \<Rightarrow> u32 option \<Rightarrow> router_state \<Rightarrow> router_state res" where
  "broadcast_pwospf_lsu_packet pwospf src_ip rs = queue_lsu_ifaces pwospf src_ip (if_list rs) rs"

definition start_lsu_bcast_flood :: "router_state \<Rightarrow> router_state res" where
  "start_lsu_bcast_flood rs =
    (if pwospf_lsu_broadcast rs = 0 then Inr rs
     else
       bindR (construct_pwospf_lsu_packet rs) (\<lambda>(pwospf, rs).
       bindR (broadcast_pwospf_lsu_packet pwospf None rs) (\<lambda>rs.
       case get_our_router rs of
         None \<Rightarrow> Inl NullDeref
       | Some _ \<Rightarrow> Inr (upd_by_rid (router_id rs) (\<lambda>r. r\<lparr>r_last_update := clock rs\<rparr>) rs))))"

definition propagate_pwospf_changes :: "router_state \<Rightarrow> router_state res" where
  "propagate_pwospf_changes rs =
    (let rl = fold determine_active_interfaces [0..<length (pwospf_router_list rs)] (pwospf_router_list rs)
     in start_lsu_bcast_flood (dijkstra_trigger (rs\<lparr>pwospf_router_list := rl\<rparr>)))"

section \<open>Incoming packets\<close>

text \<open>The callers hold the ARP cache, ARP queue, interface list and routing table locks.
  \<open>same_subnet\<close> is the test that finds the advertisements of an interface.\<close>

definition same_subnet :: "iface_entry \<Rightarrow> pwospf_interface \<Rightarrow> bool" where
  "same_subnet iface pi = (pi_subnet pi = (if_ip iface AND if_mask iface) \<and> pi_mask pi = if_mask iface)"

text \<open>The walk over the neighbours has no \<^verbatim>\<open>break\<close>: the last match counts.\<close>

definition upd_last :: "('a \<Rightarrow> bool) \<Rightarrow> ('a \<Rightarrow> 'a) \<Rightarrow> 'a list \<Rightarrow> 'a list" where
  "upd_last P f xs = rev (upd_first P f (rev xs))"

definition hello_new_neighbor :: "iface_entry \<Rightarrow> u32 \<Rightarrow> router_state \<Rightarrow> router_state res" where
  "hello_new_neighbor iface rid rs =
    (case get_our_router rs of
       None \<Rightarrow> Inl AssertFail
     | Some r \<Rightarrow>
         if list_ex (\<lambda>i. same_subnet iface i \<and> pi_router_id i = 0) (r_interface_list r)
         then Inr (upd_by_rid (router_id rs) (\<lambda>r. r\<lparr>r_interface_list :=
                upd_first (\<lambda>i. same_subnet iface i \<and> pi_router_id i = 0) (\<lambda>i. i\<lparr>pi_router_id := rid\<rparr>) (r_interface_list r)\<rparr>) rs)
         else
           let i = \<lparr>pi_subnet = if_ip iface AND if_mask iface, pi_mask = if_mask iface, pi_router_id = rid, pi_active = False\<rparr> in
           bindR (assertR (r_interface_list r \<noteq> [])) (\<lambda>_.
           Inr (upd_by_rid (router_id rs) (\<lambda>r. r\<lparr>r_interface_list := r_interface_list r @ [i]\<rparr>) rs)))"

definition process_pwospf_hello_packet :: "packet \<Rightarrow> string \<Rightarrow> router_state \<Rightarrow> router_state res" where
  "process_pwospf_hello_packet p interface rs =
    bindR (ld16 p (hello_at + 4)) (\<lambda>hint.
    if pwospf_hello_interval rs \<noteq> ntohs hint then Inr rs
    else
      bindR (release RtableLock rs) (\<lambda>rs.
      bindR (release IfListLock rs) (\<lambda>rs.
      bindR (acquire IfListLock Wr rs) (\<lambda>rs.
      bindR (acquire RtableLock Rd rs) (\<lambda>rs.
      bindR (acquire RouterListMutex Wr rs) (\<lambda>rs.
      bindR (derefR (get_iface rs interface)) (\<lambda>iface.
      bindR (ld32 p hello_at) (\<lambda>hmask.
      if if_mask iface \<noteq> hmask then Inr rs
      else
        bindR (ld32 p (ip_at + 12)) (\<lambda>ip_src.
        bindR (ld32 p (pwospf_at + 4)) (\<lambda>rid.
        let same = (\<lambda>nbr. nbr_ip nbr = ip_src \<and> if_mask iface = hmask \<and> nbr_router_id nbr = rid);
            new = \<not> list_ex same (if_nbr_routers iface);
            rs = upd_iface interface (\<lambda>ie. ie\<lparr>if_nbr_routers :=
                   (if new then if_nbr_routers ie @ [\<lparr>nbr_router_id = rid, nbr_ip = ip_src, nbr_last_rcvd_hello = clock rs\<rparr>]
                    else upd_last same (\<lambda>nbr. nbr\<lparr>nbr_last_rcvd_hello := clock rs\<rparr>) (if_nbr_routers ie))\<rparr>) rs in
        bindR (if new then bindR (hello_new_neighbor iface rid rs) (\<lambda>rs. propagate_pwospf_changes rs) else Inr rs) (\<lambda>rs.
        bindR (release RouterListMutex rs) (\<lambda>rs.
        Inr (if new then pthread_cond_signal LsuBcastCond rs else rs)))))))))))))"

text \<open>The copy of a received LSU that is forwarded, with the decremented TTL and a fresh checksum.\<close>

definition forwarded_lsu :: "packet \<Rightarrow> u16 \<Rightarrow> packet res" where
  "forwarded_lsu p ttl =
    bindR (ld16 p (pwospf_at + 2)) (\<lambda>plen.
    let n = unat (ntohs plen) in
    bindR (memcpy (bzero n) 0 p pwospf_at n) (\<lambda>q.
    bindR (st16 q 26 (htons ttl)) (\<lambda>q.
    bindR (compute_pwospf_checksum q 0) (\<lambda>(s, q).
    st16 q 12 (htons s)))))"

text \<open>What an LSU does to the router list: the result tells whether it is forwarded and whether the
  link states changed.\<close>

definition learn_lsu :: "packet \<Rightarrow> u32 \<Rightarrow> u16 \<Rightarrow> router_state \<Rightarrow> (bool \<times> bool \<times> router_state) res" where
  "learn_lsu p rid seq rs =
    (case get_router_by_rid rid (pwospf_router_list rs) of
       Some router \<Rightarrow>
         if r_seq router \<noteq> ntohs seq \<and> ntohs seq > r_seq router
         then bindR (populate_pwospf_router_interface_list p (r_interface_list router)) (\<lambda>(changed, il).
              Inr (True, changed = 1, upd_by_rid rid
                (\<lambda>r. r\<lparr>r_last_update := clock rs, r_seq := htons seq, r_interface_list := il\<rparr>) rs))
         else Inr (False, False, rs)
     | None \<Rightarrow> bindR (add_new_router_neighbor p rs) (\<lambda>rs. Inr (True, True, rs)))"

definition process_pwospf_lsu_packet :: "packet \<Rightarrow> router_state \<Rightarrow> router_state res" where
  "process_pwospf_lsu_packet p rs =
    bindR (ld32 p (pwospf_at + 4)) (\<lambda>rid.
    if router_id rs = rid then Inr rs
    else
      bindR (release RtableLock rs) (\<lambda>rs.
      bindR (acquire RtableLock Wr rs) (\<lambda>rs.
      bindR (acquire RouterListMutex Wr rs) (\<lambda>rs.
      bindR (ld16 p lsu_at) (\<lambda>seq.
      bindR (learn_lsu p rid seq rs) (\<lambda>(rebroadcast_packet, update_neighbors, rs).
      bindR (ld16 p (lsu_at + 2)) (\<lambda>t.
      let ttl = ntohs t - 1; bcast_incoming_lsu_packet = (rebroadcast_packet \<and> ttl > 0) in
      bindR (if bcast_incoming_lsu_packet
             then bindR (forwarded_lsu p ttl) (\<lambda>pwospf.
                  bindR (ld32 p (ip_at + 12)) (\<lambda>ip_src. broadcast_pwospf_lsu_packet pwospf (Some ip_src) rs))
             else Inr rs) (\<lambda>rs.
      bindR (if update_neighbors then propagate_pwospf_changes rs else Inr rs) (\<lambda>rs.
      bindR (release RouterListMutex rs) (\<lambda>rs.
      Inr (if update_neighbors \<or> bcast_incoming_lsu_packet then pthread_cond_signal LsuBcastCond rs else rs)))))))))))"

definition process_pwospf_packet :: "packet \<Rightarrow> string \<Rightarrow> router_state \<Rightarrow> router_state res" where
  "process_pwospf_packet p interface rs =
    bindR (is_pwospf_packet_valid p rs) (\<lambda>(valid, p).
    if \<not> valid then Inr rs
    else
      bindR (ld8 p (pwospf_at + 1)) (\<lambda>type.
      if type = PWOSPF_TYPE_HELLO then process_pwospf_hello_packet p interface rs
      else if type = PWOSPF_TYPE_LINK_STATE_UPDATE then process_pwospf_lsu_packet p rs
      else Inr rs))"

section \<open>Hellos and time-outs\<close>

definition hello_frame :: "iface_entry \<Rightarrow> router_state \<Rightarrow> packet res" where
  "hello_frame ie rs =
    bindR (populate_pwospf_hello (bzero 66) hello_at (if_mask ie) (pwospf_hello_interval rs)) (\<lambda>p.
    bindR (populate_pwospf p pwospf_at PWOSPF_TYPE_HELLO 32 (router_id rs) (area_id rs)) (\<lambda>p.
    bindR (compute_pwospf_checksum p pwospf_at) (\<lambda>(s, p).
    bindR (st16 p (pwospf_at + 12) (htons s)) (\<lambda>p.
    bindR (populate_ip p ip_at 32 IP_PROTO_PWOSPF (if_ip ie) (htonl PWOSPF_HELLO_TIP)) (\<lambda>p.
    bindR (compute_ip_checksum p ip_at) (\<lambda>(s, p).
    bindR (st16 p (ip_at + 10) (htons s)) (\<lambda>p.
    populate_eth_hdr p 0 (Some (replicate 6 0xFF)) (if_addr ie) ETH_TYPE_IP)))))))"

definition nbr_timedout :: "router_state \<Rightarrow> nbr_router \<Rightarrow> bool" where
  "nbr_timedout rs nbr = (clock rs - nbr_last_rcvd_hello nbr > 3 * uint (pwospf_hello_interval rs))"

text \<open>Our own advertisement of a neighbour that is gone: the last one of its subnet is kept without a
  neighbour, any other one is removed.\<close>

definition drop_adv :: "iface_entry \<Rightarrow> nbr_router \<Rightarrow> pwospf_interface list \<Rightarrow> pwospf_interface list res" where
  "drop_adv iface nbr il =
    (let count = length (filter (same_subnet iface) il) in
     bindR (assertR (count > 0)) (\<lambda>_.
     Inr (if count = 1 then upd_first (same_subnet iface) (\<lambda>pi. pi\<lparr>pi_router_id := 0\<rparr>) il
          else remove_first (\<lambda>pi. same_subnet iface pi \<and> nbr_router_id nbr = pi_router_id pi) il)))"

fun timeout_loop :: "iface_entry \<Rightarrow> nbr_router list \<Rightarrow> router_state \<Rightarrow> router_state res" where
  "timeout_loop iface [] rs = Inr rs"
| "timeout_loop iface (nbr # nbrs) rs =
    bindR (if nbr_timedout rs nbr
           then bindR (derefR (get_our_router rs)) (\<lambda>our_router.
                bindR (drop_adv iface nbr (r_interface_list our_router)) (\<lambda>il.
                Inr (upd_by_rid (router_id rs) (\<lambda>r. r\<lparr>r_interface_list := il\<rparr>) rs)))
           else Inr rs) (\<lambda>rs.
    timeout_loop iface nbrs rs)"

text \<open>\<open>k\<close> is the position of the interface in the interface list.\<close>

definition determine_timedout_interface :: "nat \<Rightarrow> bool act" where
  "determine_timedout_interface k rs =
    (let iface = if_list rs ! k; gone = list_ex (nbr_timedout rs) (if_nbr_routers iface) in
     bindR (timeout_loop iface (if_nbr_routers iface) rs) (\<lambda>rs.
     Inr (gone, rs\<lparr>if_list := (if_list rs)[k := iface\<lparr>if_nbr_routers := filter (\<lambda>n. \<not> nbr_timedout rs n) (if_nbr_routers iface)\<rparr>]\<rparr>)))"

definition hello_iface :: "nat \<Rightarrow> bool act" where
  "hello_iface k rs =
    (let ie = if_list rs ! k in
     if if_active ie
     then bindR (hello_frame ie rs) (\<lambda>p.
          bindR (send_packet p (if_name ie) rs) (\<lambda>(_, rs).
          let rs = rs\<lparr>if_list := (if_list rs)[k := ie\<lparr>if_last_sent_hello := clock rs\<rparr>]\<rparr> in
          bindR (acquire RouterListMutex Wr rs) (\<lambda>rs.
          bindR (determine_timedout_interface k rs) (\<lambda>(gone, rs).
          bindR (release RouterListMutex rs) (\<lambda>rs. Inr (gone, rs))))))
     else Inr (False, rs))"

fun hello_loop :: "nat list \<Rightarrow> bool \<Rightarrow> bool act" where
  "hello_loop [] timedout rs = Inr (timedout, rs)"
| "hello_loop (k # ks) timedout rs =
    bindR (hello_iface k rs) (\<lambda>(gone, rs). hello_loop ks (timedout \<or> gone) rs)"

definition broadcast_pwospf_hello_packet :: "router_state \<Rightarrow> router_state res" where
  "broadcast_pwospf_hello_packet rs =
    bindR (hello_loop [0..<length (if_list rs)] False rs) (\<lambda>(interface_has_timedout, rs).
    if interface_has_timedout
    then bindR (acquire RouterListMutex Wr rs) (\<lambda>rs.
         bindR (propagate_pwospf_changes rs) (\<lambda>rs.
         bindR (release RouterListMutex rs) (\<lambda>rs.
         Inr (pthread_cond_signal LsuBcastCond rs))))
    else Inr rs)"

section \<open>The threads\<close>

text \<open>One iteration of each endless loop, without its \<^verbatim>\<open>sleep\<close>. The difference of two times is an
  \<^verbatim>\<open>int\<close> compared with an \<^verbatim>\<open>unsigned int\<close>, so a clock that runs backwards counts as a huge difference.\<close>

definition pwospf_hello_thread_step :: "router_state \<Rightarrow> router_state res" where
  "pwospf_hello_thread_step rs =
    bindR (acquire IfListLock Wr rs) (\<lambda>rs.
    bindR (broadcast_pwospf_hello_packet rs) (\<lambda>rs.
    release IfListLock rs))"

definition age_exceeds :: "int \<Rightarrow> int \<Rightarrow> u32 \<Rightarrow> bool" where
  "age_exceeds now t limit = ((word_of_int (now - t) :: u32) > limit)"

definition pwospf_lsu_thread_step :: "router_state \<Rightarrow> router_state res" where
  "pwospf_lsu_thread_step rs =
    bindR (acquire RouterListMutex Wr rs) (\<lambda>rs.
    let our_router = get_our_router rs in
    bindR (release RouterListMutex rs) (\<lambda>rs.
    case our_router of
      None \<Rightarrow> Inr rs
    | Some r \<Rightarrow>
        if age_exceeds (clock rs) (r_last_update r) (pwospf_lsu_interval rs)
        then bindR (acquire RouterListMutex Wr rs) (\<lambda>rs.
             bindR (start_lsu_bcast_flood rs) (\<lambda>rs.
             bindR (release RouterListMutex rs) (\<lambda>rs.
             Inr (pthread_cond_signal LsuBcastCond rs))))
        else Inr rs))"

definition router_timedout :: "router_state \<Rightarrow> pwospf_router \<Rightarrow> bool" where
  "router_timedout rs r =
    (r_router_id r \<noteq> router_id rs \<and> age_exceeds (clock rs) (r_last_update r) (pwospf_lsu_interval rs * 3))"

definition pwospf_lsu_timeout_thread_step :: "router_state \<Rightarrow> router_state res" where
  "pwospf_lsu_timeout_thread_step rs =
    bindR (acquire RouterListMutex Wr rs) (\<lambda>rs.
    let timeout_occured = list_ex (router_timedout rs) (pwospf_router_list rs);
        rs = rs\<lparr>pwospf_router_list := filter (\<lambda>r. \<not> router_timedout rs r) (pwospf_router_list rs)\<rparr> in
    bindR (if timeout_occured then propagate_pwospf_changes rs else Inr rs) (\<lambda>rs.
    bindR (release RouterListMutex rs) (\<lambda>rs.
    Inr (if timeout_occured then pthread_cond_signal LsuBcastCond rs else rs))))"

fun send_lsu_queue :: "pwospf_lsu_queue_entry list \<Rightarrow> router_state \<Rightarrow> router_state res" where
  "send_lsu_queue [] rs = Inr rs"
| "send_lsu_queue (lqe # lqes) rs =
    bindR (ld32 (lq_packet lqe) (ip_at + 16)) (\<lambda>dst.
    bindR (case get_next_hop rs 32 dst of
             Some (next_hop, next_hop_iface) \<Rightarrow>
               bindR (send_ip (lq_packet lqe) next_hop next_hop_iface rs) (\<lambda>(_, rs). Inr rs)
           | None \<Rightarrow> Inr rs) (\<lambda>rs.
    send_lsu_queue lqes rs))"

text \<open>From the wake-up of \<^verbatim>\<open>pthread_cond_wait\<close>, which returns with the broadcast mutex held.\<close>

definition pwospf_lsu_bcast_thread_step :: "router_state \<Rightarrow> router_state res" where
  "pwospf_lsu_bcast_thread_step rs =
    bindR (acquire LsuBcastMutex Wr rs) (\<lambda>rs.
    bindR (acquire LsuQueueMutex Wr rs) (\<lambda>rs.
    let lsu_queue = pwospf_lsu_queue rs in
    bindR (release LsuQueueMutex (rs\<lparr>pwospf_lsu_queue := []\<rparr>)) (\<lambda>rs.
    bindR (acquire ArpCacheLock Rd rs) (\<lambda>rs.
    bindR (acquire ArpQueueLock Wr rs) (\<lambda>rs.
    bindR (acquire IfListLock Rd rs) (\<lambda>rs.
    bindR (acquire RtableLock Rd rs) (\<lambda>rs.
    bindR (send_lsu_queue lsu_queue rs) (\<lambda>rs.
    bindR (release RtableLock rs) (\<lambda>rs.
    bindR (release IfListLock rs) (\<lambda>rs.
    bindR (release ArpQueueLock rs) (\<lambda>rs.
    bindR (release ArpCacheLock rs) (\<lambda>rs.
    release LsuBcastMutex rs))))))))))))"

section \<open>Interfaces going up and down\<close>

definition default_route_present :: "router_state \<Rightarrow> pwospf_interface option" where
  "default_route_present rs =
    map_option (\<lambda>re. \<lparr>pi_subnet = re_ip re AND re_mask re, pi_mask = re_mask re, pi_router_id = 0, pi_active = False\<rparr>)
      (find (\<lambda>re. re_static re \<and> re_ip re = 0 \<and> re_mask re = 0) (rtable rs))"

definition is_route_present :: "pwospf_router \<Rightarrow> pwospf_interface \<Rightarrow> int" where
  "is_route_present router iface =
    (if list_ex (\<lambda>pi. pi_subnet pi = pi_subnet iface \<and> pi_mask pi = pi_mask iface \<and> pi_router_id pi = pi_router_id iface)
          (r_interface_list router) then 1 else 0)"

text \<open>The loop that clears the neighbours removes and frees the first node again and again without advancing;
  with a neighbour present its second iteration uses the freed node, as the theory of the node list shows for \<open>clear_loop\<close>.\<close>

definition clear_nbrs :: "iface_entry \<Rightarrow> unit res" where
  "clear_nbrs iface = (if if_nbr_routers iface = [] then Inr () else Inl UseAfterFree)"

definition announce_changes :: "router_state \<Rightarrow> router_state res" where
  "announce_changes rs =
    bindR (acquire RouterListMutex Wr rs) (\<lambda>rs.
    bindR (propagate_pwospf_changes rs) (\<lambda>rs.
    bindR (release RouterListMutex rs) (\<lambda>rs.
    Inr (pthread_cond_signal LsuBcastCond rs))))"

definition iface_up :: "string \<Rightarrow> int act" where
  "iface_up interface rs =
    (case get_iface rs interface of
       None \<Rightarrow> Inr (1, rs)
     | Some iface \<Rightarrow>
         if if_active iface then Inr (0, rs)
         else
           bindR (activate_routes interface (upd_iface interface (\<lambda>e. e\<lparr>if_active := True\<rparr>) rs)) (\<lambda>(_, rs).
           bindR (clear_nbrs iface) (\<lambda>_.
           let pi = \<lparr>pi_subnet = if_ip iface AND if_mask iface, pi_mask = if_mask iface, pi_router_id = 0, pi_active = False\<rparr> in
           bindR (derefR (get_our_router rs)) (\<lambda>our_router.
           let rs = (if is_route_present our_router pi = 0
                     then upd_by_rid (router_id rs) (\<lambda>r. r\<lparr>r_interface_list := r_interface_list r @ [pi]\<rparr>) rs else rs) in
           bindR (announce_changes rs) (\<lambda>rs. Inr (0, rs))))))"

definition iface_down :: "string \<Rightarrow> int act" where
  "iface_down interface rs =
    (case get_iface rs interface of
       None \<Rightarrow> Inr (1, rs)
     | Some iface \<Rightarrow>
         if \<not> if_active iface then Inr (0, rs)
         else
           bindR (deactivate_routes interface (upd_iface interface (\<lambda>e. e\<lparr>if_active := False\<rparr>) rs)) (\<lambda>(_, rs).
           bindR (clear_nbrs iface) (\<lambda>_.
           bindR (derefR (get_our_router rs)) (\<lambda>our_router.
           let on = (\<lambda>pi. pi_subnet pi = (if_ip iface AND if_mask iface));
               iface_removed = list_ex on (r_interface_list our_router);
               rs = upd_by_rid (router_id rs) (\<lambda>r. r\<lparr>r_interface_list := filter (\<lambda>pi. \<not> on pi) (r_interface_list r)\<rparr>) rs in
           bindR (if iface_removed then announce_changes rs else Inr rs) (\<lambda>rs. Inr (0, rs))))))"

end
