(* ===== verification/Pwospf_Lsu.thy ===== *)
theory Pwospf_Lsu
  imports Pwospf
begin

text \<open>
  Link state updates from the sender to the receiver: what a router advertises is what its neighbour learns.
\<close>

section \<open>Reading a packet behind its headers\<close>

lemma ld_shift:
  "ld8 (h @ q) (length h + k) = ld8 q k" "ld16 (h @ q) (length h + k) = ld16 q k" "ld32 (h @ q) (length h + k) = ld32 q k"
  by (auto simp: ld8_def ld16_def ld32_def nth_append)

lemma st16_shift: "st16 (h @ q) (length h + k) w = bindR (st16 q k w) (\<lambda>q. Inr (h @ q))"
  by (auto simp: st16_def st_bytes_def upd_bytes_def)

lemma csum_loop_shift: "csum_loop skip (h @ q) (length h + off) i n s = csum_loop skip q off i n s"
proof (induction n arbitrary: i s)
  case (Suc n)
  have "csum_loop skip (h @ q) (length h + off) (Suc i) n = csum_loop skip q off (Suc i) n" by (rule ext) (rule Suc.IH)
  then show ?case using ld_shift(2) [of h q "off + 2 * i"] by (simp add: add.assoc)
qed simp

lemma compute_pwospf_shift:
  "compute_pwospf_checksum (h @ q) (length h + off) = bindR (compute_pwospf_checksum q off) (\<lambda>(s, q). Inr (s, h @ q))"
  using ld_shift(2) [of h _ "off + 2"]
  by (simp add: compute_pwospf_checksum_def st16_shift add.assoc bindR_assoc csum_loop_shift)

lemma read_advs_shift: "read_advs (h @ q) (length h + k) n = read_advs q k n"
proof (induction n arbitrary: k)
  case (Suc n)
  show ?case using ld_shift(3) [of h q k] ld_shift(3) [of h q "k + 4"] ld_shift(3) [of h q "k + 8"] Suc.IH [of "k + 12"]
    by (simp add: add.assoc)
qed simp

text \<open>A checksum does not depend on the old content of its field, so it verifies after it is stored.\<close>

lemma compute_pwospf_again:
  assumes "compute_pwospf_checksum p off = Inr (s, q)" "st16 q (off + 12) x = Inr r"
  shows "compute_pwospf_checksum r off = Inr (s, q)"
proof -
  have len: "off + 14 \<le> length p" and q: "q = upd_bytes p (off + 12) (bytes16 0)"
    using assms(1) by (auto simp: compute_pwospf_checksum_def bindR_eq_Inr st16_def st_eq_Inr)
  have r: "r = upd_bytes q (off + 12) (bytes16 x)" using assms(2) by (simp add: st16_def st_eq_Inr)
  have "upd_bytes r (off + 12) (bytes16 0) = q" using len by (simp add: r q upd_bytes_def)
  moreover have "off + 14 \<le> length r" using len by (simp add: r q)
  ultimately have "st16 r (off + 12) 0 = Inr q" "st16 p (off + 12) 0 = Inr q" using len q by (simp_all add: st16_in)
  then show ?thesis using assms(1) by (simp add: compute_pwospf_checksum_def)
qed

section \<open>The packet that is built\<close>

definition adv_bytes :: "pwospf_interface \<Rightarrow> u8 list" where
  "adv_bytes i = bytes32 (pi_subnet i) @ bytes32 (pi_mask i) @ bytes32 (pi_router_id i)"

definition lsu_body :: "u16 \<Rightarrow> pwospf_interface list \<Rightarrow> u8 list" where
  "lsu_body seq il = bytes16 (htons seq) @ bytes16 (htons 64) @ bytes32 (htonl (word_of_nat (length il))) @ concat (map adv_bytes il)"

lemma length_adv_bytes [simp]: "length (adv_bytes i) = 12"
  by (simp add: adv_bytes_def)

lemma length_concat_advs [simp]: "length (concat (map adv_bytes il)) = 12 * length il"
  by (induction il) auto

lemma length_lsu_body [simp]: "length (lsu_body seq il) = 8 + 12 * length il"
  by (simp add: lsu_body_def)

lemma ld_le32: "ld32 (h @ bytes32 w @ t) (length h) = Inr w"
  using ld_shift(3) [of h "bytes32 w @ t" 0] by (simp add: ld32_def nth_append)

lemma ld_le16: "ld16 (h @ bytes16 w @ t) (length h) = Inr w"
  using ld_shift(2) [of h "bytes16 w @ t" 0] by (simp add: ld16_def nth_append)

lemma read_advs_bytes:
  "read_advs (h @ concat (map adv_bytes il)) (length h) (length il) =
   Inr (map (\<lambda>i. (pi_subnet i, pi_mask i, pi_router_id i)) il)"
proof (induction il arbitrary: h)
  case (Cons i il)
  let ?t = "concat (map adv_bytes il)"
  have e: "h @ concat (map adv_bytes (i # il)) = h @ bytes32 (pi_subnet i) @ bytes32 (pi_mask i) @ bytes32 (pi_router_id i) @ ?t"
    by (simp add: adv_bytes_def)
  have "ld32 (h @ concat (map adv_bytes (i # il))) (length h) = Inr (pi_subnet i)"
    "ld32 (h @ concat (map adv_bytes (i # il))) (length h + 4) = Inr (pi_mask i)"
    "ld32 (h @ concat (map adv_bytes (i # il))) (length h + 8) = Inr (pi_router_id i)"
    unfolding e using ld_le32 [of h "pi_subnet i"] ld_le32 [of "h @ bytes32 (pi_subnet i)" "pi_mask i"]
      ld_le32 [of "h @ bytes32 (pi_subnet i) @ bytes32 (pi_mask i)" "pi_router_id i"] by simp_all
  moreover have "read_advs (h @ concat (map adv_bytes (i # il))) (length h + 12) (length il) =
      Inr (map (\<lambda>i. (pi_subnet i, pi_mask i, pi_router_id i)) il)"
    using Cons.IH [of "h @ adv_bytes i"] by simp
  ultimately show ?case by simp
qed simp

text \<open>The LSU without its checksum.\<close>

definition lsu_raw :: "u32 \<Rightarrow> u32 \<Rightarrow> u16 \<Rightarrow> pwospf_interface list \<Rightarrow> u8 list" where
  "lsu_raw rid aid seq il = pwospf_header 4 (word_of_nat (32 + 12 * length il)) rid aid @ lsu_body seq il"

lemma length_lsu_raw [simp]: "length (lsu_raw rid aid seq il) = 32 + 12 * length il"
  by (simp add: lsu_raw_def)

lemma bytes16_0: "bytes16 0 = [0, 0]"
  by (simp add: bytes16_def byte16_def)

lemma bzero_12: "bzero 12 = bytes16 0 @ bytes16 0 @ bzero 8"
  by (simp add: bytes16_0 bzero_def numeral_eq_Suc)

lemma upd_bytes_mid: "length b = length b' \<Longrightarrow> upd_bytes (a @ b @ c) (length a) b' = a @ b' @ c"
  by (simp add: upd_bytes_def)

definition lsu_front :: "u32 \<Rightarrow> u32 \<Rightarrow> pwospf_interface list \<Rightarrow> u8 list" where
  "lsu_front rid aid il = [2, 4] @ bytes16 (htons (word_of_nat (32 + 12 * length il))) @ bytes32 rid @ bytes32 (htonl aid)"

lemma length_lsu_front [simp]: "length (lsu_front rid aid il) = 12"
  by (simp add: lsu_front_def)

lemma lsu_raw_split:
  "lsu_raw rid aid seq il = lsu_front rid aid il @ bytes16 0 @ bytes16 0 @ bzero 8 @ bytes16 (htons seq) @ bytes16 (htons 64) @
     bytes32 (htonl (word_of_nat (length il))) @ concat (map adv_bytes il)"
  by (simp add: lsu_raw_def pwospf_header_def lsu_body_def bzero_12 lsu_front_def)

lemma lsu_raw_upd_zero: "upd_bytes (lsu_raw rid aid seq il) 12 (bytes16 0) = lsu_raw rid aid seq il"
  unfolding lsu_raw_split using upd_bytes_mid [of "bytes16 0" "bytes16 0" "lsu_front rid aid il"] by simp

lemma lsu_raw_fields:
  "ld8 (lsu_raw rid aid seq il) 0 = Inr 2" "ld8 (lsu_raw rid aid seq il) 1 = Inr 4"
  "ld16 (lsu_raw rid aid seq il) 2 = Inr (htons (word_of_nat (32 + 12 * length il)))"
  "ld32 (lsu_raw rid aid seq il) 4 = Inr rid" "ld32 (lsu_raw rid aid seq il) 8 = Inr (htonl aid)"
  "ld16 (lsu_raw rid aid seq il) 14 = Inr 0" "ld16 (lsu_raw rid aid seq il) 24 = Inr (htons seq)"
  "ld32 (lsu_raw rid aid seq il) 28 = Inr (htonl (word_of_nat (length il)))"
proof -
  define n :: u16 where "n = word_of_nat (32 + 12 * length il)"
  define m :: u32 where "m = word_of_nat (length il)"
  define t where "t = concat (map adv_bytes il)"
  define raw where "raw = lsu_raw rid aid seq il"
  have front: "lsu_front rid aid il = [2, 4] @ bytes16 (htons n) @ bytes32 rid @ bytes32 (htonl aid)"
    by (simp add: lsu_front_def n_def)
  have split: "raw = lsu_front rid aid il @ bytes16 0 @ bytes16 0 @ bzero 8 @ bytes16 (htons seq) @ bytes16 (htons 64) @ bytes32 (htonl m) @ t"
    by (simp add: raw_def lsu_raw_split m_def t_def)
  show "ld8 (lsu_raw rid aid seq il) 0 = Inr 2" "ld8 (lsu_raw rid aid seq il) 1 = Inr 4"
    unfolding raw_def [symmetric] by (simp_all add: split front ld8_def)
  show "ld16 (lsu_raw rid aid seq il) 2 = Inr (htons (word_of_nat (32 + 12 * length il)))"
    unfolding raw_def [symmetric] n_def [symmetric] using ld_le16 [of "[2, 4]" "htons n"] by (simp add: split front numeral_2_eq_2)
  show "ld32 (lsu_raw rid aid seq il) 4 = Inr rid"
    unfolding raw_def [symmetric] using ld_le32 [of "[2, 4] @ bytes16 (htons n)" rid] by (simp add: split front)
  show "ld32 (lsu_raw rid aid seq il) 8 = Inr (htonl aid)"
    unfolding raw_def [symmetric] using ld_le32 [of "[2, 4] @ bytes16 (htons n) @ bytes32 rid" "htonl aid"] by (simp add: split front)
  show "ld16 (lsu_raw rid aid seq il) 14 = Inr 0"
    unfolding raw_def [symmetric] using ld_le16 [of "lsu_front rid aid il @ bytes16 0" 0] by (simp add: split)
  show "ld16 (lsu_raw rid aid seq il) 24 = Inr (htons seq)"
    unfolding raw_def [symmetric] using ld_le16 [of "lsu_front rid aid il @ bytes16 0 @ bytes16 0 @ bzero 8" "htons seq"] by (simp add: split)
  show "ld32 (lsu_raw rid aid seq il) 28 = Inr (htonl (word_of_nat (length il)))"
    unfolding raw_def [symmetric] m_def [symmetric]
    using ld_le32 [of "lsu_front rid aid il @ bytes16 0 @ bytes16 0 @ bzero 8 @ bytes16 (htons seq) @ bytes16 (htons 64)" "htonl m"]
    by (simp add: split)
qed

lemma lsu_raw_checksum:
  assumes "32 + 12 * length il < 65536"
  obtains s where "compute_pwospf_checksum (lsu_raw rid aid seq il) 0 = Inr (s, lsu_raw rid aid seq il)"
proof -
  let ?p = "lsu_raw rid aid seq il"
  have st: "st16 ?p 12 0 = Inr ?p" by (simp add: st16_in lsu_raw_upd_zero)
  have "unat (word_of_nat (32 + 12 * length il) :: u16) = 32 + 12 * length il"
    using assms by (simp only: unat_of_nat) simp
  then have c: "csum_loop sk ?p 0 0 (unat (ntohs (htons (word_of_nat (32 + 12 * length il)))) div 2) 0 =
      Inr (0 + word_of_nat (sum16 sk ?p 0 0 (unat (ntohs (htons (word_of_nat (32 + 12 * length il)))) div 2)))" for sk
    by (intro csum_loop_eq) simp
  show ?thesis by (rule that) (simp only: compute_pwospf_checksum_def add_0 st bindR_Inr lsu_raw_fields c)
qed

lemma populate_pwospf_lsu_eq:
  assumes "off + 8 \<le> length p"
  shows "populate_pwospf_lsu p off seq num = Inr (upd_bytes p off (bytes16 (htons seq) @ bytes16 (htons 64) @ bytes32 (htonl num)))"
proof -
  let ?xs = "[(0, bytes16 (htons seq)), (2, bytes16 (htons 64)), (4, bytes32 (htonl num))]"
  have "populate_pwospf_lsu p off seq num = st_all (upd_bytes p off (bzero 8)) (map (\<lambda>(k, cs). (off + k, cs)) ?xs)"
    using assms by (simp add: populate_pwospf_lsu_def st_bytes_in)
  also have "\<dots> = Inr (upd_bytes p off (region_upd (bzero 8) ?xs))" using assms by (intro st_all_region) auto
  also have "region_upd (bzero 8) ?xs = bytes16 (htons seq) @ bytes16 (htons 64) @ bytes32 (htonl num)"
    by (simp add: upd_bytes_def bzero_def bytes16_def bytes32_def)
  finally show ?thesis .
qed

lemma construct_lsu_eq:
  assumes "get_our_router rs = Some r" "32 + 12 * length (r_interface_list r) < 65536"
  obtains s where "compute_pwospf_checksum (lsu_raw (router_id rs) (area_id rs) (r_seq r) (r_interface_list r)) 0 =
      Inr (s, lsu_raw (router_id rs) (area_id rs) (r_seq r) (r_interface_list r))"
    "construct_pwospf_lsu_packet rs = Inr (upd_bytes (lsu_raw (router_id rs) (area_id rs) (r_seq r) (r_interface_list r)) 12 (bytes16 (htons s)),
      upd_by_rid (router_id rs) (\<lambda>r. r\<lparr>r_last_update := clock rs, r_seq := r_seq r + 1\<rparr>) rs)"
proof -
  let ?il = "r_interface_list r" let ?n = "length (r_interface_list r)"
  let ?raw = "lsu_raw (router_id rs) (area_id rs) (r_seq r) ?il"
  let ?h = "pwospf_header 4 (word_of_nat (32 + 12 * ?n)) (router_id rs) (area_id rs)"
  let ?l = "bytes16 (htons (r_seq r)) @ bytes16 (htons 64) @ bytes32 (htonl (word_of_nat ?n))"
  obtain s where s: "compute_pwospf_checksum ?raw 0 = Inr (s, ?raw)" using lsu_raw_checksum [OF assms(2)] by blast
  have adv: "concat (map (\<lambda>i. bytes32 (pi_subnet i) @ bytes32 (pi_mask i) @ bytes32 (pi_router_id i)) ?il) = concat (map adv_bytes ?il)"
    by (simp add: adv_bytes_def [abs_def])
  have a: "construct_pwospf_lsu_adv rs = Inr (concat (map adv_bytes ?il), ?n)"
    using assms(1) by (simp add: construct_pwospf_lsu_adv_def adv)
  have b: "populate_pwospf (bzero (32 + 12 * ?n)) 0 4 (word_of_nat (32 + 12 * ?n)) (router_id rs) (area_id rs) = Inr (?h @ bzero (8 + 12 * ?n))"
    by (subst populate_pwospf_eq) (simp_all add: upd_bytes_def bzero_def)
  have c: "populate_pwospf_lsu (?h @ bzero (8 + 12 * ?n)) 24 (r_seq r) (word_of_nat ?n) = Inr (?h @ ?l @ bzero (12 * ?n))"
    by (subst populate_pwospf_lsu_eq) (simp_all add: upd_bytes_def bzero_def)
  have d: "memcpy (?h @ ?l @ bzero (12 * ?n)) 32 (concat (map adv_bytes ?il)) 0 (12 * ?n) = Inr ?raw"
    by (subst memcpy_in) (simp_all add: upd_bytes_def lsu_raw_def lsu_body_def bzero_def)
  have e: "st16 ?raw 12 (htons s) = Inr (upd_bytes ?raw 12 (bytes16 (htons s)))" by (simp add: st16_in)
  have len: "?n * 12 = 12 * ?n" "24 + 8 + 12 * ?n = 32 + 12 * ?n" by simp_all
  show ?thesis
  proof (rule that [OF s])
    show "construct_pwospf_lsu_packet rs = Inr (upd_bytes ?raw 12 (bytes16 (htons s)),
        upd_by_rid (router_id rs) (\<lambda>r. r\<lparr>r_last_update := clock rs, r_seq := r_seq r + 1\<rparr>) rs)"
      unfolding construct_pwospf_lsu_packet_def assms(1) a
      by (simp only: option.case bindR_Inr prod.case Let_def len b c d s e)
  qed
qed

lemma upd_bytes_front: "i + length bs \<le> length a \<Longrightarrow> upd_bytes (a @ q) i bs = upd_bytes a i bs @ q"
  by (simp add: upd_bytes_def)

lemma lsu_frame_eq:
  assumes "ld16 pw 2 = Inr (htons (word_of_nat (length pw)))" "length pw < 65536" "length (if_addr iface) = 6"
  obtains h where "length h = 34" "lsu_frame pw iface nbr = Inr (h @ pw)"
proof -
  let ?n = "length pw"
  have n: "unat (word_of_nat ?n :: u16) = ?n" using assms(2) by (simp add: unat_of_nat)
  have a: "memcpy (bzero (34 + ?n)) 34 pw 0 ?n = Inr (bzero 34 @ pw)"
    by (subst memcpy_in) (simp_all add: upd_bytes_def bzero_def)
  let ?ip = "ip_header (word_of_nat ?n) 89 (if_ip iface) (nbr_ip nbr)"
  define h1 where "h1 = upd_bytes (bzero 34) 14 ?ip"
  have l1: "length h1 = 34" by (simp add: h1_def)
  have b: "populate_ip (bzero 34 @ pw) 14 (word_of_nat ?n) 89 (if_ip iface) (nbr_ip nbr) = Inr (h1 @ pw)"
    by (simp add: populate_ip_eq upd_bytes_front h1_def)
  have "h1 ! 14 = 0x45" by (simp add: h1_def nth_upd_bytes ip_header_nth)
  then have "unat ((h1 @ pw) ! 14 AND 15) = 5" using l1 by (simp add: nth_append)
  then obtain c q where c: "compute_ip_checksum (h1 @ pw) 14 = Inr (c, q)"
      "st16 q (14 + 10) (htons c) = Inr (put_csum (h1 @ pw) (14 + 10) c)"
    using ip_checksum_roundtrip [of "h1 @ pw" 14 5] l1 by auto
  define h2 where "h2 = upd_bytes h1 24 (bytes16 (htons c))"
  have l2: "length h2 = 34" using l1 by (simp add: h2_def)
  have d: "put_csum (h1 @ pw) (14 + 10) c = h2 @ pw" using l1 by (simp add: put_csum_def h2_def upd_bytes_front)
  define h3 where "h3 = upd_bytes h2 6 (if_addr iface @ bytes16 (htons 0x0800))"
  have l3: "length h3 = 34" using l2 assms(3) by (simp add: h3_def)
  have e: "populate_eth_hdr (h2 @ pw) 0 None (if_addr iface) 0x0800 = Inr (h3 @ pw)"
    using l2 assms(3) by (simp add: populate_eth_eq h3_def upd_bytes_front)
  show ?thesis
    by (rule that [OF l3]) (simp only: lsu_frame_def assms(1) bindR_Inr Let_def n a ntohs_ntohs b c prod.case d e)
qed

section \<open>The receiver\<close>

definition inactive :: "pwospf_interface \<Rightarrow> pwospf_interface" where
  "inactive i = i\<lparr>pi_active := False\<rparr>"

text \<open>A frame that carries a stored checksum passes the checks, which clear the checksum again.\<close>

lemma lsu_frame_valid:
  assumes "length h = 34" "compute_pwospf_checksum raw 0 = Inr (s, raw)" "st16 raw 12 (htons s) = Inr pw"
    and "ld8 raw 0 = Inr 2" "ld16 raw 14 = Inr 0" "ld32 raw 8 = Inr (htonl (area_id rs))" "ld32 raw 4 = Inr rid" "ntohl rid \<noteq> router_id rs"
  shows "is_pwospf_packet_valid (h @ pw) rs = Inr (True, h @ raw)"
proof -
  have st: "st_bytes raw 12 (bytes16 (htons s)) = Inr pw" using assms(3) by (simp add: st16_def)
  have pw: "ld8 pw 0 = Inr 2" "ld16 pw 12 = Inr (htons s)"
    using ld8_st_other [OF st, of 0] ld16_st16 [OF assms(3)] assms(4) by simp_all
  have again: "compute_pwospf_checksum (h @ pw) 34 = Inr (s, h @ raw)"
    using compute_pwospf_shift [of h pw 0] compute_pwospf_again [of raw 0 s raw "htons s" pw] assms(1-3) by simp
  have "ld8 (h @ pw) 34 = Inr 2" "ld16 (h @ pw) (34 + 12) = Inr (htons s)" "ld16 (h @ raw) (34 + 14) = Inr 0"
    "ld32 (h @ raw) (34 + 8) = Inr (htonl (area_id rs))" "ld32 (h @ raw) (34 + 4) = Inr rid"
    using ld_shift [of h] assms(1,5-7) pw by (metis add_0_right)+
  then show ?thesis using assms(8) by (simp only: is_pwospf_packet_valid_def bindR_Inr again prod.case) simp
qed

lemma lsu_learnt:
  assumes "length h = 34" "length il < 65536" "list_all (\<lambda>i. (pi_subnet i AND pi_mask i) = pi_subnet i) il"
  shows "add_new_router_neighbor (h @ lsu_raw rid aid seq il) rs =
    Inr (rs\<lparr>pwospf_router_list := pwospf_router_list rs @ [\<lparr>r_addr = next_router_addr rs, r_router_id = rid, r_area_id = aid, r_seq = seq,
      r_last_update = clock rs, r_distance = 0, r_shortest_path_found = False, r_interface_list = map inactive il, r_prev_router = None\<rparr>],
      next_router_addr := Suc (next_router_addr rs)\<rparr>)"
proof -
  define raw where "raw = lsu_raw rid aid seq il"
  note fields = lsu_raw_fields [of rid aid seq il, folded raw_def]
  have f: "ld32 (h @ raw) (34 + 4) = Inr rid" "ld32 (h @ raw) (34 + 8) = Inr (htonl aid)" "ld16 (h @ raw) 58 = Inr (htons seq)"
    "ld32 (h @ raw) (58 + 4) = Inr (htonl (word_of_nat (length il)))"
    using ld_shift(3) [of h raw 4] ld_shift(3) [of h raw 8] ld_shift(2) [of h raw 24] ld_shift(3) [of h raw 28] fields assms(1) by simp_all
  have num: "unat (word_of_nat (length il) :: u32) = length il" using assms(2) by (simp add: unat_of_nat)
  define front where "front = lsu_front rid aid il @ bytes16 0 @ bytes16 0 @ bzero 8 @
    bytes16 (htons seq) @ bytes16 (htons 64) @ bytes32 (htonl (word_of_nat (length il)))"
  have "raw = front @ concat (map adv_bytes il)" "length front = 32" by (simp_all add: raw_def front_def lsu_raw_split)
  then have "read_advs raw 32 (length il) = Inr (map (\<lambda>i. (pi_subnet i, pi_mask i, pi_router_id i)) il)"
    using read_advs_bytes [of front il] by simp
  then have advs: "read_advs (h @ raw) 66 (length il) = Inr (map (\<lambda>i. (pi_subnet i, pi_mask i, pi_router_id i)) il)"
    using read_advs_shift [of h raw 32] assms(1) by simp
  have "map (\<lambda>i. \<lparr>pi_subnet = pi_subnet i AND pi_mask i, pi_mask = pi_mask i, pi_router_id = pi_router_id i, pi_active = False\<rparr>) il =
      map inactive il"
    using assms(3) by (simp add: list_all_iff inactive_def)
  then have pop: "populate_pwospf_router_interface_list (h @ raw) [] = Inr (1, map inactive il)"
    by (simp only: populate_pwospf_router_interface_list_def f bindR_Inr ntohl_ntohl num advs if_True simp_thms map_map comp_def prod.case)
  show ?thesis unfolding raw_def [symmetric]
    by (simp only: add_new_router_neighbor_def f bindR_Inr pop prod.case Let_def ntohl_ntohl ntohs_ntohs)
qed

section \<open>Properties\<close>

text \<open>
  Claim C13. What a router advertises is what its neighbour learns: the LSU that \<open>construct_pwospf_lsu_packet\<close> builds from our
  router's entry, put in a frame for a neighbour, passes the neighbour's checks (version, checksum, authentication and area, when the areas
  agree and the ids differ, also after the byte swap with which the code compares them), and when the neighbour does not know our router yet it appends an entry with our id, area and sequence number
  and exactly our interface list, every link still inactive; our own sequence number is incremented.
\<close>

theorem lsu_round_trip:
  assumes "get_our_router rs = Some r" and "32 + 12 * length (r_interface_list r) < 65536"
    and "list_all (\<lambda>i. (pi_subnet i AND pi_mask i) = pi_subnet i) (r_interface_list r)"
    and "length (if_addr iface) = 6" and "area_id rs' = area_id rs"
    and "router_id rs \<noteq> router_id rs'" and "ntohl (router_id rs) \<noteq> router_id rs'"
  shows "\<exists>pwospf frame frame' nr.
    construct_pwospf_lsu_packet rs =
      Inr (pwospf, upd_by_rid (router_id rs) (\<lambda>r. r\<lparr>r_last_update := clock rs, r_seq := r_seq r + 1\<rparr>) rs) \<and>
    lsu_frame pwospf iface nbr = Inr frame \<and> is_pwospf_packet_valid frame rs' = Inr (True, frame') \<and>
    add_new_router_neighbor frame' rs' =
      Inr (rs'\<lparr>pwospf_router_list := pwospf_router_list rs' @ [nr], next_router_addr := Suc (next_router_addr rs')\<rparr>) \<and>
    r_router_id nr = router_id rs \<and> r_area_id nr = area_id rs \<and> r_seq nr = r_seq r \<and>
    r_interface_list nr = map inactive (r_interface_list r)"
proof -
  let ?il = "r_interface_list r" let ?raw = "lsu_raw (router_id rs) (area_id rs) (r_seq r) (r_interface_list r)"
  obtain s where s: "compute_pwospf_checksum ?raw 0 = Inr (s, ?raw)"
    "construct_pwospf_lsu_packet rs = Inr (upd_bytes ?raw 12 (bytes16 (htons s)),
      upd_by_rid (router_id rs) (\<lambda>r. r\<lparr>r_last_update := clock rs, r_seq := r_seq r + 1\<rparr>) rs)"
    using assms(1,2) by (rule construct_lsu_eq)
  define pw where "pw = upd_bytes ?raw 12 (bytes16 (htons s))"
  have st: "st16 ?raw 12 (htons s) = Inr pw" by (simp add: pw_def st16_in)
  have len: "length pw = 32 + 12 * length ?il" by (simp add: pw_def)
  have "st_bytes ?raw 12 (bytes16 (htons s)) = Inr pw" using st by (simp add: st16_def)
  from ld16_st_other [OF this, of 2] have "ld16 pw 2 = Inr (htons (word_of_nat (length pw)))" unfolding len by (simp add: lsu_raw_fields)
  moreover have "length pw < 65536" using len assms(2) by simp
  ultimately obtain h where h: "length h = 34" "lsu_frame pw iface nbr = Inr (h @ pw)" using assms(4) by (rule lsu_frame_eq)
  have valid: "is_pwospf_packet_valid (h @ pw) rs' = Inr (True, h @ ?raw)"
    by (rule lsu_frame_valid [OF h(1) s(1) st _ _ _ _ assms(7)]) (simp_all add: lsu_raw_fields assms(5))
  have "length ?il < 65536" using assms(2) by simp
  note learnt = lsu_learnt [OF h(1) this assms(3), of "router_id rs" "area_id rs" "r_seq r" rs']
  show ?thesis
    by (intro exI conjI, rule s(2) [folded pw_def], rule h(2), rule valid, rule learnt) simp_all
qed

text \<open>The line of three routers again, seen from router 1 as sender and router 2 as receiver.\<close>

definition demo_sender :: router_state where
  "demo_sender = (bzero_state demo_env)\<lparr>router_id := 1, pwospf_router_list := demo_line\<rparr>"

definition demo_receiver :: router_state where
  "demo_receiver = (bzero_state demo_env)\<lparr>router_id := 2\<rparr>"

lemma demo_lsu_facts:
  "get_our_router demo_sender = Some (demo_router 1 [demo_link 0x10 2])" "router_id demo_sender = 1" "router_id demo_receiver = 2"
  "area_id demo_receiver = area_id demo_sender" "r_interface_list (demo_router 1 il) = il"
  "pwospf_router_list demo_receiver = []" "ntohl 1 \<noteq> (2 :: u32)"
proof -
  have "unat (ntohl 1 :: u32) = 16777216" by (simp add: ntohl_def unat_le32 unat_byte32)
  then show "ntohl 1 \<noteq> (2 :: u32)" by auto
qed (simp_all add: get_our_router_def get_router_by_rid_def demo_sender_def demo_receiver_def demo_line_def demo_router_def bzero_state_def)

theorem lsu_round_trip_witness:
  "\<exists>pwospf frame frame' rs'. construct_pwospf_lsu_packet demo_sender = Inr (pwospf, rs') \<and>
    lsu_frame pwospf (demo_iface ''eth0'' 0x11 0xF0) \<lparr>nbr_router_id = 2, nbr_ip = 0x12, nbr_last_rcvd_hello = 0\<rparr> = Inr frame \<and>
    is_pwospf_packet_valid frame demo_receiver = Inr (True, frame')"
  using lsu_round_trip [of demo_sender "demo_router 1 [demo_link 0x10 2]" "demo_iface ''eth0'' 0x11 0xF0" demo_receiver
      "\<lparr>nbr_router_id = 2, nbr_ip = 0x12, nbr_last_rcvd_hello = 0\<rparr>"]
  by (auto simp: demo_lsu_facts demo_iface_def demo_link_def)

end
