(* ===== verification/Pwospf_Links.thy ===== *)
theory Pwospf_Links
  imports Pwospf_Lsu
begin

text \<open>
  Which links are active after a change: \<open>propagate_pwospf_changes\<close> recomputes the flags of all
  interfaces in place, router by router and interface by interface. The lemmas follow the flag of an interface
  along the order of the walk; the property says exactly which links are active in the end.
\<close>

section \<open>What the recomputation keeps\<close>

definition strip :: "pwospf_router \<Rightarrow> pwospf_router" where
  "strip r = r\<lparr>r_interface_list := map inactive (r_interface_list r)\<rparr>"

abbreviation static :: "pwospf_router list \<Rightarrow> pwospf_router list" where
  "static rl \<equiv> map strip rl"

definition valid_pif :: "pwospf_router list \<Rightarrow> nat \<Rightarrow> nat \<Rightarrow> bool" where
  "valid_pif rl k i = (k < length rl \<and> i < length (r_interface_list (rl ! k)))"

definition claims :: "pwospf_router list \<Rightarrow> nat \<Rightarrow> nat \<Rightarrow> nat \<Rightarrow> bool" where
  "claims rl k i k' = (index_of (\<lambda>r. r_router_id r = pi_router_id (pif rl k i)) rl = Some k')"

lemma inactive_simps [simp]:
  "pi_subnet (inactive i) = pi_subnet i" "pi_mask (inactive i) = pi_mask i" "pi_router_id (inactive i) = pi_router_id i"
  "inactive (i\<lparr>pi_active := b\<rparr>) = inactive i"
  by (simp_all add: inactive_def)

lemma strip_simps [simp]:
  "r_router_id (strip r) = r_router_id r" "r_interface_list (strip r) = map inactive (r_interface_list r)"
  by (simp_all add: strip_def)

lemma static_nth: "k < length rl \<Longrightarrow> static rl = static rl' \<Longrightarrow> strip (rl ! k) = strip (rl' ! k) \<and> k < length rl'"
  by (metis length_map nth_map)

lemma static_pif:
  assumes "static rl = static rl'" "valid_pif rl k i"
  shows "valid_pif rl' k i" "inactive (pif rl k i) = inactive (pif rl' k i)" "r_router_id (rl ! k) = r_router_id (rl' ! k)"
    "length (r_interface_list (rl ! k)) = length (r_interface_list (rl' ! k))"
proof -
  have k: "k < length rl" "i < length (r_interface_list (rl ! k))" using assms(2) by (simp_all add: valid_pif_def)
  have s: "strip (rl ! k) = strip (rl' ! k)" "k < length rl'" using static_nth [OF k(1) assms(1)] by simp_all
  then have il: "map inactive (r_interface_list (rl ! k)) = map inactive (r_interface_list (rl' ! k))" by (metis strip_simps(2))
  then show len: "length (r_interface_list (rl ! k)) = length (r_interface_list (rl' ! k))" by (metis length_map)
  show "valid_pif rl' k i" using k s(2) len by (simp add: valid_pif_def)
  show "inactive (pif rl k i) = inactive (pif rl' k i)" using k(2) len il unfolding pif_def by (metis nth_map)
  show "r_router_id (rl ! k) = r_router_id (rl' ! k)" using s(1) by (metis strip_simps(1))
qed

lemma pif_parts:
  "static rl = static rl' \<Longrightarrow> valid_pif rl k i \<Longrightarrow> pi_router_id (pif rl k i) = pi_router_id (pif rl' k i)"
  using static_pif(2) [of rl rl' k i] by (metis inactive_simps(3))

lemma same_link_inactive: "same_link (inactive a) (inactive b) = same_link a b"
  by (simp add: same_link_def)

lemma same_link_static:
  assumes "static rl = static rl'" "valid_pif rl k i" "valid_pif rl k' j"
  shows "same_link (pif rl k i) (pif rl k' j) = same_link (pif rl' k i) (pif rl' k' j)"
  using static_pif(2) [OF assms(1,2)] static_pif(2) [OF assms(1,3)] by (metis same_link_inactive)

lemma index_of_map: "index_of (P \<circ> f) xs = index_of P (map f xs)"
  by (induction xs) (auto simp: comp_def)

lemma index_of_rid_static:
  assumes "static rl = static rl'"
  shows "index_of (\<lambda>r. r_router_id r = rid) rl = index_of (\<lambda>r. r_router_id r = rid) rl'"
proof -
  have "index_of (\<lambda>r. r_router_id r = rid) rl = index_of (\<lambda>r. r_router_id r = rid) (static rl)" for rl
    by (simp add: index_of_map [symmetric] comp_def)
  then show ?thesis using assms by metis
qed

lemma claims_static: "static rl = static rl' \<Longrightarrow> valid_pif rl k i \<Longrightarrow> claims rl k i k' = claims rl' k i k'"
  by (simp add: claims_def pif_parts [of rl rl'] index_of_rid_static [of rl rl'])

section \<open>One write\<close>

lemma map_update_self: "(map f xs)[i := f (xs ! i)] = map f xs"
  by (metis list_update_id map_update)

lemma static_set_active [simp]: "valid_pif rl k i \<Longrightarrow> static (set_active k i b rl) = static rl"
  by (rule nth_equalityI)
    (auto simp: valid_pif_def set_active_def strip_def pif_def map_update map_update_self nth_list_update intro!: pwospf_router.equality)

lemma pif_set_active:
  assumes "valid_pif rl k i" "valid_pif rl k' i'"
  shows "pi_active (pif (set_active k i b rl) k' i') = (if (k', i') = (k, i) then b else pi_active (pif rl k' i'))"
  using assms by (auto simp: valid_pif_def set_active_def pif_def nth_list_update)

section \<open>The loops\<close>

lemma activate_pairs:
  assumes "valid_pif rl k i" "k' < length rl" "\<forall>j\<in>set js. j < length (r_interface_list (rl ! k'))"
  shows "static (fold (activate_pair k i k') js rl) = static rl \<and>
    (\<forall>k2 i2. valid_pif rl k2 i2 \<longrightarrow> pi_active (pif (fold (activate_pair k i k') js rl) k2 i2) =
      (pi_active (pif rl k2 i2) \<or> (\<exists>j\<in>set js. same_link (pif rl k i) (pif rl k' j) \<and> (k2, i2) \<in> {(k, i), (k', j)})))"
  using assms
proof (induction js arbitrary: rl)
  case (Cons j js)
  define rl1 where "rl1 = activate_pair k i k' j rl"
  have v: "valid_pif rl k i" "valid_pif rl k' j" using Cons.prems by (simp_all add: valid_pif_def)
  have vs: "valid_pif (set_active k i True rl) k' j" using static_pif(1) [OF static_set_active [OF v(1), symmetric] v(2)] .
  have st: "static rl1 = static rl" using v vs by (simp add: rl1_def activate_pair_def)
  have len: "length (r_interface_list (rl1 ! k')) = length (r_interface_list (rl ! k'))" "k' < length rl1"
    using static_pif(4) [OF st [symmetric] v(2)] Cons.prems(2) arg_cong [OF st, of length] by simp_all
  have act: "pi_active (pif rl1 k2 i2) = (pi_active (pif rl k2 i2) \<or> (same_link (pif rl k i) (pif rl k' j) \<and> (k2, i2) \<in> {(k, i), (k', j)}))"
    if u: "valid_pif rl k2 i2" for k2 i2
    using pif_set_active [OF v(1) u] pif_set_active [OF vs static_pif(1) [OF static_set_active [OF v(1), symmetric] u]]
    by (auto simp: rl1_def activate_pair_def)
  have sl: "same_link (pif rl1 k i) (pif rl1 k' j') = same_link (pif rl k i) (pif rl k' j')" if "j' \<in> set js" for j'
    using same_link_static [OF st [symmetric] v(1), of k' j'] that Cons.prems by (simp add: valid_pif_def)
  have v1: "valid_pif rl1 k2 i2 = valid_pif rl k2 i2" for k2 i2 using static_pif(1) st by metis
  have "static (fold (activate_pair k i k') js rl1) = static rl1 \<and>
      (\<forall>k2 i2. valid_pif rl1 k2 i2 \<longrightarrow> pi_active (pif (fold (activate_pair k i k') js rl1) k2 i2) =
        (pi_active (pif rl1 k2 i2) \<or> (\<exists>j\<in>set js. same_link (pif rl1 k i) (pif rl1 k' j) \<and> (k2, i2) \<in> {(k, i), (k', j)})))"
    using Cons.prems len v v1 by (intro Cons.IH) auto
  then show ?case using st act sl v1 by (auto simp: rl1_def [symmetric])
qed simp

text \<open>The link of an interface as its own router sees it: the neighbour it names has an interface on the same subnet that names a neighbour.\<close>

definition linked_own :: "pwospf_router list \<Rightarrow> nat \<Rightarrow> nat \<Rightarrow> bool" where
  "linked_own rl k i = (\<exists>k' j. claims rl k i k' \<and> valid_pif rl k' j \<and> same_link (pif rl k i) (pif rl k' j))"

text \<open>The visit of interface \<open>q\<close> raises the flag of interface \<open>x\<close> of the router that \<open>q\<close> names.\<close>

definition raises :: "pwospf_router list \<Rightarrow> nat \<times> nat \<Rightarrow> nat \<times> nat \<Rightarrow> bool" where
  "raises rl q x = (claims rl (fst q) (snd q) (fst x) \<and> same_link (pif rl (fst q) (snd q)) (pif rl (fst x) (snd x)))"

lemma activate_one_act:
  assumes "valid_pif rl k i"
  shows "static (activate_one k i rl) = static rl"
    and "valid_pif rl k2 i2 \<Longrightarrow> pi_active (pif (activate_one k i rl) k2 i2) \<longleftrightarrow>
      (pi_active (pif rl k2 i2) \<and> (k2, i2) \<noteq> (k, i)) \<or>
      (\<exists>k' j. claims rl k i k' \<and> valid_pif rl k' j \<and> same_link (pif rl k i) (pif rl k' j) \<and> (k2, i2) \<in> {(k, i), (k', j)})"
proof -
  define rl1 where "rl1 = set_active k i False rl"
  have st: "static rl1 = static rl" using assms by (simp add: rl1_def)
  have v1: "valid_pif rl1 a b = valid_pif rl a b" for a b using static_pif(1) st by metis
  have sl: "same_link (pif rl1 a b) (pif rl1 c d) = same_link (pif rl a b) (pif rl c d)" if "valid_pif rl a b" "valid_pif rl c d" for a b c d
    using same_link_static [OF st [symmetric] that] by simp
  have cl: "claims rl1 k i = claims rl k i" using claims_static [OF st [symmetric] assms] by (simp add: fun_eq_iff)
  have "static (activate_one k i rl) = static rl \<and> (valid_pif rl k2 i2 \<longrightarrow> (pi_active (pif (activate_one k i rl) k2 i2) \<longleftrightarrow>
      (pi_active (pif rl k2 i2) \<and> (k2, i2) \<noteq> (k, i)) \<or>
      (\<exists>k' j. claims rl k i k' \<and> valid_pif rl k' j \<and> same_link (pif rl k i) (pif rl k' j) \<and> (k2, i2) \<in> {(k, i), (k', j)})))"
  proof (cases "index_of (\<lambda>r. r_router_id r = pi_router_id (pif rl1 k i)) rl1")
    case None
    then have "activate_one k i rl = rl1" "\<not> claims rl k i k'" for k'
      unfolding cl [symmetric] by (simp_all add: activate_one_def rl1_def Let_def claims_def)
    then show ?thesis using st pif_set_active [OF assms, of k2 i2 False] by (auto simp: rl1_def)
  next
    case (Some k')
    have k': "k' < length rl1" using index_of_Some [OF Some] by simp
    have eq: "activate_one k i rl = fold (activate_pair k i k') [0..<length (r_interface_list (rl1 ! k'))] rl1"
      using Some by (simp add: activate_one_def rl1_def Let_def)
    have c: "claims rl k i a \<longleftrightarrow> a = k'" for a using Some unfolding cl [symmetric] by (auto simp: claims_def)
    have "valid_pif rl1 k i" using assms v1 by simp
    note ap = activate_pairs [OF this k', of "[0..<length (r_interface_list (rl1 ! k'))]"]
    have js: "j \<in> set [0..<length (r_interface_list (rl1 ! k'))] \<longleftrightarrow> valid_pif rl k' j" for j
      using v1 [of k' j] k' by (simp add: valid_pif_def)
    have ex: "(\<exists>j\<in>set [0..<length (r_interface_list (rl1 ! k'))]. same_link (pif rl1 k i) (pif rl1 k' j) \<and> X j) \<longleftrightarrow>
        (\<exists>j. valid_pif rl k' j \<and> same_link (pif rl k i) (pif rl k' j) \<and> X j)" for X
      by (simp add: Bex_def js sl [OF assms] cong: conj_cong del: set_upt)
    have "static (activate_one k i rl) = static rl1 \<and> (\<forall>k2 i2. valid_pif rl k2 i2 \<longrightarrow> pi_active (pif (activate_one k i rl) k2 i2) =
        (pi_active (pif rl1 k2 i2) \<or> (\<exists>j. valid_pif rl k' j \<and> same_link (pif rl k i) (pif rl k' j) \<and> (k2, i2) \<in> {(k, i), (k', j)})))"
      using ap unfolding eq ex v1 by simp
    then show ?thesis using st pif_set_active [OF assms, of k2 i2 False] by (auto simp: c rl1_def [symmetric])
  qed
  then show "static (activate_one k i rl) = static rl" "valid_pif rl k2 i2 \<Longrightarrow> pi_active (pif (activate_one k i rl) k2 i2) \<longleftrightarrow>
      (pi_active (pif rl k2 i2) \<and> (k2, i2) \<noteq> (k, i)) \<or>
      (\<exists>k' j. claims rl k i k' \<and> valid_pif rl k' j \<and> same_link (pif rl k i) (pif rl k' j) \<and> (k2, i2) \<in> {(k, i), (k', j)})"
    by auto
qed

text \<open>One visit, in terms of the list at the start of the walk.\<close>

definition visit :: "nat \<times> nat \<Rightarrow> pwospf_router list \<Rightarrow> pwospf_router list" where
  "visit q = activate_one (fst q) (snd q)"

lemma visit_act:
  assumes "static rl = static rl0" "valid_pif rl0 (fst q) (snd q)"
  shows "static (visit q rl) = static rl0"
    and "valid_pif rl0 k i \<Longrightarrow> pi_active (pif (visit q rl) k i) \<longleftrightarrow>
      pi_active (pif rl k i) \<and> (k, i) \<noteq> q \<or> (k, i) = q \<and> linked_own rl0 k i \<or> raises rl0 q (k, i)"
proof -
  have v: "valid_pif rl a b = valid_pif rl0 a b" for a b using static_pif(1) assms(1) by metis
  have vq: "valid_pif rl (fst q) (snd q)" using assms(2) v by simp
  have cl: "claims rl (fst q) (snd q) = claims rl0 (fst q) (snd q)" using claims_static [OF assms(1) vq] by (simp add: fun_eq_iff)
  have sl: "valid_pif rl0 k' j \<Longrightarrow> same_link (pif rl (fst q) (snd q)) (pif rl k' j) = same_link (pif rl0 (fst q) (snd q)) (pif rl0 k' j)" for k' j
    using same_link_static [OF assms(1) vq, of k' j] v by simp
  show "static (visit q rl) = static rl0" using activate_one_act(1) [OF vq] assms(1) by (simp add: visit_def)
  show "pi_active (pif (visit q rl) k i) \<longleftrightarrow>
      pi_active (pif rl k i) \<and> (k, i) \<noteq> q \<or> (k, i) = q \<and> linked_own rl0 k i \<or> raises rl0 q (k, i)" if "valid_pif rl0 k i"
  proof -
    have "pi_active (pif (visit q rl) k i) \<longleftrightarrow> (pi_active (pif rl k i) \<and> (k, i) \<noteq> q) \<or>
        (\<exists>k' j. claims rl0 (fst q) (snd q) k' \<and> valid_pif rl0 k' j \<and> same_link (pif rl0 (fst q) (snd q)) (pif rl0 k' j) \<and> (k, i) \<in> {q, (k', j)})"
      using activate_one_act(2) [OF vq, of k i] that by (simp add: v cl sl visit_def cong: conj_cong)
    also have "\<dots> \<longleftrightarrow> pi_active (pif rl k i) \<and> (k, i) \<noteq> q \<or> (k, i) = q \<and> linked_own rl0 k i \<or> raises rl0 q (k, i)"
      unfolding linked_own_def raises_def using that by (cases q) (simp, blast)
    finally show ?thesis .
  qed
qed

lemma visits_static: "\<forall>q\<in>set qs. valid_pif rl (fst q) (snd q) \<Longrightarrow> static (fold visit qs rl) = static rl"
  by (induction qs rule: rev_induct) (simp_all add: visit_act(1))

text \<open>What a walk leaves: the flag of an interface is set by its own visit and raised by later ones.\<close>

lemma visits_act:
  assumes "\<forall>q\<in>set (ps @ (k, i) # qs). valid_pif rl (fst q) (snd q)" "(k, i) \<notin> set qs"
  shows "pi_active (pif (fold visit (ps @ (k, i) # qs) rl) k i) \<longleftrightarrow> linked_own rl k i \<or> (\<exists>q\<in>set qs. raises rl q (k, i))"
  using assms
proof (induction qs rule: rev_induct)
  case Nil
  have st: "static (fold visit ps rl) = static rl" using Nil(1) by (intro visits_static) simp
  have "raises rl (k, i) (k, i) \<Longrightarrow> linked_own rl k i" using Nil(1) by (auto simp: raises_def linked_own_def)
  then show ?case using visit_act(2) [OF st, of "(k, i)" k i] Nil(1) by auto
next
  case (snoc q qs)
  have "static (fold visit (ps @ (k, i) # qs) rl) = static rl" by (rule visits_static) (use snoc.prems(1) in simp)
  from visit_act(2) [OF this, of q k i] snoc show ?case by auto
qed

text \<open>The order of the walk.\<close>

definition walk :: "pwospf_router list \<Rightarrow> nat list \<Rightarrow> (nat \<times> nat) list" where
  "walk rl ks = concat (map (\<lambda>k. map (Pair k) [0..<length (r_interface_list (rl ! k))]) ks)"

lemma set_walk: "set (walk rl ks) = {(k, i). k \<in> set ks \<and> i < length (r_interface_list (rl ! k))}"
  by (auto simp: walk_def)

lemma upt_split: "i < n \<Longrightarrow> [0..<n] = [0..<i] @ i # [Suc i..<n]"
  by (metis add_diff_inverse_nat le0 less_imp_le_nat not_less upt_add_eq_append upt_conv_Cons)

lemma walk_split:
  assumes "valid_pif rl k i"
  obtains ps where "walk rl [0..<length rl] = ps @ (k, i) # map (Pair k) [Suc i..<length (r_interface_list (rl ! k))] @ walk rl [Suc k..<length rl]"
proof
  show "walk rl [0..<length rl] = (walk rl [0..<k] @ map (Pair k) [0..<i]) @ (k, i) # map (Pair k) [Suc i..<length (r_interface_list (rl ! k))] @
      walk rl [Suc k..<length rl]"
    using assms upt_split [of k "length rl"] upt_split [of i "length (r_interface_list (rl ! k))"] by (simp add: valid_pif_def walk_def)
qed

lemma fold_determine:
  assumes "static rl' = static rl" "\<forall>k\<in>set ks. k < length rl"
  shows "fold determine_active_interfaces ks rl' = fold visit (walk rl ks) rl'"
  using assms
proof (induction ks arbitrary: rl')
  case (Cons k ks)
  let ?q = "map (Pair k) [0..<length (r_interface_list (rl ! k))]"
  have len: "length (r_interface_list (rl' ! k)) = length (r_interface_list (rl ! k))" "k < length rl'"
    using static_nth [of k rl rl'] Cons.prems by (metis length_map list.set_intros(1) strip_simps(2))+
  have step: "determine_active_interfaces k rl' = fold visit ?q rl'"
    by (simp add: determine_active_interfaces_def len fold_map comp_def visit_def del: upt_Suc)
  have "\<forall>q\<in>set ?q. valid_pif rl' (fst q) (snd q)" using len by (auto simp: valid_pif_def)
  then have "static (fold visit ?q rl') = static rl" using visits_static Cons.prems(1) by metis
  from Cons.IH [OF this] Cons.prems(2) show ?case by (simp add: step walk_def)
qed (simp add: walk_def)

section \<open>Properties\<close>

definition recompute_links :: "pwospf_router list \<Rightarrow> pwospf_router list" where
  "recompute_links rl = fold determine_active_interfaces [0..<length rl] rl"

text \<open>
  Claim C36. Which links \<open>propagate_pwospf_changes\<close> leaves active, exactly: an interface is active if and only if the router it names is known and has an interface on
  the same subnet and mask that names some router too, or an interface that the walk visits later (a later router of the list, or a later interface of the same router)
  names this router and lies on the same subnet, both naming some router. The far end does not have to name this router: a link is active although only one
  end claims the other. Ids, subnets, masks and neighbours of all interfaces are unchanged.
\<close>

theorem recompute_links_active:
  assumes "valid_pif rl k i"
  shows "static (recompute_links rl) = static rl \<and>
    (pi_active (pif (recompute_links rl) k i) \<longleftrightarrow>
      (\<exists>k' j. claims rl k i k' \<and> valid_pif rl k' j \<and> same_link (pif rl k i) (pif rl k' j)) \<or>
      (\<exists>k' j. (k < k' \<or> k = k' \<and> i < j) \<and> valid_pif rl k' j \<and> claims rl k' j k \<and> same_link (pif rl k' j) (pif rl k i)))"
proof -
  have eq: "recompute_links rl = fold visit (walk rl [0..<length rl]) rl"
    unfolding recompute_links_def by (rule fold_determine) simp_all
  have all: "\<forall>q\<in>set (walk rl [0..<length rl]). valid_pif rl (fst q) (snd q)" by (auto simp: set_walk valid_pif_def)
  let ?qs = "map (Pair k) [Suc i..<length (r_interface_list (rl ! k))] @ walk rl [Suc k..<length rl]"
  obtain ps where ps: "walk rl [0..<length rl] = ps @ (k, i) # ?qs" using walk_split [OF assms] by blast
  have "(k, i) \<notin> set ?qs" by (auto simp: set_walk)
  from visits_act [OF all [unfolded ps] this]
  have "pi_active (pif (recompute_links rl) k i) \<longleftrightarrow> linked_own rl k i \<or> (\<exists>q\<in>set ?qs. raises rl q (k, i))" by (simp only: eq ps)
  moreover have qs: "(k', j) \<in> set ?qs \<longleftrightarrow> (k < k' \<or> k = k' \<and> i < j) \<and> valid_pif rl k' j" for k' j
    using assms by (auto simp: set_walk valid_pif_def)
  have "(\<exists>q\<in>set ?qs. raises rl q (k, i)) \<longleftrightarrow>
      (\<exists>k' j. (k < k' \<or> k = k' \<and> i < j) \<and> valid_pif rl k' j \<and> claims rl k' j k \<and> same_link (pif rl k' j) (pif rl k i))"
    unfolding Bex_def split_paired_Ex qs by (simp only: raises_def fst_conv snd_conv conj_assoc)
  ultimately show ?thesis using visits_static [OF all] unfolding eq linked_own_def by (simp only: simp_thms)
qed

theorem recompute_links_active_witness:
  "valid_pif (static demo_line) 1 1 \<and> pi_active (pif (recompute_links (static demo_line)) 1 1)"
proof -
  have v: "valid_pif (static demo_line) 1 1"
    by (simp add: valid_pif_def demo_line_def demo_router_def)
  moreover have "claims (static demo_line) 1 1 2 \<and> valid_pif (static demo_line) 2 0 \<and> same_link (pif (static demo_line) 1 1) (pif (static demo_line) 2 0)"
    by (simp add: claims_def valid_pif_def same_link_def pif_def demo_line_def demo_router_def demo_link_def)
  ultimately show ?thesis using recompute_links_active [of "static demo_line" 1 1] by blast
qed

lemma propagate_recomputes:
  "propagate_pwospf_changes rs = start_lsu_bcast_flood (dijkstra_trigger (rs\<lparr>pwospf_router_list := recompute_links (pwospf_router_list rs)\<rparr>))"
  by (simp add: propagate_pwospf_changes_def recompute_links_def)

end
