(* ===== verification/Nat_Table.thy ===== *)
theory Nat_Table
  imports Icmp
begin

text \<open>
  \<^verbatim>\<open>or_nat.c\<close> and \<^verbatim>\<open>populate_nat_packet\<close> of \<^verbatim>\<open>or_utils.c\<close>: network address translation. A pointer to an
  entry of the NAT table is its position in the table. The port search of
  \<^verbatim>\<open>create_nat_table_entry\<close> draws from the results of \<^verbatim>\<open>rand\<close> and is a partial function. The maintenance
  thread, which the router never starts, and the hardware writes, which are commented out in the
  source, are not modelled.
\<close>

datatype nat_type = NAT_EXTERNAL | NAT_INTERNAL

abbreviation (input) l4_at :: nat where "l4_at \<equiv> 34"
abbreviation (input) data_ip_at :: nat where "data_ip_at \<equiv> 42"
abbreviation (input) data_l4_at :: nat where "data_l4_at \<equiv> 62"

section \<open>Reading the ports of a packet\<close>

definition is_echo :: "u8 \<Rightarrow> bool" where
  "is_echo t = (t = ICMP_ECHO_REQUEST \<or> t = ICMP_ECHO_REPLY)"

definition is_icmp_error :: "u8 \<Rightarrow> bool" where
  "is_icmp_error t = (t = ICMP_TIME_EXCEEDED \<or> t = ICMP_DEST_UNREACHABLE)"

definition get_nat_echo_id_from_icmp_data :: "packet \<Rightarrow> u16 res" where
  "get_nat_echo_id_from_icmp_data p = ld16 p (data_l4_at + 4)"

definition get_nat_port_from_icmp :: "packet \<Rightarrow> nat_type \<Rightarrow> u16 res" where
  "get_nat_port_from_icmp p nt =
    bindR (ld8 p l4_at) (\<lambda>t.
    if is_echo t then ld16 p (l4_at + 4)
    else if is_icmp_error t
    then bindR (ld8 p (data_ip_at + 9)) (\<lambda>pr.
         if pr = IP_PROTO_UDP \<or> pr = IP_PROTO_TCP
         then (case nt of NAT_EXTERNAL \<Rightarrow> ld16 p data_l4_at | NAT_INTERNAL \<Rightarrow> ld16 p (data_l4_at + 2))
         else if pr = IP_PROTO_ICMP then get_nat_echo_id_from_icmp_data p
         else Inr 0)
    else Inr 0)"

definition get_nat_ip_port_pair :: "packet \<Rightarrow> nat_type \<Rightarrow> (u32 \<times> u16) res" where
  "get_nat_ip_port_pair p nt =
    bindR (case nt of NAT_EXTERNAL \<Rightarrow> ld32 p (ip_at + 16) | NAT_INTERNAL \<Rightarrow> ld32 p (ip_at + 12)) (\<lambda>ip.
    bindR (ld8 p (ip_at + 9)) (\<lambda>ip_p.
    if ip_p = IP_PROTO_TCP \<or> ip_p = IP_PROTO_UDP
    then bindR (case nt of NAT_EXTERNAL \<Rightarrow> ld16 p (l4_at + 2) | NAT_INTERNAL \<Rightarrow> ld16 p l4_at) (\<lambda>port. Inr (ip, port))
    else if ip_p = IP_PROTO_ICMP
    then bindR (get_nat_port_from_icmp p nt) (\<lambda>port. Inr (ip, port))
    else Inr (0, 0)))"

definition get_src_port_number_from_icmp :: "packet \<Rightarrow> u16 res" where
  "get_src_port_number_from_icmp p =
    bindR (ld8 p l4_at) (\<lambda>t.
    if is_echo t then ld16 p (l4_at + 4) else if is_icmp_error t then ld16 p data_l4_at else Inr 0)"

definition get_src_port_number :: "packet \<Rightarrow> u8 \<Rightarrow> u16 res" where
  "get_src_port_number p ip_protocol =
    (if ip_protocol = IP_PROTO_TCP then ld16 p l4_at
     else if ip_protocol = IP_PROTO_UDP then ld16 p l4_at
     else if ip_protocol = IP_PROTO_ICMP then get_src_port_number_from_icmp p
     else Inr 0)"

section \<open>The table\<close>

definition found_nat_table_match :: "nat_entry \<Rightarrow> u32 \<times> u16 \<Rightarrow> nat_type \<Rightarrow> bool" where
  "found_nat_table_match ne pair nt =
    (let e = (case nt of NAT_EXTERNAL \<Rightarrow> nat_ext ne | NAT_INTERNAL \<Rightarrow> nat_int ne)
     in np_ip e = fst pair \<and> np_port e = snd pair)"

definition get_nat_table_entry :: "router_state \<Rightarrow> packet \<Rightarrow> nat_type \<Rightarrow> nat option res" where
  "get_nat_table_entry rs p nt =
    bindR (get_nat_ip_port_pair p nt) (\<lambda>pair.
    Inr (index_of (\<lambda>ne. found_nat_table_match ne pair nt) (nat_table rs)))"

definition is_unique_nat_ext_port :: "router_state \<Rightarrow> u16 \<Rightarrow> bool" where
  "is_unique_nat_ext_port rs port = (find (\<lambda>ne. np_port (nat_ext ne) = port) (nat_table rs) = None)"

definition halves_sum :: "u32 \<Rightarrow> u32" where
  "halves_sum ip = ucast (ntohs (ucast ip)) + ucast (ntohs (ucast (drop_bit 16 ip)))"

definition fold32 :: "u32 \<Rightarrow> u16" where
  "fold32 s = (let s = drop_bit 16 s + (s AND 0xFFFF); s = s + drop_bit 16 s in NOT (ucast (s AND 0xFFFF)))"

definition compute_nat_checksums :: "nat_ip_port_pair \<Rightarrow> nat_ip_port_pair" where
  "compute_nat_checksums pair = pair
    \<lparr>np_checksum := htons (fold32 (halves_sum (np_ip pair) + ucast (ntohs (np_port pair)))),
     np_checksum_ip := htons (fold32 (halves_sum (np_ip pair))),
     np_checksum_port := NOT (np_port pair)\<rparr>"

text \<open>The search for a port: \<^verbatim>\<open>rand\<close> truncated to 16 bits, until a value above 1024 is unused.\<close>

partial_function (option) pick_port :: "router_state \<Rightarrow> nat \<Rightarrow> (u16 \<times> nat) option" where
  "pick_port rs k =
    (let port = word_of_int (rand_at (renv rs) k) :: u16 in
     if port > 1024 \<and> is_unique_nat_ext_port rs port then Some (port, Suc k) else pick_port rs (Suc k))"

declare pick_port.simps [code]

definition mk_pair :: "u32 \<Rightarrow> u16 \<Rightarrow> nat_ip_port_pair" where
  "mk_pair ip port = compute_nat_checksums
    \<lparr>np_ip = ip, np_port = port, np_checksum = 0, np_checksum_ip = 0, np_checksum_port = 0\<rparr>"

definition create_nat_table_entry :: "packet \<Rightarrow> u32 \<Rightarrow> nat act" where
  "create_nat_table_entry p ext_ip rs =
    bindR (returnsR (pick_port rs (rand_used rs))) (\<lambda>(port, k).
    bindR (ld32 p (ip_at + 12)) (\<lambda>ip_src.
    bindR (ld8 p (ip_at + 9)) (\<lambda>ip_p.
    bindR (get_src_port_number p ip_p) (\<lambda>sport.
    let ne = \<lparr>nat_ext = mk_pair ext_ip (htons port), nat_int = mk_pair ip_src sport, ne_last_hits = 0,
              ne_last_hits_time = clock rs, ne_hits = 0, ne_hw_row = 0xFF, ne_static = False\<rparr>;
        rs = rs\<lparr>nat_table := nat_table rs @ [ne], rand_used := k\<rparr>
    in Inr (length (nat_table rs) - 1, pthread_cond_signal NatTableCond rs)))))"

section \<open>Rewriting a packet\<close>

definition populate_nat_icmp_error :: "packet \<Rightarrow> nat_entry \<Rightarrow> nat_type \<Rightarrow> packet res" where
  "populate_nat_icmp_error p ne nt =
    bindR (ld16 p (data_ip_at + 10)) (\<lambda>data_sum.
    bindR (case nt of
        NAT_EXTERNAL \<Rightarrow> st32 p (data_ip_at + 16) (np_ip (nat_ext ne))
      | NAT_INTERNAL \<Rightarrow> st32 p (data_ip_at + 12) (np_ip (nat_int ne))) (\<lambda>p.
    let checksum = (case nt of
        NAT_EXTERNAL \<Rightarrow> nat_checksum data_sum (np_checksum_ip (nat_ext ne)) (np_checksum_ip (nat_int ne))
      | NAT_INTERNAL \<Rightarrow> nat_checksum data_sum (np_checksum_ip (nat_int ne)) (np_checksum_ip (nat_ext ne))) in
    bindR (st16 p (ip_at + 10) 0) (\<lambda>p.
    bindR (st16 p (data_ip_at + 10) checksum) (\<lambda>p.
    bindR (ld8 p (data_ip_at + 9)) (\<lambda>pr.
    if pr = IP_PROTO_TCP \<or> pr = IP_PROTO_UDP
    then (case nt of
        NAT_EXTERNAL \<Rightarrow> st16 p (data_l4_at + 2) (np_port (nat_ext ne))
      | NAT_INTERNAL \<Rightarrow> st16 p data_l4_at (np_port (nat_int ne)))
    else if pr = IP_PROTO_ICMP
    then bindR (ld8 p data_l4_at) (\<lambda>t.
         if is_echo t
         then bindR (ld16 p (data_l4_at + 2)) (\<lambda>icmp_sum.
              bindR (st16 p (data_l4_at + 4) (np_port (case nt of NAT_EXTERNAL \<Rightarrow> nat_ext ne | NAT_INTERNAL \<Rightarrow> nat_int ne))) (\<lambda>p.
              st16 p (data_l4_at + 2) (case nt of
                  NAT_EXTERNAL \<Rightarrow> nat_checksum icmp_sum (np_checksum_port (nat_ext ne)) (np_checksum_port (nat_int ne))
                | NAT_INTERNAL \<Rightarrow> nat_checksum icmp_sum (np_checksum_port (nat_int ne)) (np_checksum_port (nat_ext ne)))))
         else Inr p)
    else Inr p)))))"

definition populate_nat_packet :: "packet \<Rightarrow> nat_entry \<Rightarrow> nat_type \<Rightarrow> packet res" where
  "populate_nat_packet p ne nt =
    bindR (case nt of
        NAT_EXTERNAL \<Rightarrow> st32 p (ip_at + 12) (np_ip (nat_ext ne))
      | NAT_INTERNAL \<Rightarrow> st32 p (ip_at + 16) (np_ip (nat_int ne))) (\<lambda>p.
    bindR (ld8 p (ip_at + 9)) (\<lambda>ip_p.
    if ip_p = IP_PROTO_TCP \<or> ip_p = IP_PROTO_UDP
    then (case nt of
        NAT_EXTERNAL \<Rightarrow> st16 p l4_at (np_port (nat_ext ne))
      | NAT_INTERNAL \<Rightarrow> st16 p (l4_at + 2) (np_port (nat_int ne)))
    else if ip_p = IP_PROTO_ICMP
    then bindR (ld8 p l4_at) (\<lambda>t.
         if is_echo t then st16 p (l4_at + 4) (np_port (case nt of NAT_EXTERNAL \<Rightarrow> nat_ext ne | NAT_INTERNAL \<Rightarrow> nat_int ne))
         else if is_icmp_error t then populate_nat_icmp_error p ne nt
         else Inr p)
    else Inr p))"

text \<open>Updating the transport checksum; \<open>pos\<close> and \<open>neg\<close> are the pairs whose cached sums are added and subtracted.\<close>

definition nat_fix_l4 :: "packet \<Rightarrow> nat_ip_port_pair \<Rightarrow> nat_ip_port_pair \<Rightarrow> packet res" where
  "nat_fix_l4 p pos neg =
    bindR (ld8 p (ip_at + 9)) (\<lambda>ip_p.
    if ip_p = IP_PROTO_TCP
    then bindR (ld16 p (l4_at + 16)) (\<lambda>s. st16 p (l4_at + 16) (nat_checksum s (np_checksum pos) (np_checksum neg)))
    else if ip_p = IP_PROTO_UDP
    then bindR (ld16 p (l4_at + 6)) (\<lambda>s. st16 p (l4_at + 6) (nat_checksum s (np_checksum pos) (np_checksum neg)))
    else if ip_p = IP_PROTO_ICMP
    then bindR (ld8 p l4_at) (\<lambda>t.
         if is_echo t
         then bindR (ld16 p (l4_at + 2)) (\<lambda>s.
              st16 p (l4_at + 2) (nat_checksum s (np_checksum_port pos) (np_checksum_port neg)))
         else if is_icmp_error t
         then bindR (ld16 p (ip_at + 2)) (\<lambda>ip_len.
              bindR (compute_icmp_checksum p icmp_at (uint (ntohs ip_len) - 24)) (\<lambda>(c, p).
              st16 p (icmp_at + 2) (htons c)))
         else Inr p)
    else Inr p)"

definition hit_entry :: "nat \<Rightarrow> router_state \<Rightarrow> router_state" where
  "hit_entry i rs = rs\<lparr>nat_table := (nat_table rs)[i := (nat_table rs ! i)\<lparr>ne_hits := ne_hits (nat_table rs ! i) + 1\<rparr>]\<rparr>"

definition process_nat_ext_packet :: "packet \<Rightarrow> router_state \<Rightarrow> (packet \<times> router_state) res" where
  "process_nat_ext_packet p rs =
    bindR (get_nat_table_entry rs p NAT_EXTERNAL) (\<lambda>r.
    case r of
      None \<Rightarrow> Inr (p, rs)
    | Some i \<Rightarrow>
        let rs = hit_entry i rs; ne = nat_table rs ! i in
        bindR (populate_nat_packet p ne NAT_INTERNAL) (\<lambda>p.
        bindR (nat_fix_l4 p (nat_int ne) (nat_ext ne)) (\<lambda>p.
        bindR (ld16 p (ip_at + 10)) (\<lambda>ip_sum.
        bindR (st16 p (ip_at + 10) (nat_checksum ip_sum (np_checksum_ip (nat_int ne)) (np_checksum (nat_ext ne)))) (\<lambda>p.
        Inr (p, rs))))))"

definition is_natted :: "u8 \<Rightarrow> bool" where
  "is_natted ip_p = (ip_p = IP_PROTO_TCP \<or> ip_p = IP_PROTO_UDP \<or> ip_p = IP_PROTO_ICMP)"

definition process_nat_int_packet :: "packet \<Rightarrow> u32 \<Rightarrow> router_state \<Rightarrow> (packet \<times> router_state) res" where
  "process_nat_int_packet p ext_ip rs =
    bindR (ld8 p (ip_at + 9)) (\<lambda>ip_p.
    if \<not> is_natted ip_p then Inl NullDeref
    else
      bindR (get_nat_table_entry rs p NAT_INTERNAL) (\<lambda>r.
      bindR (case r of Some i \<Rightarrow> Inr (i, rs) | None \<Rightarrow> create_nat_table_entry p ext_ip rs) (\<lambda>(i, rs).
      bindR (populate_nat_packet p (nat_table rs ! i) NAT_EXTERNAL) (\<lambda>p.
      let rs = hit_entry i rs; ne = nat_table rs ! i in
      bindR (nat_fix_l4 p (nat_ext ne) (nat_int ne)) (\<lambda>p.
      bindR (ld16 p (ip_at + 10)) (\<lambda>ip_sum.
      bindR (st16 p (ip_at + 10) (nat_checksum ip_sum (np_checksum_ip (nat_ext ne)) (np_checksum (nat_int ne)))) (\<lambda>p.
      Inr (p, rs))))))))"

section \<open>The cached checksums\<close>

text \<open>The sum of the words of an address and port as they are loaded, in network byte order.\<close>

definition ip_words :: "nat_ip_port_pair \<Rightarrow> nat" where
  "ip_words e = unat (ucast (np_ip e) :: u16) + unat (ucast (drop_bit 16 (np_ip e)) :: u16)"

definition pair_words :: "nat_ip_port_pair \<Rightarrow> nat" where
  "pair_words e = ip_words e + unat (np_port e)"

lemma fold32_eq:
  assumes "unat w < 2 ^ 18"
  shows "unat (fold32 w) = 65535 - ones (unat w)"
proof -
  define s where "s = unat w"
  define w1 where "w1 = drop_bit 16 w + (w AND 0xFFFF)"
  define w2 where "w2 = w1 + drop_bit 16 w1"
  define s1 where "s1 = s div 65536 + s mod 65536"
  have le: "s1 \<le> 131070" using assms mod_less_divisor [of 65536 s] by (simp add: s1_def s_def)
  have w1: "unat w1 = s1"
    using unat_carry(1) [of w] le unfolding w1_def [symmetric] s_def [symmetric] s1_def [symmetric] by simp
  have "unat w2 = s1 + s1 div 65536"
    unfolding w2_def unat_word_ariths unat_carry(3) [of w1, simplified] w1 using le by simp
  then have "unat (w2 AND 0xFFFF) = ones s"
    using unat_carry(2) [of w2] ones_second_carry [OF _ s1_def] assms by (simp add: s_def)
  then have "unat (ucast (w2 AND 0xFFFF) :: u16) = ones s" using ones_le [of s] by (simp add: unat_lo16)
  then have "unat (NOT (ucast (w2 AND 0xFFFF)) :: u16) = 65535 - ones s" unfolding unat_NOT by simp
  then show ?thesis unfolding fold32_def Let_def w2_def w1_def s_def .
qed

text \<open>Swapping the bytes of a word multiplies it by 256 modulo 65535.\<close>

lemma swap_mod: "unat (ntohs w) mod 65535 = 256 * unat w mod 65535"
proof -
  define a b where "a = unat w mod 256" and "b = unat w div 256"
  have w: "unat w = 256 * b + a" by (simp add: a_def b_def)
  have "b < 256" using unat_u16_lt [of w] by (simp add: b_def less_mult_imp_div_less)
  then have "unat (ntohs w) = 256 * a + b"
    by (simp add: ntohs_def unat_le16 unat_byte16 a_def b_def)
  moreover have "256 * unat w = 256 * a + b + b * 65535" by (simp add: w)
  ultimately show ?thesis by (simp only: mod_mult_self1)
qed

lemma complement_mod: "t \<le> 65535 \<Longrightarrow> (65535 - t + t') mod 65535 = 0 \<longleftrightarrow> t mod 65535 = t' mod (65535 :: nat)"
proof
  assume t: "t \<le> 65535" and m: "(65535 - t + t') mod 65535 = 0"
  then obtain k where k: "65535 - t + t' = 65535 * k" by (auto elim: dvdE simp: dvd_eq_mod_eq_0 [symmetric])
  then have "t' + 65535 = 65535 * k + t" using t by simp
  then have "(t' + 65535) mod 65535 = (65535 * k + t) mod 65535" by simp
  then show "t mod 65535 = t' mod 65535" by simp
next
  assume t: "t \<le> 65535" and m: "t mod 65535 = t' mod 65535"
  have "(65535 - t + t') mod 65535 = (65535 - t + t) mod 65535" using m by (metis mod_add_right_eq)
  then show "(65535 - t + t') mod 65535 = 0" using t by simp
qed

lemma halves: "unat (halves_sum ip) = unat (ntohs (ucast ip)) + unat (ntohs (ucast (drop_bit 16 ip)))"
proof -
  have "unat (ntohs (ucast ip)) < 65536" "unat (ntohs (ucast (drop_bit 16 ip))) < 65536" by (rule unat_u16_lt)+
  then show ?thesis unfolding halves_sum_def unat_word_ariths unat_u16_u32 by simp
qed

text \<open>A cached sum is the negative of the words it stands for.\<close>

lemma swap_sum_mod:
  assumes "s = sum_list (map (unat \<circ> ntohs) ws)" and "s < 2 ^ 18" and "unat (w :: u32) = s"
  shows "(unat (htons (fold32 w)) + sum_list (map unat ws)) mod 65535 = 0"
proof -
  have swap: "256 * sum_list (map unat xs) mod 65535 = sum_list (map (unat \<circ> ntohs) xs) mod 65535" for xs
  proof (induction xs)
    case (Cons x xs)
    have "256 * sum_list (map unat (x # xs)) mod 65535 = (256 * unat x mod 65535 + 256 * sum_list (map unat xs) mod 65535) mod 65535"
      by (simp add: mod_simps algebra_simps)
    also have "\<dots> = (unat (ntohs x) mod 65535 + sum_list (map (unat \<circ> ntohs) xs) mod 65535) mod 65535"
      unfolding Cons.IH swap_mod [symmetric] ..
    finally show ?case by (simp add: mod_simps o_def)
  qed simp
  let ?c = "fold32 w" and ?t = "sum_list (map unat ws)"
  have c: "unat ?c = 65535 - ones s" using fold32_eq [of w] assms by simp
  have "(unat ?c + s) mod 65535 = 0"
    using complement_mod [of "ones s" s] ones_le [of s] ones_mod [of s] by (simp add: c)
  then have "(256 * (unat (htons ?c) + ?t)) mod 65535 = 0"
  proof -
    assume z: "(unat ?c + s) mod 65535 = 0"
    have "(256 * (unat (htons ?c) + ?t)) mod 65535 = (256 * unat (htons ?c) mod 65535 + 256 * ?t mod 65535) mod 65535"
      by (simp add: mod_simps algebra_simps)
    also have "\<dots> = (unat ?c mod 65535 + s mod 65535) mod 65535"
      unfolding swap_mod [of "htons ?c", symmetric] ntohs_ntohs swap assms(1) ..
    finally show ?thesis using z by (simp add: mod_simps)
  qed
  then have "65535 dvd 256 * (unat (htons ?c) + ?t)" by (simp only: dvd_eq_mod_eq_0)
  moreover have "coprime (65535 :: nat) 256" by (simp add: coprime_iff_gcd_eq_1 gcd_nat.simps)
  ultimately show ?thesis by (simp only: coprime_dvd_mult_right_iff dvd_eq_mod_eq_0 [symmetric])
qed

lemma cached_sums:
  "(unat (np_checksum (compute_nat_checksums e)) + pair_words e) mod 65535 = 0"
  "(unat (np_checksum_ip (compute_nat_checksums e)) + ip_words e) mod 65535 = 0"
proof -
  let ?a = "ucast (np_ip e) :: u16" and ?b = "ucast (drop_bit 16 (np_ip e)) :: u16" and ?p = "np_port e"
  have lt: "unat (ntohs ?a) < 65536" "unat (ntohs ?b) < 65536" "unat (ntohs ?p) < 65536" by (rule unat_u16_lt)+
  have "unat (halves_sum (np_ip e) + ucast (ntohs ?p)) = unat (ntohs ?a) + unat (ntohs ?b) + unat (ntohs ?p)"
    unfolding unat_word_ariths halves unat_u16_u32 using lt by simp
  with swap_sum_mod [of _ "[?a, ?b, ?p]" "halves_sum (np_ip e) + ucast (ntohs ?p)", OF refl] lt
  show "(unat (np_checksum (compute_nat_checksums e)) + pair_words e) mod 65535 = 0"
    by (simp add: compute_nat_checksums_def pair_words_def ip_words_def add.assoc)
  from swap_sum_mod [of _ "[?a, ?b]" "halves_sum (np_ip e)", OF refl] lt
  show "(unat (np_checksum_ip (compute_nat_checksums e)) + ip_words e) mod 65535 = 0"
    by (simp add: compute_nat_checksums_def ip_words_def halves)
qed

lemma cancel_mod:
  assumes "(s' + e) mod m = (s + i) mod (m :: nat)" "(i + iw) mod m = 0" "(e + ew) mod m = 0"
  shows "(s' + iw) mod m = (s + ew) mod m"
proof -
  have "(s' + iw) mod m = (s' + iw + (e + ew)) mod m" using assms(3) by (metis add.right_neutral mod_add_right_eq)
  also have "\<dots> = (s' + e + (iw + ew)) mod m" by (simp add: ac_simps)
  also have "\<dots> = (s + i + (iw + ew)) mod m" by (rule mod_add_cong [OF assms(1) refl])
  also have "\<dots> = (s + ew + (i + iw)) mod m" by (simp add: ac_simps)
  also have "\<dots> = (s + ew) mod m" using assms(2) by (metis add.right_neutral mod_add_right_eq)
  finally show ?thesis .
qed

text \<open>The invariant of the table: every entry caches the checksums of its pairs.\<close>

definition nat_entry_ok :: "nat_entry \<Rightarrow> bool" where
  "nat_entry_ok ne = (compute_nat_checksums (nat_ext ne) = nat_ext ne \<and> compute_nat_checksums (nat_int ne) = nat_int ne)"

definition nat_table_ok :: "router_state \<Rightarrow> bool" where
  "nat_table_ok rs = list_all nat_entry_ok (nat_table rs)"

lemma mk_pair_ok: "compute_nat_checksums (mk_pair ip port) = mk_pair ip port"
  by (simp add: mk_pair_def compute_nat_checksums_def)

lemma nat_table_ok_hit: "nat_table_ok rs \<Longrightarrow> i < length (nat_table rs) \<Longrightarrow> nat_table_ok (hit_entry i rs)"
  by (auto simp: nat_table_ok_def hit_entry_def list_all_length nth_list_update nat_entry_ok_def)

lemma nat_table_ok_create:
  "nat_table_ok rs \<Longrightarrow> create_nat_table_entry p ext_ip rs = Inr (i, rs') \<Longrightarrow> nat_table_ok rs' \<and> i < length (nat_table rs')"
  by (auto simp: create_nat_table_entry_def bindR_eq_Inr nat_table_ok_def nat_entry_ok_def mk_pair_ok pthread_cond_signal_def Let_def
      split: prod.splits)

lemma get_nat_table_entry_Some:
  "get_nat_table_entry rs p nt = Inr (Some i) \<Longrightarrow> i < length (nat_table rs) \<and>
    (\<exists>pair. get_nat_ip_port_pair p nt = Inr pair \<and> found_nat_table_match (nat_table rs ! i) pair nt)"
  by (auto simp: get_nat_table_entry_def bindR_eq_Inr dest: index_of_Some)

lemma hit_entry_pairs:
  "i < length (nat_table rs) \<Longrightarrow> nat_ext (nat_table (hit_entry i rs) ! i) = nat_ext (nat_table rs ! i)"
  "i < length (nat_table rs) \<Longrightarrow> nat_int (nat_table (hit_entry i rs) ! i) = nat_int (nat_table rs ! i)"
  by (simp_all add: hit_entry_def)

lemma process_nat_ext_tcp:
  assumes "get_nat_table_entry rs p NAT_EXTERNAL = Inr (Some i)" "54 \<le> length p" "p ! 23 = 6"
    and "ne = nat_table rs ! i"
    and "s' = nat_checksum (le16 (p ! 50) (p ! 51)) (np_checksum (nat_int ne)) (np_checksum (nat_ext ne))"
    and "c' = nat_checksum (le16 (p ! 24) (p ! 25)) (np_checksum_ip (nat_int ne)) (np_checksum (nat_ext ne))"
  shows "process_nat_ext_packet p rs =
    Inr (upd_bytes (upd_bytes (upd_bytes (upd_bytes p 30 (bytes32 (np_ip (nat_int ne)))) 36 (bytes16 (np_port (nat_int ne))))
      50 (bytes16 s')) 24 (bytes16 c'), hit_entry i rs)"
proof -
  have i: "i < length (nat_table rs)" using get_nat_table_entry_Some [OF assms(1)] by blast
  show ?thesis using assms i
    by (simp add: process_nat_ext_packet_def populate_nat_packet_def nat_fix_l4_def Let_def hit_entry_pairs
        st32_in st16_in ld8_in ld16_in nth_upd_bytes)
qed

lemma ld_upd_same: "i + 2 \<le> length p \<Longrightarrow> ld16 (upd_bytes p i (bytes16 w)) i = Inr w"
  "i + 4 \<le> length p \<Longrightarrow> ld32 (upd_bytes p i (bytes32 v)) i = Inr v"
  by (simp_all add: ld16_def ld32_def nth_upd_bytes)

lemma ld_upd_other:
  "i + length bs \<le> length p \<Longrightarrow> k + 2 \<le> i \<or> i + length bs \<le> k \<Longrightarrow> ld16 (upd_bytes p i bs) k = ld16 p k"
  "i + length bs \<le> length p \<Longrightarrow> k + 4 \<le> i \<or> i + length bs \<le> k \<Longrightarrow> ld32 (upd_bytes p i bs) k = ld32 p k"
  using ld16_st_other [of p i bs "upd_bytes p i bs" k] ld32_st_other [of p i bs "upd_bytes p i bs" k]
  by (simp_all add: st_bytes_def)

section \<open>Properties\<close>

text \<open>
  Claim C33. Inbound translation of TCP: a packet whose destination matches the external pair of an entry leaves with the
  entry's internal address and port as destination, and its TCP checksum is updated so that its sum
  with the new address and port words equals, in one's complement arithmetic, the old sum with the old
  words: a valid checksum stays valid. The table keeps its invariant.
\<close>

theorem nat_ext_tcp_translated:
  assumes "get_nat_table_entry rs p NAT_EXTERNAL = Inr (Some i)" and "54 \<le> length p" and "p ! 23 = IP_PROTO_TCP"
    and "nat_table_ok rs" and "ne = nat_table rs ! i" and "ld16 p 50 = Inr s"
  shows "\<exists>q s'. process_nat_ext_packet p rs = Inr (q, hit_entry i rs) \<and>
    ld32 q 30 = Inr (np_ip (nat_int ne)) \<and> ld16 q 36 = Inr (np_port (nat_int ne)) \<and> ld16 q 50 = Inr s' \<and>
    (unat s' + pair_words (nat_int ne)) mod 65535 = (unat s + pair_words (nat_ext ne)) mod 65535 \<and>
    nat_table_ok (hit_entry i rs)"
proof -
  have i: "i < length (nat_table rs)" using get_nat_table_entry_Some [OF assms(1)] by blast
  then have ok: "nat_entry_ok ne" using assms(4,5) by (auto simp: nat_table_ok_def list_all_length)
  have s: "s = le16 (p ! 50) (p ! 51)" using assms(6) by (simp add: ld_eq_Inr)
  define s' where "s' = nat_checksum s (np_checksum (nat_int ne)) (np_checksum (nat_ext ne))"
  have sums: "(unat (np_checksum (nat_int ne)) + pair_words (nat_int ne)) mod 65535 = 0"
    "(unat (np_checksum (nat_ext ne)) + pair_words (nat_ext ne)) mod 65535 = 0"
    using cached_sums(1) [of "nat_int ne"] cached_sums(1) [of "nat_ext ne"] ok by (simp_all add: nat_entry_ok_def)
  have "(unat s' + pair_words (nat_int ne)) mod 65535 = (unat s + pair_words (nat_ext ne)) mod 65535"
    using cancel_mod [OF nat_checksum_mod [of s "np_checksum (nat_int ne)" "np_checksum (nat_ext ne)"] sums] by (simp add: s'_def)
  with process_nat_ext_tcp [OF assms(1,2,3,5) s'_def [unfolded s] refl] assms(2) nat_table_ok_hit [OF assms(4) i]
  show ?thesis by (auto simp: ld_upd_same ld_upd_other)
qed

text \<open>
  The IP header checksum of an inbound packet is updated with the wrong cached sum: \<open>process_nat_ext_packet\<close> subtracts the sum over
  the external address and port where the header only contains the address, so the new checksum is off by exactly the
  external port.
\<close>

theorem nat_ext_ip_checksum_off_by_port:
  assumes "get_nat_table_entry rs p NAT_EXTERNAL = Inr (Some i)" and "54 \<le> length p" and "p ! 23 = IP_PROTO_TCP"
    and "nat_table_ok rs" and "ne = nat_table rs ! i" and "ld16 p 24 = Inr c"
  shows "\<exists>q c'. process_nat_ext_packet p rs = Inr (q, hit_entry i rs) \<and> ld16 q 24 = Inr c' \<and>
    (unat c' + ip_words (nat_int ne)) mod 65535 = (unat c + ip_words (nat_ext ne) + unat (np_port (nat_ext ne))) mod 65535"
proof -
  have i: "i < length (nat_table rs)" using get_nat_table_entry_Some [OF assms(1)] by blast
  then have ok: "nat_entry_ok ne" using assms(4,5) by (auto simp: nat_table_ok_def list_all_length)
  have c: "c = le16 (p ! 24) (p ! 25)" using assms(6) by (simp add: ld_eq_Inr)
  define c' where "c' = nat_checksum c (np_checksum_ip (nat_int ne)) (np_checksum (nat_ext ne))"
  have sums: "(unat (np_checksum_ip (nat_int ne)) + ip_words (nat_int ne)) mod 65535 = 0"
    "(unat (np_checksum (nat_ext ne)) + pair_words (nat_ext ne)) mod 65535 = 0"
    using cached_sums(2) [of "nat_int ne"] cached_sums(1) [of "nat_ext ne"] ok by (simp_all add: nat_entry_ok_def)
  have "(unat c' + ip_words (nat_int ne)) mod 65535 = (unat c + pair_words (nat_ext ne)) mod 65535"
    using cancel_mod [OF nat_checksum_mod [of c "np_checksum_ip (nat_int ne)" "np_checksum (nat_ext ne)"] sums] by (simp add: c'_def)
  with process_nat_ext_tcp [OF assms(1,2,3,5) refl c'_def [unfolded c]] assms(2)
  show ?thesis by (auto simp: ld_upd_same pair_words_def add.assoc)
qed

definition acceptable :: "router_state \<Rightarrow> nat \<Rightarrow> bool" where
  "acceptable rs k = (let port = word_of_int (rand_at (renv rs) k) :: u16 in port > 1024 \<and> is_unique_nat_ext_port rs port)"

lemma pick_port_unfold:
  "pick_port rs k = (if acceptable rs k then Some (word_of_int (rand_at (renv rs) k), Suc k) else pick_port rs (Suc k))"
  by (subst pick_port.simps) (simp add: acceptable_def Let_def)

lemma pick_port_skips:
  "(\<forall>j<n. \<not> acceptable rs (k + j)) \<Longrightarrow> acceptable rs (k + n) \<Longrightarrow>
   pick_port rs k = Some (word_of_int (rand_at (renv rs) (k + n)), Suc (k + n))"
proof (induction n arbitrary: k)
  case (Suc n)
  have "\<not> acceptable rs k" using Suc.prems(1) by (metis add.right_neutral zero_less_Suc)
  moreover have "\<forall>j<n. \<not> acceptable rs (Suc k + j)" using Suc.prems(1) by (metis Suc_less_eq add_Suc add_Suc_right)
  ultimately show ?case using Suc.IH [of "Suc k"] Suc.prems(2) pick_port_unfold [of rs k] by simp
qed (simp add: pick_port_unfold)

text \<open>
  The search for an external port stops as soon as \<^verbatim>\<open>rand\<close> yields a value above 1024 whose 16 bits no entry stores, and returns
  the first such value.
\<close>

theorem pick_port_returns:
  assumes "acceptable rs m" and "k \<le> m"
  shows "\<exists>n. k \<le> n \<and> n \<le> m \<and> acceptable rs n \<and> pick_port rs k = Some (word_of_int (rand_at (renv rs) n), Suc n)"
proof -
  define d where "d = (LEAST d. acceptable rs (k + d))"
  have "acceptable rs (k + (m - k))" using assms by simp
  then have d: "acceptable rs (k + d)" "d \<le> m - k" unfolding d_def by (rule LeastI, rule Least_le)
  moreover have "\<forall>j<d. \<not> acceptable rs (k + j)" unfolding d_def using not_less_Least by blast
  ultimately have "pick_port rs k = Some (word_of_int (rand_at (renv rs) (k + d)), Suc (k + d))" by (intro pick_port_skips)
  with d assms(2) show ?thesis by (intro exI [of _ "k + d"]) simp
qed

text \<open>A table with one entry, whose external port is stored in network byte order, and an inbound packet for it.\<close>

definition demo_nat :: "u16 \<Rightarrow> router_state" where
  "demo_nat port = bzero_state demo_env\<lparr>renv := demo_env\<lparr>rand_at := (\<lambda>n. 0x1234)\<rparr>, nat_table :=
    [\<lparr>nat_ext = mk_pair 5 (htons port), nat_int = mk_pair 6 7, ne_last_hits = 0, ne_last_hits_time = 0, ne_hits = 0,
      ne_hw_row = 0xFF, ne_static = False\<rparr>]\<rparr>"

definition demo_tcp :: packet where
  "demo_tcp = replicate 23 0 @ [6] @ replicate 6 0 @ bytes32 5 @ bytes16 0 @ bytes16 (htons 0x1234) @ replicate 22 0"

lemma demo_tcp_lookup: "get_nat_table_entry (demo_nat 0x1234) demo_tcp NAT_EXTERNAL = Inr (Some 0)" "nat_table_ok (demo_nat 0x1234)"
  "length demo_tcp = 60" "demo_tcp ! 23 = 6"
  by (simp_all add: get_nat_table_entry_def get_nat_ip_port_pair_def demo_tcp_def demo_nat_def ld32_def ld16_def ld8_def nth_append
      found_nat_table_match_def mk_pair_def compute_nat_checksums_def nat_table_ok_def nat_entry_ok_def)

theorem nat_ext_tcp_translated_witness:
  "\<exists>q. process_nat_ext_packet demo_tcp (demo_nat 0x1234) = Inr (q, hit_entry 0 (demo_nat 0x1234)) \<and>
    ld32 q 30 = Inr 6 \<and> ld16 q 36 = Inr 7"
proof -
  have "ld16 demo_tcp 50 = Inr (le16 (demo_tcp ! 50) (demo_tcp ! 51))" by (simp add: ld16_def demo_tcp_lookup)
  from nat_ext_tcp_translated [OF demo_tcp_lookup(1) _ demo_tcp_lookup(4,2) refl this] demo_tcp_lookup(3)
  show ?thesis by (auto simp: demo_nat_def mk_pair_def compute_nat_checksums_def)
qed

theorem nat_ext_ip_checksum_off_by_port_witness:
  "\<exists>q c'. process_nat_ext_packet demo_tcp (demo_nat 0x1234) = Inr (q, hit_entry 0 (demo_nat 0x1234)) \<and> ld16 q 24 = Inr c' \<and>
    (unat c' + 6) mod 65535 = (5 + unat (htons 0x1234)) mod 65535"
proof -
  have "demo_tcp ! 24 = 0" "demo_tcp ! 25 = 0" by (simp_all add: demo_tcp_def nth_append)
  then have ld: "ld16 demo_tcp 24 = Inr 0" by (simp add: ld16_def demo_tcp_lookup le16_def)
  have "nat_ext (nat_table (demo_nat 0x1234) ! 0) = mk_pair 5 (htons 0x1234)" "nat_int (nat_table (demo_nat 0x1234) ! 0) = mk_pair 6 7"
    by (simp_all add: demo_nat_def)
  moreover have "ip_words (mk_pair 5 x) = 5" "ip_words (mk_pair 6 x) = 6" "np_port (mk_pair 5 x) = x" for x
    by (simp_all add: ip_words_def mk_pair_def compute_nat_checksums_def)
  ultimately show ?thesis
    using nat_ext_ip_checksum_off_by_port [OF demo_tcp_lookup(1) _ demo_tcp_lookup(4,2) refl ld] demo_tcp_lookup(3) by simp
qed

theorem pick_port_returns_witness: "\<exists>n\<le>3. pick_port (demo_nat 9) 0 = Some (word_of_int (rand_at (renv (demo_nat 9)) n), Suc n)"
proof -
  have "htons 9 \<noteq> 0x1234" by (simp add: ntohs_def le16_def byte16_def)
  then have "acceptable (demo_nat 9) 3"
    by (simp add: acceptable_def demo_nat_def is_unique_nat_ext_port_def mk_pair_def compute_nat_checksums_def)
  from pick_port_returns [OF this, of 0] show ?thesis by auto
qed

text \<open>
  The uniqueness test of the port search compares the candidate in host order with stored ports in network order: the search can
  return a port that an entry already uses.
\<close>

theorem pick_port_reuses_port:
  "\<exists>rs port k. pick_port rs 0 = Some (port, k) \<and> find (\<lambda>ne. np_port (nat_ext ne) = htons port) (nat_table rs) \<noteq> None"
proof -
  have "htons 0x1234 \<noteq> 0x1234" by (simp add: ntohs_def le16_def byte16_def)
  then have "acceptable (demo_nat 0x1234) 0"
    by (simp add: acceptable_def demo_nat_def is_unique_nat_ext_port_def mk_pair_def compute_nat_checksums_def)
  then have "pick_port (demo_nat 0x1234) 0 = Some (0x1234, 1)" by (simp add: pick_port_unfold) (simp add: demo_nat_def)
  moreover have "find (\<lambda>ne. np_port (nat_ext ne) = htons 0x1234) (nat_table (demo_nat 0x1234)) \<noteq> None"
    by (simp add: demo_nat_def mk_pair_def compute_nat_checksums_def)
  ultimately show ?thesis by blast
qed

end
