(* ===== verification/Ip.thy ===== *)
theory Ip
  imports Pwospf_Links Nat_Table
begin

text \<open>
  \<^verbatim>\<open>or_ip.c\<close>: the handler of IP packets (delivery to the router itself, forwarding, the ICMP errors,
  network address translation at a WAN interface) and the output of packets the router originates; from
  \<^verbatim>\<open>or_main.c\<close> the dispatch on the Ethernet type and the interface of the TCP stack to the router.

  The packet is a buffer lent by the caller that the handler changes in place; the model threads its contents
  through the translation and returns the state.
\<close>

abbreviation (input) IP_FRAG_MF :: u16 where "IP_FRAG_MF \<equiv> 0x2000"
abbreviation (input) IP_FRAG_OFFMASK :: u16 where "IP_FRAG_OFFMASK \<equiv> 0x1FFF"


section \<open>Checking a packet\<close>

definition is_packet_valid :: "packet \<Rightarrow> bool res" where
  "is_packet_valid p =
    bindR (ld8 p ip_at) (\<lambda>b.
    if drop_bit 4 b \<noteq> 4 then Inr False
    else if b AND 15 \<noteq> 5 then Inr False
    else
      bindR (ld16 p (ip_at + 6)) (\<lambda>off.
      let frag_field = ntohs off in
      if frag_field AND IP_FRAG_MF \<noteq> 0 \<or> frag_field AND IP_FRAG_OFFMASK \<noteq> 0 then Inr False
      else
        bindR (verify_checksum p ip_at (4 * unat (b AND 15))) (\<lambda>bad. Inr (bad = 0))))"

section \<open>Handling a packet\<close>

text \<open>The callers ignore the result of \<^verbatim>\<open>send_icmp_packet\<close>.\<close>

definition reply_icmp :: "packet \<Rightarrow> u8 \<Rightarrow> u8 \<Rightarrow> router_state \<Rightarrow> router_state res" where
  "reply_icmp p icmp_type icmp_code rs = bindR (send_icmp_packet p icmp_type icmp_code rs) (\<lambda>(_, rs). Inr rs)"

definition deliver_packet :: "packet \<Rightarrow> string \<Rightarrow> router_state \<Rightarrow> router_state res" where
  "deliver_packet p interface rs =
    bindR (ld8 p (ip_at + 9)) (\<lambda>ip_p.
    if ip_p = IP_PROTO_TCP then Inr (rs\<lparr>transport_in := transport_in rs @ [drop ip_at p]\<rparr>)
    else if ip_p = IP_PROTO_ICMP then process_icmp_packet p rs
    else if ip_p = IP_PROTO_PWOSPF then process_pwospf_packet p interface rs
    else if ip_p = IP_PROTO_UDP then reply_icmp p ICMP_DEST_UNREACHABLE 3 rs
    else reply_icmp p ICMP_DEST_UNREACHABLE 2 rs)"

text \<open>A TTL of 1 ends here; any other one is decremented, a TTL of 0 to 255.\<close>

definition age_packet :: "packet \<Rightarrow> u8 list \<Rightarrow> packet res" where
  "age_packet p shost =
    bindR (ld8 p (ip_at + 8)) (\<lambda>ttl.
    bindR (st8 p (ip_at + 8) (ttl - 1)) (\<lambda>p.
    bindR (st16 p (ip_at + 10) 0) (\<lambda>p.
    bindR (compute_ip_checksum p ip_at) (\<lambda>(s, p).
    bindR (st16 p (ip_at + 10) (htons s)) (\<lambda>p.
    populate_eth_hdr p 0 None shost ETH_TYPE_IP)))))"

definition forward_packet :: "packet \<Rightarrow> u32 \<Rightarrow> string \<Rightarrow> router_state \<Rightarrow> router_state res" where
  "forward_packet p next_hop next_hop_iface rs =
    bindR (derefR (get_iface rs next_hop_iface)) (\<lambda>iface.
    bindR (if if_is_wan iface
           then bindR (acquire NatTableMutex Wr rs) (\<lambda>rs.
                bindR (process_nat_int_packet p (if_ip iface) rs) (\<lambda>(p, rs).
                bindR (release NatTableMutex rs) (\<lambda>rs. Inr (p, rs))))
           else Inr (p, rs)) (\<lambda>(p, rs).
    bindR (ld8 p (ip_at + 8)) (\<lambda>ttl.
    if ttl = 1 then reply_icmp p ICMP_TIME_EXCEEDED 0 rs
    else
      bindR (case get_iface rs next_hop_iface of None \<Rightarrow> Inl AssertFail | Some e \<Rightarrow> age_packet p (if_addr e)) (\<lambda>p.
      bindR (send_ip p next_hop next_hop_iface rs) (\<lambda>(_, rs). Inr rs)))))"

definition route_packet :: "packet \<Rightarrow> string \<Rightarrow> router_state \<Rightarrow> router_state res" where
  "route_packet p interface rs =
    bindR (ld32 p (ip_at + 16)) (\<lambda>ip_dst.
    case get_next_hop rs 32 ip_dst of
      None \<Rightarrow> reply_icmp p ICMP_DEST_UNREACHABLE 6 rs
    | Some (next_hop, next_hop_iface) \<Rightarrow>
        if strncmp_eq interface next_hop_iface 32 then reply_icmp p ICMP_DEST_UNREACHABLE 0 rs
        else forward_packet p next_hop next_hop_iface rs)"

definition handle_packet :: "packet \<Rightarrow> string \<Rightarrow> router_state \<Rightarrow> router_state res" where
  "handle_packet p interface rs =
    bindR (derefR (get_iface rs interface)) (\<lambda>iface.
    bindR (if if_is_wan iface
           then bindR (acquire NatTableMutex Wr rs) (\<lambda>rs.
                bindR (process_nat_ext_packet p rs) (\<lambda>(p, rs).
                bindR (release NatTableMutex rs) (\<lambda>rs. Inr (p, rs))))
           else Inr (p, rs)) (\<lambda>(p, rs).
    bindR (ld32 p (ip_at + 16)) (\<lambda>ip_dst.
    if iface_match_ip rs ip_dst \<noteq> 0 then deliver_packet p interface rs
    else if ip_dst = htonl PWOSPF_HELLO_TIP then process_pwospf_packet p interface rs
    else route_packet p interface rs)))"

definition lock_tables :: "router_state \<Rightarrow> router_state res" where
  "lock_tables rs =
    bindR (acquire ArpCacheLock Rd rs) (\<lambda>rs.
    bindR (acquire ArpQueueLock Wr rs) (\<lambda>rs.
    bindR (acquire IfListLock Rd rs) (\<lambda>rs.
    acquire RtableLock Rd rs)))"

definition unlock_tables :: "router_state \<Rightarrow> router_state res" where
  "unlock_tables rs =
    bindR (release RtableLock rs) (\<lambda>rs.
    bindR (release IfListLock rs) (\<lambda>rs.
    bindR (release ArpQueueLock rs) (\<lambda>rs.
    release ArpCacheLock rs)))"

definition process_ip_packet :: "packet \<Rightarrow> string \<Rightarrow> router_state \<Rightarrow> router_state res" where
  "process_ip_packet p interface rs =
    bindR (is_packet_valid p) (\<lambda>valid.
    if \<not> valid then Inr rs
    else
      bindR (lock_tables rs) (\<lambda>rs.
      bindR (handle_packet p interface rs) (\<lambda>rs.
      unlock_tables rs)))"

section \<open>Packets of the router itself\<close>

text \<open>Without a route the C function returns before it releases the locks.\<close>

definition send_ip_packet :: "u8 \<Rightarrow> u32 \<Rightarrow> u32 \<Rightarrow> packet \<Rightarrow> int act" where
  "send_ip_packet proto src dest payload rs =
    bindR (lock_tables rs) (\<lambda>rs.
    bindR (memcpy (bzero (34 + length payload)) 34 payload 0 (length payload)) (\<lambda>p.
    bindR (populate_ip p ip_at (word_of_nat (length payload)) proto src dest) (\<lambda>p.
    bindR (compute_ip_checksum p ip_at) (\<lambda>(s, p).
    bindR (st16 p (ip_at + 10) (htons s)) (\<lambda>p.
    case get_next_hop rs 32 dest of
      None \<Rightarrow> Inr (1, rs)
    | Some (next_hop, iface) \<Rightarrow>
        bindR (derefR (get_iface rs iface)) (\<lambda>iface_struct.
        bindR (populate_eth_hdr p 0 None (if_addr iface_struct) ETH_TYPE_IP) (\<lambda>p.
        bindR (send_ip p next_hop (if_name iface_struct) rs) (\<lambda>(ret, rs).
        bindR (unlock_tables rs) (\<lambda>rs. Inr (ret, rs))))))))))"

definition integ_ip_output :: "packet \<Rightarrow> u8 \<Rightarrow> u32 \<Rightarrow> u32 \<Rightarrow> int act" where
  "integ_ip_output payload proto src dest rs = send_ip_packet proto src dest payload rs"

definition find_srcip :: "u32 \<Rightarrow> u32 act" where
  "find_srcip dest rs =
    bindR (acquire IfListLock Rd rs) (\<lambda>rs.
    bindR (acquire RtableLock Rd rs) (\<lambda>rs.
    bindR (case get_next_hop rs 32 dest of
             None \<Rightarrow> Inr 0
           | Some (_, iface) \<Rightarrow> (case get_iface rs iface of None \<Rightarrow> Inl AssertFail | Some e \<Rightarrow> Inr (if_ip e))) (\<lambda>srcip.
    bindR (release RtableLock rs) (\<lambda>rs.
    bindR (release IfListLock rs) (\<lambda>rs. Inr (srcip, rs))))))"

section \<open>Incoming frames\<close>

definition process_packet :: "packet \<Rightarrow> string \<Rightarrow> router_state \<Rightarrow> router_state res" where
  "process_packet p interface rs =
    bindR (iface_is_active interface rs) (\<lambda>(active, rs).
    if active = 0 then Inr rs
    else
      bindR (ld16 p 12) (\<lambda>eth_type.
      if ntohs eth_type = ETH_TYPE_IP then process_ip_packet p interface rs
      else if ntohs eth_type = ETH_TYPE_ARP then process_arp_packet p rs
      else Inr rs))"

section \<open>What a forwarded packet looks like\<close>

lemma upd_bytes_nth_other: "i + length bs \<le> length p \<Longrightarrow> k < length p \<Longrightarrow> k < i \<or> i + length bs \<le> k \<Longrightarrow> upd_bytes p i bs ! k = p ! k"
  by (simp add: nth_upd_bytes)

lemma valid_length: "is_packet_valid p = Inr True \<Longrightarrow> p ! 14 AND 15 = 5 \<and> verify_checksum p 14 20 = Inr 0"
  by (auto simp: is_packet_valid_def bindR_eq_Inr ld_eq_Inr Let_def split: if_splits)

text \<open>The header of \<open>q\<close> is that of \<open>p\<close> but for the TTL and the checksum, which is right.\<close>

definition aged :: "packet \<Rightarrow> u8 list \<Rightarrow> u8 list \<Rightarrow> packet \<Rightarrow> bool" where
  "aged p dhost shost q =
    (length q = length p \<and> take 14 q = dhost @ shost @ bytes16 (htons ETH_TYPE_IP) \<and>
     take 8 (drop 14 q) = take 8 (drop 14 p) \<and> q ! 22 = p ! 22 - 1 \<and> q ! 23 = p ! 23 \<and> drop 26 q = drop 26 p \<and>
     is_packet_valid q = Inr True)"

lemma is_packet_valid_cong:
  assumes "34 \<le> length p" "length q = length p" "is_packet_valid p = Inr True"
    and "q ! 14 = p ! 14" "q ! 20 = p ! 20" "q ! 21 = p ! 21" "verify_checksum q 14 20 = Inr 0"
  shows "is_packet_valid q = Inr True"
proof -
  have "p ! 14 AND 15 = 5" using valid_length [OF assms(3)] by simp
  then have "verify_checksum q 14 (4 * unat (p ! 14 AND 15)) = Inr 0" using assms(7) by simp
  then show ?thesis using assms by (auto simp: is_packet_valid_def Let_def ld8_def ld16_def split: if_splits)
qed

lemma age_packet_ok:
  assumes valid: "is_packet_valid p = Inr True" and len: "34 \<le> length p" and s: "length shost = 6"
  shows "\<exists>q. age_packet p shost = Inr q \<and> aged p (take 6 p) shost q"
proof -
  define p1 where "p1 = upd_bytes (upd_bytes p 22 [p ! 22 - 1]) 24 (bytes16 0)"
  have l1: "length p1 = length p" using len by (simp add: p1_def)
  have n1: "p1 ! k = (if k = 22 then p ! 22 - 1 else p ! k)" if "k < length p" "k \<noteq> 24" "k \<noteq> 25" for k
    using that len by (auto simp: p1_def nth_upd_bytes)
  have "unat (p1 ! 14 AND 15) = 5" using valid_length [OF valid] n1 [of 14] len by simp
  from ip_checksum_roundtrip [OF this] obtain c r where c: "compute_ip_checksum p1 14 = Inr (c, r)"
      "st16 r 24 (htons c) = Inr (put_csum p1 24 c)" "verify_checksum (put_csum p1 24 c) 14 20 = Inr 0"
    using len l1 by auto
  define p2 where "p2 = put_csum p1 24 c"
  define q where "q = upd_bytes p2 6 (shost @ bytes16 (htons ETH_TYPE_IP))"
  have l2: "length p2 = length p" using len l1 by (simp add: p2_def put_csum_nth)
  have n2: "p2 ! k = (if k = 22 then p ! 22 - 1 else p ! k)" if "k < length p" "k \<noteq> 24" "k \<noteq> 25" for k
    unfolding p2_def using that len l1 n1 by (simp add: put_csum_nth)
  have age: "age_packet p shost = Inr q"
    using len l2 s c by (simp add: age_packet_def ld8_in st8_in st16_in p1_def [symmetric] p2_def [symmetric] populate_eth_eq q_def)
  have lq: "length q = length p" using len s l2 by (simp add: q_def)
  have nq: "q ! k = p2 ! k" if "k < 6 \<or> 14 \<le> k" "k < length p" for k
    using that len s l2 by (auto simp: q_def nth_upd_bytes)
  have "verify_checksum q 14 20 = verify_checksum p2 14 20"
    using len lq l2 nq by (intro verify_checksum_cong) auto
  then have "is_packet_valid q = Inr True"
    using c(3) nq n2 len by (intro is_packet_valid_cong [OF len lq valid]) (simp_all add: p2_def)
  moreover have "take 14 q = take 6 p @ shost @ bytes16 (htons ETH_TYPE_IP)"
  proof -
    have "take 6 p2 = take 6 p" using n2 l2 len by (intro nth_equalityI) auto
    then show ?thesis using s len l2 by (simp add: q_def upd_bytes_def)
  qed
  moreover have "take 8 (drop 14 q) = take 8 (drop 14 p)" "drop 26 q = drop 26 p"
    using lq nq n2 len by (auto intro!: nth_equalityI)
  ultimately show ?thesis using age lq nq n2 len by (auto simp: aged_def)
qed

lemma with_dhost_aged:
  assumes "aged p d shost q" "34 \<le> length p" "length ha = 6" "length d = 6"
  shows "aged p ha shost (with_dhost ha q)"
proof -
  have q: "length q = length p" "take 14 q = d @ shost @ bytes16 (htons ETH_TYPE_IP)" "is_packet_valid q = Inr True"
    using assms(1) by (simp_all add: aged_def)
  have n: "with_dhost ha q ! k = q ! k" if "6 \<le> k" for k using that assms(2,3) q(1) by (simp add: with_dhost_def nth_append)
  have l: "length (with_dhost ha q) = length p" using assms(2,3) q(1) by (simp add: with_dhost_def)
  have "verify_checksum (with_dhost ha q) 14 20 = verify_checksum q 14 20"
    by (rule verify_checksum_cong) (use assms(2) l q(1) n in simp_all)
  then have "is_packet_valid (with_dhost ha q) = Inr True"
    by (intro is_packet_valid_cong [OF _ _ q(3)]) (use assms(2) l q(1) n valid_length [OF q(3)] in simp_all)
  moreover have "take 14 (with_dhost ha q) = ha @ drop 6 (take 14 q)" using assms(3) by (simp add: with_dhost_def drop_take)
  moreover have "drop 6 (take 14 q) = shost @ bytes16 (htons ETH_TYPE_IP)" unfolding q(2) using assms(4) by simp
  moreover have "drop k (with_dhost ha q) = drop k q" if "6 \<le> k" for k using that assms(3) by (simp add: with_dhost_def)
  ultimately show ?thesis using assms(1) l n by (simp add: aged_def)
qed

lemma tables_locked:
  "held rs = [] \<Longrightarrow> lock_tables rs = Inr (rs\<lparr>held := [(RtableLock, Rd), (IfListLock, Rd), (ArpQueueLock, Wr), (ArpCacheLock, Rd)]\<rparr>)"
  "held rs = [(RtableLock, m), (IfListLock, m'), (ArpQueueLock, Wr), (ArpCacheLock, Rd)] \<Longrightarrow> unlock_tables rs = Inr (rs\<lparr>held := []\<rparr>)"
  by (simp_all add: lock_tables_def unlock_tables_def acquire_free release_hd)

text \<open>The state in which a packet is handled: the four table locks are held, nothing else changed.\<close>

definition in_tables :: "router_state \<Rightarrow> router_state" where
  "in_tables rs = rs\<lparr>held := [(RtableLock, Rd), (IfListLock, Rd), (ArpQueueLock, Wr), (ArpCacheLock, Rd)]\<rparr>"

lemma in_tables_simps [simp]:
  "rtable (in_tables rs) = rtable rs" "if_list (in_tables rs) = if_list rs" "arp_cache (in_tables rs) = arp_cache rs"
  "renv (in_tables rs) = renv rs" "get_next_hop (in_tables rs) = get_next_hop rs" "get_iface (in_tables rs) = get_iface rs"
  "in_arp_cache (in_tables rs) = in_arp_cache rs" "iface_match_ip (in_tables rs) = iface_match_ip rs"
  "driver_ok (in_tables rs) = driver_ok rs" "port_ok (in_tables rs) = port_ok rs" "wire_name (in_tables rs) = wire_name rs"
  "unlocked WriteLock (in_tables rs)" "held (in_tables rs) = [(RtableLock, Rd), (IfListLock, Rd), (ArpQueueLock, Wr), (ArpCacheLock, Rd)]"
  by (simp_all add: in_tables_def fun_eq_iff get_next_hop_def get_iface_def in_arp_cache_def iface_match_ip_def
      driver_ok_def port_ok_def wire_name_def)

lemma process_ip_handled:
  assumes "is_packet_valid p = Inr True" "held rs = []" "handle_packet p interface (in_tables rs) = Inr (emit fs (in_tables rs))"
  shows "process_ip_packet p interface rs = Inr (emit fs rs)"
  using assms by (simp add: process_ip_packet_def tables_locked in_tables_def) (simp add: emit_def)

text \<open>A packet from an interface that does not translate, for an address that is not the router's.\<close>

definition transit :: "packet \<Rightarrow> string \<Rightarrow> u32 \<Rightarrow> router_state \<Rightarrow> bool" where
  "transit p interface ip_dst rs =
    (is_packet_valid p = Inr True \<and> 34 \<le> length p \<and> ld32 p 30 = Inr ip_dst \<and> held rs = [] \<and>
     (case get_iface rs interface of None \<Rightarrow> False | Some e \<Rightarrow> \<not> if_is_wan e) \<and>
     iface_match_ip rs ip_dst = 0 \<and> ip_dst \<noteq> htonl PWOSPF_HELLO_TIP)"

lemma handle_transit: "transit p interface ip_dst rs \<Longrightarrow> handle_packet p interface (in_tables rs) = route_packet p interface (in_tables rs)"
  by (auto simp: transit_def handle_packet_def split: option.splits)

section \<open>Properties\<close>

text \<open>
  Claim C1. Forwarding is correct: a valid packet for another host, with a TTL of at least 2, whose longest matching route
  names another interface without translation, and whose next hop is in the ARP cache, leaves the router as exactly one frame on
  that interface. The frame carries the next hop's and the interface's hardware addresses, the TTL lower by
  one (so still at least 1), a header checksum that verifies, and otherwise the bytes of the packet. The router state is otherwise unchanged and all locks
  are released.
\<close>

theorem ip_forwarded:
  assumes tr: "transit p interface ip_dst rs"
    and nh: "get_next_hop rs 32 ip_dst = Some (next_hop, out)" "\<not> strncmp_eq interface out 32"
    and out: "get_iface rs out = Some iface" "\<not> if_is_wan iface" "length (if_addr iface) = 6"
    and ttl: "1 < p ! 22"
    and arp: "in_arp_cache rs next_hop = Some ace" "length (ac_ha ace) = 6"
    and ok: "driver_ok rs" "port_ok rs out"
  shows "\<exists>q. process_ip_packet p interface rs = Inr (emit [(pad_frame q, wire_name rs out)] rs) \<and> aged p (ac_ha ace) (if_addr iface) q"
proof -
  have p: "is_packet_valid p = Inr True" "34 \<le> length p" "ld32 p 30 = Inr ip_dst" "held rs = []" using tr by (simp_all add: transit_def)
  obtain q where q: "age_packet p (if_addr iface) = Inr q" "aged p (take 6 p) (if_addr iface) q"
    using age_packet_ok [OF p(1,2) out(3)] by blast
  have "6 \<le> length q" using q(2) p(2) by (simp add: aged_def)
  then have "send_ip q next_hop out (in_tables rs) =
      Inr (0, emit [(pad_frame (with_dhost (ac_ha ace) q), wire_name rs out)] (in_tables rs))"
    using send_ip_hit [of "in_tables rs" next_hop ace q out] arp ok by simp
  then have "forward_packet p next_hop out (in_tables rs) = Inr (emit [(pad_frame (with_dhost (ac_ha ace) q), wire_name rs out)] (in_tables rs))"
    using out ttl p(2) q(1) by (auto simp: forward_packet_def ld8_in)
  then have "handle_packet p interface (in_tables rs) = Inr (emit [(pad_frame (with_dhost (ac_ha ace) q), wire_name rs out)] (in_tables rs))"
    using nh p(3) by (simp add: handle_transit [OF tr] route_packet_def)
  with process_ip_handled [OF p(1,4)] with_dhost_aged [OF q(2) p(2) arp(2)] p(2) show ?thesis by auto
qed

text \<open>The ICMP error a packet in transit deserves: network unknown without a route, network unreachable when the
  route leads back, time exceeded when the TTL is used up.\<close>

definition transit_error :: "packet \<Rightarrow> string \<Rightarrow> u32 \<Rightarrow> router_state \<Rightarrow> (u8 \<times> u8) option" where
  "transit_error p interface ip_dst rs =
    (case get_next_hop rs 32 ip_dst of
       None \<Rightarrow> Some (3, 6)
     | Some (_, out) \<Rightarrow>
         if strncmp_eq interface out 32 then Some (3, 0)
         else (case get_iface rs out of
                 None \<Rightarrow> None
               | Some e \<Rightarrow> if \<not> if_is_wan e \<and> p ! 22 = 1 then Some (11, 0) else None))"

lemma route_error:
  assumes "transit p interface ip_dst rs" "transit_error p interface ip_dst rs = Some (t, c)"
  shows "route_packet p interface (in_tables rs) = reply_icmp p t c (in_tables rs)"
  using assms
  by (auto simp: transit_def transit_error_def route_packet_def forward_packet_def ld8_in split: option.splits prod.splits if_splits)

text \<open>
  Claim C17. A packet in transit that cannot be forwarded is answered: without a route by network unknown, with a route back to
  its own interface by network unreachable, with a TTL of 1 by time exceeded. One frame goes to the packet's source, by way of the
  route to the source; it has valid checksums, the type and code of the error, and quotes the packet's IP header
  and first eight bytes. All locks are released.
\<close>

theorem ip_error_answered:
  assumes tr: "transit p interface ip_dst rs" "transit_error p interface ip_dst rs = Some (t, c)" and len: "42 \<le> length p"
    and src: "ld32 p 26 = Inr ip_src" "get_next_hop rs 32 ip_src = Some (nh, out)"
    and out: "get_iface rs out = Some iface" "length (if_addr iface) = 6"
    and arp: "in_arp_cache rs nh = Some ace" "length (ac_ha ace) = 6"
    and ok: "driver_ok rs" "port_ok rs (if_name iface)"
  shows "\<exists>q. process_ip_packet p interface rs = Inr (emit [(with_dhost (ac_ha ace) q, wire_name rs (if_name iface))] rs) \<and>
    length q = 70 \<and> verify_checksum q 14 20 = Inr 0 \<and> verify_checksum q 34 36 = Inr 0 \<and>
    ld32 q 26 = Inr (if_ip iface) \<and> ld32 q 30 = Inr ip_src \<and> q ! 34 = t \<and> q ! 35 = c \<and> drop 42 q = take 28 (drop 14 p)"
proof -
  have p: "is_packet_valid p = Inr True" "ld32 p 30 = Inr ip_dst" "held rs = []" using tr(1) by (simp_all add: transit_def)
  have tc: "t \<noteq> 0" "\<not> (t = 3 \<and> c = 3)" using tr(2) by (auto simp: transit_error_def split: option.splits if_splits)
  obtain q where q: "build_icmp p t c iface = Inr q" "length q = 70" "verify_checksum q 14 20 = Inr 0" "verify_checksum q 34 36 = Inr 0"
    "ld32 q 26 = Inr (if_ip iface)" "ld32 q 30 = Inr ip_src" "q ! 34 = t" "q ! 35 = c" "drop 42 q = take 28 (drop 14 p)"
    using build_icmp_error_ok [OF len out(2) tc(1) src(1) p(2), of c] tc(2) by auto
  have "pad_frame (with_dhost (ac_ha ace) q) = with_dhost (ac_ha ace) q"
    using q(2) arp(2) by (intro pad_frame_ge60) (simp add: with_dhost_def)
  then have "send_icmp_packet p t c (in_tables rs) = Inr (0, emit [(with_dhost (ac_ha ace) q, wire_name rs (if_name iface))] (in_tables rs))"
    using send_ip_hit [of "in_tables rs" nh ace q "if_name iface"] arp ok src out q(1,2) by (simp add: send_icmp_packet_def)
  then have "handle_packet p interface (in_tables rs) = Inr (emit [(with_dhost (ac_ha ace) q, wire_name rs (if_name iface))] (in_tables rs))"
    by (simp add: handle_transit [OF tr(1)] route_error [OF tr] reply_icmp_def)
  with process_ip_handled [OF p(1,3)] q show ?thesis by blast
qed

section \<open>Witnesses\<close>

text \<open>A router with two interfaces and a default route through the first; a UDP packet that arrives on the second.\<close>

definition demo_ip :: "u8 \<Rightarrow> u8 \<Rightarrow> u8 \<Rightarrow> packet" where
  "demo_ip ttl hi lo = replicate 14 1 @ [0x45, 0, 0, 0x2E, 0, 0, 0x40, 0, ttl, 0x11, hi, lo, 10, 0, 0, 5, 192, 168, 0, 9] @ replicate 26 7"

definition demo_two_ports :: router_state where
  "demo_two_ports = bzero_state demo_env\<lparr>if_list := [demo_iface ''eth0'' 9 0, demo_iface ''eth1'' 8 0],
    rtable := [\<lparr>re_ip = 0, re_gw = 7, re_mask = 0, re_iface = ''eth0'', re_static = True, re_active = True\<rparr>],
    arp_cache := [\<lparr>ac_ip = 7, ac_ha = replicate 6 2, ac_TTL = 0, ac_static = 0\<rparr>]\<rparr>"

lemma demo_two_ports_simps:
  "get_next_hop demo_two_ports 32 dst = Some (7, ''eth0'')" "get_iface demo_two_ports ''eth0'' = Some (demo_iface ''eth0'' 9 0)"
  "get_iface demo_two_ports ''eth1'' = Some (demo_iface ''eth1'' 8 0)" "held demo_two_ports = []"
  "in_arp_cache demo_two_ports 7 = Some \<lparr>ac_ip = 7, ac_ha = replicate 6 2, ac_TTL = 0, ac_static = 0\<rparr>"
  "driver_ok demo_two_ports" "port_ok demo_two_ports ''eth0''" "wire_name demo_two_ports ''eth0'' = ''eth0''"
  "iface_match_ip demo_two_ports dst = (if dst = 9 \<or> dst = 8 then 1 else 0)"
  using mask_bits_nonneg [of 0]
  by (auto simp: demo_two_ports_def get_next_hop_def re_match_def get_iface_def demo_iface_def strncmp_eq_def in_arp_cache_def
      wire_name_def iface_match_ip_eq demo_env_ok)

lemma demo_ip_fields:
  "length (demo_ip ttl hi lo) = 60" "ld32 (demo_ip ttl hi lo) 30 = Inr 0x0900A8C0" "ld32 (demo_ip ttl hi lo) 26 = Inr 0x0500000A"
  "demo_ip ttl hi lo ! 22 = ttl"
  by (simp_all add: demo_ip_def ld32_def le32_def nth_append)

lemma demo_ip_valid: "is_packet_valid (demo_ip 64 0x70 0x09) = Inr True" "is_packet_valid (demo_ip 1 0xAF 0x09) = Inr True"
proof -
  have f: "is_packet_valid (demo_ip ttl hi lo) = bindR (verify_checksum (demo_ip ttl hi lo) 14 (2 * 10)) (\<lambda>bad. Inr (bad = 0))" for ttl hi lo
  proof -
    have "demo_ip ttl hi lo ! 14 = 0x45" "demo_ip ttl hi lo ! 20 = 0x40" "demo_ip ttl hi lo ! 21 = 0"
      by (simp_all add: demo_ip_def nth_append)
    moreover have "ntohs (le16 0x40 0) = 0x4000" by (simp add: word_unat_eq_iff unat_ntohs_le16)
    ultimately show ?thesis by (simp add: is_packet_valid_def demo_ip_fields(1) ld8_def ld16_def)
  qed
  have s: "sum16 (\<lambda>_. False) (demo_ip ttl hi lo) 14 0 10 = 17664 + 46 + 16384 + (256 * unat ttl + 17) + (256 * unat hi + unat lo) + 2560 + 5 + 49320 + 9" for ttl hi lo
    by (simp add: sum16_def be16_def demo_ip_def nth_append upt_rec)
  show "is_packet_valid (demo_ip 64 0x70 0x09) = Inr True" "is_packet_valid (demo_ip 1 0xAF 0x09) = Inr True"
    unfolding f using verify_checksum_eq [of 14 10] s by (simp_all add: demo_ip_fields ones_def)
qed

lemma demo_transit: "is_packet_valid (demo_ip ttl hi lo) = Inr True \<Longrightarrow> transit (demo_ip ttl hi lo) ''eth1'' 0x0900A8C0 demo_two_ports"
proof -
  have "unat (htonl PWOSPF_HELLO_TIP) = 83886304" by (simp add: ntohl_def unat_le32 unat_byte32)
  then have "(0x0900A8C0 :: u32) \<noteq> htonl PWOSPF_HELLO_TIP" by auto
  then show "is_packet_valid (demo_ip ttl hi lo) = Inr True \<Longrightarrow> transit (demo_ip ttl hi lo) ''eth1'' 0x0900A8C0 demo_two_ports"
    by (simp add: transit_def demo_ip_fields demo_two_ports_simps) (simp add: demo_iface_def)
qed

theorem ip_forwarded_witness:
  "\<exists>q. process_ip_packet (demo_ip 64 0x70 0x09) ''eth1'' demo_two_ports = Inr (emit [(pad_frame q, ''eth0'')] demo_two_ports) \<and>
    aged (demo_ip 64 0x70 0x09) (replicate 6 2) (replicate 6 3) q"
  using ip_forwarded [OF demo_transit [OF demo_ip_valid(1)] demo_two_ports_simps(1) _ demo_two_ports_simps(2) _ _ _ demo_two_ports_simps(5) _
      demo_two_ports_simps(6,7)] demo_two_ports_simps(8)
  by (simp add: demo_ip_fields strncmp_eq_def demo_iface_def)

theorem ip_error_answered_witness:
  "\<exists>q. process_ip_packet (demo_ip 1 0xAF 0x09) ''eth1'' demo_two_ports = Inr (emit [(with_dhost (replicate 6 2) q, ''eth0'')] demo_two_ports) \<and>
    q ! 34 = 11 \<and> ld32 q 30 = Inr 0x0500000A"
proof -
  have "transit_error (demo_ip 1 0xAF 0x09) ''eth1'' 0x0900A8C0 demo_two_ports = Some (11, 0)"
    by (simp add: transit_error_def demo_two_ports_simps strncmp_eq_def demo_ip_fields) (simp add: demo_iface_def)
  from ip_error_answered [OF demo_transit [OF demo_ip_valid(2)] this _ demo_ip_fields(3) demo_two_ports_simps(1,2) _ demo_two_ports_simps(5) _ demo_two_ports_simps(6)]
  show ?thesis using demo_two_ports_simps by (auto simp: demo_ip_fields demo_iface_def)
qed

end
