(* ===== verification/Frame.thy ===== *)
theory Frame
  imports Ip
begin

text \<open>
  What the operations of the router leave alone. The locale \<open>packet_inv\<close> is the contract of an
  invariant that does not depend on the frames sent, the queues of waiting packets, the NAT table, the shell ping queue and the signals:
  sending, translating, answering and forwarding packets keeps it. \<open>link_state_inv\<close> adds what link state updates and time-outs do.
  The lemmas are proved once in the locales and used for every invariant of the later theories.
\<close>

section \<open>Locks\<close>

lemma acquire_Inr: "acquire l m rs = Inr rs' \<longleftrightarrow> \<not> conflicts l m (held rs) \<and> rs' = rs\<lparr>held := (l, m) # held rs\<rparr>"
  by (auto simp: acquire_def)

lemma release_Inr:
  "release l rs = Inr rs' \<longleftrightarrow> list_ex (\<lambda>h. fst h = l) (held rs) \<and> rs' = rs\<lparr>held := remove_first (\<lambda>h. fst h = l) (held rs)\<rparr>"
  by (auto simp: release_def)

lemmas lock_Inr = acquire_Inr release_Inr

lemma low_level_output_tx: "sr_integ_low_level_output p iface rs = Inr (r, rs') \<Longrightarrow> \<exists>t. rs' = rs\<lparr>tx := t\<rparr>"
proof -
  have "\<exists>t. rs = rs\<lparr>tx := t\<rparr>" by (rule exI [of _ "tx rs"]) simp
  then show "sr_integ_low_level_output p iface rs = Inr (r, rs') \<Longrightarrow> \<exists>t. rs' = rs\<lparr>tx := t\<rparr>"
    by (auto simp: sr_integ_low_level_output_def netfpga_output_def sr_vns_send_packet_def Let_def split: if_splits)
qed

lemma send_packet_tx:
  assumes "send_packet p iface rs = Inr (r, rs')"
  shows "\<exists>t. rs' = rs\<lparr>tx := t\<rparr>"
proof -
  let ?q = "if length p < 60 then upd_bytes (bzero 60) 0 p else p" and ?rs = "rs\<lparr>held := (WriteLock, Wr) # held rs\<rparr>"
  have "bindR (acquire WriteLock Wr rs) (\<lambda>rs. bindR (sr_integ_low_level_output ?q iface rs) (\<lambda>(result, rs).
      bindR (release WriteLock rs) (\<lambda>rs. Inr (result, rs)))) = Inr (r, rs')"
    using assms by (cases "length p < 60") (simp_all add: send_packet_def)
  then obtain rs1 where rs1: "sr_integ_low_level_output ?q iface ?rs = Inr (r, rs1)" "release WriteLock rs1 = Inr rs'"
    by (auto simp: bindR_eq_Inr acquire_Inr simp del: if_split)
  from low_level_output_tx [OF rs1(1)] obtain t where "rs1 = ?rs\<lparr>tx := t\<rparr>" by blast
  with rs1(2) have "rs' = rs\<lparr>tx := t\<rparr>" by (simp add: release_def)
  then show ?thesis by blast
qed

section \<open>Postconditions\<close>

text \<open>\<open>okR Q m\<close>: if the operation returns, its result satisfies \<open>Q\<close>. The rules take an operation apart along its
  sequencing, tests and case distinctions.\<close>

definition okR :: "('a \<Rightarrow> bool) \<Rightarrow> 'a res \<Rightarrow> bool" where
  "okR Q m = (\<forall>x. m = Inr x \<longrightarrow> Q x)"

lemma okR_I: "(\<And>x. m = Inr x \<Longrightarrow> Q x) \<Longrightarrow> okR Q m"
  by (simp add: okR_def)

lemma okR_D: "okR Q m \<Longrightarrow> m = Inr x \<Longrightarrow> Q x"
  by (simp add: okR_def)

lemma okR_act_I: "(\<And>r x. m = Inr (r, x) \<Longrightarrow> Q x) \<Longrightarrow> okR (\<lambda>(_, x). Q x) m"
  by (auto simp: okR_def)

lemma okR_seq: "okR P m \<Longrightarrow> (\<And>x. P x \<Longrightarrow> okR Q (k x)) \<Longrightarrow> okR Q (bindR m k)"
  by (auto simp: okR_def bindR_eq_Inr)

lemma okR_act_seq: "okR (\<lambda>(_, x). P x) m \<Longrightarrow> (\<And>r x. P x \<Longrightarrow> okR Q (k (r, x))) \<Longrightarrow> okR Q (bindR m k)"
  by (fastforce simp: okR_def bindR_eq_Inr)

lemma okR_pure: "(\<And>x. m = Inr x \<Longrightarrow> okR Q (k x)) \<Longrightarrow> okR Q (bindR m k)"
  by (auto simp: okR_def bindR_eq_Inr)

lemma okR_Inr: "Q y \<Longrightarrow> okR Q (Inr y)" "okR Q (Inl e)"
  by (auto simp: okR_def)

lemma okR_bind_Inr: "okR Q (k y) \<Longrightarrow> okR Q (bindR (Inr y) k)"
  by simp

lemma okR_bind_Inl: "okR Q (bindR (Inl e) k)"
  by (simp add: okR_def)

lemma okR_let: "okR Q (f v) \<Longrightarrow> okR Q (Let v f)"
  by simp

lemma okR_bind_let: "okR Q (bindR (f v) k) \<Longrightarrow> okR Q (bindR (Let v f) k)"
  by simp

lemma okR_if: "(b \<Longrightarrow> okR Q m) \<Longrightarrow> (\<not> b \<Longrightarrow> okR Q m') \<Longrightarrow> okR Q (if b then m else m')"
  by simp

lemma okR_bind_if: "(b \<Longrightarrow> okR Q (bindR m k)) \<Longrightarrow> (\<not> b \<Longrightarrow> okR Q (bindR m' k)) \<Longrightarrow> okR Q (bindR (if b then m else m') k)"
  by simp

lemma okR_bind_bind: "okR Q (bindR m (\<lambda>x. bindR (j x) k)) \<Longrightarrow> okR Q (bindR (bindR m j) k)"
  by (simp add: bindR_assoc)

lemma okR_pair: "okR Q (g a b) \<Longrightarrow> okR Q (case (a, b) of (x, y) \<Rightarrow> g x y)"
  by simp

lemma okR_bind_pair: "okR Q (bindR (g a b) k) \<Longrightarrow> okR Q (bindR (case (a, b) of (x, y) \<Rightarrow> g x y) k)"
  by simp

lemma okR_option:
  "(v = None \<Longrightarrow> okR Q m) \<Longrightarrow> (\<And>x. v = Some x \<Longrightarrow> okR Q (n x)) \<Longrightarrow> okR Q (case v of None \<Rightarrow> m | Some x \<Rightarrow> n x)"
  by (auto split: option.splits)

lemma okR_bind_option:
  "(v = None \<Longrightarrow> okR Q (bindR m k)) \<Longrightarrow> (\<And>x. v = Some x \<Longrightarrow> okR Q (bindR (n x) k)) \<Longrightarrow>
   okR Q (bindR (case v of None \<Rightarrow> m | Some x \<Rightarrow> n x) k)"
  by (auto split: option.splits)

lemma okR_prod: "(\<And>x y. p = (x, y) \<Longrightarrow> okR Q (g x y)) \<Longrightarrow> okR Q (case p of (x, y) \<Rightarrow> g x y)"
  by (auto split: prod.splits)

lemma okR_bind_prod: "(\<And>x y. p = (x, y) \<Longrightarrow> okR Q (bindR (g x y) k)) \<Longrightarrow> okR Q (bindR (case p of (x, y) \<Rightarrow> g x y) k)"
  by (auto split: prod.splits)

lemmas okR_flow = okR_Inr okR_bind_Inr okR_bind_Inl okR_let okR_bind_let okR_if okR_bind_if okR_bind_bind okR_pair okR_bind_pair
  okR_option okR_bind_option okR_prod okR_bind_prod

section \<open>Handling packets\<close>

locale packet_inv =
  fixes inv :: "router_state \<Rightarrow> bool"
  assumes inv_tx [intro]: "inv rs \<Longrightarrow> inv (rs\<lparr>tx := t\<rparr>)"
    and inv_arp_queue [intro]: "inv rs \<Longrightarrow> inv (rs\<lparr>arp_queue := q\<rparr>)"
    and inv_sping_queue [intro]: "inv rs \<Longrightarrow> inv (rs\<lparr>sping_queue := sq\<rparr>)"
    and inv_nat_table [intro]: "inv rs \<Longrightarrow> inv (rs\<lparr>nat_table := n\<rparr>)"
    and inv_rand_used [intro]: "inv rs \<Longrightarrow> inv (rs\<lparr>rand_used := k\<rparr>)"
    and inv_transport_in [intro]: "inv rs \<Longrightarrow> inv (rs\<lparr>transport_in := ti\<rparr>)"
    and inv_signals [intro]: "inv rs \<Longrightarrow> inv (rs\<lparr>signals := s\<rparr>)"
begin

lemma inv_send_packet: "send_packet p iface rs = Inr (r, rs') \<Longrightarrow> inv rs \<Longrightarrow> inv rs'"
  by (auto dest!: send_packet_tx)

lemma inv_arp_request: "send_arp_request tip interface rs = Inr rs' \<Longrightarrow> inv rs \<Longrightarrow> inv rs'"
  by (auto simp: send_arp_request_def bindR_eq_Inr dest: inv_send_packet)

lemma inv_arp_reply: "send_arp_reply p iface rs = Inr rs' \<Longrightarrow> inv rs \<Longrightarrow> inv rs'"
  by (auto simp: send_arp_reply_def bindR_eq_Inr dest: inv_send_packet)

lemma inv_arp_queue_add: "arp_queue_add p out nh rs = Inr rs' \<Longrightarrow> inv rs \<Longrightarrow> inv rs'"
  by (auto simp: arp_queue_add_def bindR_eq_Inr Let_def dest: inv_arp_request split: option.splits)

lemma inv_send_ip: "send_ip p nh out rs = Inr (r, rs') \<Longrightarrow> inv rs \<Longrightarrow> inv rs'"
  by (auto simp: send_ip_def bindR_eq_Inr dest: inv_send_packet inv_arp_queue_add split: option.splits if_splits)

lemma inv_send_icmp: "send_icmp_packet p t c rs = Inr (r, rs') \<Longrightarrow> inv rs \<Longrightarrow> inv rs'"
  by (auto simp: send_icmp_packet_def bindR_eq_Inr dest: inv_send_ip split: option.splits)

lemma inv_reply_icmp: "reply_icmp p t c rs = Inr rs' \<Longrightarrow> inv rs \<Longrightarrow> inv rs'"
  by (auto simp: reply_icmp_def bindR_eq_Inr dest: inv_send_icmp)

lemma inv_echo_request: "send_icmp_echo_request_packet dst ident rs = Inr (r, rs') \<Longrightarrow> inv rs \<Longrightarrow> inv rs'"
  by (auto simp: send_icmp_echo_request_packet_def bindR_eq_Inr dest: inv_send_ip split: option.splits)

lemma inv_echo_reply:
  assumes "process_icmp_echo_reply_packet p rs = Inr (r, rs')" "inv rs"
  shows "inv rs'"
proof -
  have "rs' = rs\<lparr>sping_queue := sping_queue rs', signals := signals rs'\<rparr>"
    using assms(1) by (auto simp: process_icmp_echo_reply_packet_def bindR_eq_Inr lock_Inr Let_def pthread_cond_signal_def)
  with inv_signals [OF inv_sping_queue [OF assms(2)]] show ?thesis by metis
qed

lemma inv_icmp_packet: "process_icmp_packet p rs = Inr rs' \<Longrightarrow> inv rs \<Longrightarrow> inv rs'"
  by (auto simp: process_icmp_packet_def bindR_eq_Inr dest: inv_send_icmp inv_echo_reply split: if_splits)

lemma inv_hit_entry: "inv rs \<Longrightarrow> inv (hit_entry i rs)"
  by (auto simp: hit_entry_def)

lemma inv_create_nat:
  assumes "create_nat_table_entry p ext rs = Inr (i, rs')" "inv rs"
  shows "inv rs'"
proof -
  have "rs' = rs\<lparr>nat_table := nat_table rs', rand_used := rand_used rs', signals := signals rs'\<rparr>"
    using assms(1) by (auto simp: create_nat_table_entry_def bindR_eq_Inr Let_def pthread_cond_signal_def)
  with inv_signals [OF inv_rand_used [OF inv_nat_table [OF assms(2)]]] show ?thesis by metis
qed

lemma inv_nat_ext: "process_nat_ext_packet p rs = Inr (q, rs') \<Longrightarrow> inv rs \<Longrightarrow> inv rs'"
  by (auto simp: process_nat_ext_packet_def bindR_eq_Inr Let_def intro: inv_hit_entry split: option.splits)

lemma inv_nat_int: "process_nat_int_packet p ext rs = Inr (q, rs') \<Longrightarrow> inv rs \<Longrightarrow> inv rs'"
  by (auto simp: process_nat_int_packet_def bindR_eq_Inr Let_def intro: inv_hit_entry dest: inv_create_nat split: option.splits if_splits)

lemma inv_upd_queue: "inv rs \<Longrightarrow> inv (upd_queue_at i f rs)" "inv rs \<Longrightarrow> inv (remove_queue_at i rs)"
  by (auto simp: upd_queue_at_def remove_queue_at_def)

text \<open>A loop over the queue keeps the invariant when it ends: \<open>ends_in\<close> is the induction hypothesis.\<close>

definition ends_in :: "router_state \<Rightarrow> router_state res \<Rightarrow> bool" where
  "ends_in rs r = (inv rs \<longrightarrow> (case r of Inl _ \<Rightarrow> True | Inr rs' \<Rightarrow> inv rs'))"

lemma ends_in_simps [simp]: "ends_in rs (Inl e)" "ends_in rs (Inr rs') \<longleftrightarrow> (inv rs \<longrightarrow> inv rs')"
  by (simp_all add: ends_in_def)

lemma ends_in_step: "ends_in rs' r \<Longrightarrow> (inv rs \<Longrightarrow> inv rs') \<Longrightarrow> ends_in rs r"
  by (simp add: ends_in_def)

lemma inv_send_entry_packets:
  assumes "send_entry_packets i rs = Some r"
  shows "ends_in rs r"
proof (rule send_entry_packets.raw_induct [where P = "\<lambda>i rs r. ends_in rs r", OF _ assms])
  fix f i and rs :: router_state and r
  let ?aqe = "arp_queue rs ! i"
  assume IH: "\<And>i rs r. f i rs = Some r \<Longrightarrow> ends_in rs r"
    and run: "(let aqe = arp_queue rs ! i in
       case aq_head aqe of [] \<Rightarrow> Some (Inr rs)
       | aqpe # rest \<Rightarrow> (case send_ip (aqp_packet aqpe) (aq_next_hop aqe) (aq_out_iface_name aqe) rs of Inl f \<Rightarrow> Some (Inl f)
           | Inr (_, rs') \<Rightarrow> let rs'' = upd_queue_at i (\<lambda>a. a\<lparr>aq_head := tl (aq_head a)\<rparr>) rs' in
               if rest = [] then Some (Inr rs'') else f i rs'')) = Some r"
  show "ends_in rs r"
  proof (cases "aq_head ?aqe")
    case (Cons aqpe rest)
    show ?thesis
    proof (cases "send_ip (aqp_packet aqpe) (aq_next_hop ?aqe) (aq_out_iface_name ?aqe) rs")
      case (Inr x)
      obtain r' rs' where x: "x = (r', rs')" by (cases x)
      have "inv rs \<Longrightarrow> inv (upd_queue_at i (\<lambda>a. a\<lparr>aq_head := tl (aq_head a)\<rparr>) rs')" using inv_send_ip Inr x inv_upd_queue(1) by blast
      then show ?thesis using run Cons Inr x by (auto simp: Let_def split: if_splits intro: ends_in_step IH)
    qed (use run Cons in \<open>auto simp: Let_def\<close>)
  qed (use run in auto)
qed

lemma inv_send_queued_from:
  assumes "send_queued_from ip i n rs = Some r"
  shows "ends_in rs r"
proof (rule send_queued_from.raw_induct [where P = "\<lambda>ip i n rs r. ends_in rs r", OF _ assms])
  fix f ip i n and rs :: router_state and r
  assume IH: "\<And>ip i n rs r. f ip i n rs = Some r \<Longrightarrow> ends_in rs r"
    and run: "(if \<not> n then Some (Inr rs)
      else let more = Suc i < length (arp_queue rs)
           in if ip = aq_next_hop (arp_queue rs ! i)
              then Option.bind (send_entry_packets i rs) (\<lambda>r. case r of Inl e \<Rightarrow> Some (Inl e) | Inr rs' \<Rightarrow> f ip i more (remove_queue_at i rs'))
              else f ip (Suc i) more rs) = Some r"
  show "ends_in rs r"
  proof (cases "n \<and> ip = aq_next_hop (arp_queue rs ! i)")
    case True
    with run obtain r1 where r1: "send_entry_packets i rs = Some r1"
        "(case r1 of Inl e \<Rightarrow> Some (Inl e) | Inr rs' \<Rightarrow> f ip i (Suc i < length (arp_queue rs)) (remove_queue_at i rs')) = Some r"
      by (auto simp: Let_def bind_eq_Some_conv)
    from inv_send_entry_packets [OF r1(1)] r1(2) show ?thesis
      by (cases r1) (auto intro: ends_in_step [OF IH] inv_upd_queue(2))
  qed (use run IH in \<open>auto simp: Let_def split: if_splits\<close>)
qed

lemma inv_send_queued_packets: "send_queued_packets ip rs = Inr rs' \<Longrightarrow> inv rs \<Longrightarrow> inv rs'"
  by (auto simp: send_queued_packets_def dest!: inv_send_queued_from split: option.splits)

lemma inv_unreachable: "unreachable_packet p rs = Inr rs' \<Longrightarrow> inv rs \<Longrightarrow> inv rs'"
  by (auto simp: unreachable_packet_def bindR_eq_Inr dest: inv_send_icmp split: if_splits)

lemma inv_expire_entry:
  assumes "expire_entry_packets i rs = Some r"
  shows "ends_in rs r"
proof (rule expire_entry_packets.raw_induct [where P = "\<lambda>i rs r. ends_in rs r", OF _ assms])
  fix f i and rs :: router_state and r
  assume IH: "\<And>i rs r. f i rs = Some r \<Longrightarrow> ends_in rs r"
    and run: "(case aq_head (arp_queue rs ! i) of [] \<Rightarrow> Some (Inr rs)
      | aqpe # _ \<Rightarrow> (case unreachable_packet (aqp_packet aqpe) rs of Inl f \<Rightarrow> Some (Inl f)
          | Inr rs' \<Rightarrow> f i (upd_queue_at i (\<lambda>a. a\<lparr>aq_head := tl (aq_head a)\<rparr>) rs'))) = Some r"
  show "ends_in rs r"
  proof (cases "aq_head (arp_queue rs ! i)")
    case (Cons aqpe rest)
    then show ?thesis using run
      by (cases "unreachable_packet (aqp_packet aqpe) rs") (auto intro: ends_in_step [OF IH] inv_upd_queue(1) inv_unreachable)
  qed (use run in auto)
qed

lemma inv_arp_queue_from:
  assumes "process_arp_queue_from i n rs = Some r"
  shows "ends_in rs r"
proof (rule process_arp_queue_from.raw_induct [where P = "\<lambda>i n rs r. ends_in rs r", OF _ assms])
  fix f i n and rs :: router_state and r
  let ?aqe = "arp_queue rs ! i" and ?more = "Suc i < length (arp_queue rs)"
  let ?rs = "upd_queue_at i (\<lambda>a. a\<lparr>aq_last_req_time := clock rs, aq_requests := aq_requests a + 1\<rparr>) rs"
  assume IH: "\<And>i n rs r. f i n rs = Some r \<Longrightarrow> ends_in rs r"
    and run: "(if \<not> n then Some (Inr rs)
      else let more = Suc i < length (arp_queue rs); aqe = arp_queue rs ! i in
        if clock rs - aq_last_req_time aqe > 1
        then if aq_requests aqe < 5
             then case send_arp_request (aq_next_hop aqe) (aq_out_iface_name aqe)
                    (upd_queue_at i (\<lambda>a. a\<lparr>aq_last_req_time := clock rs, aq_requests := aq_requests a + 1\<rparr>) rs) of
                    Inl f \<Rightarrow> Some (Inl f) | Inr rs' \<Rightarrow> f (Suc i) more rs'
             else Option.bind (expire_entry_packets i rs) (\<lambda>r. case r of Inl f \<Rightarrow> Some (Inl f)
                    | Inr rs' \<Rightarrow> f i more (remove_queue_at i rs'))
        else f (Suc i) more rs) = Some r"
  consider "\<not> n" | "n" "clock rs - aq_last_req_time ?aqe \<le> 1" | "n" "clock rs - aq_last_req_time ?aqe > 1" "aq_requests ?aqe < 5"
    | "n" "clock rs - aq_last_req_time ?aqe > 1" "aq_requests ?aqe \<ge> 5" by linarith
  then show "ends_in rs r"
  proof cases
    case 3
    then show ?thesis using run
      by (cases "send_arp_request (aq_next_hop ?aqe) (aq_out_iface_name ?aqe) ?rs")
        (auto simp: Let_def intro: ends_in_step [OF IH] inv_arp_request inv_upd_queue(1))
  next
    case 4
    with run obtain r1 where r1: "expire_entry_packets i rs = Some r1"
        "(case r1 of Inl e \<Rightarrow> Some (Inl e) | Inr rs' \<Rightarrow> f i ?more (remove_queue_at i rs')) = Some r"
      by (auto simp: Let_def bind_eq_Some_conv)
    from inv_expire_entry [OF r1(1)] r1(2) show ?thesis
      by (cases r1) (auto intro: ends_in_step [OF IH] inv_upd_queue(2))
  qed (use run IH in \<open>auto simp: Let_def\<close>)
qed

lemma inv_process_arp_queue: "process_arp_queue rs = Inr rs' \<Longrightarrow> inv rs \<Longrightarrow> inv rs'"
  by (auto simp: process_arp_queue_def dest!: inv_arp_queue_from split: option.splits)

lemma inv_send_lsu_queue: "send_lsu_queue q rs = Inr rs' \<Longrightarrow> inv rs \<Longrightarrow> inv rs'"
  by (induction q arbitrary: rs) (fastforce simp: bindR_eq_Inr dest: inv_send_ip split: option.splits)+

text \<open>The same, as postconditions.\<close>

lemma ok_packets:
  "inv rs \<Longrightarrow> okR (\<lambda>(_, x). inv x) (send_packet p iface rs)" "inv rs \<Longrightarrow> okR (\<lambda>(_, x). inv x) (send_ip p nh out rs)"
  "inv rs \<Longrightarrow> okR (\<lambda>(_, x). inv x) (send_icmp_packet p t c rs)" "inv rs \<Longrightarrow> okR inv (reply_icmp p t c rs)"
  "inv rs \<Longrightarrow> okR inv (process_icmp_packet p rs)" "inv rs \<Longrightarrow> okR inv (send_arp_reply p ie rs)"
  "inv rs \<Longrightarrow> okR (\<lambda>(_, x). inv x) (process_nat_ext_packet p rs)" "inv rs \<Longrightarrow> okR (\<lambda>(_, x). inv x) (process_nat_int_packet p ext rs)"
  "inv rs \<Longrightarrow> okR inv (send_queued_packets ip rs)" "inv rs \<Longrightarrow> okR inv (process_arp_queue rs)" "inv rs \<Longrightarrow> okR inv (send_lsu_queue lq rs)"
  using inv_send_packet inv_send_ip inv_send_icmp inv_reply_icmp inv_icmp_packet inv_arp_reply inv_nat_ext inv_nat_int
    inv_send_queued_packets inv_process_arp_queue inv_send_lsu_queue
  by (auto simp: okR_def)

end

section \<open>Link states\<close>

text \<open>What identifies a router of the list: its id and its address.\<close>

definition rident :: "pwospf_router \<Rightarrow> u32 \<times> nat" where
  "rident r = (r_router_id r, r_addr r)"

lemma rident_set_active: "map rident (set_active k i b rl) = map rident rl"
  by (cases "k < length rl") (auto simp: set_active_def rident_def map_update list_update_same_conv intro!: nth_equalityI simp: nth_list_update)

lemma rident_fold: "(\<And>x rl. x \<in> set xs \<Longrightarrow> map rident (f x rl) = map rident rl) \<Longrightarrow> map rident (fold f xs rl) = map rident rl"
  by (induction xs arbitrary: rl) auto

lemma rident_activate_one: "map rident (activate_one k i rl) = map rident rl"
  by (auto simp: activate_one_def Let_def rident_set_active activate_pair_def intro!: rident_fold trans [OF rident_fold] split: option.splits)

lemma rident_recompute: "map rident (recompute_links rl) = map rident rl"
  by (auto simp: recompute_links_def determine_active_interfaces_def rident_activate_one intro!: rident_fold)

locale link_state_inv = packet_inv +
  assumes inv_lsu_queue [intro]: "inv rs \<Longrightarrow> inv (rs\<lparr>pwospf_lsu_queue := lq\<rparr>)"
    and inv_dirty [intro]: "inv rs \<Longrightarrow> inv (rs\<lparr>dijkstra_dirty := d\<rparr>)"
    and inv_if_list [intro]: "inv rs \<Longrightarrow> inv (rs\<lparr>if_list := il\<rparr>)"
    and inv_links: "inv rs \<Longrightarrow> map rident rl = map rident (pwospf_router_list rs) \<Longrightarrow> inv (rs\<lparr>pwospf_router_list := rl\<rparr>)"
    and inv_new_router: "inv rs \<Longrightarrow> r_addr r = next_router_addr rs \<Longrightarrow> r_router_id r \<notin> set (map r_router_id (pwospf_router_list rs)) \<Longrightarrow>
      inv (rs\<lparr>pwospf_router_list := pwospf_router_list rs @ [r], next_router_addr := Suc (next_router_addr rs)\<rparr>)"
    and inv_drop_routers: "inv rs \<Longrightarrow> (\<And>r. r_router_id r = router_id rs \<Longrightarrow> P r) \<Longrightarrow>
      inv (rs\<lparr>pwospf_router_list := filter P (pwospf_router_list rs)\<rparr>)"
begin

lemma inv_signal [intro]: "inv rs \<Longrightarrow> inv (pthread_cond_signal c rs)"
  by (auto simp: pthread_cond_signal_def)

lemma inv_trigger [intro]: "inv rs \<Longrightarrow> inv (dijkstra_trigger rs)"
  by (auto simp: dijkstra_trigger_def)

lemma inv_upd_by_rid: "inv rs \<Longrightarrow> (\<And>r. rident (f r) = rident r) \<Longrightarrow> inv (upd_by_rid rid f rs)"
  by (auto simp: upd_by_rid_def intro!: inv_links map_upd_first)

lemma inv_lsu_nbrs: "queue_lsu_nbrs p src iface nbrs rs = Inr rs' \<Longrightarrow> inv rs \<Longrightarrow> inv rs'"
proof (induction nbrs arbitrary: rs)
  case (Cons nbr nbrs)
  then obtain rs1 where rs1: "queue_lsu_nbrs p src iface nbrs rs1 = Inr rs'" "rs1 = rs \<or> (\<exists>lq. rs1 = rs\<lparr>pwospf_lsu_queue := lq\<rparr>)"
    by (auto simp: bindR_eq_Inr lock_Inr Let_def split: if_splits)
  with Cons show ?case by blast
qed simp

lemma inv_lsu_ifaces: "queue_lsu_ifaces p src ifs rs = Inr rs' \<Longrightarrow> inv rs \<Longrightarrow> inv rs'"
  by (induction ifs arbitrary: rs) (auto simp: bindR_eq_Inr dest: inv_lsu_nbrs split: if_splits)

lemma inv_broadcast_lsu: "broadcast_pwospf_lsu_packet p src rs = Inr rs' \<Longrightarrow> inv rs \<Longrightarrow> inv rs'"
  by (auto simp: broadcast_pwospf_lsu_packet_def dest: inv_lsu_ifaces)

lemma inv_construct_lsu: "construct_pwospf_lsu_packet rs = Inr (p, rs') \<Longrightarrow> inv rs \<Longrightarrow> inv rs'"
  by (auto simp: construct_pwospf_lsu_packet_def bindR_eq_Inr Let_def rident_def intro!: inv_upd_by_rid split: option.splits)

lemma inv_flood: "start_lsu_bcast_flood rs = Inr rs' \<Longrightarrow> inv rs \<Longrightarrow> inv rs'"
  by (auto simp: start_lsu_bcast_flood_def bindR_eq_Inr rident_def intro!: inv_upd_by_rid dest: inv_construct_lsu inv_broadcast_lsu
      split: if_splits option.splits)

lemma inv_propagate: "propagate_pwospf_changes rs = Inr rs' \<Longrightarrow> inv rs \<Longrightarrow> inv rs'"
  by (auto simp: propagate_recomputes intro: inv_links rident_recompute dest!: inv_flood)

lemma inv_hello_new: "hello_new_neighbor iface rid rs = Inr rs' \<Longrightarrow> inv rs \<Longrightarrow> inv rs'"
  by (auto simp: hello_new_neighbor_def bindR_eq_Inr Let_def rident_def intro!: inv_upd_by_rid split: option.splits if_splits)

lemma inv_timeout_loop: "timeout_loop iface nbrs rs = Inr rs' \<Longrightarrow> inv rs \<Longrightarrow> inv rs'"
proof (induction nbrs arbitrary: rs)
  case (Cons nbr nbrs)
  then obtain rs1 where rs1: "timeout_loop iface nbrs rs1 = Inr rs'"
      "rs1 = rs \<or> (\<exists>il. rs1 = upd_by_rid (router_id rs) (\<lambda>r. r\<lparr>r_interface_list := il\<rparr>) rs)"
    by (auto simp: bindR_eq_Inr split: if_splits)
  have "inv (upd_by_rid (router_id rs) (\<lambda>r. r\<lparr>r_interface_list := il\<rparr>) rs)" for il
    using Cons.prems by (intro inv_upd_by_rid) (simp_all add: rident_def)
  with rs1 Cons show ?case by blast
qed simp

lemma inv_timedout: "determine_timedout_interface k rs = Inr (b, rs') \<Longrightarrow> inv rs \<Longrightarrow> inv rs'"
  by (auto simp: determine_timedout_interface_def Let_def bindR_eq_Inr dest!: inv_timeout_loop)

lemma inv_add_router:
  assumes "add_new_router_neighbor p rs = Inr rs'" "ld32 p (pwospf_at + 4) = Inr rid" "get_router_by_rid rid (pwospf_router_list rs) = None" "inv rs"
  shows "inv rs'"
proof -
  have "rid \<notin> set (map r_router_id (pwospf_router_list rs))" using assms(3) by (auto simp: get_router_by_rid_def find_None_iff)
  then show ?thesis using assms by (auto simp: add_new_router_neighbor_def bindR_eq_Inr Let_def intro!: inv_new_router)
qed

lemma inv_learn_lsu:
  assumes "learn_lsu p rid seq rs = Inr (b, c, rs')" "ld32 p (pwospf_at + 4) = Inr rid" "inv rs"
  shows "inv rs'"
  using assms
  by (auto simp: learn_lsu_def bindR_eq_Inr rident_def intro!: inv_upd_by_rid intro: inv_add_router split: option.splits if_splits)

lemma ok_link_states:
  "inv rs \<Longrightarrow> okR inv (propagate_pwospf_changes rs)" "inv rs \<Longrightarrow> okR inv (hello_new_neighbor ie rid rs)"
  "inv rs \<Longrightarrow> okR inv (broadcast_pwospf_lsu_packet p src rs)" "inv rs \<Longrightarrow> okR inv (start_lsu_bcast_flood rs)"
  "inv rs \<Longrightarrow> okR (\<lambda>(_, x). inv x) (determine_timedout_interface k rs)"
  using inv_propagate inv_hello_new inv_broadcast_lsu inv_flood inv_timedout by (auto simp: okR_def)

lemma ok_learn_lsu: "ld32 p (pwospf_at + 4) = Inr rid \<Longrightarrow> inv rs \<Longrightarrow> okR (\<lambda>(_, _, x). inv x) (learn_lsu p rid seq rs)"
  using inv_learn_lsu by (auto simp: okR_def)

lemmas packet_steps = ok_packets(1,2,3,7,8) [THEN okR_act_seq] ok_packets(4,5,6,9,10,11) [THEN okR_seq]

lemmas link_steps = ok_link_states(1-4) [THEN okR_seq] ok_link_states(5) [THEN okR_act_seq]

lemmas updates = inv_if_list inv_dirty inv_lsu_queue inv_signal inv_trigger inv_transport_in

end

end
