(* ===== verification/Init.thy ===== *)
theory Init
  imports Ip
begin

text \<open>
  How the router starts: \<^verbatim>\<open>init\<close>, \<^verbatim>\<open>init_ospf\<close>, \<^verbatim>\<open>init_router_list\<close> and \<^verbatim>\<open>init_rtable\<close> of \<^verbatim>\<open>or_main.c\<close>, the
  interfaces that the VNS server announces (\<^verbatim>\<open>sr_vns.c\<close>), and the two orders in which \<^verbatim>\<open>sr_init_low_level_subystem\<close>
  of \<^verbatim>\<open>sr_base.c\<close> calls them: on the NetFPGA, and as a client of the VNS server.

  The lines of the routing table file are given as the four values that \<^verbatim>\<open>sscanf\<close> and \<^verbatim>\<open>inet_pton\<close> read from each.
  Allocation, the creation of mutexes and threads and the opening of sockets succeed. The command table of \<^verbatim>\<open>init_cli\<close> is not part of the state.
\<close>

section \<open>The state\<close>

definition init_hardware :: "router_state \<Rightarrow> router_state res" where
  "init_hardware rs = write_rtable_to_hw (write_arp_cache_to_hw rs)"

definition init :: "environment \<Rightarrow> router_state res" where
  "init e =
    (let rs = (bzero_state e)\<lparr>area_id := 0, arp_ttl := 300, nat_timeout := 120\<rparr> in
     if cpumode e then init_hardware (rs\<lparr>is_netfpga := True\<rparr>) else Inr (rs\<lparr>is_netfpga := False\<rparr>))"

text \<open>224.0.0.5 as \<^verbatim>\<open>inet_pton\<close> stores it.\<close>

definition init_ospf :: "router_state \<Rightarrow> router_state res" where
  "init_ospf rs =
    (let rs = rs\<lparr>pwospf_hello_interval := 5, pwospf_lsu_interval := 30, pwospf_lsu_broadcast := 1\<rparr> in
     if is_netfpga rs then bindR (add_local_ip_filter (htonl PWOSPF_HELLO_TIP) ''pwospf'' rs) (\<lambda>(_, rs). Inr rs)
     else Inr rs)"

definition init_router_list :: "router_state \<Rightarrow> router_state res" where
  "init_router_list rs =
    bindR (assertR (pwospf_router_list rs = [])) (\<lambda>_.
    let our_router = \<lparr>r_addr = next_router_addr rs, r_router_id = router_id rs, r_area_id = area_id rs, r_seq = 0,
          r_last_update = clock rs, r_distance = 0, r_shortest_path_found = False,
          r_interface_list = map (\<lambda>ie. \<lparr>pi_subnet = if_ip ie AND if_mask ie, pi_mask = if_mask ie, pi_router_id = 0, pi_active = False\<rparr>)
            (if_list rs),
          r_prev_router = None\<rparr>
    in Inr (rs\<lparr>pwospf_router_list := [our_router], next_router_addr := Suc (next_router_addr rs)\<rparr>))"

text \<open>The routes of the file are appended as they come. \<open>mutex_made\<close> tells whether \<^verbatim>\<open>init_ospf\<close> has created the router
  list mutex, which a default route makes this function lock.\<close>

definition rtable_line :: "u32 \<times> u32 \<times> u32 \<times> string \<Rightarrow> rtable_entry" where
  "rtable_line l = (case l of (ip, gw, msk, iface) \<Rightarrow>
    \<lparr>re_ip = ip, re_gw = gw, re_mask = msk, re_iface = take 32 iface, re_static = True, re_active = True\<rparr>)"

definition init_rtable :: "bool \<Rightarrow> (u32 \<times> u32 \<times> u32 \<times> string) list \<Rightarrow> router_state \<Rightarrow> router_state res" where
  "init_rtable mutex_made file rs =
    bindR (acquire RtableLock Wr rs) (\<lambda>rs.
    let rs = rs\<lparr>rtable := rtable rs @ map rtable_line file\<rparr>; default_route = default_route_present rs in
    bindR (release RtableLock rs) (\<lambda>rs.
    bindR (case default_route of
             None \<Rightarrow> Inr rs
           | Some pi \<Rightarrow>
               if \<not> mutex_made then Inl NullDeref
               else
                 bindR (acquire RouterListMutex Wr rs) (\<lambda>rs.
                 bindR (derefR (get_our_router rs)) (\<lambda>_.
                 release RouterListMutex
                   (upd_by_rid (router_id rs) (\<lambda>r. r\<lparr>r_interface_list := r_interface_list r @ [pi]\<rparr>) rs)))) (\<lambda>rs.
    Inr (dijkstra_trigger rs))))"

definition sr_integ_hw_setup :: "bool \<Rightarrow> (u32 \<times> u32 \<times> u32 \<times> string) list \<Rightarrow> router_state \<Rightarrow> router_state res" where
  "sr_integ_hw_setup mutex_made file rs = bindR (init_router_list rs) (init_rtable mutex_made file)"

section \<open>Interfaces announced by the VNS server\<close>

text \<open>\<open>junk\<close> is the local variable \<^verbatim>\<open>vns_if\<close> before its first assignment; fields that the message does not set keep the values
  of the interface before. \<open>HWOTHER\<close> is an entry with any other key, which is only printed.\<close>

datatype hw_entry = HWINTERFACE string | HWSPEED u32 | HWSUBNET u32 | HWMASK u32 | HWETHIP u32 | HWETHER "u8 list" | HWFIXEDIP u32
  | HWOTHER u32

fun handle_hw_entries :: "hw_entry list \<Rightarrow> sr_vns_if \<Rightarrow> router_state \<Rightarrow> (sr_vns_if \<times> router_state) res" where
  "handle_hw_entries [] v rs = Inr (v, rs)"
| "handle_hw_entries (HWINTERFACE n # es) v rs =
    bindR (if vns_name v \<noteq> [] then init_add_interface v rs else Inr rs) (\<lambda>rs.
    handle_hw_entries es (v\<lparr>vns_name := take 32 n\<rparr>) rs)"
| "handle_hw_entries (HWSPEED s # es) v rs = handle_hw_entries es (v\<lparr>vns_speed := ntohl s\<rparr>) rs"
| "handle_hw_entries (HWMASK m # es) v rs = handle_hw_entries es (v\<lparr>vns_mask := m\<rparr>) rs"
| "handle_hw_entries (HWETHIP a # es) v rs = handle_hw_entries es (v\<lparr>vns_ip := a\<rparr>) rs"
| "handle_hw_entries (HWETHER ha # es) v rs = handle_hw_entries es (v\<lparr>vns_addr := take 6 ha\<rparr>) rs"
| "handle_hw_entries (HWSUBNET _ # es) v rs = handle_hw_entries es v rs"
| "handle_hw_entries (HWFIXEDIP _ # es) v rs = handle_hw_entries es v rs"
| "handle_hw_entries (HWOTHER _ # es) v rs = handle_hw_entries es v rs"

definition sr_handle_hwinfo :: "hw_entry list \<Rightarrow> sr_vns_if \<Rightarrow> (u32 \<times> u32 \<times> u32 \<times> string) list \<Rightarrow> router_state \<Rightarrow> router_state res" where
  "sr_handle_hwinfo hwinfo junk file rs =
    bindR (handle_hw_entries hwinfo (junk\<lparr>vns_name := []\<rparr>) rs) (\<lambda>(v, rs).
    bindR (if vns_name v \<noteq> [] then init_add_interface v rs else Inr rs) (\<lambda>rs.
    sr_integ_hw_setup True file rs))"

section \<open>The two ways to start\<close>

fun add_interfaces :: "sr_vns_if list \<Rightarrow> router_state \<Rightarrow> router_state res" where
  "add_interfaces [] rs = Inr rs"
| "add_interfaces (v # vs) rs = bindR (init_add_interface v rs) (add_interfaces vs)"

definition boot_cpu :: "environment \<Rightarrow> sr_vns_if list \<Rightarrow> (u32 \<times> u32 \<times> u32 \<times> string) list \<Rightarrow> router_state res" where
  "boot_cpu e hwfile file =
    bindR (init e) (\<lambda>rs.
    bindR (add_interfaces hwfile rs) (\<lambda>rs.
    bindR (sr_integ_hw_setup False file rs) init_ospf))"

definition boot_vns :: "environment \<Rightarrow> hw_entry list \<Rightarrow> sr_vns_if \<Rightarrow> (u32 \<times> u32 \<times> u32 \<times> string) list \<Rightarrow> router_state res" where
  "boot_vns e hwinfo junk file =
    bindR (init e) (\<lambda>rs.
    bindR (init_ospf rs) (sr_handle_hwinfo hwinfo junk file))"

end
