(* ===== verification/Router_System.thy ===== *)
theory Router_System
  imports Frame Init
begin

text \<open>
  The router as a whole: the handlers and the threads as the events of a transition system. An event runs to its end
  before the next one starts; the locks a handler leaves behind stay in the state, and an event that would wait for one of them for ever, or
  that faults, has no step. \<open>control_inv\<close> is the contract of an invariant with the events: what the components do to the state is
  checked once against it, and every event keeps every invariant that meets it.
\<close>

section \<open>Events\<close>

datatype event = Receive packet string | IpOutput u8 u32 u32 packet | FindSrcIp u32 | ArpThread | HelloThread | LsuThread
  | LsuTimeoutThread | LsuBcastThread | DijkstraThread bool | Tick nat

inductive router_step :: "event \<Rightarrow> router_state \<Rightarrow> router_state \<Rightarrow> bool" where
  receive: "process_packet p interface rs = Inr rs' \<Longrightarrow> router_step (Receive p interface) rs rs'"
| ip_output: "integ_ip_output payload proto src dest rs = Inr (ret, rs') \<Longrightarrow> router_step (IpOutput proto src dest payload) rs rs'"
| find_src: "find_srcip dest rs = Inr (ip, rs') \<Longrightarrow> router_step (FindSrcIp dest) rs rs'"
| arp: "arp_thread_step rs = Inr rs' \<Longrightarrow> router_step ArpThread rs rs'"
| hello: "pwospf_hello_thread_step rs = Inr rs' \<Longrightarrow> router_step HelloThread rs rs'"
| lsu: "pwospf_lsu_thread_step rs = Inr rs' \<Longrightarrow> router_step LsuThread rs rs'"
| lsu_timeout: "pwospf_lsu_timeout_thread_step rs = Inr rs' \<Longrightarrow> router_step LsuTimeoutThread rs rs'"
| lsu_bcast: "pwospf_lsu_bcast_thread_step rs = Inr rs' \<Longrightarrow> router_step LsuBcastThread rs rs'"
| dijkstra: "dijkstra_thread_step timedout rs = Inr rs' \<Longrightarrow> router_step (DijkstraThread timedout) rs rs'"
| tick: "router_step (Tick n) rs (rs\<lparr>clock := clock rs + int n\<rparr>)"

inductive_cases router_stepE: "router_step e rs rs'"

inductive_simps router_step_receive: "router_step (Receive p interface) rs rs'"

text \<open>The states of a router that was started in one of the two ways.\<close>

inductive reachable :: "router_state \<Rightarrow> bool" where
  start_cpu: "boot_cpu e hwfile file = Inr rs \<Longrightarrow> reachable rs"
| start_vns: "boot_vns e hwinfo junk file = Inr rs \<Longrightarrow> reachable rs"
| step: "reachable rs \<Longrightarrow> router_step ev rs rs' \<Longrightarrow> reachable rs'"

section \<open>What an event may change\<close>

lemma write_tcam_rows_frame: "write_tcam_rows i n cur rs = Inr rs' \<Longrightarrow> \<exists>r. rs' = rs\<lparr>regs := r\<rparr>"
proof (induction i n cur rs rule: write_tcam_rows.induct)
  case (1 i cur rs)
  then have "rs' = rs\<lparr>regs := regs rs\<rparr>" by simp
  then show ?case by blast
qed (auto simp: bindR_eq_Inr write_tcam_row_regs)

lemma trigger_rtable_frame:
  assumes "trigger_rtable_modified rs = Inr rs'"
  shows "\<exists>t r. rs' = rs\<lparr>rtable := t, regs := r\<rparr> \<and> mset t = mset (rtable rs)"
proof -
  have "\<exists>r. rs' = rs\<lparr>rtable := sort_key rt_key (rtable rs)\<rparr>\<lparr>regs := r\<rparr>"
  proof (cases "is_netfpga rs")
    case True
    then show ?thesis using assms by (auto simp: trigger_rtable_modified_eq write_rtable_to_hw_def Let_def dest!: write_tcam_rows_frame)
  next
    case False
    then have rs': "rs' = rs\<lparr>rtable := sort_key rt_key (rtable rs)\<rparr>" using assms by (simp add: trigger_rtable_modified_eq Let_def)
    show ?thesis by (rule exI [of _ "regs rs"]) (simp add: rs')
  qed
  then show ?thesis by (metis mset_sort)
qed

lemma unwrap_routes_dynamic: "unwrap_routes ifs ws = Inr routes \<Longrightarrow> list_all (\<lambda>e. \<not> re_static e \<and> re_active e) routes"
proof (induction ws arbitrary: routes)
  case (Cons w ws)
  show ?case
  proof (cases "case get_iface_by_rid (rw_next_rid w) ifs of Some i \<Rightarrow> Some i | None \<Rightarrow> get_iface_by_subnet_mask (rw_ip w) (rw_mask w) ifs")
    case None
    then show ?thesis using Cons by simp
  next
    case (Some iface)
    with Cons.prems obtain gw es where "unwrap_routes ifs ws = Inr es" "routes = \<lparr>re_ip = rw_ip w, re_gw = gw, re_mask = rw_mask w,
        re_iface = if_name iface, re_static = False, re_active = True\<rparr> # es"
      by (auto simp: bindR_eq_Inr)
    with Cons.IH show ?thesis by simp
  qed
qed simp

lemma compute_rtable_dynamic:
  assumes "compute_rtable us rl ifs = Inr (routes, rl')"
  shows "map rident rl' = map rident rl" "filter re_static routes = []"
proof -
  have "rl' = shortest_paths us rl" "\<exists>ws. unwrap_routes ifs ws = Inr routes"
    using assms by (auto simp: compute_rtable_def bindR_eq_Inr Let_def)
  moreover have "map rident rl = map (\<lambda>(i, a, _). (i, a)) (map topo rl)" for rl by (simp add: rident_def topo_def)
  ultimately show "map rident rl' = map rident rl" by (metis topo_shortest_paths)
  show "filter re_static routes = []" using \<open>\<exists>ws. _ ws = Inr routes\<close> unwrap_routes_dynamic by (auto simp: filter_empty_conv list_all_iff)
qed

abbreviation static_routes :: "rtable_entry list \<Rightarrow> rtable_entry multiset" where
  "static_routes t \<equiv> filter_mset re_static (mset t)"

locale control_inv = link_state_inv +
  assumes inv_held [intro]: "inv rs \<Longrightarrow> inv (rs\<lparr>held := h\<rparr>)"
    and inv_clock [intro]: "inv rs \<Longrightarrow> inv (rs\<lparr>clock := c\<rparr>)"
    and inv_regs [intro]: "inv rs \<Longrightarrow> inv (rs\<lparr>regs := ws\<rparr>)"
    and inv_cache_update: "inv rs \<Longrightarrow> inv (snd (update_arp_cache ip ha st rs))"
    and inv_cache_expire: "inv rs \<Longrightarrow> inv (expire_arp_cache rs)"
    and inv_rtable: "inv rs \<Longrightarrow> static_routes t = static_routes (rtable rs) \<Longrightarrow> inv (rs\<lparr>rtable := t\<rparr>)"
begin

lemma ok_acquire: "inv rs \<Longrightarrow> okR inv (acquire l m rs)"
  by (auto simp: acquire_Inr okR_def)

lemma ok_release: "inv rs \<Longrightarrow> okR inv (release l rs)"
  by (auto simp: release_Inr okR_def)

lemma inv_trigger_rtable:
  assumes "trigger_rtable_modified rs = Inr rs'" "inv rs"
  shows "inv rs'"
proof -
  obtain t r where t: "rs' = rs\<lparr>rtable := t, regs := r\<rparr>" "mset t = mset (rtable rs)" using trigger_rtable_frame [OF assms(1)] by blast
  have "inv (rs\<lparr>rtable := t\<rparr>)" using assms(2) by (rule inv_rtable) (simp add: t(2))
  then show ?thesis unfolding t(1) by (rule inv_regs)
qed

lemma ok_trigger_rtable: "inv rs \<Longrightarrow> okR inv (trigger_rtable_modified rs)"
  using inv_trigger_rtable by (auto simp: okR_def)

lemmas control_steps = ok_acquire [THEN okR_seq] ok_release [THEN okR_seq] ok_trigger_rtable [THEN okR_seq]

lemma inv_if: "inv rs \<Longrightarrow> inv rs' \<Longrightarrow> inv (if b then rs else rs')"
  by simp

lemmas inv_rules = packet_steps link_steps control_steps ok_packets ok_link_states ok_acquire ok_release okR_flow okR_pure
  updates inv_clock inv_cache_update inv_cache_expire inv_if case_prodI

lemma ok_hello_packet: "inv rs \<Longrightarrow> okR inv (process_pwospf_hello_packet p interface rs)"
  unfolding process_pwospf_hello_packet_def upd_iface_def by (rule inv_rules | assumption)+

lemma okR_learn:
  assumes "ld32 p (pwospf_at + 4) = Inr rid" "inv rs" "\<And>b c x. inv x \<Longrightarrow> okR Q (k (b, c, x))"
  shows "okR Q (bindR (learn_lsu p rid seq rs) k)"
proof (rule okR_seq [OF ok_learn_lsu [OF assms(1,2)]])
  fix r :: "bool \<times> bool \<times> router_state"
  assume "case r of (_, _, x) \<Rightarrow> inv x"
  then show "okR Q (k r)" using assms(3) by (cases r) auto
qed

lemma ok_lsu_packet: "inv rs \<Longrightarrow> okR inv (process_pwospf_lsu_packet p rs)"
  unfolding process_pwospf_lsu_packet_def by (rule okR_learn inv_rules | assumption)+

lemma ok_pwospf_packet: "inv rs \<Longrightarrow> okR inv (process_pwospf_packet p interface rs)"
  unfolding process_pwospf_packet_def by (rule ok_hello_packet ok_lsu_packet inv_rules | assumption)+

lemma ok_deliver: "inv rs \<Longrightarrow> okR inv (deliver_packet p interface rs)"
  unfolding deliver_packet_def by (rule ok_pwospf_packet inv_rules | assumption)+

lemma ok_forward: "inv rs \<Longrightarrow> okR inv (forward_packet p nh out rs)"
  unfolding forward_packet_def by (rule inv_rules | assumption)+

lemma ok_route: "inv rs \<Longrightarrow> okR inv (route_packet p interface rs)"
  unfolding route_packet_def by (rule ok_forward inv_rules | assumption)+

lemma ok_handle: "inv rs \<Longrightarrow> okR inv (handle_packet p interface rs)"
  unfolding handle_packet_def by (rule ok_deliver ok_pwospf_packet ok_route inv_rules | assumption)+

lemma ok_tables: "inv rs \<Longrightarrow> okR inv (lock_tables rs)" "inv rs \<Longrightarrow> okR inv (unlock_tables rs)"
  unfolding lock_tables_def unlock_tables_def by (rule inv_rules | assumption)+

lemma ok_ip_packet: "inv rs \<Longrightarrow> okR inv (process_ip_packet p interface rs)"
  unfolding process_ip_packet_def by (rule ok_tables [THEN okR_seq] ok_handle [THEN okR_seq] ok_tables inv_rules | assumption)+

lemma ok_arp_packet: "inv rs \<Longrightarrow> okR inv (process_arp_packet p rs)"
  unfolding process_arp_packet_def process_arp_request_def process_arp_reply_def by (rule inv_rules | assumption)+

lemma ok_receive: "inv rs \<Longrightarrow> okR inv (process_packet p interface rs)"
  unfolding process_packet_def iface_is_active_def by (rule ok_ip_packet ok_arp_packet inv_rules | assumption)+

lemma ok_output: "inv rs \<Longrightarrow> okR (\<lambda>(_, x). inv x) (integ_ip_output payload proto src dest rs)"
  unfolding integ_ip_output_def send_ip_packet_def by (rule ok_tables [THEN okR_seq] inv_rules | assumption)+

lemma ok_find_srcip: "inv rs \<Longrightarrow> okR (\<lambda>(_, x). inv x) (find_srcip dest rs)"
  unfolding find_srcip_def by (rule inv_rules | assumption)+

lemma ok_arp_thread: "inv rs \<Longrightarrow> okR inv (arp_thread_step rs)"
  unfolding arp_thread_step_def by (rule inv_rules | assumption)+

lemma ok_hello_iface: "inv rs \<Longrightarrow> okR (\<lambda>(_, x). inv x) (hello_iface k rs)"
  unfolding hello_iface_def by (rule inv_rules | assumption)+

lemma ok_hello_loop: "inv rs \<Longrightarrow> okR (\<lambda>(_, x). inv x) (hello_loop ks b rs)"
proof (induction ks arbitrary: b rs)
  case (Cons k ks)
  show ?case unfolding hello_loop.simps
    by (rule ok_hello_iface [THEN okR_act_seq] inv_rules | rule Cons | assumption)+
qed (simp add: okR_def)

lemma ok_hello_thread: "inv rs \<Longrightarrow> okR inv (pwospf_hello_thread_step rs)"
  unfolding pwospf_hello_thread_step_def broadcast_pwospf_hello_packet_def
  by (rule ok_hello_loop [THEN okR_act_seq] inv_rules | assumption)+

lemma ok_lsu_thread: "inv rs \<Longrightarrow> okR inv (pwospf_lsu_thread_step rs)"
  unfolding pwospf_lsu_thread_step_def by (rule inv_rules | assumption)+

lemma inv_router_timeout: "inv rs \<Longrightarrow> inv (rs\<lparr>pwospf_router_list := filter (\<lambda>r. \<not> router_timedout rs r) (pwospf_router_list rs)\<rparr>)"
  by (rule inv_drop_routers) (simp_all add: router_timedout_def)

lemma ok_lsu_timeout: "inv rs \<Longrightarrow> okR inv (pwospf_lsu_timeout_thread_step rs)"
  unfolding pwospf_lsu_timeout_thread_step_def by (rule inv_router_timeout inv_rules | assumption)+

lemma ok_lsu_bcast: "inv rs \<Longrightarrow> okR inv (pwospf_lsu_bcast_thread_step rs)"
  unfolding pwospf_lsu_bcast_thread_step_def by (rule inv_rules | assumption)+

lemma okR_compute:
  assumes "inv rs" "\<And>routes rl. inv (rs\<lparr>pwospf_router_list := rl, rtable := rtable rs @ routes\<rparr>) \<Longrightarrow> okR Q (k (routes, rl))"
  shows "okR Q (bindR (compute_rtable us (pwospf_router_list rs) ifs) k)"
proof (rule okR_pure)
  fix x assume x: "compute_rtable us (pwospf_router_list rs) ifs = Inr x"
  obtain routes rl where r: "x = (routes, rl)" by (cases x)
  note d = compute_rtable_dynamic [OF x [unfolded r]]
  have "inv (rs\<lparr>pwospf_router_list := rl\<rparr>)" using assms(1) d(1) by (rule inv_links)
  then have "inv (rs\<lparr>pwospf_router_list := rl\<rparr>\<lparr>rtable := rtable rs @ routes\<rparr>)"
    by (rule inv_rtable) (use d(2) in \<open>simp flip: mset_filter\<close>)
  then show "okR Q (k x)" unfolding r by (intro assms(2)) simp
qed

lemma inv_drop_dynamic: "inv rs \<Longrightarrow> inv (rs\<lparr>rtable := filter re_static (rtable rs)\<rparr>)"
  by (rule inv_rtable) (simp_all flip: mset_filter)

lemma ok_dijkstra: "inv rs \<Longrightarrow> okR inv (dijkstra_thread_step timedout rs)"
  unfolding dijkstra_thread_step_def by (rule okR_compute inv_drop_dynamic inv_rules | assumption)+

text \<open>Every event keeps the invariant.\<close>

lemma router_step_inv:
  assumes "router_step e rs rs'" "inv rs"
  shows "inv rs'"
  using assms(1)
proof cases
  case (ip_output payload proto src dest ret)
  from okR_D [OF ok_output [OF assms(2)] ip_output(2)] show ?thesis by simp
next
  case (find_src dest ip)
  from okR_D [OF ok_find_srcip [OF assms(2)] find_src(2)] show ?thesis by simp
next
  case (receive p interface)
  then show ?thesis using okR_D [OF ok_receive [OF assms(2)]] by simp
next
  case (dijkstra timedout)
  then show ?thesis using okR_D [OF ok_dijkstra [OF assms(2)]] by simp
next
  case (tick n)
  then show ?thesis using assms(2) by auto
qed (use okR_D [OF ok_arp_thread [OF assms(2)]] okR_D [OF ok_hello_thread [OF assms(2)]] okR_D [OF ok_lsu_thread [OF assms(2)]]
    okR_D [OF ok_lsu_timeout [OF assms(2)]] okR_D [OF ok_lsu_bcast [OF assms(2)]] in simp_all)

end

section \<open>Invariants\<close>

text \<open>The router list: ids and addresses are unique, our own router is in it, addresses are never reused.\<close>

definition router_ids_ok :: "router_state \<Rightarrow> bool" where
  "router_ids_ok rs =
    (ids_ok (pwospf_router_list rs) \<and> router_id rs \<in> set (map r_router_id (pwospf_router_list rs)) \<and>
     list_all (\<lambda>r. r_addr r < next_router_addr rs) (pwospf_router_list rs))"

lemma router_ids_rident:
  "router_ids_ok rs \<longleftrightarrow>
    distinct (map fst (map rident (pwospf_router_list rs))) \<and> distinct (map snd (map rident (pwospf_router_list rs))) \<and>
    router_id rs \<in> fst ` set (map rident (pwospf_router_list rs)) \<and>
    (\<forall>a\<in>snd ` set (map rident (pwospf_router_list rs)). a < next_router_addr rs)"
  by (auto simp: router_ids_ok_def ids_ok_def rident_def comp_def list_all_iff image_image)

lemma arp_frame_router [simp]:
  "pwospf_router_list (snd (update_arp_cache ip ha st rs)) = pwospf_router_list rs" "router_id (snd (update_arp_cache ip ha st rs)) = router_id rs"
  "next_router_addr (snd (update_arp_cache ip ha st rs)) = next_router_addr rs" "rtable (snd (update_arp_cache ip ha st rs)) = rtable rs"
  "pwospf_router_list (expire_arp_cache rs) = pwospf_router_list rs" "router_id (expire_arp_cache rs) = router_id rs"
  "next_router_addr (expire_arp_cache rs) = next_router_addr rs" "rtable (expire_arp_cache rs) = rtable rs"
  by (auto simp: update_arp_cache_def expire_arp_cache_def trigger_arp_cache_modified_def write_arp_cache_eq log_regs_def Let_def split: option.splits)

interpretation ids: control_inv router_ids_ok
proof
  fix rs rl assume "router_ids_ok rs" "map rident rl = map rident (pwospf_router_list rs)"
  then show "router_ids_ok (rs\<lparr>pwospf_router_list := rl\<rparr>)" by (simp add: router_ids_rident)
next
  fix rs :: router_state and r :: pwospf_router
  assume "router_ids_ok rs" "r_addr r = next_router_addr rs" "r_router_id r \<notin> set (map r_router_id (pwospf_router_list rs))"
  then show "router_ids_ok (rs\<lparr>pwospf_router_list := pwospf_router_list rs @ [r], next_router_addr := Suc (next_router_addr rs)\<rparr>)"
    by (auto simp: router_ids_ok_def ids_ok_def list_all_iff less_Suc_eq)
next
  fix rs :: router_state and P :: "pwospf_router \<Rightarrow> bool"
  assume "router_ids_ok rs" "\<And>r. r_router_id r = router_id rs \<Longrightarrow> P r"
  then show "router_ids_ok (rs\<lparr>pwospf_router_list := filter P (pwospf_router_list rs)\<rparr>)"
    by (auto simp: router_ids_ok_def ids_ok_def list_all_iff distinct_map intro: inj_on_subset)
qed (simp_all add: router_ids_ok_def)

interpretation cache: control_inv arp_cache_inv
proof
  fix rs ip ha st assume "arp_cache_inv rs"
  then show "arp_cache_inv (snd (update_arp_cache ip ha st rs))"
    using arp.upd_inv [of rs ip "(ha, st)"] by (simp add: arp_upd_def)
next
  fix rs assume "arp_cache_inv rs"
  then show "arp_cache_inv (expire_arp_cache rs)"
    by (auto simp: arp_cache_inv_def expire_arp_cache_def Let_def distinct_map intro: inj_on_subset)
qed (simp_all add: arp_cache_inv_def)

interpretation statics: control_inv "\<lambda>rs. static_routes (rtable rs) = M" for M
  by unfold_locales simp_all

section \<open>Starting the router\<close>

lemma write_filter_rows_frame: "\<exists>r. write_filter_rows i n cur rs = rs\<lparr>regs := r\<rparr>"
proof (induction i n cur rs rule: write_filter_rows.induct)
  case (1 i cur rs)
  show ?case by (rule exI [of _ "regs rs"]) simp
qed (auto simp: write_filter_row_def writeReg_def)

text \<open>Starting the router changes what no event changes: the filters, the intervals and the static routes.\<close>

locale boot_inv = control_inv +
  assumes inv_any_rtable: "inv rs \<Longrightarrow> inv (rs\<lparr>rtable := t\<rparr>)" and inv_filters: "inv rs \<Longrightarrow> inv (rs\<lparr>local_ip_filter_list := fs\<rparr>)"
    and inv_hello_interval: "inv rs \<Longrightarrow> inv (rs\<lparr>pwospf_hello_interval := hi\<rparr>)"
    and inv_lsu_interval: "inv rs \<Longrightarrow> inv (rs\<lparr>pwospf_lsu_interval := li\<rparr>)"
    and inv_lsu_broadcast: "inv rs \<Longrightarrow> inv (rs\<lparr>pwospf_lsu_broadcast := lb\<rparr>)"
begin

lemma inv_filter_rows: "inv rs \<Longrightarrow> inv (write_filter_rows i n cur rs)"
  using write_filter_rows_frame [of i n cur rs] by (auto simp: inv_regs)

lemma inv_more_advs: "inv rs \<Longrightarrow> inv (upd_by_rid rid (\<lambda>r. r\<lparr>r_interface_list := r_interface_list r @ is\<rparr>) rs)"
  by (rule inv_upd_by_rid) (simp_all add: rident_def)

lemmas boot_rules = inv_rules inv_any_rtable inv_filters inv_hello_interval inv_lsu_interval inv_lsu_broadcast inv_filter_rows inv_more_advs

lemma ok_filters_change: "inv rs \<Longrightarrow> okR inv (trigger_local_ip_filters_change rs)"
  unfolding trigger_local_ip_filters_change_def by (rule boot_rules | assumption)+

lemma ok_add_filter: "inv rs \<Longrightarrow> okR (\<lambda>(_, x). inv x) (add_local_ip_filter ip name rs)"
  unfolding add_local_ip_filter_def by (rule ok_filters_change [THEN okR_seq] boot_rules | assumption)+

lemma ok_init_ospf: "inv rs \<Longrightarrow> okR inv (init_ospf rs)"
  unfolding init_ospf_def by (rule ok_add_filter [THEN okR_act_seq] boot_rules | assumption)+

lemma ok_init_rtable: "inv rs \<Longrightarrow> okR inv (init_rtable mm file rs)"
  unfolding init_rtable_def by (rule boot_rules | assumption)+

end

interpretation boot_ids: boot_inv router_ids_ok
  by unfold_locales (simp_all add: router_ids_ok_def)

interpretation boot_cache: boot_inv arp_cache_inv
  by unfold_locales (simp_all add: arp_cache_inv_def)

lemma init_router_list_ids: "okR router_ids_ok (init_router_list rs)"
  by (auto simp: okR_def init_router_list_def bindR_eq_Inr Let_def router_ids_ok_def ids_ok_def)

lemma init_router_list_cache: "arp_cache_inv rs \<Longrightarrow> okR arp_cache_inv (init_router_list rs)"
  by (auto simp: okR_def init_router_list_def bindR_eq_Inr Let_def arp_cache_inv_def)

lemma cache_interface:
  "arp_cache_inv rs \<Longrightarrow> arp_cache_inv (write_hw_iface_mac port hi lo rs)" "arp_cache_inv rs \<Longrightarrow> arp_cache_inv (rs\<lparr>router_id := i\<rparr>)"
  by (simp_all add: arp_cache_inv_def write_hw_iface_mac_def writeReg_def)

lemma add_interface_cache: "arp_cache_inv rs \<Longrightarrow> okR arp_cache_inv (init_add_interface v rs)"
  unfolding init_add_interface_def
  by (rule boot_cache.ok_add_filter [THEN okR_act_seq] cache_interface boot_cache.boot_rules | assumption)+

lemma hw_setup_ok: "arp_cache_inv rs \<Longrightarrow> okR (\<lambda>rs. router_ids_ok rs \<and> arp_cache_inv rs) (sr_integ_hw_setup mm file rs)"
proof -
  assume "arp_cache_inv rs"
  then have "okR (\<lambda>rs. router_ids_ok rs \<and> arp_cache_inv rs) (init_router_list rs)"
    using init_router_list_ids [of rs] init_router_list_cache [of rs] by (simp add: okR_def)
  then show "okR (\<lambda>rs. router_ids_ok rs \<and> arp_cache_inv rs) (sr_integ_hw_setup mm file rs)"
    unfolding sr_integ_hw_setup_def
    by (rule okR_seq) (use boot_ids.ok_init_rtable [of _ mm "file"] boot_cache.ok_init_rtable [of _ mm "file"] in \<open>auto simp: okR_def\<close>)
qed

lemma init_cache: "okR arp_cache_inv (init e)"
proof -
  have "okR arp_cache_inv (init_hardware rs)" if "arp_cache rs = []" for rs
    using that by (auto simp: okR_def init_hardware_def write_rtable_to_hw_def write_arp_cache_eq log_regs_def arp_cache_inv_def
        dest!: write_tcam_rows_frame)
  from this [of "(bzero_state e)\<lparr>area_id := 0, arp_ttl := 300, nat_timeout := 120, is_netfpga := True\<rparr>"]
  show ?thesis by (simp add: init_def Let_def okR_Inr arp_cache_inv_def)
qed

lemma boot_cpu_ok: "okR (\<lambda>rs. router_ids_ok rs \<and> arp_cache_inv rs) (boot_cpu e hwfile file)"
proof -
  have ifs: "arp_cache_inv rs \<Longrightarrow> okR arp_cache_inv (add_interfaces vs rs)" for vs rs
    by (induction vs arbitrary: rs) (auto simp: okR_Inr intro: okR_seq [OF add_interface_cache])
  have "okR (\<lambda>rs. router_ids_ok rs \<and> arp_cache_inv rs) (init_ospf rs)" if "router_ids_ok rs \<and> arp_cache_inv rs" for rs
    using that boot_ids.ok_init_ospf [of rs] boot_cache.ok_init_ospf [of rs] by (simp add: okR_def)
  then show ?thesis unfolding boot_cpu_def
    by (intro okR_seq [OF init_cache] okR_seq [OF ifs] okR_seq [OF hw_setup_ok])
qed

lemma boot_vns_ok: "okR (\<lambda>rs. router_ids_ok rs \<and> arp_cache_inv rs) (boot_vns e hwinfo junk file)"
proof -
  have es: "arp_cache_inv rs \<Longrightarrow> okR (\<lambda>(_, rs). arp_cache_inv rs) (handle_hw_entries es v rs)" for es v rs
  proof (induction es v rs rule: handle_hw_entries.induct)
    case (2 n es v rs)
    then show ?case
      by (auto intro!: okR_Inr okR_seq [where P = arp_cache_inv] add_interface_cache)
  qed (simp_all add: okR_Inr)
  have "okR (\<lambda>rs. router_ids_ok rs \<and> arp_cache_inv rs) (sr_handle_hwinfo hwinfo junk file rs)" if "arp_cache_inv rs" for rs
    unfolding sr_handle_hwinfo_def
    by (rule okR_act_seq [OF es [OF that]])
      (auto intro!: okR_seq [where P = arp_cache_inv] add_interface_cache okR_Inr hw_setup_ok)
  then show ?thesis unfolding boot_vns_def
    by (intro okR_seq [OF init_cache] okR_seq [OF boot_cache.ok_init_ospf])
qed

section \<open>Properties\<close>

text \<open>
  The part of the invariant that needs no operator: in every reachable state of the router, whatever packets arrive and in whatever order the threads run, the router list has
  unique ids and unique addresses and contains our own router, no address of a freed router is in use again, and the ARP cache has at most one
  entry for an address.
\<close>

theorem reachable_invariant:
  assumes "reachable rs"
  shows "router_ids_ok rs \<and> arp_cache_inv rs"
  using assms
proof induction
  case (start_cpu e hwfile routes rs)
  from okR_D [OF boot_cpu_ok this] show ?case .
next
  case (start_vns e hwinfo junk routes rs)
  from okR_D [OF boot_vns_ok this] show ?case .
next
  case (step rs ev rs')
  then show ?case using ids.router_step_inv cache.router_step_inv by blast
qed

text \<open>
  Claim C8. The protocol never touches the configured routes: no sequence of packets, threads and time-outs adds, removes
  or changes a static route.
\<close>

theorem static_routes_kept:
  assumes "router_step ev rs rs'"
  shows "static_routes (rtable rs') = static_routes (rtable rs)"
  using statics.router_step_inv [OF assms] by blast

section \<open>Witnesses\<close>

text \<open>A client of the VNS server with one interface.\<close>

definition demo_boot :: "router_state res" where
  "demo_boot = boot_vns (demo_env\<lparr>cpumode := False\<rparr>) [HWINTERFACE ''eth0'', HWETHIP 9, HWMASK 0xFF]
    \<lparr>vns_name = [], vns_addr = replicate 6 0, vns_ip = 0, vns_mask = 0, vns_speed = 0\<rparr> [(0, 7, 0, ''eth0'')]"

lemma demo_boot_runs: "\<exists>rs. demo_boot = Inr rs \<and> map r_router_id (pwospf_router_list rs) = [9] \<and> held rs = [] \<and> sping_queue rs = []"
  by (simp add: demo_boot_def boot_vns_def init_def init_ospf_def sr_handle_hwinfo_def init_add_interface_def Let_def
      add_local_ip_filter_def get_local_ip_filter_by_ip_def get_local_ip_filter_by_name_def acquire_free release_def
      trigger_local_ip_filters_change_def bubble_sort.simps sr_integ_hw_setup_def init_router_list_def init_rtable_def rtable_line_def
      default_route_present_def get_our_router_def get_router_by_rid_def upd_by_rid_def dijkstra_trigger_def pthread_cond_signal_def bzero_state_def strncmp_eq_def)

theorem reachable_invariant_witness:
  "\<exists>rs. demo_boot = Inr rs \<and> router_ids_ok (rs\<lparr>clock := clock rs + 5\<rparr>) \<and> arp_cache_inv (rs\<lparr>clock := clock rs + 5\<rparr>)"
proof -
  obtain rs where rs: "demo_boot = Inr rs" using demo_boot_runs by blast
  then have "reachable rs" unfolding demo_boot_def by (rule start_vns)
  from step [OF this tick [of 5 rs]] have "reachable (rs\<lparr>clock := clock rs + 5\<rparr>)" by simp
  from reachable_invariant [OF this] rs show ?thesis by blast
qed

text \<open>A router with one static and one computed route, whose route computation runs.\<close>

definition demo_routed :: router_state where
  "demo_routed = (bzero_state demo_env)\<lparr>router_id := 1, pwospf_router_list := [demo_router 1 []],
    rtable := [\<lparr>re_ip = 0, re_gw = 7, re_mask = 0, re_iface = ''eth0'', re_static = True, re_active = True\<rparr>,
      \<lparr>re_ip = 0x10, re_gw = 8, re_mask = 0xF0, re_iface = ''eth1'', re_static = False, re_active = True\<rparr>]\<rparr>"

theorem static_routes_kept_witness:
  "\<exists>rs'. router_step (DijkstraThread False) demo_routed rs' \<and> static_routes (rtable rs') = static_routes (rtable demo_routed)"
proof -
  have "\<not> isl (dijkstra_thread_step False demo_routed)" by code_simp
  then obtain rs' where "dijkstra_thread_step False demo_routed = Inr rs'" by (cases "dijkstra_thread_step False demo_routed") auto
  then have "router_step (DijkstraThread False) demo_routed rs'" by (rule dijkstra)
  with static_routes_kept [OF this] show ?thesis by blast
qed

end
