(* ===== verification/Locks.thy ===== *)
theory Locks
  imports Router_System
begin

text \<open>
  Which locks an event leaves behind. Every operation on packets and link states returns with the locks it was called
  with (\<open>held\<close> is an invariant of the locales of the theory \<open>Frame\<close>); the handlers and threads take and release the table locks around
  them. Two paths of the code return with locks held: a hello with a foreign mask (\<open>foreign_mask_hello\<close>), and output without a route.
\<close>

interpretation lock: link_state_inv "\<lambda>rs. held rs = h" for h
  by unfold_locales simp_all

section \<open>Rules for locks\<close>

lemma okR_acquire: "held rs = h \<Longrightarrow> (\<And>x. held x = (l, m) # h \<Longrightarrow> okR Q (k x)) \<Longrightarrow> okR Q (bindR (acquire l m rs) k)"
  by (rule okR_pure) (auto simp: acquire_Inr)

lemma okR_release: "held rs = h \<Longrightarrow> (\<And>x. held x = remove_first (\<lambda>h. fst h = l) h \<Longrightarrow> okR Q (k x)) \<Longrightarrow> okR Q (bindR (release l rs) k)"
  by (rule okR_pure) (auto simp: release_Inr)

lemma okR_release_last: "held rs = h \<Longrightarrow> Q' (remove_first (\<lambda>h. fst h = l) h) \<Longrightarrow> okR (\<lambda>x. Q' (held x)) (release l rs)"
  by (auto simp: okR_def release_Inr)

lemma held_signal [simp]: "held (pthread_cond_signal c rs) = held rs"
  by (simp add: pthread_cond_signal_def)

lemma held_updates:
  "held rs = h \<Longrightarrow> held (rs\<lparr>if_list := il\<rparr>) = h" "held rs = h \<Longrightarrow> held (rs\<lparr>dijkstra_dirty := d\<rparr>) = h"
  "held rs = h \<Longrightarrow> held (rs\<lparr>pwospf_lsu_queue := q\<rparr>) = h" "held rs = h \<Longrightarrow> held (rs\<lparr>rtable := t\<rparr>) = h"
  "held rs = h \<Longrightarrow> held (rs\<lparr>pwospf_router_list := rl\<rparr>) = h" "held rs = h \<Longrightarrow> held (rs\<lparr>pwospf_router_list := rl, rtable := t\<rparr>) = h"
  "held rs = h \<Longrightarrow> held (rs\<lparr>transport_in := ti\<rparr>) = h" "held rs = h \<Longrightarrow> held (pthread_cond_signal c rs) = h"
  "held rs = h \<Longrightarrow> held (snd (update_arp_cache ip ha st rs)) = h" "held rs = h \<Longrightarrow> held (expire_arp_cache rs) = h"
  "held rs = h \<Longrightarrow> held rs' = h \<Longrightarrow> held (if b then rs else rs') = h"
  by (auto simp: pthread_cond_signal_def update_arp_cache_def expire_arp_cache_def trigger_arp_cache_modified_def write_arp_cache_eq
      log_regs_def Let_def split: option.splits)

lemma okR_trigger_rtable: "held rs = h \<Longrightarrow> (\<And>x. held x = h \<Longrightarrow> okR Q (k x)) \<Longrightarrow> okR Q (bindR (trigger_rtable_modified rs) k)"
  by (rule okR_pure) (auto dest!: trigger_rtable_frame)

lemma okR_learn_lsu:
  assumes "held rs = h" "ld32 p (pwospf_at + 4) = Inr rid" "\<And>b c x. held x = h \<Longrightarrow> okR Q (k (b, c, x))"
  shows "okR Q (bindR (learn_lsu p rid seq rs) k)"
proof (rule okR_seq [OF lock.ok_learn_lsu [OF assms(2,1)]])
  fix r :: "bool \<times> bool \<times> router_state"
  assume "case r of (_, _, x) \<Rightarrow> held x = h"
  then show "okR Q (k r)" using assms(3) by (cases r) auto
qed

lemmas lock_rules = okR_acquire okR_release lock.packet_steps lock.link_steps lock.ok_packets lock.ok_link_states okR_trigger_rtable
  okR_release_last okR_learn_lsu okR_flow okR_pure held_updates case_prodI

section \<open>Handlers\<close>

abbreviation (input) table_locks :: "lock_mode \<Rightarrow> lock_mode \<Rightarrow> (lock \<times> lock_mode) list" where
  "table_locks m m' \<equiv> [(RtableLock, m), (IfListLock, m'), (ArpQueueLock, Wr), (ArpCacheLock, Rd)]"

text \<open>A hello whose mask is not that of the interface it arrived on.\<close>

definition foreign_mask_hello :: "packet \<Rightarrow> iface_entry \<Rightarrow> bool" where
  "foreign_mask_hello p iface =
    (case (ld8 p (pwospf_at + 1), ld32 p hello_at) of (Inr type, Inr hmask) \<Rightarrow> type = PWOSPF_TYPE_HELLO \<and> hmask \<noteq> if_mask iface | _ \<Rightarrow> False)"

lemma foreign_mask_helloI: "ld8 p (pwospf_at + 1) = Inr PWOSPF_TYPE_HELLO \<Longrightarrow> ld32 p hello_at = Inr hmask \<Longrightarrow> if_mask iface \<noteq> hmask \<Longrightarrow> foreign_mask_hello p iface"
  by (simp add: foreign_mask_hello_def)

text \<open>The locks a handler called by \<open>process_ip_packet\<close> may return with: the table locks, in either mode, and, if \<open>leak\<close>,
  the router list mutex.\<close>

definition handler_locks :: "bool \<Rightarrow> (lock \<times> lock_mode) list \<Rightarrow> bool" where
  "handler_locks leak h \<longleftrightarrow> (\<exists>m m'. h = table_locks m m' \<or> leak \<and> h = (RouterListMutex, Wr) # table_locks m m')"

lemma handler_locksI: "handler_locks leak (table_locks m m')" "leak \<Longrightarrow> handler_locks leak ((RouterListMutex, Wr) # table_locks m m')"
  by (auto simp: handler_locks_def)

lemma handler_locks_mono: "okR (\<lambda>x. handler_locks leak (held x)) m \<Longrightarrow> (leak \<Longrightarrow> leak') \<Longrightarrow> okR (\<lambda>x. handler_locks leak' (held x)) m"
  by (auto simp: okR_def handler_locks_def)

lemma get_iface_held [simp]: "get_iface (rs\<lparr>held := h\<rparr>) = get_iface rs"
  by (simp add: fun_eq_iff get_iface_def)

text \<open>The locks at the head of the hello handler.\<close>

lemma hello_prefix:
  assumes "held rs = table_locks Rd Rd"
  shows "bindR (release RtableLock rs) (\<lambda>rs. bindR (release IfListLock rs) (\<lambda>rs. bindR (acquire IfListLock Wr rs) (\<lambda>rs.
    bindR (acquire RtableLock Rd rs) (\<lambda>rs. bindR (acquire RouterListMutex Wr rs) k)))) = k (rs\<lparr>held := (RouterListMutex, Wr) # table_locks Rd Wr\<rparr>)"
  using assms by (simp add: release_def acquire_free)

lemma held_hello:
  assumes "held rs = table_locks Rd Rd" "get_iface rs interface = Some iface" "ld8 p (pwospf_at + 1) = Inr PWOSPF_TYPE_HELLO"
  shows "okR (\<lambda>x. handler_locks (foreign_mask_hello p iface) (held x)) (process_pwospf_hello_packet p interface rs)"
proof -
  let ?rs = "rs\<lparr>held := (RouterListMutex, Wr) # table_locks Rd Wr\<rparr>"
  have h: "held ?rs = (RouterListMutex, Wr) # table_locks Rd Wr" by simp
  show ?thesis unfolding process_pwospf_hello_packet_def hello_prefix [OF assms(1)] upd_iface_def get_iface_held assms(2) derefR_simps bindR_Inr
    by (rule lock_rules assms h | assumption | simp add: handler_locksI assms | blast intro: handler_locksI foreign_mask_helloI [OF assms(3)])+
qed

lemma held_lsu:
  assumes "held rs = table_locks Rd Rd"
  shows "okR (\<lambda>x. handler_locks False (held x)) (process_pwospf_lsu_packet p rs)"
  unfolding process_pwospf_lsu_packet_def
  by (rule lock_rules assms | assumption | simp add: handler_locksI assms)+

text \<open>The checks clear the checksum and leave the rest of the packet.\<close>

lemma checked_fields:
  assumes "is_pwospf_packet_valid p rs = Inr (v, q)"
  shows "ld8 q (pwospf_at + 1) = ld8 p (pwospf_at + 1)" "ld32 q hello_at = ld32 p hello_at"
proof -
  have "q = p \<or> st_bytes p (pwospf_at + 12) (bytes16 0) = Inr q"
    using assms by (auto simp: is_pwospf_packet_valid_def compute_pwospf_checksum_def bindR_eq_Inr st16_def Let_def split: if_splits)
  then show "ld8 q (pwospf_at + 1) = ld8 p (pwospf_at + 1)" "ld32 q hello_at = ld32 p hello_at"
    using ld8_st_other [of p "pwospf_at + 12" "bytes16 0" q "pwospf_at + 1"] ld32_st_other [of p "pwospf_at + 12" "bytes16 0" q hello_at] by auto
qed

lemma held_pwospf:
  assumes "held rs = table_locks Rd Rd" "get_iface rs interface = Some iface"
  shows "okR (\<lambda>x. handler_locks (foreign_mask_hello p iface) (held x)) (process_pwospf_packet p interface rs)"
  unfolding process_pwospf_packet_def
proof (rule okR_pure)
  fix x
  assume "is_pwospf_packet_valid p rs = Inr x"
  then obtain v q where x: "x = (v, q)" and valid: "is_pwospf_packet_valid p rs = Inr (v, q)" by (cases x) auto
  have leak: "foreign_mask_hello q iface = foreign_mask_hello p iface" by (simp only: foreign_mask_hello_def checked_fields [OF valid])
  show "okR (\<lambda>x. handler_locks (foreign_mask_hello p iface) (held x)) (case x of (valid, p) \<Rightarrow> if \<not> valid then Inr rs else
      bindR (ld8 p (pwospf_at + 1)) (\<lambda>type. if type = PWOSPF_TYPE_HELLO then process_pwospf_hello_packet p interface rs
        else if type = PWOSPF_TYPE_LINK_STATE_UPDATE then process_pwospf_lsu_packet p rs else Inr rs))"
    unfolding x
    by (rule held_hello [OF assms, of q, unfolded leak] handler_locks_mono [OF held_lsu] lock_rules assms | assumption | simp add: handler_locksI assms)+
qed

lemma okR_same_locks: "okR (\<lambda>x. held x = h) m \<Longrightarrow> Q' h \<Longrightarrow> okR (\<lambda>x. Q' (held x)) m"
  by (auto simp: okR_def)

lemma held_reply_icmp: "held rs = table_locks Rd Rd \<Longrightarrow> okR (\<lambda>x. handler_locks leak (held x)) (reply_icmp p t c rs)"
  "held rs = table_locks Rd Rd \<Longrightarrow> okR (\<lambda>x. handler_locks leak (held x)) (process_icmp_packet p rs)"
  by (rule okR_same_locks [OF lock.ok_packets(4)] okR_same_locks [OF lock.ok_packets(5)], assumption, rule handler_locksI)+

lemma held_deliver:
  assumes "held rs = table_locks Rd Rd" "get_iface rs interface = Some iface"
  shows "okR (\<lambda>x. handler_locks (foreign_mask_hello p iface) (held x)) (deliver_packet p interface rs)"
  unfolding deliver_packet_def
  by (rule held_pwospf held_reply_icmp lock_rules assms | assumption | simp add: handler_locksI assms)+

lemma held_forward: "held rs = table_locks Rd Rd \<Longrightarrow> okR (\<lambda>x. handler_locks leak (held x)) (forward_packet p nh out rs)"
  unfolding forward_packet_def
  by (rule held_reply_icmp lock_rules | assumption | simp add: handler_locksI)+

lemma held_route: "held rs = table_locks Rd Rd \<Longrightarrow> okR (\<lambda>x. handler_locks leak (held x)) (route_packet p interface rs)"
  unfolding route_packet_def
  by (rule held_forward held_reply_icmp lock_rules | assumption | simp add: handler_locksI)+

text \<open>The packet a handler gets: on an interface to the outside network it has been through the address translation.\<close>

definition arrives_as :: "packet \<Rightarrow> iface_entry \<Rightarrow> packet \<Rightarrow> bool" where
  "arrives_as p iface q \<longleftrightarrow> (if if_is_wan iface then \<exists>x y. process_nat_ext_packet p x = Inr (q, y) else q = p)"

definition leaks :: "packet \<Rightarrow> iface_entry \<Rightarrow> bool" where
  "leaks p iface \<longleftrightarrow> (\<exists>q. arrives_as p iface q \<and> foreign_mask_hello q iface)"

interpretation lock_ifs: packet_inv "\<lambda>rs. held rs = h \<and> if_list rs = il" for h il
  by unfold_locales simp_all

text \<open>What follows the translation.\<close>

lemma held_dispatch:
  assumes "held rs = table_locks Rd Rd" "get_iface rs interface = Some iface" "arrives_as p iface q"
  shows "okR (\<lambda>x. handler_locks (leaks p iface) (held x)) (bindR (ld32 q (ip_at + 16)) (\<lambda>ip_dst.
    if iface_match_ip rs ip_dst \<noteq> 0 then deliver_packet q interface rs
    else if ip_dst = htonl PWOSPF_HELLO_TIP then process_pwospf_packet q interface rs
    else route_packet q interface rs))"
proof -
  have l: "foreign_mask_hello q iface \<Longrightarrow> leaks p iface" using assms(3) by (auto simp: leaks_def)
  show ?thesis
    by (rule handler_locks_mono [OF held_deliver [OF assms(1,2)] l] handler_locks_mono [OF held_pwospf [OF assms(1,2)] l] held_route [OF assms(1)]
        okR_pure okR_if | assumption)+
qed

lemma held_handle:
  assumes "held rs = table_locks Rd Rd" "get_iface rs interface = Some iface"
  shows "okR (\<lambda>x. handler_locks (leaks p iface) (held x)) (handle_packet p interface rs)"
proof (cases "if_is_wan iface")
  case True
  let ?rs = "rs\<lparr>held := (NatTableMutex, Wr) # held rs\<rparr>"
  have a: "acquire NatTableMutex Wr rs = Inr ?rs" using assms(1) by (simp add: acquire_free)
  show ?thesis unfolding handle_packet_def assms(2) derefR_simps bindR_Inr a bindR_assoc
  proof (simp only: True if_True a bindR_Inr bindR_assoc, rule okR_pure)
    fix x
    assume nat: "process_nat_ext_packet p ?rs = Inr x"
    obtain q rs1 where x: "x = (q, rs1)" by (cases x)
    with nat have q: "arrives_as p iface q" using True by (auto simp: arrives_as_def)
    have r: "held rs1 = (NatTableMutex, Wr) # held rs" "if_list rs1 = if_list rs"
      using lock_ifs.inv_nat_ext [of p ?rs q rs1 "held ?rs" "if_list rs"] nat x by simp_all
    define rs2 where "rs2 = rs1\<lparr>held := table_locks Rd Rd\<rparr>"
    have "release NatTableMutex rs1 = Inr rs2" using r assms(1) by (simp add: release_def rs2_def)
    moreover have "get_iface rs2 interface = Some iface" "held rs2 = table_locks Rd Rd" using assms(2) r by (simp_all add: get_iface_def rs2_def)
    ultimately show "okR (\<lambda>x. handler_locks (leaks p iface) (held x)) (bindR (case x of (p, rs) \<Rightarrow> bindR (release NatTableMutex rs) (\<lambda>rs. Inr (p, rs)))
        (\<lambda>(p, rs). bindR (ld32 p (ip_at + 16)) (\<lambda>ip_dst. if iface_match_ip rs ip_dst \<noteq> 0 then deliver_packet p interface rs
          else if ip_dst = htonl PWOSPF_HELLO_TIP then process_pwospf_packet p interface rs else route_packet p interface rs)))"
      using held_dispatch [OF _ _ q, of rs2 interface] by (simp add: x)
  qed
next
  case False
  then have "arrives_as p iface p" by (simp add: arrives_as_def)
  from held_dispatch [OF assms this] False show ?thesis unfolding handle_packet_def by (simp add: assms(2))
qed

text \<open>What a received packet leaves behind.\<close>

definition receive_locks :: "packet \<Rightarrow> string \<Rightarrow> router_state \<Rightarrow> (lock \<times> lock_mode) list \<Rightarrow> bool" where
  "receive_locks p interface rs h \<longleftrightarrow> h = [] \<or> h = [(RouterListMutex, Wr)] \<and> (\<exists>iface. get_iface rs interface = Some iface \<and> leaks p iface)"

lemma unlock_tables_held:
  assumes "handler_locks leak (held rs)"
  shows "okR (\<lambda>x. held x = [] \<or> leak \<and> held x = [(RouterListMutex, Wr)]) (unlock_tables rs)"
  using assms unfolding handler_locks_def unlock_tables_def by (auto simp: okR_def bindR_eq_Inr release_Inr)

lemma held_ip_packet:
  assumes "held rs = []"
  shows "okR (\<lambda>x. receive_locks p interface rs (held x)) (process_ip_packet p interface rs)"
proof -
  have l: "lock_tables rs = Inr (in_tables rs)" "held (in_tables rs) = table_locks Rd Rd" using assms by (simp_all add: tables_locked in_tables_def)
  show ?thesis
  proof (cases "get_iface rs interface")
    case None
    then have "handle_packet p interface (in_tables rs) = Inl NullDeref" by (simp add: handle_packet_def in_tables_def)
    then show ?thesis using assms unfolding process_ip_packet_def l
      by (auto simp: receive_locks_def okR_def bindR_eq_Inr split: if_splits)
  next
    case (Some iface)
    then have i: "get_iface (in_tables rs) interface = Some iface" by (simp add: in_tables_def)
    have u: "okR (\<lambda>x. receive_locks p interface rs (held x)) (unlock_tables x)" if "handler_locks (leaks p iface) (held x)" for x
      using unlock_tables_held [OF that] Some by (auto simp: okR_def receive_locks_def)
    show ?thesis unfolding process_ip_packet_def l bindR_Inr
      by (rule okR_pure, rule okR_if) (auto simp: receive_locks_def [of _ _ _ "[]"] assms intro: okR_Inr okR_seq [OF held_handle [OF l(2) i] u])
  qed
qed

lemma held_arp_packet: "held rs = [] \<Longrightarrow> okR (\<lambda>x. held x = []) (process_arp_packet p rs)"
  unfolding process_arp_packet_def process_arp_request_def process_arp_reply_def
  by (rule lock_rules | assumption | simp)+

lemma active_iface_frame: "held rs = [] \<Longrightarrow> iface_is_active interface rs = Inr (a, x) \<Longrightarrow> x = rs"
  by (auto simp: iface_is_active_def bindR_eq_Inr lock_Inr split: option.splits)

lemma held_receive:
  assumes "held rs = []"
  shows "okR (\<lambda>x. receive_locks p interface rs (held x)) (process_packet p interface rs)"
  unfolding process_packet_def
proof (rule okR_pure)
  fix y
  assume "iface_is_active interface rs = Inr y"
  then obtain a where "y = (a, rs)" using active_iface_frame [OF assms] by (cases y) auto
  then show "okR (\<lambda>x. receive_locks p interface rs (held x)) (case y of (active, rs) \<Rightarrow> if active = 0 then Inr rs else
      bindR (ld16 p 12) (\<lambda>eth_type. if ntohs eth_type = ETH_TYPE_IP then process_ip_packet p interface rs
        else if ntohs eth_type = ETH_TYPE_ARP then process_arp_packet p rs else Inr rs))"
    by (auto simp: receive_locks_def [of _ _ _ "[]"] assms intro!: okR_pure okR_if okR_Inr held_ip_packet okR_same_locks [OF held_arp_packet])
qed

lemma held_find_srcip: "held rs = [] \<Longrightarrow> okR (\<lambda>(_, x). held x = []) (find_srcip dest rs)"
  unfolding find_srcip_def by (rule lock_rules | assumption | simp)+

lemma held_arp_thread: "held rs = [] \<Longrightarrow> okR (\<lambda>x. held x = []) (arp_thread_step rs)"
  unfolding arp_thread_step_def by (rule lock_rules | assumption | simp)+

lemma held_hello_iface: "held rs = h \<Longrightarrow> okR (\<lambda>(_, x). held x = h) (hello_iface k rs)"
  unfolding hello_iface_def by (rule lock_rules | assumption | simp)+

lemma held_hello_loop: "held rs = h \<Longrightarrow> okR (\<lambda>(_, x). held x = h) (hello_loop ks b rs)"
proof (induction ks arbitrary: b rs)
  case (Cons k ks)
  show ?case unfolding hello_loop.simps by (rule held_hello_iface [THEN okR_act_seq] lock_rules | rule Cons | assumption)+
qed (simp add: okR_def)

lemma held_hello_thread: "held rs = [] \<Longrightarrow> okR (\<lambda>x. held x = []) (pwospf_hello_thread_step rs)"
  unfolding pwospf_hello_thread_step_def broadcast_pwospf_hello_packet_def
  by (rule held_hello_loop [THEN okR_act_seq] lock_rules | assumption | simp)+

lemma held_lsu_threads:
  "held rs = [] \<Longrightarrow> okR (\<lambda>x. held x = []) (pwospf_lsu_thread_step rs)"
  "held rs = [] \<Longrightarrow> okR (\<lambda>x. held x = []) (pwospf_lsu_timeout_thread_step rs)"
  "held rs = [] \<Longrightarrow> okR (\<lambda>x. held x = []) (pwospf_lsu_bcast_thread_step rs)"
  "held rs = [] \<Longrightarrow> okR (\<lambda>x. held x = []) (dijkstra_thread_step b rs)"
  unfolding pwospf_lsu_thread_step_def pwospf_lsu_timeout_thread_step_def pwospf_lsu_bcast_thread_step_def dijkstra_thread_step_def
  by (rule lock_rules | assumption | simp)+

lemma okR_unlock:
  "held rs = table_locks Rd Rd \<Longrightarrow> (\<And>x. held x = [] \<Longrightarrow> okR Q (k x)) \<Longrightarrow> okR Q (bindR (unlock_tables rs) k)"
  by (simp add: tables_locked)

lemma held_output:
  "held rs = [] \<Longrightarrow> okR (\<lambda>(_, x). held x = [] \<or> get_next_hop rs 32 dest = None \<and> held x = table_locks Rd Rd) (integ_ip_output payload proto src dest rs)"
proof -
  assume "held rs = []"
  then have l: "lock_tables rs = Inr (in_tables rs)" by (simp add: tables_locked in_tables_def)
  show ?thesis unfolding integ_ip_output_def send_ip_packet_def l bindR_Inr
    by (rule okR_unlock lock_rules | assumption | simp)+
qed

section \<open>Properties\<close>

text \<open>
  Claim C11. Lock discipline: an event that starts with no lock held and returns has released every lock it took, with two exceptions, which are the leaking paths of the code.
  A received hello whose mask is not the mask of the interface it came in on leaves the router list mutex locked (on an interface to the outside network, the packet after the address translation), and output to
  a destination without a route leaves the four table locks held.
\<close>

theorem locks_released:
  assumes "router_step ev rs rs'" "held rs = []"
  shows "held rs' = [] \<or>
    (\<exists>p interface iface q. ev = Receive p interface \<and> get_iface rs interface = Some iface \<and>
      (if if_is_wan iface then \<exists>x y. process_nat_ext_packet p x = Inr (q, y) else q = p) \<and>
      foreign_mask_hello q iface \<and> held rs' = [(RouterListMutex, Wr)]) \<or>
    (\<exists>proto src dest payload. ev = IpOutput proto src dest payload \<and> get_next_hop rs 32 dest = None \<and> held rs' = table_locks Rd Rd)"
  using assms(1)
proof cases
  case (receive p interface)
  then show ?thesis using okR_D [OF held_receive [OF assms(2)] receive(2)] unfolding receive_locks_def leaks_def arrives_as_def by blast
next
  case (ip_output payload proto src dest ret)
  from okR_D [OF held_output [OF assms(2)] ip_output(2)] show ?thesis using ip_output(1) by auto
next
  case (find_src dest ip)
  from okR_D [OF held_find_srcip [OF assms(2)] find_src(2)] show ?thesis by simp
next
  case (dijkstra b)
  then show ?thesis using okR_D [OF held_lsu_threads(4) [OF assms(2)]] by simp
qed (use assms(2) okR_D [OF held_arp_thread [OF assms(2)]] okR_D [OF held_hello_thread [OF assms(2)]]
    okR_D [OF held_lsu_threads(1) [OF assms(2)]] okR_D [OF held_lsu_threads(2) [OF assms(2)]] okR_D [OF held_lsu_threads(3) [OF assms(2)]] in simp_all)

theorem locks_released_witness: "\<exists>rs'. router_step (DijkstraThread False) demo_routed rs' \<and> held rs' = []"
proof -
  have "\<not> isl (dijkstra_thread_step False demo_routed)" by code_simp
  then obtain rs' where "dijkstra_thread_step False demo_routed = Inr rs'" by (cases "dijkstra_thread_step False demo_routed") auto
  then have s: "router_step (DijkstraThread False) demo_routed rs'" by (rule dijkstra)
  have "held demo_routed = []" by (simp add: demo_routed_def)
  from locks_released [OF s this] s show ?thesis by auto
qed

end
