(* ===== verification/Pwospf_Hello.thy ===== *)
theory Pwospf_Hello
  imports Locks
begin

text \<open>
  Hello packets from the sender to the receiver: the frame that a router builds passes the checks of its neighbour and its fields are
  read back; a hello of a known neighbour refreshes that neighbour, a hello with a foreign mask leaves the router list mutex locked.
\<close>

section \<open>The frame that is built\<close>

definition hello_body :: "u32 \<Rightarrow> u16 \<Rightarrow> u8 list" where
  "hello_body msk hint = bytes32 msk @ bytes16 (htons hint) @ bytes16 0"

definition hello_raw :: "u32 \<Rightarrow> u32 \<Rightarrow> u32 \<Rightarrow> u16 \<Rightarrow> u8 list" where
  "hello_raw rid aid msk hint = pwospf_header 1 32 rid aid @ hello_body msk hint"

lemma length_hello [simp]: "length (hello_body msk hint) = 8" "length (hello_raw rid aid msk hint) = 32"
  by (simp_all add: hello_body_def hello_raw_def)

lemma populate_hello_eq: "off + 8 \<le> length p \<Longrightarrow> populate_pwospf_hello p off msk hint = Inr (upd_bytes p off (hello_body msk hint))"
proof -
  assume len: "off + 8 \<le> length p"
  let ?xs = "[(0, bytes32 msk), (4, bytes16 (htons hint)), (6, bytes16 0)]"
  have "populate_pwospf_hello p off msk hint = st_all (upd_bytes p off (bzero 8)) (map (\<lambda>(k, cs). (off + k, cs)) ?xs)"
    using len by (simp add: populate_pwospf_hello_def st_bytes_in)
  also have "\<dots> = Inr (upd_bytes p off (region_upd (bzero 8) ?xs))" using len by (intro st_all_region) auto
  also have "region_upd (bzero 8) ?xs = hello_body msk hint"
    by (simp add: hello_body_def upd_bytes_def bzero_def bytes16_def bytes32_def)
  finally show ?thesis .
qed

lemma hello_raw_split:
  "hello_raw rid aid msk hint = ([2, 1] @ bytes16 (htons 32) @ bytes32 rid @ bytes32 (htonl aid)) @ bytes16 0 @ bytes16 0 @ bzero 8 @
     bytes32 msk @ bytes16 (htons hint) @ bytes16 0"
  by (simp add: hello_raw_def pwospf_header_def hello_body_def bzero_12)

lemma hello_raw_fields:
  "ld8 (hello_raw rid aid msk hint) 0 = Inr 2" "ld8 (hello_raw rid aid msk hint) 1 = Inr 1" "ld16 (hello_raw rid aid msk hint) 2 = Inr (htons 32)"
  "ld32 (hello_raw rid aid msk hint) 4 = Inr rid" "ld32 (hello_raw rid aid msk hint) 8 = Inr (htonl aid)"
  "ld16 (hello_raw rid aid msk hint) 14 = Inr 0" "ld32 (hello_raw rid aid msk hint) 24 = Inr msk" "ld16 (hello_raw rid aid msk hint) 28 = Inr (htons hint)"
proof -
  define f where "f = [2, 1] @ bytes16 (htons 32) @ bytes32 rid @ bytes32 (htonl aid)"
  have l: "length f = 12" by (simp add: f_def)
  have s: "hello_raw rid aid msk hint = f @ bytes16 0 @ bytes16 0 @ bzero 8 @ bytes32 msk @ bytes16 (htons hint) @ bytes16 0"
    by (simp add: hello_raw_split f_def)
  show "ld8 (hello_raw rid aid msk hint) 0 = Inr 2" "ld8 (hello_raw rid aid msk hint) 1 = Inr 1"
    by (simp_all add: hello_raw_split ld8_def)
  show "ld16 (hello_raw rid aid msk hint) 2 = Inr (htons 32)" using ld_le16 [of "[2, 1]" "htons 32"] by (simp add: s f_def numeral_2_eq_2)
  show "ld32 (hello_raw rid aid msk hint) 4 = Inr rid" "ld32 (hello_raw rid aid msk hint) 8 = Inr (htonl aid)"
    using ld_le32 [of "[2, 1] @ bytes16 (htons 32)" rid]
      ld_le32 [of "[2, 1] @ bytes16 (htons 32) @ bytes32 rid" "htonl aid"]
    by (simp_all add: s f_def)
  show "ld16 (hello_raw rid aid msk hint) 14 = Inr 0" "ld32 (hello_raw rid aid msk hint) 24 = Inr msk"
    "ld16 (hello_raw rid aid msk hint) 28 = Inr (htons hint)"
    using ld_le16 [of "f @ bytes16 0" 0] ld_le32 [of "f @ bytes16 0 @ bytes16 0 @ bzero 8" msk]
      ld_le16 [of "f @ bytes16 0 @ bytes16 0 @ bzero 8 @ bytes32 msk" "htons hint"] by (simp_all add: s l)
qed

lemma hello_raw_checksum: "\<exists>s. compute_pwospf_checksum (hello_raw rid aid msk hint) 0 = Inr (s, hello_raw rid aid msk hint)"
proof -
  let ?p = "hello_raw rid aid msk hint"
  have "upd_bytes ?p 12 (bytes16 0) = ?p"
    unfolding hello_raw_split using upd_bytes_mid [of "bytes16 0" "bytes16 0" "[2, 1] @ bytes16 (htons 32) @ bytes32 rid @ bytes32 (htonl aid)"] by simp
  then have st: "st16 ?p 12 0 = Inr ?p" by (simp add: st16_in)
  have c: "csum_loop sk ?p 0 0 (unat (ntohs (htons (32 :: u16))) div 2) 0 =
      Inr (0 + word_of_nat (sum16 sk ?p 0 0 (unat (ntohs (htons (32 :: u16))) div 2)))" for sk
    by (intro csum_loop_eq) simp
  show ?thesis by (simp only: compute_pwospf_checksum_def add_0 st bindR_Inr hello_raw_fields c) blast
qed

text \<open>The three parts of a hello frame: Ethernet and IP header in \<open>h\<close>, then the PWOSPF packet with its checksum.\<close>

lemma hello_frame_eq:
  assumes "length (if_addr ie) = 6"
  obtains h s pw where "hello_frame ie rs = Inr (h @ pw)" "length h = 34" "is_packet_valid (h @ pw) = Inr True"
    "ld32 h 26 = Inr (if_ip ie)" "ld32 h 30 = Inr (htonl PWOSPF_HELLO_TIP)"
    "compute_pwospf_checksum (hello_raw (router_id rs) (area_id rs) (if_mask ie) (pwospf_hello_interval rs)) 0 =
      Inr (s, hello_raw (router_id rs) (area_id rs) (if_mask ie) (pwospf_hello_interval rs))"
    "st16 (hello_raw (router_id rs) (area_id rs) (if_mask ie) (pwospf_hello_interval rs)) 12 (htons s) = Inr pw"
proof -
  let ?raw = "hello_raw (router_id rs) (area_id rs) (if_mask ie) (pwospf_hello_interval rs)"
  obtain s where s: "compute_pwospf_checksum ?raw 0 = Inr (s, ?raw)" using hello_raw_checksum by blast
  define pw where "pw = upd_bytes ?raw 12 (bytes16 (htons s))"
  have lpw: "length pw = 32" by (simp add: pw_def)
  have st: "st16 ?raw 12 (htons s) = Inr pw" by (simp add: pw_def st16_in)
  have a: "populate_pwospf_hello (bzero 66) 58 (if_mask ie) (pwospf_hello_interval rs) =
      Inr (bzero 58 @ hello_body (if_mask ie) (pwospf_hello_interval rs))"
    by (simp add: populate_hello_eq upd_bytes_def bzero_def)
  have b: "populate_pwospf (bzero 58 @ hello_body (if_mask ie) (pwospf_hello_interval rs)) 34 1 32 (router_id rs) (area_id rs) = Inr (bzero 34 @ ?raw)"
    by (simp add: populate_pwospf_eq upd_bytes_def hello_raw_def bzero_def)
  have c: "compute_pwospf_checksum (bzero 34 @ ?raw) 34 = Inr (s, bzero 34 @ ?raw)"
    using compute_pwospf_shift [of "bzero 34" ?raw 0] s by simp
  have d: "st16 (bzero 34 @ ?raw) (34 + 12) (htons s) = Inr (bzero 34 @ pw)" using st16_shift [of "bzero 34" ?raw 12] st by simp
  let ?ip = "ip_header 32 89 (if_ip ie) (htonl PWOSPF_HELLO_TIP)"
  define h1 where "h1 = upd_bytes (bzero 34) 14 ?ip"
  have l1: "length h1 = 34" by (simp add: h1_def)
  have e: "populate_ip (bzero 34 @ pw) 14 32 89 (if_ip ie) (htonl PWOSPF_HELLO_TIP) = Inr (h1 @ pw)"
    by (simp add: populate_ip_eq upd_bytes_front h1_def)
  have n1: "h1 ! 14 = 0x45" "h1 ! 20 = 0x40" "h1 ! 21 = 0"
  proof -
    have "byte16 0 (htons 0x4000) = (0x40 :: u8)" "byte16 (Suc 0) (htons 0x4000) = (0 :: u8)"
      by (simp_all add: ntohs_def word_unat_eq_iff unat_byte16)
    then show "h1 ! 14 = 0x45" "h1 ! 20 = 0x40" "h1 ! 21 = 0"
      by (simp_all add: h1_def nth_upd_bytes ip_header_def nth_append bytes16_def)
  qed
  then have "unat ((h1 @ pw) ! 14 AND 15) = 5" using l1 by (simp add: nth_append)
  then obtain q k where k: "compute_ip_checksum (h1 @ pw) 14 = Inr (k, q)" "st16 q (14 + 10) (htons k) = Inr (put_csum (h1 @ pw) (14 + 10) k)"
      "verify_checksum (put_csum (h1 @ pw) (14 + 10) k) 14 20 = Inr 0"
    using ip_checksum_roundtrip [of "h1 @ pw" 14 5] l1 by auto
  define h2 where "h2 = upd_bytes h1 24 (bytes16 (htons k))"
  have l2: "length h2 = 34" using l1 by (simp add: h2_def)
  have g: "put_csum (h1 @ pw) (14 + 10) k = h2 @ pw" using l1 by (simp add: put_csum_def h2_def upd_bytes_front)
  define h3 where "h3 = upd_bytes h2 0 (replicate 6 0xFF @ if_addr ie @ bytes16 (htons 0x0800))"
  have l3: "length h3 = 34" using l2 assms by (simp add: h3_def)
  have i: "populate_eth_hdr (h2 @ pw) 0 (Some (replicate 6 0xFF)) (if_addr ie) 0x0800 = Inr (h3 @ pw)"
    using l2 assms by (simp add: populate_eth_eq h3_def upd_bytes_front)
  have n3: "h3 ! j = h1 ! j" if "14 \<le> j" "j < 34" "j \<noteq> 24" "j \<noteq> 25" for j
    using that l1 l2 assms by (auto simp: h3_def h2_def nth_upd_bytes)
  show ?thesis
  proof (rule that [OF _ l3 _ _ _ s st])
    show "hello_frame ie rs = Inr (h3 @ pw)"
      by (simp only: hello_frame_def a b c d e k g i bindR_Inr prod.case)
    have "verify_checksum (h3 @ pw) 14 20 = verify_checksum (h2 @ pw) 14 20"
      using l2 l3 assms by (intro verify_checksum_cong) (auto simp: h3_def nth_append nth_upd_bytes)
    then have v: "verify_checksum (h3 @ pw) 14 20 = Inr 0" using k(3) g by simp
    have "ntohs (le16 0x40 0) = 0x4000" by (simp add: word_unat_eq_iff unat_ntohs_le16)
    moreover have "(h3 @ pw) ! 14 = 0x45" "(h3 @ pw) ! 20 = 0x40" "(h3 @ pw) ! 21 = 0"
      using n3 [of 14] n3 [of 20] n3 [of 21] n1 l3 by (simp_all add: nth_append)
    ultimately show "is_packet_valid (h3 @ pw) = Inr True" using v l3 lpw by (simp add: is_packet_valid_def ld8_def ld16_def)
    have "h1 ! (26 + j) = bytes32 (if_ip ie) ! j" "h1 ! (30 + j) = bytes32 (htonl PWOSPF_HELLO_TIP) ! j" if "j < 4" for j
      using that ip_header_nth(3,4) [OF that, of 32 89 "if_ip ie" "htonl PWOSPF_HELLO_TIP"] by (simp_all add: h1_def nth_upd_bytes)
    from this [of 0] this [of 1] this [of 2] this [of 3]
    show "ld32 h3 26 = Inr (if_ip ie)" "ld32 h3 30 = Inr (htonl PWOSPF_HELLO_TIP)"
      using l3 by (simp_all add: ld32_def n3)
  qed
qed

section \<open>The receiver\<close>

text \<open>The receiver is a router of the same area that takes the packet on \<open>e\<close>, an interface that does not translate. The last condition is the
  code's test for an own packet, which compares the id of the sender in the other byte order.\<close>

definition hears :: "router_state \<Rightarrow> router_state \<Rightarrow> string \<Rightarrow> iface_entry \<Rightarrow> bool" where
  "hears rs rs' interface e =
    (held rs' = [] \<and> get_iface rs' interface = Some e \<and> \<not> if_is_wan e \<and> iface_match_ip rs' (htonl PWOSPF_HELLO_TIP) = 0 \<and>
     area_id rs' = area_id rs \<and> ntohl (router_id rs) \<noteq> router_id rs')"

lemma hello_handled:
  assumes "length (if_addr ie) = 6" "hears rs rs' interface e"
  obtains frame q where "hello_frame ie rs = Inr frame"
    "process_ip_packet frame interface rs' = bindR (process_pwospf_hello_packet q interface (in_tables rs')) unlock_tables"
    "ld16 q 62 = Inr (htons (pwospf_hello_interval rs))" "ld32 q 58 = Inr (if_mask ie)" "ld32 q 26 = Inr (if_ip ie)"
    "ld32 q 38 = Inr (router_id rs)"
proof -
  let ?raw = "hello_raw (router_id rs) (area_id rs) (if_mask ie) (pwospf_hello_interval rs)"
  obtain h s pw where f: "hello_frame ie rs = Inr (h @ pw)" "length h = 34" "is_packet_valid (h @ pw) = Inr True"
    "ld32 h 26 = Inr (if_ip ie)" "ld32 h 30 = Inr (htonl PWOSPF_HELLO_TIP)"
    "compute_pwospf_checksum ?raw 0 = Inr (s, ?raw)" "st16 ?raw 12 (htons s) = Inr pw"
    using hello_frame_eq [OF assms(1)] by blast
  have r: "held rs' = []" "get_iface rs' interface = Some e" "\<not> if_is_wan e" "iface_match_ip rs' (htonl PWOSPF_HELLO_TIP) = 0"
    "area_id (in_tables rs') = area_id rs" "ntohl (router_id rs) \<noteq> router_id (in_tables rs')"
    using assms(2) by (simp_all add: hears_def in_tables_def)
  have valid: "is_pwospf_packet_valid (h @ pw) (in_tables rs') = Inr (True, h @ ?raw)"
    by (rule lsu_frame_valid [OF f(2,6,7) _ _ _ _ r(6)]) (simp_all add: hello_raw_fields r(5))
  have head: "ld32 (h @ x) k = ld32 h k" if "k + 4 \<le> 34" for x k using that f(2) by (auto simp: ld32_def nth_append)
  have shift: "ld8 (h @ ?raw) 35 = Inr 1" "ld16 (h @ ?raw) 62 = Inr (htons (pwospf_hello_interval rs))" "ld32 (h @ ?raw) 58 = Inr (if_mask ie)"
    "ld32 (h @ ?raw) 38 = Inr (router_id rs)"
    using ld_shift(1) [of h ?raw 1] ld_shift(2) [of h ?raw 28] ld_shift(3) [of h ?raw 24] ld_shift(3) [of h ?raw 4] f(2)
    by (simp_all add: hello_raw_fields hello_raw_fields(2) [simplified])
  have "process_pwospf_packet (h @ pw) interface (in_tables rs') = process_pwospf_hello_packet (h @ ?raw) interface (in_tables rs')"
    by (simp add: process_pwospf_packet_def valid shift)
  then have "handle_packet (h @ pw) interface (in_tables rs') = process_pwospf_hello_packet (h @ ?raw) interface (in_tables rs')"
    using r head [of 30] f(5) by (simp add: handle_packet_def)
  then have "process_ip_packet (h @ pw) interface rs' = bindR (process_pwospf_hello_packet (h @ ?raw) interface (in_tables rs')) unlock_tables"
    using f(3) r(1) by (simp add: process_ip_packet_def tables_locked in_tables_def)
  with f(1) shift head [of 26] f(4) show ?thesis by (intro that) simp_all
qed

lemma in_tables_held [simp]: "in_tables rs\<lparr>held := h\<rparr> = rs\<lparr>held := h\<rparr>"
  by (simp add: in_tables_def)

lemma hello_mismatch:
  assumes "ld16 q 62 = Inr (htons (pwospf_hello_interval rs))" "get_iface rs interface = Some e" "ld32 q 58 = Inr msk" "if_mask e \<noteq> msk"
  shows "process_pwospf_hello_packet q interface (in_tables rs) = Inr (rs\<lparr>held := (RouterListMutex, Wr) # table_locks Rd Wr\<rparr>)"
proof -
  have "pwospf_hello_interval (in_tables rs) = pwospf_hello_interval rs" by (simp add: in_tables_def)
  then show ?thesis using assms by (simp add: process_pwospf_hello_packet_def release_def acquire_free)
qed

text \<open>The state after a hello of the neighbour \<open>rid\<close> at \<open>ip\<close>: its entry carries the current time.\<close>

definition refresh_nbr :: "u32 \<Rightarrow> u32 \<Rightarrow> string \<Rightarrow> router_state \<Rightarrow> router_state" where
  "refresh_nbr ip rid interface rs =
    upd_iface interface (\<lambda>ie. ie\<lparr>if_nbr_routers :=
      upd_last (\<lambda>nbr. nbr_ip nbr = ip \<and> nbr_router_id nbr = rid) (\<lambda>nbr. nbr\<lparr>nbr_last_rcvd_hello := clock rs\<rparr>) (if_nbr_routers ie)\<rparr>) rs"

lemma hello_known:
  assumes "ld16 q 62 = Inr (htons (pwospf_hello_interval rs))" "get_iface rs interface = Some e" "ld32 q 58 = Inr (if_mask e)"
    and "ld32 q 26 = Inr ip" "ld32 q 38 = Inr rid" "list_ex (\<lambda>nbr. nbr_ip nbr = ip \<and> nbr_router_id nbr = rid) (if_nbr_routers e)"
  shows "process_pwospf_hello_packet q interface (in_tables rs) = Inr (refresh_nbr ip rid interface rs\<lparr>held := table_locks Rd Wr\<rparr>)"
proof -
  have "pwospf_hello_interval (in_tables rs) = pwospf_hello_interval rs" by (simp add: in_tables_def)
  then show ?thesis using assms
    by (simp add: process_pwospf_hello_packet_def release_def acquire_free refresh_nbr_def upd_iface_def Let_def)
qed

section \<open>Properties\<close>

text \<open>
  Claim C16. A hello keeps a neighbour alive: the frame that a router builds for its interface, received by a router with another id (also after
  the byte swap with which the code compares the ids) that hears it on an interface with the same mask and the same hello interval and that already knows the sender there, sets the time of the last
  hello of exactly that neighbour to the current time, changes nothing else and releases all locks.
\<close>

theorem hello_refreshes_neighbor:
  assumes "length (if_addr ie) = 6" "hears rs rs' interface e" "if_mask e = if_mask ie" "pwospf_hello_interval rs' = pwospf_hello_interval rs"
    and "router_id rs \<noteq> router_id rs'"
    and "list_ex (\<lambda>nbr. nbr_ip nbr = if_ip ie \<and> nbr_router_id nbr = router_id rs) (if_nbr_routers e)"
  shows "\<exists>frame. hello_frame ie rs = Inr frame \<and>
    process_ip_packet frame interface rs' = Inr (refresh_nbr (if_ip ie) (router_id rs) interface rs')"
proof -
  obtain frame q where q: "hello_frame ie rs = Inr frame"
    "process_ip_packet frame interface rs' = bindR (process_pwospf_hello_packet q interface (in_tables rs')) unlock_tables"
    "ld16 q 62 = Inr (htons (pwospf_hello_interval rs))" "ld32 q 58 = Inr (if_mask ie)" "ld32 q 26 = Inr (if_ip ie)" "ld32 q 38 = Inr (router_id rs)"
    using assms(1,2) by (rule hello_handled)
  have e: "get_iface rs' interface = Some e" "held rs' = []" using assms(2) by (simp_all add: hears_def)
  then have "held (refresh_nbr (if_ip ie) (router_id rs) interface rs') = []" by (simp add: refresh_nbr_def upd_iface_def)
  then have "unlock_tables (refresh_nbr (if_ip ie) (router_id rs) interface rs'\<lparr>held := table_locks Rd Wr\<rparr>) =
      Inr (refresh_nbr (if_ip ie) (router_id rs) interface rs')"
    by (simp add: tables_locked)
  then show ?thesis using q hello_known [OF q(3) [folded assms(4)] e(1) q(4) [folded assms(3)] q(5,6) assms(6)] by simp
qed

text \<open>
  Claim C37. One hello with a foreign network mask stops the routing protocol: the handler returns without unlocking the
  router list mutex, and from then on the link state, the time-out and the route computation threads block for ever.
\<close>

theorem hello_mask_mismatch_blocks:
  assumes "length (if_addr ie) = 6" "hears rs rs' interface e" "if_mask e \<noteq> if_mask ie" "pwospf_hello_interval rs' = pwospf_hello_interval rs"
  shows "\<exists>frame rs''. hello_frame ie rs = Inr frame \<and> process_ip_packet frame interface rs' = Inr rs'' \<and>
    held rs'' = [(RouterListMutex, Wr)] \<and> pwospf_lsu_thread_step rs'' = Inl Deadlock \<and>
    pwospf_lsu_timeout_thread_step rs'' = Inl Deadlock \<and> dijkstra_thread_step False rs'' = Inl Deadlock"
proof -
  obtain frame q where q: "hello_frame ie rs = Inr frame"
    "process_ip_packet frame interface rs' = bindR (process_pwospf_hello_packet q interface (in_tables rs')) unlock_tables"
    "ld16 q 62 = Inr (htons (pwospf_hello_interval rs))" "ld32 q 58 = Inr (if_mask ie)"
    using assms(1,2) by (rule hello_handled)
  have e: "get_iface rs' interface = Some e" using assms(2) by (simp add: hears_def)
  define rs'' where "rs'' = rs'\<lparr>held := [(RouterListMutex, Wr)]\<rparr>"
  have "process_ip_packet frame interface rs' = Inr rs''"
    using q hello_mismatch [OF q(3) [folded assms(4)] e q(4) assms(3)] by (simp add: unlock_tables_def release_def rs''_def)
  moreover have "held rs'' = [(RouterListMutex, Wr)]" by (simp add: rs''_def)
  ultimately show ?thesis using q(1)
    by (auto simp: pwospf_lsu_thread_step_def pwospf_lsu_timeout_thread_step_def dijkstra_thread_step_def acquire_def)
qed

text \<open>
  A packet of the TCP stack for a destination without a route leaves the four table locks held: the call returns 1, and the next
  packet that arrives, from whatever host, is never handled.
\<close>

theorem output_without_route_blocks:
  assumes "held rs = []" "get_next_hop rs 32 dest = None"
  shows "\<exists>rs'. integ_ip_output payload proto src dest rs = Inr (1, rs') \<and> held rs' = table_locks Rd Rd \<and>
    (is_packet_valid p = Inr True \<longrightarrow> process_ip_packet p interface rs' = Inl Deadlock)"
proof -
  have "lock_tables rs = Inr (in_tables rs)" using assms(1) by (simp add: tables_locked in_tables_def)
  moreover have m: "memcpy (bzero (34 + length payload)) 34 payload 0 (length payload) = Inr (bzero 34 @ payload)"
    by (subst memcpy_in) (simp_all add: upd_bytes_def bzero_def)
  moreover define h where "h = upd_bytes (bzero 34) 14 (ip_header (word_of_nat (length payload)) proto src dest)"
  have i: "populate_ip (bzero 34 @ payload) 14 (word_of_nat (length payload)) proto src dest = Inr (h @ payload)"
    by (simp add: populate_ip_eq upd_bytes_front h_def)
  have "length h = 34" "h ! 14 = 0x45" by (simp_all add: h_def nth_upd_bytes ip_header_nth)
  then obtain c q where "compute_ip_checksum (h @ payload) 14 = Inr (c, q)" "st16 q (14 + 10) (htons c) = Inr (put_csum (h @ payload) (14 + 10) c)"
    using ip_checksum_roundtrip [of "h @ payload" 14 5] by (auto simp: nth_append)
  ultimately have "integ_ip_output payload proto src dest rs = Inr (1, in_tables rs)"
    using i assms(2) by (simp add: integ_ip_output_def send_ip_packet_def)
  then show ?thesis by (auto simp: process_ip_packet_def lock_tables_def acquire_def)
qed

section \<open>Witnesses\<close>

text \<open>Two routers on one network; the receiver knows the sender as a neighbour.\<close>

definition demo_hearer :: "u32 \<Rightarrow> router_state" where
  "demo_hearer msk = (bzero_state demo_env)\<lparr>router_id := 2, if_list := [(demo_iface ''eth0'' 0x12 msk)\<lparr>if_nbr_routers :=
    [\<lparr>nbr_router_id = 1, nbr_ip = 0x11, nbr_last_rcvd_hello = 0\<rparr>]\<rparr>], clock := 7\<rparr>"

lemma demo_hears: "hears demo_sender (demo_hearer msk) ''eth0'' ((demo_iface ''eth0'' 0x12 msk)\<lparr>if_nbr_routers :=
    [\<lparr>nbr_router_id = 1, nbr_ip = 0x11, nbr_last_rcvd_hello = 0\<rparr>]\<rparr>)"
proof -
  have "unat (htonl PWOSPF_HELLO_TIP) = 83886304" by (simp add: ntohl_def unat_le32 unat_byte32)
  then have "htonl PWOSPF_HELLO_TIP \<noteq> 0x12" by auto
  then show ?thesis
    using demo_lsu_facts(7)
    by (simp add: hears_def demo_hearer_def demo_sender_def get_iface_def demo_iface_def iface_match_ip_eq)
qed

lemma demo_intervals: "pwospf_hello_interval (demo_hearer msk) = pwospf_hello_interval demo_sender" "router_id demo_sender = 1"
    "router_id demo_sender \<noteq> router_id (demo_hearer msk)"
  by (simp_all add: demo_hearer_def demo_sender_def bzero_state_def)

theorem hello_refreshes_neighbor_witness:
  "\<exists>frame. hello_frame (demo_iface ''eth0'' 0x11 0xF0) demo_sender = Inr frame \<and>
    process_ip_packet frame ''eth0'' (demo_hearer 0xF0) = Inr (refresh_nbr 0x11 1 ''eth0'' (demo_hearer 0xF0))"
  using hello_refreshes_neighbor [OF _ demo_hears _ demo_intervals(1) demo_intervals(3), of "demo_iface ''eth0'' 0x11 0xF0"] demo_intervals(2)
  by (simp add: demo_iface_def)

theorem hello_mask_mismatch_blocks_witness:
  "\<exists>frame rs''. hello_frame (demo_iface ''eth0'' 0x11 0xF0) demo_sender = Inr frame \<and>
    process_ip_packet frame ''eth0'' (demo_hearer 0xFF) = Inr rs'' \<and> pwospf_lsu_thread_step rs'' = Inl Deadlock"
proof -
  have "length (if_addr (demo_iface ''eth0'' 0x11 0xF0)) = 6" "if_mask (demo_iface ''eth0'' 0x12 0xFF\<lparr>if_nbr_routers := n\<rparr>) \<noteq> if_mask (demo_iface ''eth0'' 0x11 0xF0)" for n
    by (simp_all add: demo_iface_def)
  from hello_mask_mismatch_blocks [OF this(1) demo_hears this(2) demo_intervals(1)] show ?thesis by blast
qed

theorem output_without_route_blocks_witness:
  "\<exists>rs'. integ_ip_output [1, 2, 3, 4] 6 9 8 (bzero_state demo_env) = Inr (1, rs') \<and>
    process_ip_packet (demo_ip 64 0x70 0x09) ''eth0'' rs' = Inl Deadlock"
  using output_without_route_blocks [of "bzero_state demo_env" 8 "[1, 2, 3, 4]" 6 9 "demo_ip 64 0x70 0x09" "''eth0''"] demo_ip_valid(1)
  by (auto simp: get_next_hop_def)

end
