(* ===== verification/Pwospf_Flood.thy ===== *)
theory Pwospf_Flood
  imports Locks
begin

text \<open>
  The flooding of link state updates ends: the handler \<open>process_pwospf_lsu_packet\<close> neither learns nor forwards an update that is not
  newer than the one on record, and what it has handled once it does not handle again.
\<close>

section \<open>What is on record\<close>

definition on_record :: "u32 \<Rightarrow> u16 \<Rightarrow> u32 \<Rightarrow> router_state \<Rightarrow> bool" where
  "on_record rid s me rs = (router_id rs = me \<and> (case get_router_by_rid rid (pwospf_router_list rs) of None \<Rightarrow> False | Some r \<Rightarrow> s \<le> r_seq r))"

lemma record_updates:
  "on_record rid s me rs \<Longrightarrow> on_record rid s me (rs\<lparr>held := h\<rparr>)" "on_record rid s me rs \<Longrightarrow> on_record rid s me (rs\<lparr>pwospf_lsu_queue := q\<rparr>)"
  "on_record rid s me rs \<Longrightarrow> on_record rid s me (dijkstra_trigger rs)" "on_record rid s me rs \<Longrightarrow> on_record rid s me (pthread_cond_signal c rs)"
  by (simp_all add: on_record_def dijkstra_trigger_def pthread_cond_signal_def)

lemma record_learnt: "okR (\<lambda>(_, _, x). on_record rid (ntohs seq) (router_id rs) x) (learn_lsu p rid seq rs)"
  if "ld32 p (pwospf_at + 4) = Inr rid" "ld16 p lsu_at = Inr seq"
proof (cases "get_router_by_rid rid (pwospf_router_list rs)")
  case None
  then have "find (\<lambda>r. r_router_id r = rid) (pwospf_router_list rs @ [r]) = (if r_router_id r = rid then Some r else None)" for r
    by (auto simp: get_router_by_rid_def find_Some_iff find_None_iff nth_append)
  then show ?thesis using None that
    by (auto simp: learn_lsu_def okR_def bindR_eq_Inr add_new_router_neighbor_def on_record_def get_router_by_rid_def Let_def)
next
  case (Some r)
  then show ?thesis
    by (auto simp: learn_lsu_def okR_def bindR_eq_Inr on_record_def get_router_by_rid_def upd_by_rid_def find_upd_first split: if_splits)
qed

lemma queue_nbrs_frame: "queue_lsu_nbrs p src iface nbrs rs = Inr rs' \<Longrightarrow> \<exists>q. rs' = rs\<lparr>pwospf_lsu_queue := q\<rparr>"
proof (induction nbrs arbitrary: rs)
  case Nil
  then show ?case by (auto intro!: exI [of _ "pwospf_lsu_queue rs"])
next
  case (Cons nbr nbrs)
  then obtain rs1 where "queue_lsu_nbrs p src iface nbrs rs1 = Inr rs'" "rs1 = rs \<or> (\<exists>q. rs1 = rs\<lparr>pwospf_lsu_queue := q\<rparr>)"
    by (auto simp: bindR_eq_Inr lock_Inr Let_def split: if_splits)
  with Cons.IH show ?case by fastforce
qed

lemma queue_ifaces_frame: "queue_lsu_ifaces p src ifs rs = Inr rs' \<Longrightarrow> \<exists>q. rs' = rs\<lparr>pwospf_lsu_queue := q\<rparr>"
proof (induction ifs arbitrary: rs)
  case Nil
  then show ?case by (auto intro!: exI [of _ "pwospf_lsu_queue rs"])
next
  case (Cons i ifs)
  then obtain rs1 where "queue_lsu_ifaces p src ifs rs1 = Inr rs'" "rs1 = rs \<or> (\<exists>q. rs1 = rs\<lparr>pwospf_lsu_queue := q\<rparr>)"
    by (auto simp: bindR_eq_Inr dest!: queue_nbrs_frame split: if_splits)
  with Cons.IH show ?case by fastforce
qed

lemma record_broadcast: "on_record rid s me rs \<Longrightarrow> okR (on_record rid s me) (broadcast_pwospf_lsu_packet p src rs)"
  unfolding broadcast_pwospf_lsu_packet_def by (auto simp: okR_def dest!: queue_ifaces_frame intro: record_updates(2))

lemma strip_seq [simp]: "r_seq (strip r) = r_seq r"
  by (simp add: strip_def)

lemma recompute_static: "static (recompute_links rl) = static rl"
proof -
  have "recompute_links rl = fold visit (walk rl [0..<length rl]) rl" unfolding recompute_links_def by (rule fold_determine) simp_all
  moreover have "\<forall>q\<in>set (walk rl [0..<length rl]). valid_pif rl (fst q) (snd q)" by (auto simp: set_walk valid_pif_def)
  ultimately show ?thesis using visits_static by simp
qed

lemma get_router_static: "map_option strip (get_router_by_rid rid rl) = get_router_by_rid rid (static rl)"
  by (induction rl) (simp_all add: get_router_by_rid_def)

lemma on_record_seq: "on_record rid s me rs \<longleftrightarrow>
    router_id rs = me \<and> (case map_option r_seq (get_router_by_rid rid (pwospf_router_list rs)) of None \<Rightarrow> False | Some n \<Rightarrow> s \<le> n)"
  by (simp add: on_record_def split: option.splits)

lemma record_recompute: "on_record rid s me rs \<Longrightarrow> on_record rid s me (rs\<lparr>pwospf_router_list := recompute_links (pwospf_router_list rs)\<rparr>)"
proof -
  have seq: "map_option r_seq (get_router_by_rid rid rl) = map_option r_seq (get_router_by_rid rid (static rl))" for rl
    unfolding get_router_static [symmetric] by (simp add: option.map_comp comp_def)
  have "map_option r_seq (get_router_by_rid rid (recompute_links rl)) = map_option r_seq (get_router_by_rid rid rl)" for rl
    unfolding seq [of "recompute_links rl"] seq [of rl] recompute_static ..
  moreover have "router_id (rs\<lparr>pwospf_router_list := rl\<rparr>) = router_id rs" "pwospf_router_list (rs\<lparr>pwospf_router_list := rl\<rparr>) = rl" for rl by simp_all
  ultimately show "on_record rid s me rs \<Longrightarrow> on_record rid s me (rs\<lparr>pwospf_router_list := recompute_links (pwospf_router_list rs)\<rparr>)"
    by (simp only: on_record_seq)
qed

text \<open>The flood changes the entry of the router itself only.\<close>

lemma record_own: "on_record rid s me rs \<Longrightarrow> rid \<noteq> me \<Longrightarrow> (\<And>r. r_router_id (f r) = r_router_id r) \<Longrightarrow> on_record rid s me (upd_by_rid me f rs)"
  by (simp add: on_record_def upd_by_rid_def get_router_by_rid_def find_upd_first_other)

lemma record_construct:
  "on_record rid s me rs \<Longrightarrow> rid \<noteq> me \<Longrightarrow> okR (\<lambda>(_, x). on_record rid s me x) (construct_pwospf_lsu_packet rs)"
proof (rule okR_act_I)
  fix q rs'
  assume r: "on_record rid s me rs" "rid \<noteq> me" and "construct_pwospf_lsu_packet rs = Inr (q, rs')"
  then have "rs' = upd_by_rid me (\<lambda>r. r\<lparr>r_last_update := clock rs, r_seq := r_seq r + 1\<rparr>) rs"
    by (auto simp: construct_pwospf_lsu_packet_def bindR_eq_Inr Let_def on_record_def split: option.splits)
  with record_own [OF r] show "on_record rid s me rs'" by simp
qed

lemma record_propagate:
  assumes "on_record rid s me rs" "rid \<noteq> me"
  shows "okR (on_record rid s me) (propagate_pwospf_changes rs)"
proof -
  have flood: "okR (on_record rid s me) (start_lsu_bcast_flood x)" if "on_record rid s me x" for x
  proof -
    have own: "on_record rid s me (upd_by_rid (router_id y) (\<lambda>r. r\<lparr>r_last_update := t\<rparr>) y)" if "on_record rid s me y" for y t
      using record_own [OF that assms(2), of "\<lambda>r. r\<lparr>r_last_update := t\<rparr>"] that by (simp add: on_record_def)
    show ?thesis unfolding start_lsu_bcast_flood_def
      by (rule okR_flow record_construct [OF _ assms(2), THEN okR_act_seq] record_broadcast [THEN okR_seq] own that | assumption)+
  qed
  show ?thesis unfolding propagate_recomputes using assms(1) by (intro flood record_updates record_recompute)
qed

lemma record_locks:
  "on_record rid s me rs \<Longrightarrow> okR (on_record rid s me) (acquire l m rs)" "on_record rid s me rs \<Longrightarrow> okR (on_record rid s me) (release l rs)"
  by (auto simp: okR_def lock_Inr intro: record_updates)

text \<open>After an update has been handled, it is on record.\<close>

lemma handled_on_record:
  assumes "ld32 p (pwospf_at + 4) = Inr rid" "ld16 p lsu_at = Inr seq" "rid \<noteq> router_id rs" "process_pwospf_lsu_packet p rs = Inr rs'"
  shows "on_record rid (ntohs seq) (router_id rs) rs'"
proof -
  have learn: "okR Q (bindR (learn_lsu p rid seq x) k)"
    if "router_id x = router_id rs" "\<And>b c y. on_record rid (ntohs seq) (router_id rs) y \<Longrightarrow> okR Q (k (b, c, y))" for x k Q
    using record_learnt [OF assms(1,2), of x] that by (auto simp: okR_def bindR_eq_Inr)
  have rest: "okR (on_record rid (ntohs seq) (router_id rs)) (bindR (ld16 p (lsu_at + 2)) (\<lambda>t.
      let ttl = ntohs t - 1; bcast_incoming_lsu_packet = (b \<and> ttl > 0) in
      bindR (if bcast_incoming_lsu_packet
             then bindR (forwarded_lsu p ttl) (\<lambda>pwospf. bindR (ld32 p (ip_at + 12)) (\<lambda>ip_src. broadcast_pwospf_lsu_packet pwospf (Some ip_src) y))
             else Inr y) (\<lambda>rs.
      bindR (if c then propagate_pwospf_changes rs else Inr rs) (\<lambda>rs.
      bindR (release RouterListMutex rs) (\<lambda>rs.
      Inr (if c \<or> bcast_incoming_lsu_packet then pthread_cond_signal LsuBcastCond rs else rs))))))"
    if "on_record rid (ntohs seq) (router_id rs) y" for b c y
    by (rule record_broadcast [THEN okR_seq] record_propagate [OF _ assms(3), THEN okR_seq] record_locks(2) [THEN okR_seq] okR_flow okR_pure that
        | assumption | simp add: record_updates)+
  have "okR (on_record rid (ntohs seq) (router_id rs)) (process_pwospf_lsu_packet p rs)"
    unfolding process_pwospf_lsu_packet_def assms(1,2) bindR_Inr
  proof (rule okR_if, use assms(3) in simp, rule okR_pure, rule okR_pure, rule okR_pure, rule learn)
    fix x1 x2 x3
    assume "release RtableLock rs = Inr x1" "acquire RtableLock Wr x1 = Inr x2" "acquire RouterListMutex Wr x2 = Inr x3"
    then show "router_id x3 = router_id rs" by (auto simp: lock_Inr)
  qed (simp only: prod.case, erule rest)
  then show ?thesis using assms(4) by (rule okR_D)
qed

section \<open>Properties\<close>

text \<open>An update that is not newer than the record.\<close>

lemma old_lsu:
  assumes "held rs = table_locks Rd Rd" "ld32 q (pwospf_at + 4) = Inr rid" "ld16 q lsu_at = Inr seq" "ld16 q (lsu_at + 2) = Inr t" "rid \<noteq> router_id rs"
    and "on_record rid (ntohs seq) (router_id rs) rs"
  shows "process_pwospf_lsu_packet q rs = Inr (rs\<lparr>held := table_locks Wr Rd\<rparr>)"
proof -
  let ?rs = "rs\<lparr>held := (RouterListMutex, Wr) # table_locks Wr Rd\<rparr>"
  have locks: "release RtableLock rs = Inr (rs\<lparr>held := [(IfListLock, Rd), (ArpQueueLock, Wr), (ArpCacheLock, Rd)]\<rparr>)"
    "acquire RtableLock Wr (rs\<lparr>held := [(IfListLock, Rd), (ArpQueueLock, Wr), (ArpCacheLock, Rd)]\<rparr>) = Inr (rs\<lparr>held := table_locks Wr Rd\<rparr>)"
    "acquire RouterListMutex Wr (rs\<lparr>held := table_locks Wr Rd\<rparr>) = Inr ?rs" "release RouterListMutex ?rs = Inr (rs\<lparr>held := table_locks Wr Rd\<rparr>)"
    using assms(1) by (simp_all add: release_def acquire_free)
  have "learn_lsu q rid seq ?rs = Inr (False, False, ?rs)" using assms(6) by (auto simp: learn_lsu_def on_record_def split: option.splits)
  then show ?thesis using assms(5) by (simp only: process_pwospf_lsu_packet_def assms(2-4) locks bindR_Inr prod.case Let_def simp_thms if_False) simp
qed

text \<open>
  Claim C35. Flooding ends: when the handler gets an LSU of another router whose sequence number is not above the one on record, all it does is to exchange the read lock of the
  routing table for the write lock: nothing is learnt, queued, recomputed or signalled. And once it has handled an LSU, of a known router or of a new one, every LSU with the same router and sequence number is
  such an LSU, so that it is not flooded again.
\<close>

theorem lsu_learnt_once:
  assumes "held rs = table_locks Rd Rd" "ld32 p (pwospf_at + 4) = Inr rid" "ld16 p lsu_at = Inr seq" "ld16 p (lsu_at + 2) = Inr t" "rid \<noteq> router_id rs"
  shows "(\<forall>r. get_router_by_rid rid (pwospf_router_list rs) = Some r \<and> ntohs seq \<le> r_seq r \<longrightarrow>
      process_pwospf_lsu_packet p rs = Inr (rs\<lparr>held := table_locks Wr Rd\<rparr>)) \<and>
    (\<forall>rs' q u. process_pwospf_lsu_packet p rs = Inr rs' \<and>
      ld32 q (pwospf_at + 4) = Inr rid \<and> ld16 q lsu_at = Inr seq \<and> ld16 q (lsu_at + 2) = Inr u \<longrightarrow>
      process_pwospf_lsu_packet q (rs'\<lparr>held := table_locks Rd Rd\<rparr>) = Inr (rs'\<lparr>held := table_locks Wr Rd\<rparr>))"
proof (intro conjI allI impI)
  fix r
  assume "get_router_by_rid rid (pwospf_router_list rs) = Some r \<and> ntohs seq \<le> r_seq r"
  then have "on_record rid (ntohs seq) (router_id rs) rs" by (simp add: on_record_def)
  from old_lsu [OF assms this] show "process_pwospf_lsu_packet p rs = Inr (rs\<lparr>held := table_locks Wr Rd\<rparr>)" .
next
  fix rs' q u
  assume q: "process_pwospf_lsu_packet p rs = Inr rs' \<and> ld32 q (pwospf_at + 4) = Inr rid \<and> ld16 q lsu_at = Inr seq \<and> ld16 q (lsu_at + 2) = Inr u"
  then have r: "on_record rid (ntohs seq) (router_id rs) rs'" using handled_on_record [OF assms(2,3,5)] by blast
  let ?rs = "rs'\<lparr>held := table_locks Rd Rd\<rparr>"
  have "router_id ?rs = router_id rs" using r by (simp add: on_record_def)
  with old_lsu [of ?rs q rid seq u] q record_updates(1) [OF r] assms(5)
  show "process_pwospf_lsu_packet q ?rs = Inr (rs'\<lparr>held := table_locks Wr Rd\<rparr>)" by simp
qed

text \<open>An LSU of router 2 with the sequence number 0, which router 1 has on record.\<close>

definition demo_lsu :: packet where
  "demo_lsu = bzero 38 @ bytes32 2 @ bzero 30"

definition demo_locked :: router_state where
  "demo_locked = demo_sender\<lparr>held := table_locks Rd Rd\<rparr>"

theorem lsu_learnt_once_witness:
  "process_pwospf_lsu_packet demo_lsu demo_locked = Inr (demo_locked\<lparr>held := table_locks Wr Rd\<rparr>) \<and>
   process_pwospf_lsu_packet (demo_lsu @ [1]) ((demo_locked\<lparr>held := table_locks Wr Rd\<rparr>)\<lparr>held := table_locks Rd Rd\<rparr>) =
     Inr ((demo_locked\<lparr>held := table_locks Wr Rd\<rparr>)\<lparr>held := table_locks Wr Rd\<rparr>)"
proof -
  have p: "ld32 demo_lsu (pwospf_at + 4) = Inr 2" "ld16 demo_lsu lsu_at = Inr 0" "ld16 demo_lsu (lsu_at + 2) = Inr 0"
    "ld32 (demo_lsu @ [1]) (pwospf_at + 4) = Inr 2" "ld16 (demo_lsu @ [1]) lsu_at = Inr 0" "ld16 (demo_lsu @ [1]) (lsu_at + 2) = Inr 0"
    using ld_le32 [of "bzero 38" 2 "bzero 30"] ld_le32 [of "bzero 38" 2 "bzero 30 @ [1]"]
    by (simp_all add: demo_lsu_def ld16_def nth_append bzero_def le16_def)
  have h: "held demo_locked = table_locks Rd Rd" "2 \<noteq> router_id demo_locked" by (simp_all add: demo_locked_def demo_sender_def)
  have "get_router_by_rid 2 (pwospf_router_list demo_locked) = Some (demo_router 2 [demo_link 0x10 1, demo_link 0x20 3])"
    "ntohs 0 \<le> r_seq (demo_router 2 [demo_link 0x10 1, demo_link 0x20 3])"
    by (simp_all add: demo_locked_def demo_sender_def demo_line_def get_router_by_rid_def demo_router_def ntohs_def byte16_def le16_def)
  then show ?thesis using lsu_learnt_once [OF h(1) p(1-3) h(2)] p(4-6) by blast
qed

end
