(* ===== verification/Stale_Prev.thy ===== *)
theory Stale_Prev
  imports Pwospf_Flood
begin

text \<open>
  The predecessors that the shortest path computation leaves behind. A computation sets the predecessor of every router it reaches and never clears one,
  and a router that times out is freed while others still point to it. When such a router can no longer be reached, the next computation follows its pointer
  into freed memory.
\<close>

section \<open>Predecessors that are kept\<close>








section \<open>The walk into freed memory\<close>





section \<open>A computation after a time-out\<close>







section \<open>The two threads\<close>




section \<open>The line of three routers\<close>

text \<open>The line after a first computation; router 2 has not been heard of for too long, router 3 has.\<close>

definition demo_computed :: "pwospf_router list" where
  "demo_computed =
    [(demo_router 1 [demo_link 0x10 2])\<lparr>r_shortest_path_found := True\<rparr>,
     (demo_router 2 [demo_link 0x10 1, demo_link 0x20 3])\<lparr>r_distance := 1, r_shortest_path_found := True, r_prev_router := Some 1\<rparr>,
     (demo_router 3 [demo_link 0x20 2])\<lparr>r_distance := 2, r_shortest_path_found := True, r_last_update := 100, r_prev_router := Some 2\<rparr>]"



lemma demo_computed_eq:
  "demo_computed = shortest_paths 1 [demo_router 1 [demo_link 0x10 2], demo_router 2 [demo_link 0x10 1, demo_link 0x20 3],
     (demo_router 3 [demo_link 0x20 2])\<lparr>r_last_update := 100\<rparr>]"
  by code_simp





end
