(* ===== verification/Boot.thy ===== *)
theory Boot
  imports Locks
begin

text \<open>
  Starting the router on the NetFPGA: a default route in the routing table file makes \<^verbatim>\<open>init_rtable\<close> lock the router list mutex, which
  only \<^verbatim>\<open>init_ospf\<close>, called later, creates. Started by the VNS server, where the order is the other way round, the router
  announces the default route.
\<close>

definition fresh :: "router_state \<Rightarrow> bool" where
  "fresh rs = (held rs = [] \<and> pwospf_router_list rs = [])"

lemma fresh_updates:
  "fresh rs \<Longrightarrow> fresh (rs\<lparr>if_list := il\<rparr>)" "fresh rs \<Longrightarrow> fresh (rs\<lparr>router_id := i\<rparr>)" "fresh rs \<Longrightarrow> fresh (write_hw_iface_mac port hi lo rs)"
  "fresh rs \<Longrightarrow> fresh rs' \<Longrightarrow> fresh (if b then rs else rs')"
  by (simp_all add: fresh_def write_hw_iface_mac_def writeReg_def)

lemma write_filter_rows_keeps [simp]:
  "held (write_filter_rows i n cur rs) = held rs" "pwospf_router_list (write_filter_rows i n cur rs) = pwospf_router_list rs"
  using write_filter_rows_frame [of i n cur rs] by auto

lemma fresh_filters_change: "fresh rs \<Longrightarrow> okR fresh (trigger_local_ip_filters_change rs)"
  by (auto simp: okR_def trigger_local_ip_filters_change_def bindR_eq_Inr lock_Inr Let_def fresh_def)

lemma fresh_add_filter: "fresh rs \<Longrightarrow> okR (\<lambda>(_, x). fresh x) (add_local_ip_filter ip name rs)"
proof -
  assume f: "fresh rs"
  have "okR fresh (bindR (acquire LocalIpFilterMutex Wr rs) (\<lambda>rs.
      release LocalIpFilterMutex (rs\<lparr>local_ip_filter_list := local_ip_filter_list rs @ [\<lparr>lf_ip = ip, lf_name = take 31 name\<rparr>]\<rparr>)))"
    using f by (auto simp: okR_def bindR_eq_Inr lock_Inr fresh_def)
  then have "okR (\<lambda>(_, x). fresh x) (bindR (bindR (acquire LocalIpFilterMutex Wr rs) (\<lambda>rs.
      release LocalIpFilterMutex (rs\<lparr>local_ip_filter_list := local_ip_filter_list rs @ [\<lparr>lf_ip = ip, lf_name = take 31 name\<rparr>]\<rparr>)))
      (\<lambda>rs. bindR (trigger_local_ip_filters_change rs) (\<lambda>rs. Inr (0, rs))))"
    by (rule okR_seq) (rule okR_seq [OF fresh_filters_change], assumption, simp add: okR_Inr)
  then show ?thesis using f by (auto simp: add_local_ip_filter_def bindR_assoc Let_def intro: okR_Inr)
qed

lemma fresh_add_interface: "fresh rs \<Longrightarrow> okR fresh (init_add_interface v rs)"
  unfolding init_add_interface_def
  by (rule fresh_add_filter [THEN okR_act_seq] okR_flow okR_pure fresh_updates | assumption)+

lemma fresh_add_interfaces: "fresh rs \<Longrightarrow> okR fresh (add_interfaces vs rs)"
  by (induction vs arbitrary: rs) (auto simp: okR_Inr intro: okR_seq [OF fresh_add_interface])

lemma fresh_init: "okR fresh (init e)"
proof -
  have "fresh rs \<Longrightarrow> okR fresh (init_hardware rs)" for rs
    by (auto simp: okR_def init_hardware_def write_rtable_to_hw_def write_arp_cache_eq log_regs_def fresh_def dest!: write_tcam_rows_frame)
  from this [of "(bzero_state e)\<lparr>area_id := 0, arp_ttl := 300, nat_timeout := 120, is_netfpga := True\<rparr>"]
  show ?thesis by (simp add: init_def Let_def okR_Inr fresh_def)
qed

lemma default_route_in:
  assumes "(0, gw, 0, ifn) \<in> set routes"
  shows "default_route_present (rs\<lparr>rtable := rt @ map rtable_line routes\<rparr>) \<noteq> None"
proof -
  have "rtable_line (0, gw, 0, ifn) \<in> set (map rtable_line routes)" using assms by (metis imageI list.set_map)
  then have "\<exists>x\<in>set (rt @ map rtable_line routes). re_static x \<and> re_ip x = 0 \<and> re_mask x = 0"
    by (intro bexI [of _ "rtable_line (0, gw, 0, ifn)"]) (simp_all add: rtable_line_def)
  then show ?thesis unfolding default_route_present_def by (auto simp: find_None_iff)
qed

lemma init_empty_table: "\<exists>rs. init e = Inr rs"
proof -
  have "\<exists>rs'. write_tcam_rows i n [] rs = Inr rs'" for i n rs by (induction n arbitrary: i rs) auto
  then show ?thesis by (auto simp: init_def init_hardware_def write_rtable_to_hw_def write_arp_cache_eq log_regs_def Let_def)
qed

section \<open>Properties\<close>

text \<open>
  On the NetFPGA a routing table file with a default route crashes the router at its start: whatever the interfaces and the
  other routes are, once the interfaces are set up the router dereferences the mutex that does not exist yet.
\<close>

theorem boot_default_route_crash:
  assumes "init e = Inr rs0" "add_interfaces hwfile rs0 = Inr rs1" "(0, gw, 0, ifn) \<in> set routes"
  shows "boot_cpu e hwfile routes = Inl NullDeref"
proof -
  have "fresh rs1" using okR_D [OF fresh_add_interfaces assms(2)] okR_D [OF fresh_init assms(1)] by blast
  then obtain rs2 where rs2: "init_router_list rs1 = Inr rs2" "held rs2 = []" by (simp add: init_router_list_def fresh_def Let_def)
  obtain pi where "default_route_present (rs2\<lparr>held := [(RtableLock, Wr)], rtable := rtable rs2 @ map rtable_line routes\<rparr>) = Some pi"
    using default_route_in [OF assms(3), of "rtable rs2" "rs2\<lparr>held := [(RtableLock, Wr)]\<rparr>"] by auto
  then have "init_rtable False routes rs2 = Inl NullDeref"
    using rs2(2) by (simp add: init_rtable_def acquire_free release_def Let_def)
  then show ?thesis using assms(1,2) rs2(1) by (simp add: boot_cpu_def sr_integ_hw_setup_def)
qed

theorem boot_default_route_crash_witness: "boot_cpu demo_env [] [(0, 7, 0, ''eth0'')] = Inl NullDeref"
proof -
  obtain rs0 where "init demo_env = Inr rs0" using init_empty_table by blast
  from boot_default_route_crash [OF this, of "[]" rs0 7 "''eth0''" "[(0, 7, 0, ''eth0'')]"] show ?thesis by simp
qed

end
