(* ===== verification/Cstring.thy ===== *)
theory Cstring
  imports Scone_Prelude
begin

text \<open>
  Text: the functions of the C library with which the command line reads its arguments and prints its answers, and the
  string helpers of \<^verbatim>\<open>or_utils.c\<close>. A C string is the list of its characters before the terminating zero.

  \<open>sscanf\<close> knows the directives the source uses, with the GNU meaning of \<^verbatim>\<open>%as\<close> (an allocated string). It returns the values it assigned;
  the C result is their number. A number is read as by \<^verbatim>\<open>strtol\<close> and \<^verbatim>\<open>strtoul\<close> on a 64 bit host and stored in an \<^verbatim>\<open>int\<close>.
\<close>

section \<open>Characters and numbers\<close>

definition is_space :: "char \<Rightarrow> bool" where
  "is_space c = (c = CHR '' '' \<or> (let n = of_char c :: nat in 9 \<le> n \<and> n \<le> 13))"

definition digit_val :: "char \<Rightarrow> nat option" where
  "digit_val c =
    (let n = of_char c :: nat in
     if 48 \<le> n \<and> n \<le> 57 then Some (n - 48)
     else if 65 \<le> n \<and> n \<le> 70 then Some (n - 55)
     else if 97 \<le> n \<and> n \<le> 102 then Some (n - 87)
     else None)"

definition is_digit :: "nat \<Rightarrow> char \<Rightarrow> bool" where
  "is_digit base c = (case digit_val c of None \<Rightarrow> False | Some d \<Rightarrow> d < base)"

definition numeral_value :: "nat \<Rightarrow> string \<Rightarrow> nat" where
  "numeral_value base s = fold (\<lambda>c v. base * v + the (digit_val c)) s 0"

definition hex_digit :: "nat \<Rightarrow> char" where
  "hex_digit n = char_of (if n < 10 then 48 + n else 55 + n)"

fun show_nat :: "nat \<Rightarrow> string" where
  "show_nat n = (if n < 10 then [hex_digit n] else show_nat (n div 10) @ [hex_digit (n mod 10)])"

declare show_nat.simps [simp del]

definition show_int :: "int \<Rightarrow> string" where
  "show_int i = (if i < 0 then ''-'' @ show_nat (nat (- i)) else show_nat (nat i))"

definition show_02X :: "u8 \<Rightarrow> string" where
  "show_02X b = [hex_digit (unat b div 16), hex_digit (unat b mod 16)]"

text \<open>\<^verbatim>\<open>%-ns\<close>, \<^verbatim>\<open>%ns\<close> and the cut that \<^verbatim>\<open>snprintf\<close> makes.\<close>

definition pad_right :: "nat \<Rightarrow> string \<Rightarrow> string" where
  "pad_right n s = s @ replicate (n - length s) CHR '' ''"

definition pad_left :: "nat \<Rightarrow> string \<Rightarrow> string" where
  "pad_left n s = replicate (n - length s) CHR '' '' @ s"

definition snprintf :: "nat \<Rightarrow> string \<Rightarrow> string" where
  "snprintf n s = take (n - 1) s"

definition cstr :: "string \<Rightarrow> string" where
  "cstr buf = takeWhile (\<lambda>c. c \<noteq> CHR 0x00) buf"

section \<open>Reading\<close>

datatype directive = White | Lit char | ConvS | ConvU | ConvD | ConvX2

datatype arg = ArgS string | ArgU u32 | ArgD int

function format :: "string \<Rightarrow> directive list" where
  "format [] = []"
| "format (c # cs) =
    (if c = CHR ''%'' then
       (if take 2 cs = ''as'' then ConvS # format (drop 2 cs)
        else if take 2 cs = ''2X'' then ConvX2 # format (drop 2 cs)
        else if take 1 cs = ''u'' then ConvU # format (drop 1 cs)
        else if take 1 cs = ''d'' then ConvD # format (drop 1 cs)
        else Lit c # format cs)
     else if is_space c then White # format cs
     else Lit c # format cs)"
  by pat_completeness auto
termination by (relation "measure length") auto

text \<open>The sign, the absolute value and the rest of the input, of a number of at most \<open>width\<close> characters.\<close>

definition scan_number :: "nat \<Rightarrow> nat option \<Rightarrow> string \<Rightarrow> (bool \<times> nat \<times> string) option" where
  "scan_number base width input =
    (let s = dropWhile is_space input;
         lim = (case width of None \<Rightarrow> s | Some w \<Rightarrow> take w s);
         neg = (take 1 lim = ''-'');
         t = (if neg \<or> take 1 lim = ''+'' then drop 1 lim else lim);
         prefix = (base = 16 \<and> (take 2 t = ''0x'' \<or> take 2 t = ''0X''));
         u = (if prefix then drop 2 t else t);
         ds = takeWhile (is_digit base) u
     in if ds = [] \<and> \<not> prefix then None
        else Some (neg, numeral_value base ds, drop (length lim - length u + length ds) s))"

definition to_uint :: "bool \<Rightarrow> nat \<Rightarrow> u32" where
  "to_uint neg v = (if v \<ge> 2 ^ 64 then - 1 else if neg then - word_of_nat v else word_of_nat v)"

definition to_int :: "bool \<Rightarrow> nat \<Rightarrow> int" where
  "to_int neg v =
    signed_take_bit 31 (if neg then (if v \<ge> 2 ^ 63 then - (2 ^ 63) else - int v) else if v \<ge> 2 ^ 63 then 2 ^ 63 - 1 else int v)"

fun scan :: "directive list \<Rightarrow> string \<Rightarrow> arg list" where
  "scan [] s = []"
| "scan (White # ds) s = scan ds (dropWhile is_space s)"
| "scan (Lit c # ds) s = (case s of [] \<Rightarrow> [] | x # xs \<Rightarrow> if x = c then scan ds xs else [])"
| "scan (ConvS # ds) s =
    (let t = dropWhile is_space s; w = takeWhile (\<lambda>c. \<not> is_space c) t in
     if w = [] then [] else ArgS w # scan ds (dropWhile (\<lambda>c. \<not> is_space c) t))"
| "scan (ConvU # ds) s =
    (case scan_number 10 None s of None \<Rightarrow> [] | Some (neg, v, r) \<Rightarrow> ArgU (to_uint neg v) # scan ds r)"
| "scan (ConvD # ds) s =
    (case scan_number 10 None s of None \<Rightarrow> [] | Some (neg, v, r) \<Rightarrow> ArgD (to_int neg v) # scan ds r)"
| "scan (ConvX2 # ds) s =
    (case scan_number 16 (Some 2) s of None \<Rightarrow> [] | Some (neg, v, r) \<Rightarrow> ArgU (to_uint neg v) # scan ds r)"

definition sscanf :: "string \<Rightarrow> string \<Rightarrow> arg list" where
  "sscanf s fmt = scan (format fmt) s"

section \<open>Addresses\<close>

text \<open>\<^verbatim>\<open>inet_pton\<close>: the octets read so far, the octet being read, the characters left.\<close>

fun pton_loop :: "nat list \<Rightarrow> nat option \<Rightarrow> string \<Rightarrow> nat list option" where
  "pton_loop os (Some v) [] = (if length os = 3 then Some (os @ [v]) else None)"
| "pton_loop os None [] = None"
| "pton_loop os cur (c # cs) =
    (if is_digit 10 c then
       (let d = the (digit_val c) in
        case cur of
          None \<Rightarrow> if length os = 4 then None else pton_loop os (Some d) cs
        | Some v \<Rightarrow> if v = 0 \<or> 10 * v + d > 255 then None else pton_loop os (Some (10 * v + d)) cs)
     else if c = CHR ''.'' then
       (case cur of Some v \<Rightarrow> if length os = 3 then None else pton_loop (os @ [v]) None cs | None \<Rightarrow> None)
     else None)"

definition inet_pton :: "string \<Rightarrow> u32 option" where
  "inet_pton s =
    map_option (\<lambda>os. le32 (word_of_nat (os ! 0)) (word_of_nat (os ! 1)) (word_of_nat (os ! 2)) (word_of_nat (os ! 3))) (pton_loop [] None s)"

definition inet_ntop :: "u32 \<Rightarrow> string" where
  "inet_ntop a =
    show_nat (unat (byte32 0 a)) @ ''.'' @ show_nat (unat (byte32 1 a)) @ ''.'' @
    show_nat (unat (byte32 2 a)) @ ''.'' @ show_nat (unat (byte32 3 a))"

section \<open>String helpers of the router\<close>

definition cleanCRLFs :: "string \<Rightarrow> string" where
  "cleanCRLFs c =
    (let len = length (cstr c) in
     map (\<lambda>x. if x = CHR 0x0D \<or> x = CHR 0x0A then CHR 0x00 else x) (take len c) @ drop len c)"

text \<open>\<open>my_strncat\<close>: the string and its allocated size. A size of zero is never grown.\<close>

partial_function (option) grow :: "nat \<Rightarrow> nat \<Rightarrow> nat option" where
  "grow need alloc = (if need > alloc then grow need (2 * alloc) else Some alloc)"

definition my_strncat :: "string \<Rightarrow> string \<Rightarrow> nat \<Rightarrow> (string \<times> nat) res" where
  "my_strncat left right alloc =
    bindR (returnsR (grow (length left + length right + 1) alloc)) (\<lambda>alloc. Inr (left @ right, alloc))"

definition is_alnum :: "char \<Rightarrow> bool" where
  "is_alnum c = (let n = of_char c :: nat in (48 \<le> n \<and> n \<le> 57) \<or> (97 \<le> n \<and> n \<le> 122) \<or> (65 \<le> n \<and> n \<le> 90))"

definition urlencode :: "string \<Rightarrow> string" where
  "urlencode str =
    concat (map (\<lambda>c. if is_alnum c then [c]
      else [CHR ''%'', hex_digit (of_char c div 16), hex_digit (of_char c mod 16)]) str)"

text \<open>\<^verbatim>\<open>sscanf("%X")\<close> of one character leaves the value 0 when it is no digit.\<close>

definition hex_value :: "char \<Rightarrow> nat" where
  "hex_value c = (case digit_val c of None \<Rightarrow> 0 | Some d \<Rightarrow> d)"

fun urldecode_loop :: "string \<Rightarrow> string" where
  "urldecode_loop [] = []"
| "urldecode_loop (c # cs) =
    (if c = CHR ''%'' \<and> 2 \<le> length cs
     then char_of (16 * hex_value (cs ! 0) + hex_value (cs ! 1)) # urldecode_loop (drop 2 cs)
     else if c = CHR ''+'' then CHR '' '' # urldecode_loop cs
     else c # urldecode_loop cs)"

definition urldecode :: "string \<Rightarrow> string" where
  "urldecode str = cstr (urldecode_loop str)"

definition getMax :: "int list \<Rightarrow> int" where
  "getMax xs = fold (\<lambda>x m. if x > m then x else m) xs (- (2 ^ 31))"

section \<open>Printing and reading back\<close>

named_theorems text_simps \<open>reading what was printed\<close>

lemma digit_val_hex: "n < 16 \<Longrightarrow> digit_val (hex_digit n) = Some n"
  by (auto simp: digit_val_def hex_digit_def Let_def)

lemma is_digit_hex [text_simps]: "n < 10 \<Longrightarrow> is_digit 10 (hex_digit n)"
  by (simp add: is_digit_def digit_val_hex)

lemma is_digit_not_space: "is_digit base c \<Longrightarrow> \<not> is_space c"
  by (auto simp: is_digit_def digit_val_def is_space_def Let_def split: if_splits)

lemma show_nat_digits: "list_all (is_digit 10) (show_nat n)"
  by (induction n rule: show_nat.induct) (subst show_nat.simps, auto simp: is_digit_hex)

lemma show_nat_Nil [simp]: "show_nat n \<noteq> []"
  by (subst show_nat.simps) simp

lemma length_show_nat: "n < 10 ^ Suc k \<Longrightarrow> length (show_nat n) \<le> Suc k"
proof (induction k arbitrary: n)
  case 0
  then show ?case by (subst show_nat.simps) simp
next
  case (Suc k)
  then have "n div 10 < 10 ^ Suc k" by (simp add: div_less_iff_less_mult)
  from Suc.IH [OF this] show ?case by (subst show_nat.simps) simp
qed

declare pton_loop.simps(3) [simp del]

lemma pton_digit: "d < 10 \<Longrightarrow> length os < 4 \<Longrightarrow> pton_loop os None (hex_digit d # s) = pton_loop os (Some d) s"
  by (simp add: pton_loop.simps digit_val_hex is_digit_hex)

lemma pton_more: "d < 10 \<Longrightarrow> 0 < v \<Longrightarrow> 10 * v + d < 256 \<Longrightarrow> pton_loop os (Some v) (hex_digit d # s) = pton_loop os (Some (10 * v + d)) s"
  by (simp add: pton_loop.simps digit_val_hex is_digit_hex)

lemma pton_show_nat:
  assumes "n < 256" "length os < 4"
  shows "pton_loop os None (show_nat n @ s) = pton_loop os (Some n) s"
  using assms(1)
proof (induction n arbitrary: s rule: show_nat.induct)
  case (1 n)
  show ?case
  proof (cases "n < 10")
    case True
    then show ?thesis using assms(2) by (subst show_nat.simps) (simp add: pton_digit)
  next
    case False
    with 1 have "pton_loop os None (show_nat (n div 10) @ hex_digit (n mod 10) # s) = pton_loop os (Some (n div 10)) (hex_digit (n mod 10) # s)" by simp
    also have "\<dots> = pton_loop os (Some n) s" using False 1(2) by (subst pton_more) simp_all
    finally show ?thesis using False by (subst show_nat.simps) simp
  qed
qed

lemma pton_dot: "length os < 3 \<Longrightarrow> pton_loop os (Some v) (CHR ''.'' # s) = pton_loop (os @ [v]) None s"
  by (simp add: pton_loop.simps is_digit_def digit_val_def)

lemma pton_ntop [text_simps]: "inet_pton (inet_ntop a) = Some a"
  using pton_show_nat [of "unat (byte32 3 a)" _ "[]"]
  by (simp add: inet_pton_def inet_ntop_def pton_show_nat pton_dot unat_u8_lt)

lemma length_ntop: "length (inet_ntop a) \<le> 15"
proof -
  have "length (show_nat (unat b)) \<le> 3" for b :: u8 using length_show_nat [of "unat b" 2] unat_u8_lt [of b] by simp
  from this [of "byte32 0 a"] this [of "byte32 1 a"] this [of "byte32 2 a"] this [of "byte32 3 a"] show ?thesis by (simp add: inet_ntop_def)
qed

text \<open>A printed address is one word.\<close>

definition is_word :: "string \<Rightarrow> bool" where
  "is_word w = (w \<noteq> [] \<and> list_all (\<lambda>c. \<not> is_space c) w)"

lemma is_word_ntop [text_simps]: "is_word (inet_ntop a)"
proof -
  have "list_all (\<lambda>c. \<not> is_space c) (show_nat n)" for n
    using show_nat_digits [of n] by (auto simp: list_all_iff dest: is_digit_not_space)
  moreover have "\<not> is_space CHR ''.''" by code_simp
  ultimately show ?thesis by (simp add: is_word_def inet_ntop_def)
qed

lemma dropWhile_word: "is_word w \<Longrightarrow> dropWhile is_space (w @ s) = w @ s"
  by (cases w) (auto simp: is_word_def)

lemma split_word: "is_word w \<Longrightarrow> is_space c \<Longrightarrow> takeWhile (\<lambda>c. \<not> is_space c) (w @ c # s) = w"
  "is_word w \<Longrightarrow> is_space c \<Longrightarrow> dropWhile (\<lambda>c. \<not> is_space c) (w @ c # s) = c # s"
  "is_word w \<Longrightarrow> takeWhile (\<lambda>c. \<not> is_space c) w = w" "is_word w \<Longrightarrow> dropWhile (\<lambda>c. \<not> is_space c) w = []"
  by (auto simp: is_word_def list_all_iff takeWhile_append takeWhile_eq_all_conv dropWhile_append)

lemma space_is_space [simp]: "is_space CHR '' ''"
  by (simp add: is_space_def)

lemma scan_word [text_simps]:
  assumes "is_word w"
  shows "scan (White # ds) (CHR '' '' # w @ s) = scan ds (w @ s)" "scan (White # ds) (CHR '' '' # w) = scan ds w"
    "scan (ConvS # ds) w = ArgS w # scan ds []" "scan (ConvS # ds) (w @ CHR '' '' # s) = ArgS w # scan ds (CHR '' '' # s)"
proof -
  have "w \<noteq> []" "dropWhile is_space w = w" using assms dropWhile_word [OF assms, of "[]"] by (simp_all add: is_word_def)
  then show "scan (White # ds) (CHR '' '' # w @ s) = scan ds (w @ s)" "scan (White # ds) (CHR '' '' # w) = scan ds w"
    "scan (ConvS # ds) w = ArgS w # scan ds []" "scan (ConvS # ds) (w @ CHR '' '' # s) = ArgS w # scan ds (CHR '' '' # s)"
    by (simp_all add: dropWhile_word [OF assms] split_word [OF assms] Let_def)
qed

lemma scan_lits: "scan (map Lit cs @ ds) (cs @ s) = scan ds s"
  by (induction cs) auto

lemma scan_Nil [text_simps]: "scan [] s = []"
  by simp

text \<open>The words in front of the arguments.\<close>

definition words :: "string list \<Rightarrow> string" where
  "words ws = concat (map (\<lambda>w. w @ '' '') ws)"

definition word_format :: "string list \<Rightarrow> directive list" where
  "word_format ws = concat (map (\<lambda>w. map Lit w @ [White]) ws)"

lemma scan_words: "list_all is_word ws \<Longrightarrow> is_word w \<Longrightarrow> scan (word_format ws @ ds) (words ws @ w @ s) = scan ds (w @ s)"
proof (induction ws)
  case (Cons v ws)
  have "words ws @ w @ s = (if ws = [] then w @ s else List.hd ws @ '' '' @ words (tl ws) @ w @ s)"
    by (cases ws) (simp_all add: words_def)
  moreover have "scan (White # word_format ws @ ds) (CHR '' '' # u @ t) = scan (word_format ws @ ds) (u @ t)" if "is_word u" for u t
    using that by (rule scan_word(1))
  ultimately have "scan (White # word_format ws @ ds) (CHR '' '' # words ws @ w @ s) = scan (word_format ws @ ds) (words ws @ w @ s)"
    using Cons.prems by (cases ws) auto
  with Cons show ?case by (simp add: word_format_def words_def scan_lits)
qed (simp add: word_format_def words_def)

text \<open>A size that is not zero is doubled until it fits.\<close>

lemma grow_fits: "0 < alloc \<Longrightarrow> \<exists>n. grow need alloc = Some n \<and> need \<le> n \<and> (n = alloc \<or> n < 2 * need)"
proof (induction "need - alloc" arbitrary: alloc rule: less_induct)
  case less
  show ?case
  proof (cases "need > alloc")
    case True
    then have "need - 2 * alloc < need - alloc" using less.prems by linarith
    from less.hyps [OF this] less.prems obtain n where "grow need (2 * alloc) = Some n" "need \<le> n" "n = 2 * alloc \<or> n < 2 * need" by auto
    then show ?thesis using True by (subst grow.simps) auto
  qed (subst grow.simps, simp)
qed

lemma urldecode_loop_encoded:
  "urldecode_loop (urlencode s) = s"
proof (induction s)
  case (Cons c s)
  have "c \<noteq> CHR ''%'' \<and> c \<noteq> CHR ''+''" if "is_alnum c" using that by (auto simp: is_alnum_def Let_def)
  moreover have "char_of (16 * hex_value (hex_digit (of_char c div 16)) + hex_value (hex_digit (of_char c mod 16))) = c"
    by (simp add: hex_value_def digit_val_hex div_less_iff_less_mult)
  ultimately show ?case using Cons by (auto simp: urlencode_def)
qed (simp add: urlencode_def)

lemma length_urlencode: "length (urlencode s) \<le> 3 * length s"
  by (induction s) (auto simp: urlencode_def)

lemma length_urldecode: "length (urldecode_loop s) \<le> length s"
  by (induction s rule: urldecode_loop.induct) auto

section \<open>Properties\<close>

text \<open>
  A string that is sent through \<^verbatim>\<open>urlencode\<close> and \<^verbatim>\<open>urldecode\<close> comes back unchanged, and both stay within the memory they allocate: three characters and
  one for each character of the input.
\<close>

theorem url_round_trip:
  assumes "list_all (\<lambda>c. c \<noteq> CHR 0x00) s"
  shows "urldecode (urlencode s) = s \<and> length (urlencode s) \<le> 3 * length s \<and> length (urldecode_loop t) \<le> length t"
proof -
  have "cstr s = s" using assms by (simp add: cstr_def takeWhile_eq_all_conv list_all_iff)
  then show ?thesis by (simp add: urldecode_def urldecode_loop_encoded length_urlencode length_urldecode)
qed

theorem url_round_trip_witness:
  "urlencode ''nat set/eth0 +'' = ''nat%20set%2Feth0%20%2B'' \<and> urldecode (urlencode ''nat set/eth0 +'') = ''nat set/eth0 +''"
proof -
  have "urlencode ''nat set/eth0 +'' = ''nat%20set%2Feth0%20%2B''" by code_simp
  with url_round_trip [of "''nat set/eth0 +''" "[]"] show ?thesis by simp
qed

text \<open>
  \<^verbatim>\<open>my_strncat\<close> returns for every buffer of at least one byte, with the two strings joined, and the buffer it returns
  has room for the result and its terminating zero.
\<close>

theorem my_strncat_fits:
  assumes "0 < alloc"
  shows "\<exists>n. my_strncat left right alloc = Inr (left @ right, n) \<and> length (left @ right) < n \<and> (n = alloc \<or> n \<le> 2 * length (left @ right) + 1)"
  using grow_fits [OF assms, of "length left + length right + 1"] by (auto simp: my_strncat_def)

theorem my_strncat_fits_witness: "\<exists>n. my_strncat ''abc'' ''defgh'' 4 = Inr (''abcdefgh'', n) \<and> 8 < n"
  using my_strncat_fits [of 4 "''abc''" "''defgh''"] by auto

end
