(* ===== verification/Output.thy ===== *)
theory Output
  imports Pwospf_Links Cstring
begin

text \<open>
  The tables as text: the \<^verbatim>\<open>sprint\<close> functions of \<^verbatim>\<open>or_output.c\<close>. Each allocates a buffer for a heading and a fixed
  number of bytes per entry and appends one line after the other with \<^verbatim>\<open>COPY_STRING\<close>, a \<^verbatim>\<open>memcpy\<close> without a check; an append
  past the end of the buffer is a fault of the model. The times of ARP entries are whole seconds, so \<^verbatim>\<open>%f\<close> prints six zeros.
  The functions that print packets on the console have no effect on the router and are left out.
\<close>

section \<open>Lines in a buffer\<close>

definition COPY_STRING :: "nat \<Rightarrow> string \<Rightarrow> string \<Rightarrow> string res" where
  "COPY_STRING alloc buf str = (if length buf + length str \<le> alloc then Inr (buf @ str) else Inl OutOfBounds)"

fun copy_lines :: "nat \<Rightarrow> string \<Rightarrow> string list \<Rightarrow> string res" where
  "copy_lines alloc buf [] = Inr buf"
| "copy_lines alloc buf (l # ls) = bindR (COPY_STRING alloc buf l) (\<lambda>buf. copy_lines alloc buf ls)"

definition newline :: string where
  "newline = [CHR 0x0A]"

definition mac_text :: "u8 list \<Rightarrow> string" where
  "mac_text ha = show_02X (ha ! 0) @ '':'' @ show_02X (ha ! 1) @ '':'' @ show_02X (ha ! 2) @ '':'' @
    show_02X (ha ! 3) @ '':'' @ show_02X (ha ! 4) @ '':'' @ show_02X (ha ! 5)"

definition yes_no :: "bool \<Rightarrow> string" where
  "yes_no b = (if b then ''Y'' else ''N'')"

section \<open>The software tables\<close>

definition ARP_CACHE_COL :: string where
  "ARP_CACHE_COL = ''IP Address      MAC               TTL'' @ newline"

definition arp_cache_line :: "router_state \<Rightarrow> arp_cache_entry \<Rightarrow> string" where
  "arp_cache_line rs e =
    (let ttl = snprintf 47 (if ac_static e = 0 then show_int (uint (arp_ttl rs) - (clock rs - ac_TTL e)) @ ''.000000'' else ''static'')
     in snprintf 82 (pad_right 15 (inet_ntop (ac_ip e)) @ '' '' @ mac_text (ac_ha e) @ '' '' @ pad_right 46 ttl @ newline))"

definition sprint_arp_cache :: "router_state \<Rightarrow> string res" where
  "sprint_arp_cache rs =
    copy_lines (length ARP_CACHE_COL + 82 * length (arp_cache rs)) [] (ARP_CACHE_COL # map (arp_cache_line rs) (arp_cache rs))"

definition IFACE_COL :: string where
  "IFACE_COL = ''Name                  MAC               IP              Mask            Speed Up WAN'' @ newline"

definition if_list_line :: "iface_entry \<Rightarrow> string" where
  "if_list_line ie =
    snprintf 100 (pad_right 21 (snprintf 21 (if_name ie)) @ '' '' @ mac_text (if_addr ie) @ '' '' @
      pad_right 15 (inet_ntop (if_ip ie)) @ '' '' @ pad_right 15 (inet_ntop (if_mask ie)) @ '' '' @
      pad_right 5 (show_int (sint (if_speed ie))) @ '' '' @ pad_right 2 (yes_no (if_active ie)) @ '' '' @
      pad_right 2 (yes_no (if_is_wan ie)) @ newline)"

definition sprint_if_list :: "router_state \<Rightarrow> string res" where
  "sprint_if_list rs = copy_lines (length IFACE_COL + 100 * length (if_list rs)) [] (IFACE_COL # map if_list_line (if_list rs))"

definition RTABLE_COL :: string where
  "RTABLE_COL = ''Destination     Gateway         Mask            Iface              Static Active'' @ newline"

definition sprint_rtable_line :: "rtable_entry \<Rightarrow> string" where
  "sprint_rtable_line re =
    snprintf 82 (pad_right 15 (inet_ntop (re_ip re)) @ '' '' @ pad_right 15 (inet_ntop (re_gw re)) @ '' '' @
      pad_right 15 (inet_ntop (re_mask re)) @ '' '' @ pad_right 18 (snprintf 18 (re_iface re)) @ '' '' @
      pad_right 6 (yes_no (re_static re)) @ '' '' @ pad_right 6 (yes_no (re_active re)) @ newline)"

definition sprint_rtable :: "router_state \<Rightarrow> string res" where
  "sprint_rtable rs = copy_lines (length RTABLE_COL + 82 * length (rtable rs)) [] (RTABLE_COL # map sprint_rtable_line (rtable rs))"

definition PWOSPF_ROUTER_LIST_COL :: string where
  "PWOSPF_ROUTER_LIST_COL = ''RID                 AID  SEQ  LU   DIST SPF'' @ newline"

definition router_line :: "router_state \<Rightarrow> pwospf_router \<Rightarrow> string" where
  "router_line rs r =
    snprintf 160 (pad_right 20 (inet_ntop (r_router_id r)) @ pad_right 5 (show_int (sint (ntohl (r_area_id r)))) @
      pad_right 5 (show_nat (unat (r_seq r))) @
      pad_right 5 (if age_exceeds (clock rs) (r_last_update r) (pwospf_lsu_interval rs * 3) then ''EXP''
        else show_int (clock rs - r_last_update r)) @
      pad_right 5 (show_int (sint (r_distance r))) @ pad_right 5 (if r_shortest_path_found r then ''1'' else ''0'') @ newline)"

definition adv_line :: "pwospf_interface \<Rightarrow> string" where
  "adv_line i =
    snprintf 160 (''          '' @ pad_right 20 (inet_ntop (pi_subnet i)) @ pad_right 20 (inet_ntop (pi_mask i)) @
      pad_right 20 (inet_ntop (pi_router_id i)) @ pad_right 5 (if pi_active i then ''1'' else ''0'') @ newline)"

definition sprint_pwospf_router_list :: "router_state \<Rightarrow> string res" where
  "sprint_pwospf_router_list rs =
    (let num_entries = sum_list (map (\<lambda>r. 1 + length (r_interface_list r)) (pwospf_router_list rs)) in
     copy_lines (length PWOSPF_ROUTER_LIST_COL + (num_entries + 1) * 160) []
       (PWOSPF_ROUTER_LIST_COL # concat (map (\<lambda>r. router_line rs r # map adv_line (r_interface_list r)) (pwospf_router_list rs))))"

section \<open>The neighbours\<close>

text \<open>The id and the address of the last neighbour printed are kept from one interface to the next.\<close>

definition PWOSPF_IFACE_COL :: string where
  "PWOSPF_IFACE_COL = ''Name IP                  Mask                LSH  NID                 NIP                 LRH  A'' @ newline"

definition pwospf_if_text :: "string \<Rightarrow> string \<Rightarrow> string \<Rightarrow> string \<Rightarrow> string \<Rightarrow> string \<Rightarrow> string \<Rightarrow> string \<Rightarrow> string" where
  "pwospf_if_text name ip msk lsent nid nip lrecv act =
    snprintf 256 (pad_right 5 name @ pad_right 20 ip @ pad_right 20 msk @ pad_right 5 lsent @ pad_right 20 nid @ pad_right 20 nip @
      pad_right 5 lrecv @ pad_right 1 act @ '' '' @ newline)"

definition hello_age :: "router_state \<Rightarrow> int \<Rightarrow> int \<Rightarrow> string" where
  "hello_age rs t limit = (if clock rs - t > limit then ''EXP'' else snprintf 47 (show_int (clock rs - t)))"

definition nbr_age :: "router_state \<Rightarrow> nbr_router \<Rightarrow> string" where
  "nbr_age rs nbr = hello_age rs (nbr_last_rcvd_hello nbr) (3 * uint (pwospf_hello_interval rs))"

definition nbr_line :: "router_state \<Rightarrow> nbr_router \<Rightarrow> string" where
  "nbr_line rs nbr = pwospf_if_text [] [] [] [] (inet_ntop (nbr_router_id nbr)) (inet_ntop (nbr_ip nbr)) (nbr_age rs nbr) []"

definition pwospf_if_lines :: "router_state \<Rightarrow> iface_entry \<Rightarrow> u32 \<times> u32 \<Rightarrow> string list \<times> u32 \<times> u32" where
  "pwospf_if_lines rs ie shown =
    (let nbrs = if_nbr_routers ie;
         (nid, nip) = (case nbrs of [] \<Rightarrow> shown | nbr # _ \<Rightarrow> (nbr_router_id nbr, nbr_ip nbr));
         lrecv = (case nbrs of [] \<Rightarrow> [] | nbr # _ \<Rightarrow> nbr_age rs nbr);
         first = pwospf_if_text (snprintf 21 (if_name ie)) (inet_ntop (if_ip ie)) (inet_ntop (if_mask ie))
           (hello_age rs (if_last_sent_hello ie) (uint (pwospf_hello_interval rs)))
           (if nip \<noteq> 0 then inet_ntop nid else []) (if nip \<noteq> 0 then inet_ntop nip else []) (if nip \<noteq> 0 then lrecv else [])
           (yes_no (if_active ie))
     in (first # map (nbr_line rs) (tl nbrs),
         case nbrs of [] \<Rightarrow> shown | _ \<Rightarrow> (nbr_router_id (last nbrs), nbr_ip (last nbrs))))"

fun all_if_lines :: "router_state \<Rightarrow> iface_entry list \<Rightarrow> u32 \<times> u32 \<Rightarrow> string list" where
  "all_if_lines rs [] shown = []"
| "all_if_lines rs (ie # ifs) shown = (let (ls, shown) = pwospf_if_lines rs ie shown in ls @ all_if_lines rs ifs shown)"

definition sprint_pwospf_if_list :: "router_state \<Rightarrow> string res" where
  "sprint_pwospf_if_list rs =
    copy_lines (length PWOSPF_IFACE_COL + 256 * length (if_list rs)) [] (PWOSPF_IFACE_COL # all_if_lines rs (if_list rs) (0, 0))"

section \<open>The tables of the hardware\<close>

text \<open>A row is read by writing its address and the command \<^verbatim>\<open>0x11\<close>; the replies come from the hardware.\<close>

definition readReg :: "reply_reg \<Rightarrow> router_state \<Rightarrow> u32" where
  "readReg r rs = hw_reply (renv rs) (regs rs) r"

definition select_row :: "u32 \<Rightarrow> nat \<Rightarrow> router_state \<Rightarrow> router_state" where
  "select_row base i rs = writeReg INDIRECTCOMMAND 0x11 (writeReg INDIRECTADDRESS (base OR word_of_nat i) rs)"

definition HW_RTABLE_COL :: string where
  "HW_RTABLE_COL = ''ROW  IP                  GW                  MASK                IFACE'' @ newline"

definition hw_rtable_line :: "nat \<Rightarrow> router_state \<Rightarrow> string" where
  "hw_rtable_line i rs =
    snprintf 160 (pad_right 5 (show_nat i) @ pad_right 20 (inet_ntop (ntohl (readReg REPLY_A_HI rs))) @
      pad_right 20 (inet_ntop (ntohl (readReg REPLY_A_LOW rs))) @ pad_right 20 (inet_ntop (ntohl (readReg REPLY_B_HI rs))) @
      pad_right 20 (getIfaceFromOneHotPortNumber 32 (readReg REPLY_B_LOW rs)) @ newline)"

definition HW_ARP_CACHE_COL :: string where
  "HW_ARP_CACHE_COL = ''MAC'' @ replicate 3 CHR 0x09 @ ''GW'' @ newline"

definition mac_of_regs :: "u32 \<Rightarrow> u32 \<Rightarrow> u8 list" where
  "mac_of_regs hi lo = [ucast (drop_bit 8 hi), ucast hi, ucast (drop_bit 24 lo), ucast (drop_bit 16 lo), ucast (drop_bit 8 lo), ucast lo]"

definition hw_arp_line :: "nat \<Rightarrow> router_state \<Rightarrow> string" where
  "hw_arp_line i rs =
    snprintf 80 (mac_text (mac_of_regs (readReg REPLY_A_HI rs) (readReg REPLY_A_LOW rs)) @ [CHR 0x09] @
      pad_right 15 (inet_ntop (ntohl (readReg REPLY_B_LOW rs))) @ newline)"

fun read_rows :: "u32 \<Rightarrow> (nat \<Rightarrow> router_state \<Rightarrow> string) \<Rightarrow> nat list \<Rightarrow> router_state \<Rightarrow> string list \<times> router_state" where
  "read_rows base line [] rs = ([], rs)"
| "read_rows base line (i # is) rs =
    (let rs = select_row base i rs; (ls, rs') = read_rows base line is rs in (line i rs # ls, rs'))"

definition sprint_hw_rtable :: "router_state \<Rightarrow> (string \<times> router_state) res" where
  "sprint_hw_rtable rs =
    (let n = lpm_tcam_width (renv rs); (ls, rs) = read_rows (lpm_tcam_address (renv rs)) hw_rtable_line [0..<n] rs in
     bindR (copy_lines (length HW_RTABLE_COL + n * 160) [] (HW_RTABLE_COL # ls)) (\<lambda>s. Inr (s, rs)))"

definition sprint_hw_arp_cache :: "router_state \<Rightarrow> (string \<times> router_state) res" where
  "sprint_hw_arp_cache rs =
    (let n = arp_cam_width (renv rs); (ls, rs) = read_rows (arp_cam_address (renv rs)) hw_arp_line [0..<n] rs in
     bindR (copy_lines (length HW_ARP_CACHE_COL + n * 80) [] (HW_ARP_CACHE_COL # ls)) (\<lambda>s. Inr (s, rs)))"

definition HW_LOCAL_IP_FILTER_HEADER :: string where
  "HW_LOCAL_IP_FILTER_HEADER = ''Row IP             '' @ newline"

definition hw_filter_line :: "nat \<Rightarrow> router_state \<Rightarrow> string" where
  "hw_filter_line i rs =
    snprintf 21 (pad_left 3 (show_nat i) @ '' '' @ pad_left 15 (inet_ntop (ntohl (readReg REPLY_B_LOW rs))) @ newline)"

definition sprint_hw_local_ip_filter :: "router_state \<Rightarrow> (string \<times> router_state) res" where
  "sprint_hw_local_ip_filter rs =
    (if \<not> is_netfpga rs then Inr ([], rs)
     else
       let n = dest_ip_cam_width (renv rs); (ls, rs) = read_rows (dest_ip_cam_address (renv rs)) hw_filter_line [0..<n] rs in
       bindR (copy_lines ((1 + n) * 21 + 1) [] (HW_LOCAL_IP_FILTER_HEADER # ls)) (\<lambda>s. Inr (s, rs)))"

text \<open>The ports 2 and 3 have a null name, which the GNU library prints as \<open>(null)\<close>.\<close>

definition HW_IFACE_COL :: string where
  "HW_IFACE_COL = ''Port'' @ [CHR 0x09] @ ''MAC'' @ newline"

definition hw_iface_line :: "router_state \<Rightarrow> nat \<Rightarrow> string" where
  "hw_iface_line rs i =
    (let name = (if i = 0 then ETH0 else if i = 1 then ETH1 else ''(null)'');
         (hi, lo) = read_hw_iface_mac (\<lambda>r. readReg (REPLY_MAC r) rs) (word_of_nat i)
     in snprintf 80 (pad_right 5 name @ [CHR 0x09] @ mac_text (mac_of_regs hi lo) @ newline))"

definition sprint_hw_iface :: "router_state \<Rightarrow> string res" where
  "sprint_hw_iface rs = copy_lines (length HW_IFACE_COL + 4 * 80) [] (HW_IFACE_COL # map (hw_iface_line rs) [0..<4])"

text \<open>\<^verbatim>\<open>sprint_hw_drops\<close> passes four arguments to a format with eight conversions; reading the fifth is undefined.\<close>

definition sprint_hw_drops :: "router_state \<Rightarrow> string res" where
  "sprint_hw_drops rs = (if is_netfpga rs then Inl OutOfBounds else Inr [])"

section \<open>Bounds\<close>

lemma copy_lines_eq:
  "copy_lines alloc buf ls =
    (if ls = [] \<or> length buf + length (concat ls) \<le> alloc then Inr (buf @ concat ls) else Inl OutOfBounds)"
  by (induction ls arbitrary: buf) (auto simp: COPY_STRING_def)

lemma length_snprintf: "length (snprintf n s) \<le> n"
  by (simp add: snprintf_def)

lemma length_concat_le: "list_all (\<lambda>l. length l \<le> n) ls \<Longrightarrow> length (concat ls) \<le> n * length ls"
  by (induction ls) auto

lemma copy_table:
  assumes "list_all (\<lambda>l. length l \<le> n) ls" "length col + n * length ls \<le> alloc"
  shows "copy_lines alloc [] (col # ls) = Inr (col @ concat ls)"
  using length_concat_le [OF assms(1)] assms(2) by (simp add: copy_lines_eq)

lemma sprint_software_tables:
  "sprint_arp_cache rs = Inr (ARP_CACHE_COL @ concat (map (arp_cache_line rs) (arp_cache rs)))"
  "sprint_if_list rs = Inr (IFACE_COL @ concat (map if_list_line (if_list rs)))"
  "sprint_rtable rs = Inr (RTABLE_COL @ concat (map sprint_rtable_line (rtable rs)))"
proof -
  have l: "list_all (\<lambda>l. length l \<le> 82) (map (arp_cache_line rs) es)" "list_all (\<lambda>l. length l \<le> 100) (map if_list_line ifs)"
    "list_all (\<lambda>l. length l \<le> 82) (map sprint_rtable_line t)" for es ifs t
    by (simp_all add: list_all_iff arp_cache_line_def if_list_line_def sprint_rtable_line_def length_snprintf Let_def)
  show "sprint_arp_cache rs = Inr (ARP_CACHE_COL @ concat (map (arp_cache_line rs) (arp_cache rs)))"
    "sprint_if_list rs = Inr (IFACE_COL @ concat (map if_list_line (if_list rs)))"
    "sprint_rtable rs = Inr (RTABLE_COL @ concat (map sprint_rtable_line (rtable rs)))"
    unfolding sprint_arp_cache_def sprint_if_list_def sprint_rtable_def by (rule copy_table [OF l(1)] copy_table [OF l(2)] copy_table [OF l(3)], simp)+
qed

lemma length_read_rows: "length (fst (read_rows base line is rs)) = length is"
  by (induction base line "is" rs rule: read_rows.induct) (auto simp: Let_def split: prod.splits)

lemma set_read_rows: "(\<And>i rs. length (line i rs) \<le> n) \<Longrightarrow> list_all (\<lambda>l. length l \<le> n) (fst (read_rows base line is rs))"
  by (induction base line "is" rs rule: read_rows.induct) (auto simp: Let_def split: prod.splits)

lemma copy_rows:
  assumes "\<And>i rs. length (line i rs) \<le> n" "length col + n * length rows \<le> alloc"
  shows "\<exists>s. copy_lines alloc [] (col # fst (read_rows base line rows rs)) = Inr s"
  using copy_table [where col = col, OF set_read_rows [where line = line, OF assms(1)]] assms(2) by (auto simp: length_read_rows)

lemma sprint_rows:
  assumes "\<And>i rs. length (line i rs) \<le> n" "length col + n * k \<le> alloc"
  shows "\<exists>s rs'. (case read_rows base line [0..<k] rs of (ls, rs) \<Rightarrow> bindR (copy_lines alloc [] (col # ls)) (\<lambda>s. Inr (s, rs))) = Inr (s, rs')"
proof -
  obtain s where "copy_lines alloc [] (col # fst (read_rows base line [0..<k] rs)) = Inr s"
    using copy_rows [where line = line and col = col and rows = "[0..<k]" and alloc = alloc and base = base and rs = rs, OF assms(1)] assms(2)
    by (auto simp del: copy_lines.simps)
  then show ?thesis by (simp add: case_prod_beta del: copy_lines.simps)
qed

lemma sprint_hw_tables:
  "\<exists>s rs'. sprint_hw_rtable rs = Inr (s, rs')" "\<exists>s rs'. sprint_hw_arp_cache rs = Inr (s, rs')"
  "\<exists>s rs'. sprint_hw_local_ip_filter rs = Inr (s, rs')" "\<exists>s. sprint_hw_iface rs = Inr s"
proof -
  have l: "length (hw_rtable_line i rs) \<le> 160" "length (hw_arp_line i rs) \<le> 80" "length (hw_filter_line i rs) \<le> 21"
    "length (hw_iface_line rs i) \<le> 80" for i rs
    by (simp_all add: hw_rtable_line_def hw_arp_line_def hw_filter_line_def hw_iface_line_def length_snprintf split: prod.splits)
  show "\<exists>s rs'. sprint_hw_rtable rs = Inr (s, rs')" unfolding sprint_hw_rtable_def Let_def by (rule sprint_rows [OF l(1)]) simp
  show "\<exists>s rs'. sprint_hw_arp_cache rs = Inr (s, rs')" unfolding sprint_hw_arp_cache_def Let_def by (rule sprint_rows [OF l(2)]) simp
  have "\<exists>s rs'. (case read_rows (dest_ip_cam_address (renv rs)) hw_filter_line [0..<k] rs of
      (ls, rs) \<Rightarrow> bindR (copy_lines ((1 + k) * 21 + 1) [] (HW_LOCAL_IP_FILTER_HEADER # ls)) (\<lambda>s. Inr (s, rs))) = Inr (s, rs')" for k
    by (rule sprint_rows [OF l(3)]) (simp add: HW_LOCAL_IP_FILTER_HEADER_def newline_def)
  then show "\<exists>s rs'. sprint_hw_local_ip_filter rs = Inr (s, rs')" by (simp add: sprint_hw_local_ip_filter_def Let_def)
  show "\<exists>s. sprint_hw_iface rs = Inr s" unfolding sprint_hw_iface_def
    by (subst copy_table [where n = 80]) (auto simp: l(4) list_all_iff)
qed

lemma sprint_router_list: "\<exists>s. sprint_pwospf_router_list rs = Inr s"
proof -
  let ?ls = "\<lambda>rl. concat (map (\<lambda>r. router_line rs r # map adv_line (r_interface_list r)) rl)"
  have "list_all (\<lambda>l. length l \<le> 160) (?ls rl)" for rl
    by (auto simp: list_all_iff router_line_def adv_line_def length_snprintf)
  moreover have "length (?ls rl) = sum_list (map (\<lambda>r. 1 + length (r_interface_list r)) rl)" for rl by (induction rl) auto
  ultimately show ?thesis unfolding sprint_pwospf_router_list_def Let_def by (subst copy_table [where n = 160]) auto
qed

text \<open>The lines for the neighbours.\<close>

lemma length_pad_right: "n \<le> length (pad_right n s)" "length s \<le> n \<Longrightarrow> length (pad_right n s) = n"
  by (simp_all add: pad_right_def)

lemma length_snprintf_less: "length (snprintf (Suc n) s) \<le> n"
  by (simp add: snprintf_def)

lemma length_snprintf_ge: "k < n \<Longrightarrow> k \<le> length s \<Longrightarrow> k \<le> length (snprintf n s)"
  by (simp add: snprintf_def)

lemma length_pwospf_if_text: "98 \<le> length (pwospf_if_text a b c d e f g h)" "length (pwospf_if_text a b c d e f g h) \<le> 255"
proof -
  note p = length_pad_right(1) [of 5 a] length_pad_right(1) [of 20 b] length_pad_right(1) [of 20 c] length_pad_right(1) [of 5 d]
    length_pad_right(1) [of 20 e] length_pad_right(1) [of 20 f] length_pad_right(1) [of 5 g] length_pad_right(1) [of 1 h]
  show "98 \<le> length (pwospf_if_text a b c d e f g h)" unfolding pwospf_if_text_def
    by (rule length_snprintf_ge) (use p in \<open>simp_all add: newline_def\<close>)
  show "length (pwospf_if_text a b c d e f g h) \<le> 255" using length_snprintf_less [of 255] by (simp add: pwospf_if_text_def)
qed

lemma all_if_lines_bounds:
  "list_all (\<lambda>l. 98 \<le> length l \<and> length l \<le> 255) (all_if_lines rs ifs shown)"
  "length (all_if_lines rs ifs shown) = sum_list (map (\<lambda>ie. max 1 (length (if_nbr_routers ie))) ifs)"
proof (induction rs ifs shown rule: all_if_lines.induct)
  case (2 rs ie ifs shown)
  have "list_all (\<lambda>l. 98 \<le> length l \<and> length l \<le> 255) (fst (pwospf_if_lines rs ie shown))"
    "length (fst (pwospf_if_lines rs ie shown)) = max 1 (length (if_nbr_routers ie))"
    by (auto simp: pwospf_if_lines_def Let_def nbr_line_def length_pwospf_if_text list_all_iff split: prod.splits list.splits)
  with 2 show "list_all (\<lambda>l. 98 \<le> length l \<and> length l \<le> 255) (all_if_lines rs (ie # ifs) shown)"
    "length (all_if_lines rs (ie # ifs) shown) = sum_list (map (\<lambda>ie. max 1 (length (if_nbr_routers ie))) (ie # ifs))"
    by (auto split: prod.splits)
qed simp_all

lemma length_concat_ge: "list_all (\<lambda>l. n \<le> length l) ls \<Longrightarrow> n * length ls \<le> length (concat ls)"
  by (induction ls) auto

section \<open>Properties\<close>

text \<open>
  Claim C26. Printing stays within its buffers: the ARP cache, the interface list, the routing table, the router list and the four tables read from the hardware
  are printed without a write past the memory allocated for them, whatever they contain. The PWOSPF interface table is not among them: its buffer can overflow (\<open>pwospf_if_list_overflow\<close>).
\<close>

theorem sprint_tables_fit:
  "\<exists>a i t r h ha f hi. sprint_arp_cache rs = Inr a \<and> sprint_if_list rs = Inr i \<and> sprint_rtable rs = Inr t \<and>
    sprint_pwospf_router_list rs = Inr r \<and> sprint_hw_rtable rs = Inr h \<and> sprint_hw_arp_cache rs = Inr ha \<and>
    sprint_hw_local_ip_filter rs = Inr f \<and> sprint_hw_iface rs = Inr hi"
  using sprint_software_tables [of rs] sprint_router_list [of rs] sprint_hw_tables [of rs] by blast

text \<open>
  The list of the neighbours is not printed safely: \<^verbatim>\<open>sprint_pwospf_if_list\<close> allocates 256 bytes for an interface and prints a line of at least 98 for
  each of its neighbours. It overflows its buffer as soon as the lines, one for each interface and for each further neighbour, need more than was allocated, for instance with
  three neighbours on one interface, and it is safe when no interface has more than one neighbour.
\<close>

theorem pwospf_if_list_overflow:
  "(256 * length (if_list rs) < 98 * sum_list (map (\<lambda>ie. max 1 (length (if_nbr_routers ie))) (if_list rs)) \<longrightarrow>
      sprint_pwospf_if_list rs = Inl OutOfBounds) \<and>
   (list_all (\<lambda>ie. length (if_nbr_routers ie) \<le> 1) (if_list rs) \<longrightarrow> (\<exists>s. sprint_pwospf_if_list rs = Inr s))"
proof (intro conjI impI)
  let ?ls = "all_if_lines rs (if_list rs) (0, 0)"
  have b: "list_all (\<lambda>l. 98 \<le> length l) ?ls" "list_all (\<lambda>l. length l \<le> 256) ?ls"
    using all_if_lines_bounds(1) [of rs "if_list rs" "(0, 0)"] by (auto simp: list_all_iff)
  show "sprint_pwospf_if_list rs = Inl OutOfBounds"
    if "256 * length (if_list rs) < 98 * sum_list (map (\<lambda>ie. max 1 (length (if_nbr_routers ie))) (if_list rs))"
    using that length_concat_ge [OF b(1)] by (simp add: sprint_pwospf_if_list_def copy_lines_eq all_if_lines_bounds(2))
  show "\<exists>s. sprint_pwospf_if_list rs = Inr s" if "list_all (\<lambda>ie. length (if_nbr_routers ie) \<le> 1) (if_list rs)"
  proof -
    have "map (\<lambda>ie. max 1 (length (if_nbr_routers ie))) (if_list rs) = map (\<lambda>_. 1) (if_list rs)" using that by (auto simp: list_all_iff)
    then have "length ?ls = length (if_list rs)" by (simp only: all_if_lines_bounds(2)) (simp add: sum_list_triv)
    then show ?thesis unfolding sprint_pwospf_if_list_def by (subst copy_table [OF b(2)]) auto
  qed
qed

definition demo_crowded :: router_state where
  "demo_crowded = (bzero_state demo_env)\<lparr>if_list := [\<lparr>if_name = ''eth0'', if_addr = replicate 6 0, if_ip = 1, if_mask = 0xFF, if_speed = 0,
    if_active = True, if_last_sent_hello = 0, if_nbr_routers = map (\<lambda>i. \<lparr>nbr_router_id = i, nbr_ip = i, nbr_last_rcvd_hello = 0\<rparr>) [2, 3, 4],
    if_is_wan = False\<rparr>]\<rparr>"

theorem pwospf_if_list_overflow_witness: "sprint_pwospf_if_list demo_crowded = Inl OutOfBounds"
  using pwospf_if_list_overflow [of demo_crowded] by (simp add: demo_crowded_def)

end
