(* ===== verification/Cli.thy ===== *)
theory Cli
  imports Init Output
begin

text \<open>
  The command line: the handlers of the commands in \<^verbatim>\<open>or_rtable.c\<close>, \<^verbatim>\<open>or_arp.c\<close>, \<^verbatim>\<open>or_iface.c\<close>, \<^verbatim>\<open>or_pwospf.c\<close>, \<^verbatim>\<open>or_netfpga.c\<close>,
  \<^verbatim>\<open>or_nat.c\<close>, \<^verbatim>\<open>or_vns.c\<close> and \<^verbatim>\<open>or_sping.c\<close>, the command table that \<^verbatim>\<open>init_cli\<close> builds, the search for the longest matching command and the
  loop that serves a telnet client (\<^verbatim>\<open>or_cli.c\<close>). A handler sends its answer to the socket of the request; what it allocates and
  frees is not part of the state.
\<close>

record cli_request =
  command :: string
  sockfd :: int

type_synonym cli_command_handler = "cli_request \<Rightarrow> router_state \<Rightarrow> router_state res"

definition reply :: "cli_request \<Rightarrow> string \<Rightarrow> router_state \<Rightarrow> router_state" where
  "reply req s rs = send_to_socket (sockfd req) s rs"

definition reply_line :: "cli_request \<Rightarrow> string \<Rightarrow> router_state \<Rightarrow> router_state" where
  "reply_line req s rs = reply req (s @ newline) rs"

text \<open>A handler that only prints usage lines.\<close>

definition usage :: "string list \<Rightarrow> cli_command_handler" where
  "usage ls req rs = Inr (fold (reply_line req) ls rs)"

fun strA :: "arg \<Rightarrow> string" where
  "strA (ArgS s) = s"
| "strA _ = []"

fun uintA :: "arg \<Rightarrow> u32" where
  "uintA (ArgU n) = n"
| "uintA _ = 0"

fun intA :: "arg \<Rightarrow> int" where
  "intA (ArgD n) = n"
| "intA _ = 0"

section \<open>Routes\<close>

definition cli_show_ip_rtable :: cli_command_handler where
  "cli_show_ip_rtable req rs =
    bindR (acquire RtableLock Rd rs) (\<lambda>rs.
    bindR (sprint_rtable rs) (\<lambda>rtable_info.
    bindR (release RtableLock rs) (\<lambda>rs. Inr (reply req rtable_info rs))))"

definition cli_ip_route_add :: cli_command_handler where
  "cli_ip_route_add req rs =
    (let args = sscanf (command req) ''ip route add %as %as %as %as'' in
     if length args \<noteq> 4 then Inr (reply_line req ''Failure reading arguments.'' rs)
     else
       case inet_pton (strA (args ! 0)) of
         None \<Rightarrow> Inr (reply_line req ''Failure reading destination.'' rs)
       | Some dest \<Rightarrow>
           (case inet_pton (strA (args ! 1)) of
              None \<Rightarrow> Inr (reply_line req ''Failure reading gateway.'' rs)
            | Some gateway \<Rightarrow>
                (case inet_pton (strA (args ! 2)) of
                   None \<Rightarrow> Inr (reply_line req ''Failure reading mask.'' rs)
                 | Some msk \<Rightarrow>
                     bindR (acquire RtableLock Wr rs) (\<lambda>rs.
                     bindR (add_route dest gateway msk (strA (args ! 3)) rs) (\<lambda>(add_result, rs).
                     bindR (release RtableLock rs) (\<lambda>rs.
                     Inr (if add_result \<noteq> 0 then reply_line req ''Failure adding route.'' rs
                          else reply_line req ''Successfully added route.'' rs)))))))"

definition cli_ip_route_del :: cli_command_handler where
  "cli_ip_route_del req rs =
    (let args = sscanf (command req) ''ip route del %as %as'' in
     if length args \<noteq> 2 then Inr (reply_line req ''Failure reading arguments.'' rs)
     else
       case inet_pton (strA (args ! 0)) of
         None \<Rightarrow> Inr (reply_line req ''Failure reading destination.'' rs)
       | Some dest \<Rightarrow>
           (case inet_pton (strA (args ! 1)) of
              None \<Rightarrow> Inr (reply_line req ''Failure reading mask.'' rs)
            | Some msk \<Rightarrow>
                bindR (acquire RtableLock Wr rs) (\<lambda>rs.
                bindR (del_route dest msk rs) (\<lambda>(del_result, rs).
                bindR (release RtableLock rs) (\<lambda>rs.
                Inr (if del_result \<noteq> 1 then reply_line req (show_int del_result @ '' routes deleted.'') rs
                     else reply_line req (show_int del_result @ '' route deleted.'') rs))))))"

definition cli_show_hw_rtable :: cli_command_handler where
  "cli_show_hw_rtable req rs =
    (if is_netfpga rs then bindR (sprint_hw_rtable rs) (\<lambda>(s, rs). Inr (reply req s rs)) else Inr rs)"

section \<open>ARP\<close>

definition cli_show_ip_arp :: cli_command_handler where
  "cli_show_ip_arp req rs =
    (let rs = reply req (snprintf 32 (''Arp Cache TTL: '' @ pad_left 5 (show_nat (unat (arp_ttl rs))) @ '' seconds'' @ newline @ newline)) rs in
     bindR (acquire ArpCacheLock Rd rs) (\<lambda>rs.
     bindR (sprint_arp_cache rs) (\<lambda>arp_cache_info.
     bindR (release ArpCacheLock rs) (\<lambda>rs. Inr (reply req arp_cache_info rs)))))"

definition mac_args :: "arg list \<Rightarrow> u8 list" where
  "mac_args args = map (\<lambda>a. ucast (uintA a)) args"

definition cli_ip_arp_add :: cli_command_handler where
  "cli_ip_arp_add req rs =
    (let args = sscanf (command req) ''ip arp add %as %2X:%2X:%2X:%2X:%2X:%2X'' in
     if length args \<noteq> 7 then Inr (reply_line req ''Failure reading arguments.'' rs)
     else
       case inet_pton (strA (args ! 0)) of
         None \<Rightarrow> Inr (reply_line req ''Failure reading ip.'' rs)
       | Some ip \<Rightarrow>
           bindR (acquire ArpCacheLock Wr rs) (\<lambda>rs.
           let r = update_arp_cache ip (mac_args (tl args)) 1 rs in
           bindR (release ArpCacheLock (snd r)) (\<lambda>rs.
           Inr (reply_line req (if fst r \<noteq> 0 then ''Failure adding arp cache entry.'' else ''Successfully added arp cache entry.'') rs))))"

definition cli_ip_arp_del :: cli_command_handler where
  "cli_ip_arp_del req rs =
    (let args = sscanf (command req) ''ip arp del %as'' in
     if length args \<noteq> 1 then Inr (reply_line req ''Failure reading arguments.'' rs)
     else
       case inet_pton (strA (args ! 0)) of
         None \<Rightarrow> Inr (reply_line req ''Failure reading ip.'' rs)
       | Some ip \<Rightarrow>
           bindR (acquire ArpCacheLock Wr rs) (\<lambda>rs.
           let r = del_arp_cache ip rs; result = fst r; rs = (if result > 0 then trigger_arp_cache_modified (snd r) else snd r) in
           bindR (release ArpCacheLock rs) (\<lambda>rs.
           Inr (if result \<noteq> 1 then reply_line req (show_int result @ '' arp cache entries deleted.'') rs
                else reply_line req (show_int result @ '' arp cache entry deleted.'') rs))))"

definition cli_show_hw_arp_cache :: cli_command_handler where
  "cli_show_hw_arp_cache req rs =
    (if is_netfpga rs then bindR (sprint_hw_arp_cache rs) (\<lambda>(s, rs). Inr (reply req s rs)) else Inr rs)"

definition cli_nuke_arp_cache :: cli_command_handler where
  "cli_nuke_arp_cache req rs =
    bindR (acquire ArpCacheLock Wr rs) (\<lambda>rs.
    let rs = rs\<lparr>arp_cache := []\<rparr>; rs = (if is_netfpga rs then trigger_arp_cache_modified rs else rs) in
    bindR (release ArpCacheLock rs) (\<lambda>rs.
    Inr (reply_line req ''SW and HW arp cache info was nuked'' rs)))"

text \<open>The format \<^verbatim>\<open>%ui\<close> is \<^verbatim>\<open>%u\<close> followed by a letter that need not match.\<close>

definition cli_nuke_hw_arp_cache_entry :: cli_command_handler where
  "cli_nuke_hw_arp_cache_entry req rs =
    (if is_netfpga rs then
       (let args = sscanf (command req) ''nuke hw arp %ui'' in
        if length args \<noteq> 1 then Inr (reply_line req ''Failure to read arguments.'' rs)
        else
          let row = uintA (args ! 0) in
          if row > word_of_nat (arp_cam_width (renv rs)) - 1 then Inr (reply_line req ''Specified invalid row'' rs)
          else
            Inr (reply_line req (''Row '' @ show_int (sint row) @ '' has been nuked'')
              (writeReg INDIRECTCOMMAND 1 (writeReg INDIRECTADDRESS (arp_cam_address (renv rs) OR row)
              (writeReg WRDATA_A_LOW 0 (writeReg WRDATA_A_HI 0 (writeReg WRDATA_B_LOW 0 rs)))))))
     else Inr rs)"

definition cli_hw_arp_cache_misses :: cli_command_handler where
  "cli_hw_arp_cache_misses req rs =
    (if is_netfpga rs
     then Inr (reply_line req (''HW ARP CACHE MISSES: '' @ show_int (sint (ntohl (readReg ARP_MISS_CNTR rs)))) rs)
     else Inr rs)"

definition cli_hw_num_pckts_fwd :: cli_command_handler where
  "cli_hw_num_pckts_fwd req rs =
    (if is_netfpga rs
     then Inr (reply_line req (''HW NUMBER OF PACKETS FORWARDED: '' @ show_int (sint (ntohl (readReg FORWARDED_CNTR rs)))) rs)
     else Inr rs)"

definition cli_ip_arp_set_ttl :: cli_command_handler where
  "cli_ip_arp_set_ttl req rs =
    (let args = sscanf (command req) ''ip arp set ttl %ui'' in
     if length args \<noteq> 1 then Inr (reply_line req ''Syntax error'' rs)
     else
       let rs = rs\<lparr>arp_ttl := uintA (args ! 0)\<rparr> in
       Inr (reply_line req (''Arp entry TTL has been set to: '' @ show_int (sint (arp_ttl rs))) rs))"

section \<open>Interfaces\<close>

definition cli_show_ip_iface :: cli_command_handler where
  "cli_show_ip_iface req rs =
    bindR (acquire IfListLock Rd rs) (\<lambda>rs.
    bindR (sprint_if_list rs) (\<lambda>if_list_info.
    bindR (release IfListLock rs) (\<lambda>rs. Inr (reply req if_list_info rs))))"

text \<open>With two arguments \<^verbatim>\<open>mask_str\<close> is null, and \<^verbatim>\<open>inet_pton\<close> dereferences it.\<close>

definition cli_ip_interface :: cli_command_handler where
  "cli_ip_interface req rs =
    (let args = sscanf (command req) ''ip interface %as %as %as'' in
     if length args < 2 \<or> length args > 3 then Inr (reply_line req ''Syntax error.'' rs)
     else
       let name = strA (args ! 0); ip_str = strA (args ! 1); mask_str = (if length args = 3 then Some (strA (args ! 2)) else None) in
       if strncmp_eq ''up'' ip_str 2 then
         bindR (acquire IfListLock Wr rs) (\<lambda>rs.
         bindR (acquire RtableLock Wr rs) (\<lambda>rs.
         bindR (iface_up name rs) (\<lambda>(retval, rs).
         bindR (release RtableLock rs) (\<lambda>rs.
         bindR (release IfListLock rs) (\<lambda>rs.
         Inr (reply req (snprintf 128 (if retval = 0 then ''Successfully brought up '' @ name @ ''.'' @ newline
           else ''No interface '' @ name @ '' found.'' @ newline)) rs))))))
       else if strncmp_eq ''down'' ip_str 4 then
         bindR (acquire IfListLock Wr rs) (\<lambda>rs.
         bindR (acquire RtableLock Wr rs) (\<lambda>rs.
         bindR (iface_down name rs) (\<lambda>(retval, rs).
         bindR (release RtableLock rs) (\<lambda>rs.
         bindR (release IfListLock rs) (\<lambda>rs.
         Inr (reply req (snprintf 128 (if retval = 0 then ''Successfully brought down '' @ name @ ''.'' @ newline
           else ''No interface '' @ name @ '' found.'' @ newline)) rs))))))
       else
         case inet_pton ip_str of
           None \<Rightarrow> Inr (reply_line req ''Failure reading ip.'' rs)
         | Some ip \<Rightarrow>
             bindR (derefR mask_str) (\<lambda>mask_str.
             case inet_pton mask_str of
               None \<Rightarrow> Inr (reply_line req ''Failure reading mask.'' rs)
             | Some msk \<Rightarrow>
                 bindR (acquire IfListLock Wr rs) (\<lambda>rs.
                 let r = iface_update name ip msk rs in
                 bindR (release IfListLock (snd r)) (\<lambda>rs.
                 Inr (reply req (snprintf 128 (if fst r \<noteq> 0 then ''Succesfully updated '' @ name @ ''.'' @ newline
                   else ''No interface updated.'' @ newline)) rs)))))"

definition cli_show_hw_interface :: cli_command_handler where
  "cli_show_hw_interface req rs =
    (if is_netfpga rs then bindR (sprint_hw_iface rs) (\<lambda>s. Inr (reply req s rs)) else Inr rs)"

definition hw_port :: "string \<Rightarrow> u32 option" where
  "hw_port iface =
    (if strncmp_eq ETH0 iface (length ETH0) then Some 0 else if strncmp_eq ETH1 iface (length ETH1) then Some 1 else None)"

definition cli_hw_interface_add :: cli_command_handler where
  "cli_hw_interface_add req rs =
    (if is_netfpga rs then
       (let args = sscanf (command req) ''hw iface add %as %2X:%2X:%2X:%2X:%2X:%2X'' in
        if length args \<noteq> 7 then Inr (reply_line req ''Failure reading arguments.'' rs)
        else
          case hw_port (strA (args ! 0)) of
            None \<Rightarrow> Inr (reply_line req ''Failure reading the interface name.'' rs)
          | Some port \<Rightarrow>
              let mac = mac_args (tl args) in
              Inr (reply_line req ''Interface added'' (write_hw_iface_mac port (mac_hi mac) (mac_lo mac) rs)))
     else Inr rs)"

definition cli_hw_interface_del :: cli_command_handler where
  "cli_hw_interface_del req rs =
    (if is_netfpga rs then
       (let args = sscanf (command req) ''hw iface del %as'' in
        if length args \<noteq> 1 then Inr (reply_line req ''Failure reading arguments.'' rs)
        else
          case hw_port (strA (args ! 0)) of
            None \<Rightarrow> Inr (reply_line req ''Failure reading the interface name.'' rs)
          | Some port \<Rightarrow> Inr (reply_line req ''Interface deleted'' (write_hw_iface_mac port 0 0 rs)))
     else Inr rs)"

text \<open>The body of \<^verbatim>\<open>set_hw_iface\<close> is a comment.\<close>

definition set_hw_iface :: "u32 \<Rightarrow> u32 \<Rightarrow> router_state \<Rightarrow> router_state" where
  "set_hw_iface queue cmd rs = rs"

definition cli_hw_interface_set :: cli_command_handler where
  "cli_hw_interface_set req rs =
    (if is_netfpga rs then
       (let args = sscanf (command req) ''hw iface %as %as'' in
        if length args \<noteq> 2 then Inr (reply_line req ''Syntax error.'' rs)
        else
          let name = strA (args ! 0); cmd = strA (args ! 1) in
          case hw_port name of
            None \<Rightarrow> Inr (reply_line req ''Invalid interface name'' rs)
          | Some queue \<Rightarrow>
              if strncmp_eq ''up'' cmd 2
              then Inr (reply req (snprintf 80 (''HW interface '' @ name @ '' was brought up'' @ newline)) (set_hw_iface queue 0 rs))
              else if strncmp_eq ''down'' cmd 4
              then Inr (reply req (snprintf 80 (''HW interface '' @ name @ '' was brought down'' @ newline)) (set_hw_iface queue 3 rs))
              else Inr (reply_line req ''Invalid command name'' rs))
     else Inr rs)"

section \<open>PWOSPF\<close>

definition cli_show_pwospf_iface :: cli_command_handler where
  "cli_show_pwospf_iface req rs =
    bindR (acquire IfListLock Rd rs) (\<lambda>rs.
    bindR (sprint_pwospf_if_list rs) (\<lambda>if_list_info.
    bindR (release IfListLock rs) (\<lambda>rs. Inr (reply req if_list_info rs))))"

definition cli_show_pwospf_router_list :: cli_command_handler where
  "cli_show_pwospf_router_list req rs =
    bindR (acquire RouterListMutex Wr rs) (\<lambda>rs.
    bindR (sprint_pwospf_router_list rs) (\<lambda>router_list_info.
    bindR (release RouterListMutex rs) (\<lambda>rs. Inr (reply req router_list_info rs))))"

definition cli_pwospf_set_aid :: cli_command_handler where
  "cli_pwospf_set_aid req rs =
    (let args = sscanf (command req) ''set aid %u'' in
     if length args \<noteq> 1 then Inr (reply_line req ''Failure reading arguments.'' rs)
     else Inr (reply_line req ''Area id has been set'' (rs\<lparr>area_id := uintA (args ! 0)\<rparr>)))"

text \<open>The two handlers of intervals report a failure and go on with the value 0.\<close>

definition cli_pwospf_set_hello :: cli_command_handler where
  "cli_pwospf_set_hello req rs =
    (let args = sscanf (command req) ''set hello interval %u'';
         hello_interval = (if length args = 1 then uintA (args ! 0) else 0);
         rs = (if length args \<noteq> 1 then reply_line req ''Failure reading arguments.'' rs else rs) in
     Inr (reply_line req ''Hello interval has been set'' (rs\<lparr>pwospf_hello_interval := ucast hello_interval\<rparr>)))"

definition cli_pwospf_set_lsu_interval :: cli_command_handler where
  "cli_pwospf_set_lsu_interval req rs =
    (let args = sscanf (command req) ''set lsu interval %u'';
         lsu_interval = (if length args = 1 then uintA (args ! 0) else 0);
         rs = (if length args \<noteq> 1 then reply_line req ''Failure reading arguments.'' rs else rs) in
     Inr (reply_line req ''LSU Interval set.'' (rs\<lparr>pwospf_lsu_interval := lsu_interval\<rparr>)))"

definition cli_pwospf_set_lsu_broadcast :: cli_command_handler where
  "cli_pwospf_set_lsu_broadcast req rs =
    (let args = sscanf (command req) ''set lsu broadcast %as'' in
     if length args \<noteq> 1 then Inr (reply_line req ''Failure reading arguments.'' rs)
     else
       let value_str = strA (args ! 0) in
       if value_str = ''on'' then Inr (reply_line req ''LSU Broadcasting set to ON.'' (rs\<lparr>pwospf_lsu_broadcast := 1\<rparr>))
       else if value_str = ''off'' then Inr (reply_line req ''LSU Broadcasting set to OFF.'' (rs\<lparr>pwospf_lsu_broadcast := 0\<rparr>))
       else Inr (reply_line req ''Failure reading arguments.'' rs))"

definition cli_show_pwospf_info :: cli_command_handler where
  "cli_show_pwospf_info req rs =
    (let rs = reply_line req ''PWOSPF INFORMATION:'' rs;
         rs = reply req (''Area ID: '' @ show_nat (unat (area_id rs)) @ newline @
           ''Hello Interval: '' @ show_nat (unat (pwospf_hello_interval rs)) @ newline @
           ''LSU Interval: '' @ show_nat (unat (pwospf_lsu_interval rs)) @ newline @ newline) rs in
     bindR (acquire RouterListMutex Wr rs) (\<lambda>rs.
     bindR (sprint_pwospf_router_list rs) (\<lambda>info.
     bindR (release RouterListMutex rs) (\<lambda>rs.
     let rs = reply req (newline @ newline) (reply req info rs) in
     bindR (acquire IfListLock Rd rs) (\<lambda>rs.
     bindR (sprint_pwospf_if_list rs) (\<lambda>info.
     bindR (release IfListLock rs) (\<lambda>rs. Inr (reply req info rs))))))))"

definition cli_pwospf_send_hello :: cli_command_handler where
  "cli_pwospf_send_hello req rs =
    bindR (acquire IfListLock Wr rs) (\<lambda>rs.
    bindR (broadcast_pwospf_hello_packet rs) (\<lambda>rs.
    bindR (release IfListLock rs) (\<lambda>rs.
    Inr (reply_line req ''Hello packet sent on each interface'' rs))))"

definition cli_pwospf_send_lsu :: cli_command_handler where
  "cli_pwospf_send_lsu req rs =
    bindR (acquire RouterListMutex Wr rs) (\<lambda>rs.
    bindR (start_lsu_bcast_flood rs) (\<lambda>rs.
    bindR (release RouterListMutex rs) (\<lambda>rs.
    Inr (reply_line req ''LSU packet sent on each interface (up or down)'' (pthread_cond_signal LsuBcastCond rs)))))"

section \<open>NAT\<close>

text \<open>\<^verbatim>\<open>init_cli\<close> does not register these handlers: their lines are a comment. The hardware writes of \<^verbatim>\<open>cli_nat_reset\<close> are empty functions.\<close>

definition cli_nat_set :: cli_command_handler where
  "cli_nat_set req rs =
    (let args = sscanf (command req) ''nat set %as'' in
     if length args \<noteq> 1 then Inr (reply_line req ''Failure reading arguments'' rs)
     else
       let iface = strA (args ! 0) in
       if strncmp_eq iface ETH0 (length ETH0) \<or> strncmp_eq iface ETH1 (length ETH1) then
         bindR (acquire IfListLock Wr rs) (\<lambda>rs.
         bindR (derefR (get_iface rs iface)) (\<lambda>_.
         bindR (release IfListLock (upd_iface iface (\<lambda>e. e\<lparr>if_is_wan := True\<rparr>) rs)) (\<lambda>rs.
         Inr (reply req (snprintf 80 (''Succefully set '' @ iface @ '' as the wan interface'' @ newline)) rs))))
       else if strncmp_eq iface ''off'' 3 then
         bindR (acquire IfListLock Wr rs) (\<lambda>rs.
         bindR (release IfListLock (rs\<lparr>if_list := map (\<lambda>e. e\<lparr>if_is_wan := False\<rparr>) (if_list rs)\<rparr>)) (\<lambda>rs.
         Inr (reply_line req ''Successfully disabled NAT'' rs)))
       else Inr (reply_line req ''Invalid arguments'' rs))"

definition cli_nat_reset :: cli_command_handler where
  "cli_nat_reset req rs =
    bindR (acquire NatTableMutex Wr rs) (\<lambda>rs.
    bindR (release NatTableMutex (rs\<lparr>nat_table := []\<rparr>)) (\<lambda>rs.
    Inr (reply_line req ''NAT table deleted'' rs)))"

definition same_ext :: "u32 \<Rightarrow> u16 \<Rightarrow> nat_entry \<Rightarrow> bool" where
  "same_ext ip port ne = (np_ip (nat_ext ne) = ip \<and> np_port (nat_ext ne) = port)"

definition static_nat_entry :: "u32 \<Rightarrow> u16 \<Rightarrow> u32 \<Rightarrow> u16 \<Rightarrow> int \<Rightarrow> nat_entry" where
  "static_nat_entry ext_ip ext_port int_ip int_port now =
    \<lparr>nat_ext = compute_nat_checksums \<lparr>np_ip = ext_ip, np_port = ext_port, np_checksum = 0, np_checksum_ip = 0, np_checksum_port = 0\<rparr>,
     nat_int = compute_nat_checksums \<lparr>np_ip = int_ip, np_port = int_port, np_checksum = 0, np_checksum_ip = 0, np_checksum_port = 0\<rparr>,
     ne_last_hits = 0, ne_last_hits_time = now, ne_hits = 0, ne_hw_row = 0xFF, ne_static = True\<rparr>"

definition cli_nat_add :: cli_command_handler where
  "cli_nat_add req rs =
    (let args = sscanf (command req) ''nat add %as %d %as %d'' in
     if length args \<noteq> 4 then Inr (reply_line req ''Failure reading arguments.'' rs)
     else
       case inet_pton (strA (args ! 0)) of
         None \<Rightarrow> Inr (reply_line req ''Failure reading ip ext argument'' rs)
       | Some ext_ip \<Rightarrow>
           (case inet_pton (strA (args ! 2)) of
              None \<Rightarrow> Inr (reply_line req ''Failure reading ip int argument'' rs)
            | Some int_ip \<Rightarrow>
                let ext_port = htons (word_of_int (intA (args ! 1)));
                    ne = static_nat_entry ext_ip ext_port int_ip (htons (word_of_int (intA (args ! 3)))) (clock rs) in
                bindR (acquire NatTableMutex Wr rs) (\<lambda>rs.
                let rs = rs\<lparr>nat_table := (if list_ex (same_ext ext_ip ext_port) (nat_table rs)
                      then upd_first (same_ext ext_ip ext_port) (\<lambda>_. ne) (nat_table rs) else nat_table rs @ [ne])\<rparr> in
                bindR (release NatTableMutex rs) (\<lambda>rs.
                Inr (reply_line req ''Succesfully added the nat table entry'' (pthread_cond_signal NatTableCond rs))))))"

definition cli_nat_del :: cli_command_handler where
  "cli_nat_del req rs =
    (let args = sscanf (command req) ''nat del %as %d'' in
     if length args \<noteq> 2 then Inr (reply_line req ''Failure reading arguments.'' rs)
     else
       case inet_pton (strA (args ! 0)) of
         None \<Rightarrow> Inr (reply_line req ''Failure reading ip ext argument'' rs)
       | Some ip \<Rightarrow>
           let port = htons (word_of_int (intA (args ! 1))) in
           bindR (acquire NatTableMutex Wr rs) (\<lambda>rs.
           let result = list_ex (same_ext ip port) (nat_table rs); rs = rs\<lparr>nat_table := remove_first (same_ext ip port) (nat_table rs)\<rparr> in
           bindR (release NatTableMutex rs) (\<lambda>rs.
           Inr (reply_line req (if result then ''Succesfully deleted nat table entry'' else ''No nat table entry found'')
             (pthread_cond_signal NatTableCond rs)))))"

section \<open>The hardware\<close>

text \<open>\<^verbatim>\<open>cli_hw_info\<close> prints the statistics and then the drops, whose format reads arguments that were not passed; what it would print
  after that is not reached.\<close>

definition cli_hw_info :: cli_command_handler where
  "cli_hw_info req rs =
    (if is_netfpga rs then bindR (sprint_hw_drops rs) (\<lambda>info. Inr (reply req info rs)) else Inr rs)"

section \<open>The virtual network server\<close>

definition server_text :: "environment \<Rightarrow> string" where
  "server_text e = ''AF_INET'' @ replicate 2 CHR 0x09 @ ''Port: '' @ show_nat (unat (htons (sr_server_port e))) @ [CHR 0x09] @ ''IP: '' @
    inet_ntop (sr_server_ip e)"

definition vns_field :: "string \<Rightarrow> string \<Rightarrow> cli_command_handler" where
  "vns_field label value req rs = Inr (reply req newline (reply req value (reply req (label @ replicate 2 CHR 0x09) rs)))"

definition cli_show_vns_user :: cli_command_handler where
  "cli_show_vns_user req rs = vns_field ''User:'' (sr_user (renv rs)) req rs"

definition cli_show_vns_vhost :: cli_command_handler where
  "cli_show_vns_vhost req rs = vns_field ''Vhost:'' (sr_vhost (renv rs)) req rs"

definition cli_show_vns_lhost :: cli_command_handler where
  "cli_show_vns_lhost req rs = vns_field ''Lhost:'' (sr_lhost (renv rs)) req rs"

definition cli_show_vns_server :: cli_command_handler where
  "cli_show_vns_server req rs =
    Inr (reply_line req (server_text (renv rs)) (reply req (''Server:'' @ replicate 2 CHR 0x09) rs))"

definition cli_show_vns_topology :: cli_command_handler where
  "cli_show_vns_topology req rs = Inr (reply_line req (''Topology: '' @ [CHR 0x09] @ show_nat (unat (sr_topo_id (renv rs)))) rs)"

definition vns_head :: "string \<Rightarrow> nat \<Rightarrow> string" where
  "vns_head label n = newline @ [CHR 0x09] @ label @ replicate n CHR 0x09"

definition cli_show_vns :: cli_command_handler where
  "cli_show_vns req rs =
    (let e = renv rs in
     Inr (fold (reply req)
       [''VNS Values:'', vns_head ''User:'' 2, sr_user e, vns_head ''Server:'' 2, server_text e, vns_head ''Vhost:'' 2, sr_vhost e,
        vns_head ''Lhost:'' 2, sr_lhost e, vns_head ''Topology: '' 1 @ show_nat (unat (sr_topo_id e)) @ newline] rs))"

section \<open>Shell ping\<close>

text \<open>\<open>cli_sping\<close> sends the echo request and waits; \<open>sping_wake\<close> is one return of the wait, for the id of the request: the reply and whether the
  loop goes on. The id is the first number after \<^verbatim>\<open>srand\<close>.\<close>

definition cli_sping :: cli_command_handler where
  "cli_sping req rs =
    (let dst_str = drop (length ''sping '') (command req) in
     case inet_pton dst_str of
       None \<Rightarrow> Inr (reply_line req ''syntax error : destination ip'' rs)
     | Some dst \<Rightarrow>
         if iface_match_ip rs dst \<noteq> 0 then Inr (reply_line req ''That is one of our interfaces!'' rs)
         else
           let ident = word_of_int (rand_at (renv rs) (rand_used rs)); rs = rs\<lparr>rand_used := Suc (rand_used rs)\<rparr> in
           bindR (send_icmp_echo_request_packet dst ident rs) (\<lambda>(ret, rs).
           if ret \<noteq> 0 then Inr (reply_line req ''error : failed to send ICMP echo request packet'' rs) else Inr rs))"

definition reply_ident :: "packet \<Rightarrow> u16 res" where
  "reply_ident p = ld16 p (icmp_at + 4)"

fun find_reply :: "u16 \<Rightarrow> sping_queue_entry list \<Rightarrow> (bool \<times> sping_queue_entry list) res" where
  "find_reply ident [] = Inr (False, [])"
| "find_reply ident (e # es) =
    bindR (reply_ident (sq_packet e)) (\<lambda>i.
    if i = ident then Inr (True, es) else bindR (find_reply ident es) (\<lambda>(b, es). Inr (b, e # es)))"

definition sping_wake :: "cli_request \<Rightarrow> u16 \<Rightarrow> bool \<Rightarrow> router_state \<Rightarrow> (bool \<times> router_state) res" where
  "sping_wake req ident timedout rs =
    (let dst_str = drop (length ''sping '') (command req) in
     if timedout
     then bindR (acquire SpingMutex Wr rs) (\<lambda>rs.
          bindR (release SpingMutex rs) (\<lambda>rs.
          Inr (False, reply req newline (reply req dst_str (reply req ''no reply from : '' rs)))))
     else
       bindR (acquire SpingMutex Wr rs) (\<lambda>rs.
       bindR (find_reply ident (sping_queue rs)) (\<lambda>(found, sq).
       bindR (release SpingMutex (rs\<lparr>sping_queue := sq\<rparr>)) (\<lambda>rs.
       Inr (if found then (False, reply req newline (reply req dst_str (reply req ''GOT reply from : '' rs))) else (True, rs))))))"

definition sping_queue_cleanup_thread_step :: "router_state \<Rightarrow> router_state res" where
  "sping_queue_cleanup_thread_step rs =
    bindR (acquire SpingMutex Wr rs) (\<lambda>rs.
    release SpingMutex (rs\<lparr>sping_queue := filter (\<lambda>sqe. \<not> clock rs - sq_arrival_time sqe > 30) (sping_queue rs)\<rparr>))"

end
