(* ===== verification/Config.thy ===== *)
theory Config
  imports Cli
begin

text \<open>
  The two files that a router on the NetFPGA is started with: the interfaces, read by \<^verbatim>\<open>sr_cpu_init_hardware\<close> of \<^verbatim>\<open>sr_cpu_extension_nf.c\<close>, and
  the static routes, read by \<^verbatim>\<open>init_rtable\<close> of \<^verbatim>\<open>or_main.c\<close>. The theory \<open>Init\<close> starts the router from the values; here they come from the
  text. Both files can be opened.
\<close>

section \<open>Lines\<close>

text \<open>\<^verbatim>\<open>fgets\<close> into a buffer of 1024 characters.\<close>

definition fgets :: "string \<Rightarrow> string" where
  "fgets s = take 1023 (let l = takeWhile (\<lambda>c. c \<noteq> CHR 0x0A) s in take (length l + 1) s)"

function fgets_lines :: "string \<Rightarrow> string list" where
  "fgets_lines s = (if s = [] then [] else fgets s # fgets_lines (drop (length (fgets s)) s))"
  by auto
termination by (relation "measure length") (auto simp: fgets_def)

declare fgets_lines.simps [simp del]

section \<open>Routes\<close>

text \<open>A field that the line does not have is a null pointer; an address that \<^verbatim>\<open>inet_pton\<close> does not understand stays 0.\<close>

definition addr_field :: "arg list \<Rightarrow> nat \<Rightarrow> u32 res" where
  "addr_field args i = (if i < length args then Inr (case inet_pton (strA (args ! i)) of None \<Rightarrow> 0 | Some a \<Rightarrow> a) else Inl NullDeref)"

definition read_route :: "string \<Rightarrow> (u32 \<times> u32 \<times> u32 \<times> string) res" where
  "read_route line =
    (let args = sscanf (cstr line) ''%as %as %as %as'' in
     bindR (addr_field args 0) (\<lambda>ip.
     bindR (addr_field args 1) (\<lambda>gw.
     bindR (addr_field args 2) (\<lambda>msk.
     if 3 < length args then Inr (ip, gw, msk, strA (args ! 3)) else Inl NullDeref))))"

fun read_routes :: "string list \<Rightarrow> (u32 \<times> u32 \<times> u32 \<times> string) list res" where
  "read_routes [] = Inr []"
| "read_routes (l # ls) = bindR (read_route l) (\<lambda>r. bindR (read_routes ls) (\<lambda>rs. Inr (r # rs)))"

section \<open>Interfaces\<close>

text \<open>The buffer \<^verbatim>\<open>buf\<close> of 32 characters keeps what earlier fields left behind the terminating zero. A field of 32 characters puts
  the zero outside.\<close>

definition SR_NAMELEN :: nat where
  "SR_NAMELEN = 32"

definition copy_next_field :: "string \<Rightarrow> string \<Rightarrow> (string \<times> string) option res" where
  "copy_next_field line buf =
    (let line = dropWhile is_space line in
     if line = [] then Inr None
     else
       let f = take SR_NAMELEN (takeWhile (\<lambda>c. \<not> is_space c) line) in
       if length f < SR_NAMELEN then Inr (Some (drop (length f) line, f @ CHR 0x00 # drop (Suc (length f)) buf)) else Inl OutOfBounds)"

definition asci_to_nboip :: "string \<Rightarrow> u32" where
  "asci_to_nboip ip = (case inet_pton ip of None \<Rightarrow> 0 | Some a \<Rightarrow> a)"

text \<open>The octets are read from position \<open>pos\<close> of the buffer. An octet that is missing keeps the value of \<^verbatim>\<open>tmpint\<close>, which is not initialised;
  the search for a colon steps over the terminating zero.\<close>

fun ether_loop :: "nat \<Rightarrow> nat \<Rightarrow> u32 \<Rightarrow> string \<Rightarrow> u8 list res" where
  "ether_loop 0 pos tmpint buf = Inr []"
| "ether_loop (Suc n) pos tmpint buf =
    (if CHR 0x00 \<notin> set (drop pos buf) then Inl OutOfBounds
     else
       let s = cstr (drop pos buf);
           tmpint = (case scan_number 16 None s of None \<Rightarrow> tmpint | Some (neg, v, _) \<Rightarrow> to_uint neg v)
       in bindR (ether_loop n (pos + length (takeWhile (\<lambda>c. c \<noteq> CHR '':'') s) + 1) tmpint buf) (\<lambda>mac.
          Inr (ucast tmpint # mac)))"

definition asci_to_ether :: "u32 \<Rightarrow> string \<Rightarrow> u8 list res" where
  "asci_to_ether junk buf = ether_loop 6 0 junk buf"

text \<open>One line: \<open>None\<close> when a field is missing.\<close>

definition read_hw_line :: "u32 \<Rightarrow> string \<Rightarrow> string \<Rightarrow> (sr_vns_if \<times> string) option res" where
  "read_hw_line junk line buf =
    bindR (copy_next_field line buf) (\<lambda>r. case r of None \<Rightarrow> Inr None | Some (l, b) \<Rightarrow>
    let name = cstr b in
    bindR (copy_next_field l b) (\<lambda>r. case r of None \<Rightarrow> Inr None | Some (l, b) \<Rightarrow>
    let ip = asci_to_nboip (cstr b) in
    bindR (copy_next_field l b) (\<lambda>r. case r of None \<Rightarrow> Inr None | Some (l, b) \<Rightarrow>
    let msk = asci_to_nboip (cstr b) in
    bindR (copy_next_field l b) (\<lambda>r. case r of None \<Rightarrow> Inr None | Some (l, b) \<Rightarrow>
    bindR (asci_to_ether junk b) (\<lambda>mac.
    Inr (Some (\<lparr>vns_name = name, vns_addr = mac, vns_ip = ip, vns_mask = msk, vns_speed = 0\<rparr>, b)))))))"

text \<open>A line that is badly formatted makes the caller exit. \<open>junk n\<close> is what the stack holds when line \<open>n\<close> is read.\<close>

fun hw_lines :: "(nat \<Rightarrow> u32) \<Rightarrow> nat \<Rightarrow> string list \<Rightarrow> string \<Rightarrow> router_state \<Rightarrow> router_state res" where
  "hw_lines junk n [] buf rs = Inr rs"
| "hw_lines junk n (l # ls) buf rs =
    (if take 1 l = ''#'' then hw_lines junk (Suc n) ls buf rs
     else bindR (read_hw_line (junk n) (cstr l) buf) (\<lambda>r. case r of
            None \<Rightarrow> Inl ProcessExit
          | Some (v, buf) \<Rightarrow> bindR (init_add_interface v rs) (hw_lines junk (Suc n) ls buf)))"

definition sr_cpu_init_hardware :: "(nat \<Rightarrow> u32) \<Rightarrow> string \<Rightarrow> string \<Rightarrow> router_state \<Rightarrow> router_state res" where
  "sr_cpu_init_hardware junk buf hwfile rs = hw_lines junk 0 (fgets_lines hwfile) buf rs"

section \<open>Starting from files\<close>

definition boot_files :: "environment \<Rightarrow> (nat \<Rightarrow> u32) \<Rightarrow> string \<Rightarrow> string \<Rightarrow> string \<Rightarrow> router_state res" where
  "boot_files e junk buf hwfile rtable_file =
    bindR (init e) (\<lambda>rs.
    bindR (sr_cpu_init_hardware junk buf hwfile rs) (\<lambda>rs.
    bindR (init_router_list rs) (\<lambda>rs.
    bindR (bindR (read_routes (fgets_lines rtable_file)) (\<lambda>routes. init_rtable False routes rs)) init_ospf)))"

text \<open>Whatever the files hold, a router that starts from them is in a state that some interfaces and routes give.\<close>

lemma hw_lines_interfaces: "hw_lines junk n ls buf rs = Inr rs' \<Longrightarrow> \<exists>vs. add_interfaces vs rs = Inr rs'"
proof (induction ls arbitrary: n buf rs)
  case Nil
  then show ?case by (auto intro: exI [of _ "[]"])
next
  case (Cons l ls)
  show ?case
  proof (cases "take 1 l = ''#''")
    case True
    then show ?thesis using Cons by auto
  next
    case False
    with Cons.prems obtain v b rs1 where v: "init_add_interface v rs = Inr rs1" "hw_lines junk (Suc n) ls b rs1 = Inr rs'"
      by (auto simp: bindR_eq_Inr split: option.splits)
    from Cons.IH [OF this(2)] obtain vs where "add_interfaces vs rs1 = Inr rs'" ..
    then show ?thesis using v(1) by (intro exI [of _ "v # vs"]) simp
  qed
qed

lemma boot_files_boots: "boot_files e junk buf hwfile rtable_file = Inr rs \<Longrightarrow> \<exists>vs routes. boot_cpu e vs routes = Inr rs"
proof -
  assume "boot_files e junk buf hwfile rtable_file = Inr rs"
  then obtain rs0 rs1 rs2 routes rs3 where steps: "init e = Inr rs0" "sr_cpu_init_hardware junk buf hwfile rs0 = Inr rs1" "init_router_list rs1 = Inr rs2"
    "init_rtable False routes rs2 = Inr rs3" "init_ospf rs3 = Inr rs" by (auto simp: boot_files_def bindR_eq_Inr)
  from steps(2) obtain vs where "add_interfaces vs rs0 = Inr rs1" by (auto simp: sr_cpu_init_hardware_def dest: hw_lines_interfaces)
  then have "boot_cpu e vs routes = Inr rs" using steps by (simp add: boot_cpu_def sr_integ_hw_setup_def)
  then show ?thesis by blast
qed

section \<open>Reading what was written\<close>

definition is_name :: "string \<Rightarrow> bool" where
  "is_name w = (is_word w \<and> CHR 0x00 \<notin> set w)"

definition route_text :: "u32 \<times> u32 \<times> u32 \<times> string \<Rightarrow> string" where
  "route_text r = (case r of (ip, gw, msk, iface) \<Rightarrow> inet_ntop ip @ '' '' @ inet_ntop gw @ '' '' @ inet_ntop msk @ '' '' @ iface)"

definition iface_text :: "sr_vns_if \<Rightarrow> string" where
  "iface_text v = vns_name v @ '' '' @ inet_ntop (vns_ip v) @ '' '' @ inet_ntop (vns_mask v) @ '' '' @ mac_text (vns_addr v)"

lemma newline_space [simp]: "is_space CHR 0x0A"
  by code_simp

lemma zero_char: "\<not> is_digit base CHR 0x00"
  by (simp add: is_digit_def digit_val_def)

lemma ntop_name: "is_name (inet_ntop a)"
proof -
  have "CHR 0x00 \<notin> set (show_nat n)" for n using show_nat_digits [of n] zero_char by (auto simp: list_all_iff)
  then have "CHR 0x00 \<notin> set (inet_ntop a)" by (simp add: inet_ntop_def)
  then show ?thesis by (simp add: is_name_def is_word_ntop)
qed

lemma cstr_name: "CHR 0x00 \<notin> set w \<Longrightarrow> cstr (w @ CHR 0x00 # s) = w" "CHR 0x00 \<notin> set w \<Longrightarrow> cstr w = w"
  by (auto simp: cstr_def takeWhile_eq_all_conv takeWhile_append)

lemma word_no_newline: "is_word w \<Longrightarrow> CHR 0x0A \<notin> set w"
  by (auto simp: is_word_def list_all_iff)

lemma fgets_lines_cat:
  "list_all (\<lambda>l. CHR 0x0A \<notin> set l \<and> length l < 1023) ls \<Longrightarrow> fgets_lines (concat (map (\<lambda>l. l @ newline) ls)) = map (\<lambda>l. l @ newline) ls"
proof (induction ls)
  case (Cons l ls)
  have "takeWhile (\<lambda>c. c \<noteq> CHR 0x0A) (l @ CHR 0x0A # s) = l" for s using Cons.prems by (auto simp: takeWhile_eq_all_conv takeWhile_append)
  then have "fgets (l @ CHR 0x0A # s) = l @ [CHR 0x0A]" for s using Cons.prems by (auto simp: fgets_def Let_def)
  then show ?case using Cons by (subst fgets_lines.simps) (simp add: newline_def)
qed (simp add: fgets_lines.simps)

lemma scan_last_word: "is_word w \<Longrightarrow> scan (ConvS # ds) (w @ newline) = ArgS w # scan ds newline"
  by (simp add: newline_def dropWhile_word split_word Let_def is_word_def)

lemma read_route_text:
  assumes "is_name iface"
  shows "read_route (route_text (ip, gw, msk, iface) @ newline) = Inr (ip, gw, msk, iface)"
proof -
  have w: "is_word iface" "CHR 0x00 \<notin> set iface" using assms by (simp_all add: is_name_def)
  have fmt: "format ''%as %as %as %as'' = [ConvS, White, ConvS, White, ConvS, White, ConvS]" by code_simp
  have "cstr (route_text (ip, gw, msk, iface) @ newline) = route_text (ip, gw, msk, iface) @ newline"
    using ntop_name w(2) by (intro cstr_name) (auto simp: route_text_def is_name_def newline_def)
  moreover have "sscanf (route_text (ip, gw, msk, iface) @ newline) ''%as %as %as %as'' = [ArgS (inet_ntop ip), ArgS (inet_ntop gw), ArgS (inet_ntop msk), ArgS iface]"
    using w(1) by (simp add: sscanf_def fmt route_text_def scan_word [OF is_word_ntop] scan_word(1) scan_last_word del: scan.simps(2-7))
  ultimately show ?thesis by (simp add: read_route_def addr_field_def pton_ntop)
qed

lemma copy_field:
  assumes "is_word w" "length w < 32" "is_space c"
  shows "copy_next_field (w @ c # s) buf = Inr (Some (c # s, w @ CHR 0x00 # drop (Suc (length w)) buf))"
    "copy_next_field (CHR '' '' # w @ c # s) buf = Inr (Some (c # s, w @ CHR 0x00 # drop (Suc (length w)) buf))"
  using assms(1,2) by (simp_all add: copy_next_field_def SR_NAMELEN_def dropWhile_word split_word(1,2) [OF assms(1,3)] Let_def is_word_def)

section \<open>Hardware addresses\<close>

lemma scan_octet:
  assumes "\<not> is_digit 16 c"
  shows "scan_number 16 None (show_02X b @ c # s) = Some (False, unat b, c # s)" "scan_number 16 None (show_02X b) = Some (False, unat b, [])"
proof -
  let ?h = "hex_digit (unat b div 16)" and ?l = "hex_digit (unat b mod 16)"
  have lt: "unat b div 16 < 16" "unat b mod 16 < 16" using unat_u8_lt [of b] by simp_all
  have d: "is_digit 16 ?h" "is_digit 16 ?l" using lt by (simp_all add: is_digit_def digit_val_hex)
  have "\<not> is_space ?h" "?h \<noteq> CHR ''-''" "?h \<noteq> CHR ''+''" "?l \<noteq> CHR ''x''" "?l \<noteq> CHR ''X''"
    using d is_digit_not_space by (auto simp: is_digit_def digit_val_def)
  moreover have "numeral_value 16 [?h, ?l] = unat b" using lt by (simp add: numeral_value_def digit_val_hex)
  ultimately show "scan_number 16 None (show_02X b @ c # s) = Some (False, unat b, c # s)" "scan_number 16 None (show_02X b) = Some (False, unat b, [])"
    using d assms by (simp_all add: scan_number_def show_02X_def Let_def)
qed

fun octets_text :: "u8 list \<Rightarrow> string" where
  "octets_text [] = []"
| "octets_text [b] = show_02X b"
| "octets_text (b # c # bs) = show_02X b @ CHR '':'' # octets_text (c # bs)"

lemma octets_no_zero: "CHR 0x00 \<notin> set (octets_text bs)"
proof -
  have "CHR 0x00 \<notin> set (show_02X b)" for b
  proof -
    have "list_all (is_digit 16) (show_02X b)" using unat_u8_lt [of b] by (simp add: show_02X_def is_digit_def digit_val_hex)
    then show ?thesis using zero_char by (auto simp: list_all_iff)
  qed
  then show ?thesis by (induction bs rule: octets_text.induct) simp_all
qed

lemma octet_no_colon: "takeWhile (\<lambda>c. c \<noteq> CHR '':'') (show_02X b @ s) = show_02X b @ takeWhile (\<lambda>c. c \<noteq> CHR '':'') s"
proof -
  have "list_all (is_digit 16) (show_02X b)" using unat_u8_lt [of b] by (simp add: show_02X_def is_digit_def digit_val_hex)
  moreover have "\<not> is_digit 16 CHR '':''" by code_simp
  ultimately have "\<forall>c\<in>set (show_02X b). c \<noteq> CHR '':''" by (auto simp: list_all_iff)
  then show ?thesis by (simp add: takeWhile_append2)
qed

lemma octet_value: "ucast (to_uint False (unat (b :: u8))) = b"
  using unat_u8_lt [of b] by (simp add: to_uint_def unsigned_ucast_eq take_bit_word_eq_self word_unat_eq_iff)

lemma ether_loop_octets: "ether_loop (length bs) (length pre) tmpint (pre @ octets_text bs @ CHR 0x00 # r) = Inr bs"
proof (induction bs arbitrary: pre tmpint rule: octets_text.induct)
  case (2 b)
  have "\<not> is_digit 16 CHR 0x00" by code_simp
  then show ?case using cstr_name(1) [OF octets_no_zero, of "[b]" r] scan_octet(2) [of _ b]
    by (simp add: octet_value)
next
  case (3 b c bs)
  have c: "\<not> is_digit 16 CHR '':''" by code_simp
  have "cstr (octets_text (b # c # bs) @ CHR 0x00 # r) = octets_text (b # c # bs)" by (rule cstr_name(1) [OF octets_no_zero])
  moreover have "ether_loop (length (c # bs)) (length (pre @ show_02X b @ '':'')) t (pre @ octets_text (b # c # bs) @ CHR 0x00 # r) = Inr (c # bs)" for t
    using 3 [of "pre @ show_02X b @ '':''" t] by simp
  ultimately show ?case using scan_octet(1) [OF c, of b] octet_no_colon [of b]
    by (simp add: octet_value)
qed simp

lemma mac_octets: "length ha = 6 \<Longrightarrow> mac_text ha = octets_text ha"
  by (auto simp: mac_text_def numeral_eq_Suc length_Suc_conv)

lemma mac_word:
  assumes "length ha = 6"
  shows "is_word (mac_text ha)" "length (mac_text ha) < 32"
proof -
  have "list_all (\<lambda>c. \<not> is_space c) (show_02X b)" for b
    using unat_u8_lt [of b] is_digit_not_space [of 16] by (auto simp: show_02X_def is_digit_def digit_val_hex)
  moreover have "\<not> is_space CHR '':''" by code_simp
  ultimately show "is_word (mac_text ha)" by (simp add: is_word_def mac_text_def)
  show "length (mac_text ha) < 32" by (simp add: mac_text_def show_02X_def)
qed

lemma read_mac: "length ha = 6 \<Longrightarrow> asci_to_ether junk (mac_text ha @ CHR 0x00 # r) = Inr ha"
  using ether_loop_octets [of ha "[]" junk r] by (simp add: asci_to_ether_def mac_octets)

text \<open>An interface that a file can describe.\<close>

definition iface_ok :: "sr_vns_if \<Rightarrow> bool" where
  "iface_ok v = (is_name (vns_name v) \<and> length (vns_name v) < 32 \<and> take 1 (vns_name v) \<noteq> ''#'' \<and> length (vns_addr v) = 6 \<and> vns_speed v = 0)"

lemma read_iface_text:
  assumes "iface_ok v"
  shows "\<exists>b. read_hw_line junk (iface_text v @ newline) buf = Inr (Some (v, b))"
proof -
  have n: "is_word (vns_name v)" "length (vns_name v) < 32" "CHR 0x00 \<notin> set (vns_name v)" "length (vns_addr v) = 6" "vns_speed v = 0"
    using assms by (simp_all add: iface_ok_def is_name_def)
  have a: "is_word (inet_ntop x)" "length (inet_ntop x) < 32" "CHR 0x00 \<notin> set (inet_ntop x)" for x
    using ntop_name [of x] length_ntop [of x] by (simp_all add: is_name_def)
  show ?thesis
    by (simp add: read_hw_line_def iface_text_def newline_def copy_field n a mac_word cstr_name read_mac asci_to_nboip_def pton_ntop)
qed

lemma iface_text_line:
  assumes "iface_ok v"
  shows "CHR 0x00 \<notin> set (iface_text v)" "CHR 0x0A \<notin> set (iface_text v)" "length (iface_text v) < 1023" "take 1 (iface_text v @ s) \<noteq> ''#''"
proof -
  have n: "is_name (vns_name v)" "length (vns_name v) < 32" "take 1 (vns_name v) \<noteq> ''#''" "length (vns_addr v) = 6" using assms by (simp_all add: iface_ok_def)
  show "CHR 0x00 \<notin> set (iface_text v)" using n ntop_name octets_no_zero by (simp add: iface_text_def is_name_def mac_octets)
  show "CHR 0x0A \<notin> set (iface_text v)" using n ntop_name mac_word by (simp add: iface_text_def is_name_def word_no_newline)
  show "length (iface_text v) < 1023" using n(2) mac_word(2) [OF n(4)] length_ntop [of "vns_ip v"] length_ntop [of "vns_mask v"] by (simp add: iface_text_def)
  show "take 1 (iface_text v @ s) \<noteq> ''#''" using n(1,3) by (cases "vns_name v") (simp_all add: iface_text_def is_name_def is_word_def)
qed

lemma hw_lines_text:
  "list_all iface_ok vs \<Longrightarrow> hw_lines junk n (map (\<lambda>v. iface_text v @ newline) vs) buf rs = add_interfaces vs rs"
proof (induction vs arbitrary: n buf rs)
  case (Cons v vs)
  then have v: "iface_ok v" by simp
  have "cstr (iface_text v @ newline) = iface_text v @ newline" using iface_text_line(1) [OF v] by (intro cstr_name) (simp add: newline_def)
  moreover have "hw_lines junk (Suc n) (map (\<lambda>v. iface_text v @ newline) vs) b = add_interfaces vs" for b using Cons by (intro ext) simp
  ultimately show ?case using read_iface_text [OF v, of "junk n" buf] iface_text_line(4) [OF v] by auto
qed simp

definition route_ok :: "u32 \<times> u32 \<times> u32 \<times> string \<Rightarrow> bool" where
  "route_ok r = (case r of (_, _, _, iface) \<Rightarrow> is_name iface \<and> length iface < 970)"

lemma route_text_line: "route_ok r \<Longrightarrow> CHR 0x0A \<notin> set (route_text r) \<and> length (route_text r) < 1023"
proof (cases r)
  case (fields ip gw msk iface)
  assume "route_ok r"
  then have "is_word iface" "length iface < 970" using fields by (simp_all add: route_ok_def is_name_def)
  then show ?thesis using length_ntop [of ip] length_ntop [of gw] length_ntop [of msk] word_no_newline [OF is_word_ntop]
    by (simp add: fields route_text_def word_no_newline)
qed

lemma read_routes_text: "list_all route_ok routes \<Longrightarrow> read_routes (map (\<lambda>r. route_text r @ newline) routes) = Inr routes"
  by (induction routes) (auto simp: route_ok_def read_route_text)

section \<open>Properties\<close>

text \<open>
  Claim C22. The configuration files are read back: whatever interfaces and routes are written to the two files, one line each with the
  addresses in dotted notation, a router started from the files behaves exactly as one started with these interfaces and routes.
\<close>

theorem config_files_read:
  assumes "list_all iface_ok vs" "list_all route_ok routes"
  shows "boot_files e junk buf (concat (map (\<lambda>v. iface_text v @ newline) vs)) (concat (map (\<lambda>r. route_text r @ newline) routes)) = boot_cpu e vs routes"
proof -
  have "fgets_lines (concat (map (\<lambda>v. iface_text v @ newline) vs)) = map (\<lambda>v. iface_text v @ newline) vs"
    using fgets_lines_cat [of "map iface_text vs"] assms(1) iface_text_line by (simp add: list_all_iff comp_def)
  moreover have "fgets_lines (concat (map (\<lambda>r. route_text r @ newline) routes)) = map (\<lambda>r. route_text r @ newline) routes"
    using fgets_lines_cat [of "map route_text routes"] assms(2) route_text_line by (simp add: list_all_iff comp_def)
  ultimately show ?thesis using assms
    by (simp add: boot_files_def boot_cpu_def sr_cpu_init_hardware_def hw_lines_text read_routes_text sr_integ_hw_setup_def bindR_assoc)
qed

theorem config_files_read_witness:
  "boot_files demo_env (\<lambda>_. 7) (replicate 32 CHR ''x'')
    (iface_text \<lparr>vns_name = ''eth0'', vns_addr = [0xCA, 0xFE, 0, 1, 2, 3], vns_ip = 9, vns_mask = 0xFF, vns_speed = 0\<rparr> @ newline) (route_text (0, 7, 0, ''eth0'') @ newline) =
   boot_cpu demo_env [\<lparr>vns_name = ''eth0'', vns_addr = [0xCA, 0xFE, 0, 1, 2, 3], vns_ip = 9, vns_mask = 0xFF, vns_speed = 0\<rparr>] [(0, 7, 0, ''eth0'')]"
proof -
  have w: "is_name ''eth0''" by code_simp
  show ?thesis
    using config_files_read [of "[\<lparr>vns_name = ''eth0'', vns_addr = [0xCA, 0xFE, 0, 1, 2, 3], vns_ip = 9, vns_mask = 0xFF, vns_speed = 0\<rparr>]" "[(0, 7, 0, ''eth0'')]"] w
    by (simp add: iface_ok_def route_ok_def)
qed

end
