(* ===== verification/Vns.thy ===== *)
theory Vns
  imports Config
begin

text \<open>
  The session with the VNS server, \<^verbatim>\<open>sr_vns.c\<close> and \<^verbatim>\<open>vnscommand.h\<close>: messages with their length in front, read from a stream that arrives in
  pieces. A packet message is handed to the router; a message with the hardware starts it.
\<close>

section \<open>Messages\<close>

definition VNSOPEN :: u32 where "VNSOPEN = 1"
definition VNSCLOSE :: u32 where "VNSCLOSE = 2"
definition VNSPACKET :: u32 where "VNSPACKET = 4"
definition VNSHWINFO :: u32 where "VNSHWINFO = 16"

definition chars :: "u8 list \<Rightarrow> string" where
  "chars = map (\<lambda>b. char_of (unat b))"

definition octets :: "string \<Rightarrow> u8 list" where
  "octets = map of_char"

text \<open>\<^verbatim>\<open>strncpy\<close> into a field of \<open>n\<close> bytes pads with zeros.\<close>

definition field :: "nat \<Rightarrow> string \<Rightarrow> u8 list" where
  "field n s = octets (take n s) @ replicate (n - length s) 0"

definition vns_open :: "environment \<Rightarrow> u8 list" where
  "vns_open e = bytes32 (htonl 108) @ bytes32 (htonl VNSOPEN) @ bytes16 (htons (sr_topo_id e)) @ bytes16 0 @
    field 32 (sr_vhost e) @ field 32 (sr_user e) @ replicate 32 0"

definition vns_packet :: "packet \<Rightarrow> string \<Rightarrow> u8 list" where
  "vns_packet p iface = bytes32 (htonl (24 + word_of_nat (length p))) @ bytes32 (htonl VNSPACKET) @ field 16 iface @ p"

text \<open>An entry of the hardware description: a key and 32 bytes.\<close>

definition hw_entry_of :: "u8 list \<Rightarrow> hw_entry res" where
  "hw_entry_of b =
    bindR (ld32 b 0) (\<lambda>k. bindR (ld32 b 4) (\<lambda>v. bindR (ld_bytes b 4 32) (\<lambda>value.
    let key = ntohl k in
    Inr (if key = 16 then HWFIXEDIP v else if key = 1 then HWINTERFACE (cstr (chars value)) else if key = 2 then HWSPEED v
      else if key = 4 then HWSUBNET v else if key = 128 then HWMASK v else if key = 64 then HWETHIP v else if key = 32 then HWETHER (take 6 value)
      else HWOTHER key))))"

fun hw_entries :: "nat \<Rightarrow> u8 list \<Rightarrow> hw_entry list res" where
  "hw_entries 0 b = Inr []"
| "hw_entries (Suc n) b = bindR (hw_entry_of b) (\<lambda>e. bindR (hw_entries n (drop 36 b)) (\<lambda>es. Inr (e # es)))"

section \<open>Reading\<close>

text \<open>What a call of \<^verbatim>\<open>recv\<close> or \<^verbatim>\<open>read\<close> returns: some of the bytes that wait, at most as many as asked for; an interruption by a signal; 0 when the
  server has closed the connection; an error. The stream is the bytes that the server sends.\<close>

datatype io = Got nat | Interrupted | Eof | IoError

datatype reading = Reads "u8 list" "u8 list" "io list" | Waits | Fails

fun read_loop :: "nat \<Rightarrow> u8 list \<Rightarrow> u8 list \<Rightarrow> io list \<Rightarrow> reading" where
  "read_loop n got s [] = (if length got \<ge> n then Reads got s [] else Waits)"
| "read_loop n got s (io # ios) =
    (if length got \<ge> n then Reads got s (io # ios)
     else case io of
       Got k \<Rightarrow>
         if s = [] then Waits
         else let m = max 1 (min k (n - length got)) in read_loop n (got @ take m s) (drop m s) ios
     | Interrupted \<Rightarrow> read_loop n got s ios
     | Eof \<Rightarrow> read_loop n got s ios
     | IoError \<Rightarrow> Fails)"

text \<open>One call of \<^verbatim>\<open>sr_vns_read_from_server\<close>: its result, the rest of the stream and of the calls, and the state; \<open>None\<close> while it waits. A length
  below 8 makes it write or read outside the buffer, a packet message without a whole header has a negative length.\<close>

definition handle_message :: "sr_vns_if \<Rightarrow> (u32 \<times> u32 \<times> u32 \<times> string) list \<Rightarrow> u8 list \<Rightarrow> int act" where
  "handle_message junk file buf rs =
    bindR (ld32 buf 4) (\<lambda>c.
    let command = ntohl c in
    if command = VNSPACKET then
      (if length buf < 24 then Inl OutOfBounds
       else bindR (process_packet (drop 24 buf) (cstr (chars (drop 8 buf))) rs) (\<lambda>rs. Inr (1, rs)))
    else if command = VNSCLOSE then Inr (0, rs)
    else if command = VNSHWINFO then
      bindR (hw_entries ((length buf - 8) div 36) (drop 8 buf)) (\<lambda>es.
      bindR (sr_handle_hwinfo es junk file rs) (\<lambda>rs. Inr (1, rs)))
    else Inr (1, rs))"

definition sr_vns_read_from_server ::
  "sr_vns_if \<Rightarrow> (u32 \<times> u32 \<times> u32 \<times> string) list \<Rightarrow> u8 list \<Rightarrow> io list \<Rightarrow> router_state \<Rightarrow> (int \<times> u8 list \<times> io list \<times> router_state) option res" where
  "sr_vns_read_from_server junk file s ios rs =
    (case read_loop 4 [] s ios of
       Waits \<Rightarrow> Inr None
     | Fails \<Rightarrow> Inr (Some (- 1, s, ios, rs))
     | Reads hdr s ios \<Rightarrow>
         bindR (ld32 hdr 0) (\<lambda>l.
         let len = sint (ntohl l) in
         if len > 10000 \<or> len < 0 then Inr (Some (- 1, s, ios, rs))
         else if len < 4 then Inl OutOfBounds
         else
           case read_loop (nat len - 4) [] s ios of
             Waits \<Rightarrow> Inr None
           | Fails \<Rightarrow> Inr (Some (- 1, s, ios, rs))
           | Reads body s ios \<Rightarrow>
               bindR (handle_message junk file (hdr @ body) rs) (\<lambda>(ret, rs). Inr (Some (ret, s, ios, rs)))))"

section \<open>Pieces\<close>

definition enough :: "nat \<Rightarrow> io list \<Rightarrow> bool" where
  "enough n ios = (IoError \<notin> set ios \<and> n \<le> length (filter (\<lambda>io. \<exists>k. io = Got k) ios))"

lemma read_loop_all:
  assumes "enough (n - length got + m) ios" "n - length got \<le> length s" "length got \<le> n"
  shows "\<exists>ios'. read_loop n got s ios = Reads (got @ take (n - length got) s) (drop (n - length got) s) ios' \<and> enough m ios'"
  using assms
proof (induction n got s ios rule: read_loop.induct)
  case (2 n got s io ios)
  show ?case
  proof (cases "length got = n")
    case True
    then show ?thesis using 2(4) by simp
  next
    case False
    then have lt: "length got < n" using 2(6) by simp
    show ?thesis
    proof (cases io)
      case (Got k)
      define d where "d = max 1 (min k (n - length got))"
      have d: "1 \<le> d" "d \<le> n - length got" using lt by (auto simp: d_def)
      have s: "s \<noteq> []" "length (take d s) = d" using 2(5) lt d by auto
      have "enough (n - length (got @ take d s) + m) ios" "n - length (got @ take d s) \<le> length (drop d s)" "length (got @ take d s) \<le> n"
        using 2(4,5) Got d s(2) lt by (auto simp: enough_def)
      from 2(1) [OF _ Got s(1) d_def this] lt obtain ios' where
        "read_loop n (got @ take d s) (drop d s) ios = Reads ((got @ take d s) @ take (n - length (got @ take d s)) (drop d s)) (drop (n - length (got @ take d s)) (drop d s)) ios'"
        "enough m ios'" by auto
      moreover have "take d s @ take (n - length got - d) (drop d s) = take (n - length got) s" using d by (simp add: take_add [symmetric])
      moreover have "read_loop n got s (io # ios) = read_loop n (got @ take d s) (drop d s) ios" using Got lt s(1) by (simp add: d_def not_le Let_def)
      ultimately show ?thesis using s(2) d by auto
    next
      case Interrupted
      then show ?thesis using 2(2) 2(4-6) lt by (auto simp: enough_def)
    next
      case Eof
      then show ?thesis using 2(3) 2(4-6) lt by (auto simp: enough_def)
    next
      case IoError
      then show ?thesis using 2(4) by (simp add: enough_def)
    qed
  qed
qed (simp add: enough_def)

lemma ld32_bytes: "ld32 (bytes32 w @ s) 0 = Inr w" "length p = 4 \<Longrightarrow> ld32 (p @ bytes32 w @ s) 4 = Inr w"
  by (simp_all add: ld32_def bytes32_def nth_append le32_byte32 [simplified])

text \<open>A whole message is handled, however it is split, and the rest of the stream is left.\<close>

lemma message_read:
  assumes "m = bytes32 (htonl (word_of_nat (length m))) @ body" "8 \<le> length m" "length m \<le> 10000" "enough (length m + k) ios"
  shows "\<exists>ios'. sr_vns_read_from_server junk file (m @ s) ios rs = bindR (handle_message junk file m rs) (\<lambda>(ret, rs). Inr (Some (ret, s, ios', rs))) \<and> enough k ios'"
proof -
  let ?hdr = "bytes32 (htonl (word_of_nat (length m)))"
  have m: "m @ s = ?hdr @ body @ s" "length m = 4 + length body" by (subst assms(1), simp)+
  have "enough (4 - length ([] :: u8 list) + (length body + k)) ios" using assms(4) m(2) by (simp add: add.assoc)
  from read_loop_all [OF this, of "m @ s"] m obtain ios1 where 1: "read_loop 4 [] (m @ s) ios = Reads ?hdr (body @ s) ios1" "enough (length body + k) ios1" by auto
  from read_loop_all [of "length body" "[]" k ios1 "body @ s"] 1(2) obtain ios2 where
    2: "read_loop (length body) [] (body @ s) ios1 = Reads body s ios2" "enough k ios2" by auto
  have "sint (word_of_nat (length m) :: u32) = int (length m)" using assms(3) by (simp add: signed_of_nat signed_take_bit_int_eq_self)
  then have "sint (ntohl (htonl (word_of_nat (length m)))) = int (length m)" by simp
  moreover have "nat (4 + int (length body)) - 4 = length body" by simp
  ultimately have "sr_vns_read_from_server junk file (m @ s) ios rs = bindR (handle_message junk file (?hdr @ body) rs) (\<lambda>(ret, rs). Inr (Some (ret, s, ios2, rs)))"
    using 1(1) 2(1) ld32_bytes(1) [of _ "[]"] assms(2,3) m(2) by (simp add: sr_vns_read_from_server_def)
  then show ?thesis using 2(2) assms(1) by auto
qed

section \<open>Reading what was sent\<close>

lemma chars_octets: "chars (octets s) = s"
proof -
  have "char_of (unat (of_char c :: u8)) = c" for c
  proof -
    have "(of_char c :: u8) = word_of_nat (of_char c)" by (rule of_nat_of_char [symmetric])
    moreover have "unat (word_of_nat (of_char c) :: u8) = of_char c mod 256" unfolding unsigned_of_nat by (simp add: take_bit_eq_mod)
    ultimately show ?thesis by (metis of_char_mod_256 char_of_char)
  qed
  then show ?thesis by (induction s) (simp_all add: chars_def octets_def)
qed

lemma cstr_field: "length s < n \<Longrightarrow> CHR 0x00 \<notin> set s \<Longrightarrow> cstr (chars (field n s @ r)) = s"
proof -
  assume "length s < n" and s: "CHR 0x00 \<notin> set s"
  then obtain k where "n - length s = Suc k" by (metis Suc_diff_Suc)
  then have "chars (field n s @ r) = s @ CHR 0x00 # chars (replicate k 0 @ r)" using \<open>length s < n\<close> chars_octets [of s]
    by (simp add: field_def chars_def char_of_def)
  then show ?thesis using cstr_name(1) [OF s] by simp
qed

lemma length_field [simp]: "length (field n s) = n"
  by (simp add: field_def octets_def)

text \<open>A description of the hardware as the server sends it.\<close>

fun entry_value :: "hw_entry \<Rightarrow> u32 \<times> u8 list" where
  "entry_value (HWINTERFACE n) = (1, field 32 n)"
| "entry_value (HWSPEED v) = (2, bytes32 v @ replicate 28 0)"
| "entry_value (HWSUBNET v) = (4, bytes32 v @ replicate 28 0)"
| "entry_value (HWFIXEDIP v) = (16, bytes32 v @ replicate 28 0)"
| "entry_value (HWETHER ha) = (32, take 6 ha @ replicate (32 - length (take 6 ha)) 0)"
| "entry_value (HWETHIP v) = (64, bytes32 v @ replicate 28 0)"
| "entry_value (HWMASK v) = (128, bytes32 v @ replicate 28 0)"
| "entry_value (HWOTHER k) = (k, replicate 32 0)"

definition entry_bytes :: "hw_entry \<Rightarrow> u8 list" where
  "entry_bytes e = (case entry_value e of (k, v) \<Rightarrow> bytes32 (htonl k) @ v)"

fun entry_fits :: "hw_entry \<Rightarrow> bool" where
  "entry_fits (HWINTERFACE n) = (length n < 32 \<and> CHR 0x00 \<notin> set n)"
| "entry_fits (HWETHER ha) = (length ha = 6)"
| "entry_fits (HWOTHER k) = (k \<notin> {1, 2, 4, 16, 32, 64, 128})"
| "entry_fits _ = True"

definition vns_hwinfo :: "hw_entry list \<Rightarrow> u8 list" where
  "vns_hwinfo es = bytes32 (htonl (word_of_nat (8 + 36 * length es))) @ bytes32 (htonl VNSHWINFO) @ concat (map entry_bytes es)"

lemma entry_value_length: "length (snd (entry_value e)) = 32"
  by (cases e) simp_all

lemma entry_bytes_length: "length (entry_bytes e) = 36"
  using entry_value_length [of e] by (cases "entry_value e") (simp add: entry_bytes_def)

lemma entry_read:
  assumes "entry_fits e"
  shows "hw_entry_of (entry_bytes e @ r) = Inr e"
proof -
  obtain k v where kv: "entry_value e = (k, v)" by (cases "entry_value e")
  have v: "length v = 32" using entry_value_length [of e] kv by simp
  then have "ld_bytes ((bytes32 (htonl k) @ v) @ r) 4 32 = Inr v" "\<exists>w. ld32 ((bytes32 (htonl k) @ v) @ r) 4 = Inr w"
    by (simp_all add: ld_bytes_def ld32_def)
  moreover have "ld32 ((bytes32 (htonl k) @ v) @ r) 0 = Inr (htonl k)" using ld32_bytes(1) by simp
  moreover have "ld32 (bytes32 (htonl k) @ bytes32 w @ s) 4 = Inr w" for w s using ld32_bytes(2) [of "bytes32 (htonl k)"] by simp
  ultimately show ?thesis using assms kv v cstr_field [of _ 32 "[]"]
    by (cases e) (auto simp: hw_entry_of_def entry_bytes_def)
qed

lemma entries_read: "list_all entry_fits es \<Longrightarrow> hw_entries (length es) (concat (map entry_bytes es) @ r) = Inr es"
  by (induction es) (auto simp: entry_read entry_bytes_length)

lemma packet_handled:
  assumes "length iface < 16" "CHR 0x00 \<notin> set iface"
  shows "handle_message junk file (vns_packet p iface) rs = bindR (process_packet p iface rs) (\<lambda>rs. Inr (1, rs))"
proof -
  let ?hdr = "bytes32 (htonl (24 + word_of_nat (length p)))"
  have "ld32 (vns_packet p iface) 4 = Inr (htonl VNSPACKET)" using ld32_bytes(2) [of ?hdr] by (simp add: vns_packet_def)
  moreover have "drop 8 (vns_packet p iface) = field 16 iface @ p" "drop 24 (vns_packet p iface) = p" "length (vns_packet p iface) = 24 + length p"
    by (simp_all add: vns_packet_def)
  ultimately show ?thesis using cstr_field [OF assms] by (simp add: handle_message_def)
qed

lemma hwinfo_handled:
  assumes "list_all entry_fits es"
  shows "handle_message junk file (vns_hwinfo es) rs = bindR (sr_handle_hwinfo es junk file rs) (\<lambda>rs. Inr (1, rs))"
proof -
  let ?hdr = "bytes32 (htonl (word_of_nat (8 + 36 * length es)))"
  have "ld32 (vns_hwinfo es) 4 = Inr (htonl VNSHWINFO)" using ld32_bytes(2) [of ?hdr] by (simp add: vns_hwinfo_def)
  moreover have "length (concat (map entry_bytes es)) = 36 * length es" by (induction es) (simp_all add: entry_bytes_length)
  then have "drop 8 (vns_hwinfo es) = concat (map entry_bytes es)" "(length (vns_hwinfo es) - 8) div 36 = length es" by (simp_all add: vns_hwinfo_def)
  ultimately show ?thesis using entries_read [OF assms, of "[]"] by (simp add: handle_message_def VNSHWINFO_def VNSPACKET_def VNSCLOSE_def)
qed

lemma bindR_return: "bindR (bindR m (\<lambda>rs. Inr (ret, rs))) (\<lambda>(ret, rs). k ret rs) = bindR m (k ret)"
  by (cases m) simp_all

section \<open>Properties\<close>

text \<open>
  Claim C23. The session with the VNS server: a packet message, as \<^verbatim>\<open>sr_vns_send_packet\<close> writes it, and a description of the hardware are
  read whole, in whatever pieces the network delivers them and however often a signal interrupts the reading, and nothing after them is touched:
  the packet is handed to the router with the name of its interface, and the hardware starts it with the interfaces described.
\<close>

theorem vns_messages_read:
  assumes "length iface < 16" "CHR 0x00 \<notin> set iface" "length p \<le> 9000" "enough (24 + length p) ios"
    and "list_all entry_fits es" "length es \<le> 256" "enough (8 + 36 * length es) ios2"
  shows "(\<exists>ios'. sr_vns_read_from_server junk file (vns_packet p iface @ s) ios rs = bindR (process_packet p iface rs) (\<lambda>rs. Inr (Some (1, s, ios', rs)))) \<and>
    (\<exists>ios'. sr_vns_read_from_server junk file (vns_hwinfo es @ s) ios2 rs = bindR (sr_handle_hwinfo es junk file rs) (\<lambda>rs. Inr (Some (1, s, ios', rs))))"
proof
  have "length (vns_packet p iface) = 24 + length p" by (simp add: vns_packet_def)
  then show "\<exists>ios'. sr_vns_read_from_server junk file (vns_packet p iface @ s) ios rs = bindR (process_packet p iface rs) (\<lambda>rs. Inr (Some (1, s, ios', rs)))"
    using message_read [of "vns_packet p iface" "bytes32 (htonl VNSPACKET) @ field 16 iface @ p" 0 ios junk "file" s rs] assms(3,4)
      packet_handled [OF assms(1,2), of junk "file" p rs] by (auto simp: vns_packet_def bindR_return)
  have "length (concat (map entry_bytes es)) = 36 * length es" by (induction es) (simp_all add: entry_bytes_length)
  then have "length (vns_hwinfo es) = 8 + 36 * length es" by (simp add: vns_hwinfo_def)
  then show "\<exists>ios'. sr_vns_read_from_server junk file (vns_hwinfo es @ s) ios2 rs = bindR (sr_handle_hwinfo es junk file rs) (\<lambda>rs. Inr (Some (1, s, ios', rs)))"
    using message_read [of "vns_hwinfo es" "bytes32 (htonl VNSHWINFO) @ concat (map entry_bytes es)" 0 ios2 junk "file" s rs] assms(6,7)
      hwinfo_handled [OF assms(5), of junk "file" rs] by (auto simp: vns_hwinfo_def bindR_return)
qed

text \<open>A packet of sixty bytes and one interface, byte by byte.\<close>

theorem vns_messages_read_witness:
  "(\<exists>ios'. sr_vns_read_from_server \<lparr>vns_name = [], vns_addr = [], vns_ip = 0, vns_mask = 0, vns_speed = 0\<rparr> [] (vns_packet (replicate 60 1) ''eth0'' @ [1, 2])
      (Interrupted # replicate 84 (Got 1)) (bzero_state demo_env) =
    bindR (process_packet (replicate 60 1) ''eth0'' (bzero_state demo_env)) (\<lambda>rs. Inr (Some (1, [1, 2], ios', rs)))) \<and>
   (\<exists>ios'. sr_vns_read_from_server \<lparr>vns_name = [], vns_addr = [], vns_ip = 0, vns_mask = 0, vns_speed = 0\<rparr> [] (vns_hwinfo [HWINTERFACE ''eth0'', HWETHIP 9] @ [1, 2])
      (replicate 80 (Got 3)) (bzero_state demo_env) =
    bindR (sr_handle_hwinfo [HWINTERFACE ''eth0'', HWETHIP 9] \<lparr>vns_name = [], vns_addr = [], vns_ip = 0, vns_mask = 0, vns_speed = 0\<rparr> [] (bzero_state demo_env))
      (\<lambda>rs. Inr (Some (1, [1, 2], ios', rs))))"
  by (rule vns_messages_read) (simp_all add: enough_def)

end
