(* ===== verification/Cli_Table.thy ===== *)
theory Cli_Table
  imports Cli "HOL-Library.List_Lexorder"
begin

text \<open>
  The command table and its search, and the loop that serves a telnet client: \<^verbatim>\<open>register_cli_command\<close> of \<^verbatim>\<open>or_utils.c\<close>, \<^verbatim>\<open>init_cli\<close> of
  \<^verbatim>\<open>or_main.c\<close>, \<^verbatim>\<open>cli_command_lpm\<close> and \<^verbatim>\<open>process_client_request\<close> of \<^verbatim>\<open>or_cli.c\<close>. The table is sorted with a comparison of which
  the C library fixes only the sign; the search does not depend on the order.
\<close>

section \<open>The table\<close>

record cli_entry =
  ce_command :: string
  ce_handler :: cli_command_handler

definition create_cli_entry :: "string \<Rightarrow> cli_command_handler \<Rightarrow> cli_entry" where
  "create_cli_entry cmd handler = \<lparr>ce_command = cmd, ce_handler = handler\<rparr>"

definition register_cli_command :: "string \<times> cli_command_handler \<Rightarrow> cli_entry list \<Rightarrow> cli_entry list" where
  "register_cli_command e head = head @ [create_cli_entry (fst e) (snd e)]"

abbreviation (input) tab :: "string \<Rightarrow> string" where
  "tab s \<equiv> CHR 0x09 # s"

definition cli_help :: cli_command_handler where
  "cli_help = usage
    [''usage: <args>'', tab ''show vns [user server vhost lhost topology]'', tab ''show ip [route interface arp]'',
     tab ''ip [route interface arp]'', tab ''sping [dest]'', tab ''show pwopsf [iface router info]'', tab ''set aid [area id]'',
     tab ''set hello interval [interval]'', tab ''set lsu broadcast [on off]'', tab ''set lsu interval [interval]'', tab ''send hello'',
     tab ''send lsu'', tab ''show hw rtable'', tab ''show hw arp'', tab ''show hw iface'', tab ''hw iface add [eth0 eth1] [mac adress]'',
     tab ''hw iface del [eth0 eth1]'', tab ''nuke arp'', tab ''nuke hw arp [row]'', tab ''hw iface [eth0 eth1] up'',
     tab ''hw iface [eth0 eth1] down'', tab ''hw packts fwd'']"

definition cli_hw_help :: cli_command_handler where
  "cli_hw_help = usage
    [tab ''show hw rtable'', tab ''show hw arp'', tab ''show hw iface'', tab ''nuke arp'', tab ''nuke hw arp [row]'',
     tab ''hw iface add [eth0 eth1] [mac addr]'', tab ''hw iface del [eth0 eth1]'', tab ''hw iface [eth0 eth1] up'',
     tab ''hw iface [eth0 eth1] down'', tab ''hw packts fwd'']"

definition cli_show_help :: cli_command_handler where
  "cli_show_help = usage [''usage: show <args>'', ''show vns [user server vhost lhost topology]'', ''show ip [route interface arp]'']"

definition cli_pwospf_help :: cli_command_handler where
  "cli_pwospf_help = usage
    [''pwospf usage: '', tab ''show pwospf interface'', tab ''show pwospf router'', tab ''set aid [value]'', tab ''set hello interval [value]'',
     tab ''set lsu broadcast [on/off]'', tab ''set lsu interval [value]'', tab ''send hello'', tab ''send lsu'']"

definition cli_ip_route_help :: cli_command_handler where
  "cli_ip_route_help = usage [''usage: ip route <args>'', ''ip route add dest gateway mask interface'', ''ip route del dest mask'']"

definition cli_ip_interface_help :: cli_command_handler where
  "cli_ip_interface_help = usage [''usage: ip iterface <args>'', ''ip interface name ip mask'', ''ip interface name up'', ''ip interface name down'']"

definition cli_ip_arp_help :: cli_command_handler where
  "cli_ip_arp_help = usage [''usage: ip arp <args>'', ''ip arp add ip MAC'', ''ip arp del ip'']"

definition cli_ip_help :: cli_command_handler where
  "cli_ip_help = usage [''usage: ip <args>'', ''ip [route interface arp]'']"

definition cli_show_ip_help :: cli_command_handler where
  "cli_show_ip_help = usage [''usage: show ip [route interface arp]'']"

text \<open>The lines of \<^verbatim>\<open>init_cli\<close>, in order.\<close>

definition registrations :: "(string \<times> cli_command_handler) list" where
  "registrations =
    [(''help'', cli_help), (''?'', cli_help), (''show ?'', cli_show_help),
     (''show vns ?'', usage [''usage: show vns [user server vhost lhost topology]'']), (''show vns'', cli_show_vns),
     (''show vns user'', cli_show_vns_user), (''show vns user ?'', usage [''Usage: show vns user'']),
     (''show vns lhost'', cli_show_vns_lhost), (''show vns lhost ?'', usage [''Usage: show vns lhost'']),
     (''show vns vhost'', cli_show_vns_vhost), (''show vns vhost ?'', usage [''Usage: show vns vhost'']),
     (''show vns server'', cli_show_vns_server), (''show vns server ?'', usage [''Usage: show vns server'']),
     (''show vns topology'', cli_show_vns_topology), (''show vns topology ?'', usage [''Usage: show vns topology'']),
     (''show ip'', cli_show_ip_help), (''show ip ?'', cli_show_ip_help), (''show ip arp'', cli_show_ip_arp),
     (''show ip arp ?'', usage [''usage: show ip arp'']), (''show ip interface'', cli_show_ip_iface),
     (''show ip interface ?'', usage [''usage: show ip interface'']), (''show ip route'', cli_show_ip_rtable),
     (''show ip route ?'', usage [''usage: show ip route'']), (''ip ?'', cli_ip_help), (''ip route ?'', cli_ip_route_help),
     (''ip route add'', cli_ip_route_add), (''ip route add ?'', usage [''usage: ip route add dest gateway mask interface'']),
     (''ip route del'', cli_ip_route_del), (''ip route del ?'', usage [''usage: ip route del dest mask'']),
     (''ip interface ?'', cli_ip_interface_help), (''ip interface'', cli_ip_interface), (''ip arp ?'', cli_ip_arp_help),
     (''ip arp add'', cli_ip_arp_add), (''ip arp add ?'', usage [''usage ip arp add ip MAC'']), (''ip arp del'', cli_ip_arp_del),
     (''ip arp del ?'', usage [''usage ip arp del ip'']), (''ip arp set ttl'', cli_ip_arp_set_ttl), (''sping'', cli_sping),
     (''sping ?'', usage [''usage: sping [address]'']), (''pwospf ?'', cli_pwospf_help), (''show pwospf iface'', cli_show_pwospf_iface),
     (''show pwospf iface ?'', usage [''usage: show pwospf interface'']), (''show pwospf router'', cli_show_pwospf_router_list),
     (''show pwospf info'', cli_show_pwospf_info), (''set aid'', cli_pwospf_set_aid), (''set aid ?'', usage [''usage: aid set [number]'']),
     (''set hello interval'', cli_pwospf_set_hello), (''set lsu broadcast'', cli_pwospf_set_lsu_broadcast),
     (''set lsu interval'', cli_pwospf_set_lsu_interval), (''send hello'', cli_pwospf_send_hello), (''send lsu'', cli_pwospf_send_lsu),
     (''hw info'', cli_hw_info), (''hw ?'', cli_hw_help), (''show hw rtable'', cli_show_hw_rtable), (''show hw arp'', cli_show_hw_arp_cache),
     (''nuke arp'', cli_nuke_arp_cache), (''nuke hw arp'', cli_nuke_hw_arp_cache_entry), (''show hw iface'', cli_show_hw_interface),
     (''hw iface add'', cli_hw_interface_add), (''hw iface del'', cli_hw_interface_del), (''hw iface'', cli_hw_interface_set),
     (''hw arp miss'', cli_hw_arp_cache_misses), (''hw pckts fwd'', cli_hw_num_pckts_fwd)]"

definition cli_swap :: "environment \<Rightarrow> cli_entry \<Rightarrow> cli_entry \<Rightarrow> bool" where
  "cli_swap e a b = (strcmp e (ce_command a) (ce_command b) = 1)"

definition init_cli :: "environment \<Rightarrow> cli_entry list res" where
  "init_cli e = returnsR (bubble_sort (cli_swap e) (fold register_cli_command registrations []))"

section \<open>The search\<close>

fun lpm_command :: "string \<Rightarrow> cli_entry list \<Rightarrow> cli_entry option \<Rightarrow> nat \<Rightarrow> cli_entry option" where
  "lpm_command cmd [] best longest = best"
| "lpm_command cmd (ce # ces) best longest =
    (let entry_len = length (ce_command ce) in
     if entry_len > longest \<and> length cmd \<ge> entry_len \<and> strncmp_eq cmd (ce_command ce) entry_len
     then lpm_command cmd ces (Some ce) entry_len
     else lpm_command cmd ces best longest)"

definition cli_command_lpm :: "cli_entry list \<Rightarrow> string \<Rightarrow> cli_command_handler option" where
  "cli_command_lpm commands cmd = map_option ce_handler (lpm_command cmd commands None 0)"

definition exec_command :: "cli_entry list \<Rightarrow> string \<Rightarrow> cli_command_handler" where
  "exec_command commands err req rs =
    (case cli_command_lpm commands (command req) of
       None \<Rightarrow> Inr (reply_line req err rs)
     | Some handler \<Rightarrow> handler req rs)"

section \<open>A telnet client\<close>

text \<open>The buffer of 128 characters keeps what earlier commands left in it. A client is served until it says \<^verbatim>\<open>exit\<close>: \<open>None\<close> ends the thread. The prompt is sent
  with its terminating zero. A buffer without a zero is read past its end.\<close>

definition prompt :: string where
  "prompt = ''> '' @ [CHR 0x00]"

definition recv_into :: "string \<Rightarrow> string \<Rightarrow> string" where
  "recv_into buf input = take 128 input @ drop (length (take 128 input)) buf"

definition process_client_request_step ::
  "cli_entry list \<Rightarrow> int \<Rightarrow> string \<Rightarrow> string \<Rightarrow> router_state \<Rightarrow> (string option \<times> router_state) res" where
  "process_client_request_step commands fd input buf rs =
    (if input = [] then Inr (Some buf, rs)
     else
       let buf = recv_into buf input in
       if CHR 0x00 \<notin> set buf then Inl OutOfBounds
       else
         let buf = cleanCRLFs buf; cmd = cstr buf in
         if strncmp_eq cmd ''exit'' 4 then Inr (None, send_to_socket fd (''bye!'' @ newline) rs)
         else
           bindR (exec_command commands ''invalid command ... type ? or help for valid command help'' \<lparr>command = cmd, sockfd = fd\<rparr> rs) (\<lambda>rs.
           Inr (Some buf, send_to_socket fd prompt rs)))"

section \<open>What the search finds\<close>

definition is_longest :: "string \<Rightarrow> cli_entry list \<Rightarrow> cli_entry \<Rightarrow> bool" where
  "is_longest cmd es e \<longleftrightarrow> e \<in> set es \<and> ce_command e \<noteq> [] \<and> take (length (ce_command e)) cmd = ce_command e \<and>
    (\<forall>e'\<in>set es. take (length (ce_command e')) cmd = ce_command e' \<longrightarrow> length (ce_command e') \<le> length (ce_command e))"

lemma prefix_test: "length cmd \<ge> length c \<and> strncmp_eq cmd c (length c) \<longleftrightarrow> take (length c) cmd = c"
  by (auto simp: strncmp_eq_def) (metis length_take min.absorb_iff2 nat_le_linear min.absorb2)

lemma lpm_command_spec:
  assumes "lpm_command cmd es best longest = r"
  shows "(r = best \<and> (\<forall>e\<in>set es. take (length (ce_command e)) cmd = ce_command e \<longrightarrow> length (ce_command e) \<le> longest)) \<or>
    (\<exists>e. r = Some e \<and> is_longest cmd es e \<and> length (ce_command e) > longest)"
  using assms
proof (induction cmd es best longest rule: lpm_command.induct)
  case (2 cmd ce ces best longest)
  show ?case
  proof (cases "length (ce_command ce) > longest \<and> take (length (ce_command ce)) cmd = ce_command ce")
    case True
    then have "lpm_command cmd ces (Some ce) (length (ce_command ce)) = r" using 2(3) by (simp add: prefix_test Let_def)
    from 2(1) [OF refl _ this] True show ?thesis by (auto simp: prefix_test is_longest_def)
  next
    case False
    then have "lpm_command cmd ces best longest = r" using 2(3) by (auto simp: prefix_test Let_def)
    from 2(2) [OF refl _ this] False
    consider "r = best" "\<forall>e\<in>set ces. take (length (ce_command e)) cmd = ce_command e \<longrightarrow> length (ce_command e) \<le> longest"
      | e where "r = Some e" "is_longest cmd ces e" "longest < length (ce_command e)"
      unfolding prefix_test by blast
    then show ?thesis
    proof cases
      case 1
      with False show ?thesis by auto
    next
      case (2 e)
      then have "is_longest cmd (ce # ces) e" using False unfolding is_longest_def by (auto dest: not_le_imp_less)
      with 2 show ?thesis by blast
    qed
  qed
qed simp

lemma is_longest_mset: "mset es = mset es' \<Longrightarrow> is_longest cmd es e \<longleftrightarrow> is_longest cmd es' e"
  by (auto simp: is_longest_def dest: mset_eq_setD)

lemma registered: "fold register_cli_command rs es = es @ map (\<lambda>e. create_cli_entry (fst e) (snd e)) rs"
  by (induction rs arbitrary: es) (auto simp: register_cli_command_def)

lemma init_cli_entries:
  assumes "init_cli e = Inr commands"
  shows "set commands = (\<lambda>e. create_cli_entry (fst e) (snd e)) ` set registrations"
proof -
  have "bubble_sort (cli_swap e) (map (\<lambda>e. create_cli_entry (fst e) (snd e)) registrations) = Some commands"
    using assms by (simp add: init_cli_def registered)
  from mset_eq_setD [OF mset_bubble_sort [OF this]] show ?thesis by simp
qed

section \<open>The sort\<close>

text \<open>A library whose \<^verbatim>\<open>strcmp\<close> answers 1 for a greater string makes the sort loop end.\<close>

lemma lexcmp_eq_1: "lexcmp a b = 1 \<longleftrightarrow> map of_char b < (map of_char a :: nat list)"
proof -
  have lex: "List.lexordp (\<lambda>x y. (of_char x :: nat) < of_char y) xs ys \<longleftrightarrow> map of_char xs < (map of_char ys :: nat list)" for xs ys :: string
  proof (induction xs arbitrary: ys)
    case Nil
    show ?case by (cases ys) (simp_all add: lexordp_def)
  next
    case (Cons x xs)
    then show ?case by (cases ys) (auto simp: lexordp_def)
  qed
  have inj: "map of_char a = (map of_char b :: nat list) \<longleftrightarrow> a = b" for a b :: string
    by (metis char_of_char list.inj_map_strong)
  show ?thesis unfolding lexcmp_def lex using inj [of a b] by (auto simp: less_le_not_le)
qed

interpretation command_order: bubble_key "\<lambda>a b. lexcmp (ce_command a) (ce_command b) = 1" "\<lambda>ce. map of_char (ce_command ce) :: nat list"
  by unfold_locales (rule lexcmp_eq_1)

lemma init_cli_returns: "strcmp e = lexcmp \<Longrightarrow> \<exists>commands. init_cli e = Inr commands"
  by (simp add: init_cli_def cli_swap_def [abs_def] command_order.bubble_sort_eq)

lemma dispatch_spec:
  assumes "init_cli e = Inr commands"
  shows "case cli_command_lpm commands cmd of
      None \<Rightarrow> list_all (\<lambda>(c, _). take (length c) cmd \<noteq> c) registrations
    | Some h \<Rightarrow> \<exists>c. (c, h) \<in> set registrations \<and> take (length c) cmd = c \<and>
        list_all (\<lambda>(c', _). take (length c') cmd = c' \<longrightarrow> length c' \<le> length c) registrations"
proof -
  note es = init_cli_entries [OF assms]
  have ne: "(c, h) \<in> set registrations \<Longrightarrow> c \<noteq> []" for c h by (auto simp: registrations_def)
  consider "lpm_command cmd commands None 0 = None" "\<forall>ce\<in>set commands. take (length (ce_command ce)) cmd \<noteq> ce_command ce"
    | ce where "lpm_command cmd commands None 0 = Some ce" "is_longest cmd commands ce"
  proof -
    have "ce_command ce \<noteq> []" if "ce \<in> set commands" for ce
      using that ne unfolding es by (auto simp: create_cli_entry_def)
    then show ?thesis using lpm_command_spec [of cmd commands None 0, OF refl] that by auto
  qed
  then show ?thesis
  proof cases
    case 1
    then show ?thesis unfolding es by (auto simp: cli_command_lpm_def list_all_iff create_cli_entry_def)
  next
    case (2 ce)
    from 2(2) obtain c h where ch: "(c, h) \<in> set registrations" "ce = create_cli_entry c h" unfolding is_longest_def es by auto
    have "take (length c) cmd = c \<and> list_all (\<lambda>(c', _). take (length c') cmd = c' \<longrightarrow> length c' \<le> length c) registrations"
      using 2(2) unfolding is_longest_def es ch(2) by (auto simp: list_all_iff create_cli_entry_def)
    with ch show ?thesis by (auto simp: cli_command_lpm_def 2(1) create_cli_entry_def)
  qed
qed

lemma registrations_distinct: "distinct (map fst registrations)"
  by (simp add: registrations_def)

lemma dispatch_to:
  assumes "init_cli e = Inr commands" "(c, h) \<in> set registrations" "take (length c) cmd = c"
    "list_all (\<lambda>(c', _). take (length c') cmd = c' \<longrightarrow> length c' < length c \<or> c' = c) registrations"
  shows "cli_command_lpm commands cmd = Some h"
proof (cases "cli_command_lpm commands cmd")
  case None
  then show ?thesis using dispatch_spec [OF assms(1), of cmd] assms(2,3) by (auto simp: list_all_iff)
next
  case (Some h')
  with dispatch_spec [OF assms(1), of cmd] assms(2,3) obtain c' where c': "(c', h') \<in> set registrations" "take (length c') cmd = c'" "length c \<le> length c'"
    by (auto simp: list_all_iff)
  with assms(4) have "c' = c" by (auto simp: list_all_iff)
  with c'(1) assms(2) Some eq_key_imp_eq_value [OF registrations_distinct] show ?thesis by blast
qed

section \<open>Properties\<close>

text \<open>
  Claim C9. A command is executed by the handler registered for its longest prefix: the search over the sorted table finds a handler exactly when some registered
  command is a prefix of the input, and then that of the longest one. Nothing depends on the order in which the comparison of the C library
  has sorted the table.
\<close>

theorem cli_dispatch:
  assumes "init_cli e = Inr commands"
  shows "case cli_command_lpm commands cmd of
      None \<Rightarrow> list_all (\<lambda>(c, _). take (length c) cmd \<noteq> c) registrations
    | Some h \<Rightarrow> \<exists>c. (c, h) \<in> set registrations \<and> take (length c) cmd = c \<and>
        list_all (\<lambda>(c', _). take (length c') cmd = c' \<longrightarrow> length c' \<le> length c) registrations"
  using dispatch_spec [OF assms] .

theorem cli_dispatch_witness:
  "\<exists>commands. init_cli demo_env = Inr commands \<and> cli_command_lpm commands ''reboot'' = None"
proof -
  obtain commands where c: "init_cli demo_env = Inr commands" using init_cli_returns [of demo_env] by (auto simp: demo_env_def)
  have "\<not> list_ex (\<lambda>(c, _). take (length c) ''reboot'' = c) registrations" by (simp add: registrations_def)
  then have "cli_command_lpm commands ''reboot'' = None"
    using cli_dispatch [OF c, of "''reboot''"] by (auto simp: list_ex_iff split: option.splits)
  with c show ?thesis by blast
qed

end
