(* ===== verification/Www.thy ===== *)
theory Www
  imports Cli_Table Frame
begin

text \<open>
  The web server of \<^verbatim>\<open>or_www.c\<close>: how a request is read, the list of the commands, the execution of a command from a URL and the files.
  What \<^verbatim>\<open>recv\<close> returns is a list of results; \<^verbatim>\<open>send\<close> takes all it is given. The directory, the files and the text of the hardware
  statistics, whose averages are floating point numbers, are arguments.
\<close>

section \<open>Reading a request\<close>

definition CRLFCRLF :: string where
  "CRLFCRLF = [CHR 0x0D, CHR 0x0A, CHR 0x0D, CHR 0x0A]"

fun contains_crlfcrlf :: "string \<Rightarrow> bool" where
  "contains_crlfcrlf [] = False"
| "contains_crlfcrlf (c # cs) =
    (4 \<le> length (c # cs) \<and> (take 4 (c # cs) = CRLFCRLF \<or> contains_crlfcrlf cs))"

datatype recv_result = Data string | Closed | Failed

datatype request = Request string nat | Aborted | Waiting

text \<open>The buffer grows to twice its size when it is full, also after the last piece, so that a zero follows the request.\<close>

fun read_request :: "nat \<Rightarrow> string \<Rightarrow> recv_result list \<Rightarrow> request" where
  "read_request alloc buf [] = Waiting"
| "read_request alloc buf (Data d # rcv) =
    (let buf = buf @ d; alloc = (if length buf = alloc then 2 * alloc else alloc) in
     if contains_crlfcrlf buf then Request buf alloc else read_request alloc buf rcv)"
| "read_request alloc buf (Closed # rcv) = (if contains_crlfcrlf buf then Request buf alloc else Aborted)"
| "read_request alloc buf (Failed # rcv) = Aborted"

text \<open>\<^verbatim>\<open>recv\<close> returns at least one and at most as many bytes as there is room.\<close>

fun fits :: "nat \<Rightarrow> nat \<Rightarrow> recv_result list \<Rightarrow> bool" where
  "fits alloc n [] = True"
| "fits alloc n (Data d # rcv) =
    (d \<noteq> [] \<and> n + length d \<le> alloc \<and> fits (if n + length d = alloc then 2 * alloc else alloc) (n + length d) rcv)"
| "fits alloc n (_ # rcv) = True"

section \<open>Answers\<close>

function chunks :: "nat \<Rightarrow> string \<Rightarrow> string list" where
  "chunks n msg = (if msg = [] \<or> n = 0 then [] else take n msg # chunks n (drop n msg))"
  by auto
termination by (relation "measure (length \<circ> snd)") auto

declare chunks.simps [simp del]

definition send_all :: "int \<Rightarrow> string \<Rightarrow> router_state \<Rightarrow> router_state" where
  "send_all fd msg rs = fold (send_to_socket fd) (chunks 8400 msg) rs"

fun append_commands :: "cli_entry list \<Rightarrow> string \<times> nat \<Rightarrow> (string \<times> nat) res" where
  "append_commands [] msg = Inr msg"
| "append_commands (entry # es) msg =
    bindR (my_strncat (fst msg) (ce_command entry) (snd msg)) (\<lambda>msg.
    bindR (my_strncat (fst msg) newline (snd msg)) (append_commands es))"

definition list_commands :: "cli_entry list \<Rightarrow> router_state \<Rightarrow> (string \<times> router_state) res" where
  "list_commands commands rs =
    bindR (acquire CliCommandsLock Rd rs) (\<lambda>rs.
    bindR (append_commands commands ([], 256)) (\<lambda>msg.
    bindR (release CliCommandsLock rs) (\<lambda>rs. Inr (fst msg, rs))))"

definition send_file :: "int \<Rightarrow> string \<Rightarrow> router_state \<Rightarrow> router_state" where
  "send_file fd contents rs =
    send_all fd contents (send_all fd (''Content-Length: '' @ show_nat (length contents) @ CRLFCRLF) rs)"

text \<open>\<^verbatim>\<open>strtok\<close> with the delimiters \<open>=\<close> and \<open>&\<close>: the tokens are not empty.\<close>

definition is_delim :: "char \<Rightarrow> bool" where
  "is_delim c = (c = CHR ''='' \<or> c = CHR ''&'')"

function tokens :: "string \<Rightarrow> string list" where
  "tokens s =
    (let t = dropWhile is_delim s in
     if t = [] then [] else takeWhile (\<lambda>c. \<not> is_delim c) t # tokens (dropWhile (\<lambda>c. \<not> is_delim c) t))"
  by auto
termination
proof (relation "measure length")
  fix s t :: string
  assume t: "t = dropWhile is_delim s" "t \<noteq> []"
  then have "\<not> is_delim (List.hd t)" using hd_dropWhile by metis
  then have "dropWhile (\<lambda>c. \<not> is_delim c) t = dropWhile (\<lambda>c. \<not> is_delim c) (tl t)" using t(2) by (cases t) auto
  also have "length \<dots> \<le> length (tl t)" by (rule length_dropWhile_le)
  also have "\<dots> < length t" using t(2) by simp
  also have "\<dots> \<le> length s" unfolding t(1) by (rule length_dropWhile_le)
  finally show "(dropWhile (\<lambda>c. \<not> is_delim c) t, s) \<in> measure length" by simp
qed simp

declare tokens.simps [simp del]

definition www_command :: "cli_entry list \<Rightarrow> int \<Rightarrow> string \<Rightarrow> router_state \<Rightarrow> router_state res" where
  "www_command commands fd url rs =
    (let cmd = (case drop 1 (tokens url) of [] \<Rightarrow> [] | c # _ \<Rightarrow> urldecode c);
         rs = send_all fd (''HTTP/1.0 200 OK'' @ CRLFCRLF) rs in
     bindR (acquire CliCommandsLock Rd rs) (\<lambda>rs.
     bindR (exec_command commands ''invalid command'' \<lparr>command = cmd, sockfd = fd\<rparr> rs) (\<lambda>rs.
     release CliCommandsLock rs)))"

definition not_found :: string where
  "not_found = ''<html><head><title>404 Not Found</title></head><body><h1>Not Found</h1><p>The requested URL was not found on this server.</p></body></html>''"

text \<open>\<open>files\<close> maps the path that is opened to the contents of the file.\<close>

definition www_file :: "(string \<Rightarrow> string option) \<Rightarrow> string \<Rightarrow> int \<Rightarrow> string \<Rightarrow> router_state \<Rightarrow> router_state" where
  "www_file files cwd fd url rs =
    (let path = take 511 (cwd @ ''/www'' @ (if url = ''/'' then ''/index.html'' else url)) in
     case files path of
       None \<Rightarrow> send_to_socket fd not_found (send_to_socket fd (''HTTP/1.0 404 Not Found'' @ CRLFCRLF) rs)
     | Some contents \<Rightarrow> send_file fd contents (send_to_socket fd (''HTTP/1.0 200 OK'' @ [CHR 0x0D, CHR 0x0A]) rs))"

definition service_request ::
  "cli_entry list \<Rightarrow> (string \<Rightarrow> string option) \<Rightarrow> string \<Rightarrow> string \<Rightarrow> int \<Rightarrow> recv_result list \<Rightarrow> router_state \<Rightarrow> router_state res" where
  "service_request commands files cwd stats fd rcv rs =
    (case read_request 100 [] rcv of
       Waiting \<Rightarrow> Inr rs
     | Aborted \<Rightarrow> Inr rs
     | Request buf _ \<Rightarrow>
         (let args = sscanf (cstr buf) ''%as %as'' in
          if length args \<noteq> 2 then Inr rs
          else
            let url = strA (args ! 1) in
            if url = ''/list.html'' then
              bindR (list_commands commands rs) (\<lambda>(body, rs).
              Inr (send_all fd (''HTTP/1.0 200 OK'' @ [CHR 0x0D, CHR 0x0A] @ ''Content-Length: '' @ show_nat (length body) @ CRLFCRLF @ body) rs))
            else if strncmp_eq url ''/stats.html'' 11 then
              (if length stats < 512 then Inr (send_all fd stats rs) else Inl OutOfBounds)
            else if strncmp_eq url ''/command.html'' 13 then www_command commands fd url rs
            else Inr (www_file files cwd fd url rs)))"

section \<open>Reading\<close>

lemma contains_iff: "contains_crlfcrlf s \<longleftrightarrow> (\<exists>a b. s = a @ CRLFCRLF @ b)"
proof
  show "contains_crlfcrlf s \<Longrightarrow> \<exists>a b. s = a @ CRLFCRLF @ b"
  proof (induction s)
    case (Cons c s)
    then consider "take 4 (c # s) = CRLFCRLF" | "contains_crlfcrlf s" by auto
    then show ?case
    proof cases
      case 1
      then have "c # s = [] @ CRLFCRLF @ drop 4 (c # s)" by (metis append_Nil append_take_drop_id)
      then show ?thesis by blast
    next
      case 2
      with Cons.IH obtain a b where "s = a @ CRLFCRLF @ b" by blast
      then have "c # s = (c # a) @ CRLFCRLF @ b" by simp
      then show ?thesis by blast
    qed
  qed simp
  have "contains_crlfcrlf (a @ CRLFCRLF @ b)" for a b
    by (induction a) (simp_all add: CRLFCRLF_def)
  then show "\<exists>a b. s = a @ CRLFCRLF @ b \<Longrightarrow> contains_crlfcrlf s" by blast
qed

fun received :: "recv_result list \<Rightarrow> string" where
  "received [] = []"
| "received (Data d # rcv) = d @ received rcv"
| "received (_ # rcv) = []"

lemma read_request_sound:
  assumes "fits alloc (length buf) rcv" "length buf < alloc" "read_request alloc buf rcv = Request r n"
  shows "contains_crlfcrlf r \<and> length r < n \<and> (\<exists>rest. buf @ received rcv = r @ rest)"
  using assms
proof (induction alloc buf rcv rule: read_request.induct)
  case (2 alloc buf d rcv)
  let ?alloc = "if length (buf @ d) = alloc then 2 * alloc else alloc"
  have room: "length (buf @ d) < ?alloc" using 2(2,3) by auto
  show ?case
  proof (cases "contains_crlfcrlf (buf @ d)")
    case True
    then show ?thesis using 2(4) room by (auto simp: Let_def split: if_splits)
  next
    case False
    then have "read_request ?alloc (buf @ d) rcv = Request r n" using 2(4) by (simp add: Let_def split: if_splits)
    from 2(1) [OF refl refl False _ _ this] 2(2) room show ?thesis by (simp split: if_splits)
  qed
qed (auto split: if_splits)

text \<open>A request whose only blank line is its end is read whole, however it is cut into pieces.\<close>

lemma read_request_whole:
  assumes "buf @ concat ds = req" "list_all (\<lambda>d. d \<noteq> []) ds" "ds \<noteq> []" "contains_crlfcrlf req"
    "\<And>n. n < length req \<Longrightarrow> \<not> contains_crlfcrlf (take n req)"
  shows "\<exists>n. read_request alloc buf (map Data ds @ rcv) = Request req n"
  using assms
proof (induction ds arbitrary: alloc buf)
  case (Cons d ds)
  show ?case
  proof (cases "ds = []")
    case True
    then show ?thesis using Cons.prems by (auto simp: Let_def)
  next
    case False
    then obtain d' ds' where ds: "ds = d' # ds'" by (cases ds) auto
    with Cons.prems(1,2) have "buf @ d = take (length (buf @ d)) req" "length (buf @ d) < length req" by auto
    then have "\<not> contains_crlfcrlf (buf @ d)" using Cons.prems(5) by metis
    moreover have "\<exists>n. read_request alloc' (buf @ d) (map Data ds @ rcv) = Request req n" for alloc'
      by (rule Cons.IH) (use Cons.prems False in auto)
    ultimately show ?thesis by (auto simp: Let_def)
  qed
qed simp

lemma single_blank_line:
  assumes "CHR 0x0A \<notin> set r" "n < length (r @ CRLFCRLF)"
  shows "\<not> contains_crlfcrlf (take n (r @ CRLFCRLF))"
proof
  assume "contains_crlfcrlf (take n (r @ CRLFCRLF))"
  then obtain a b where ab: "take n (r @ CRLFCRLF) = a @ CRLFCRLF @ b" by (auto simp: contains_iff)
  have "length (filter (\<lambda>c. c = CHR 0x0A) (take n r)) = 0"
    using assms(1) by (auto simp: filter_empty_conv dest: in_set_takeD)
  moreover have "length (filter (\<lambda>c. c = CHR 0x0A) (take k CRLFCRLF)) \<le> 1" if "k < 4" for k
  proof -
    from that have "k = 0 \<or> k = 1 \<or> k = 2 \<or> k = 3" by linarith
    then show ?thesis by (auto simp: CRLFCRLF_def)
  qed
  moreover have "n - length r < 4" using assms(2) by (simp add: CRLFCRLF_def)
  ultimately have "length (filter (\<lambda>c. c = CHR 0x0A) (take n (r @ CRLFCRLF))) \<le> 1" by simp
  then show False unfolding ab by (simp add: CRLFCRLF_def)
qed

section \<open>Commands in a URL\<close>

lemma urlencode_chars: "list_all (\<lambda>c. is_alnum c \<or> c = CHR ''%'') (urlencode s)"
proof -
  have "is_alnum (hex_digit n)" if "n < 16" for n using that by (auto simp: is_alnum_def hex_digit_def Let_def)
  then show ?thesis by (induction s) (auto simp: urlencode_def div_less_iff_less_mult)
qed

lemma url_char:
  "is_alnum c \<or> c = CHR ''%'' \<Longrightarrow> \<not> is_space c" "is_alnum c \<or> c = CHR ''%'' \<Longrightarrow> \<not> is_delim c" "is_alnum c \<or> c = CHR ''%'' \<Longrightarrow> c \<noteq> CHR 0x0A"
  "is_alnum c \<or> c = CHR ''%'' \<Longrightarrow> c \<noteq> CHR 0x00"
  by (auto simp: is_alnum_def is_space_def is_delim_def Let_def)

lemma urlencode_not_empty: "s \<noteq> [] \<Longrightarrow> urlencode s \<noteq> []"
  by (cases s) (auto simp: urlencode_def)

definition command_url :: "string \<Rightarrow> string" where
  "command_url cmd = ''/command.html?command='' @ urlencode cmd"

definition get_request :: "string \<Rightarrow> string" where
  "get_request url = ''GET '' @ url @ '' HTTP/1.0'' @ CRLFCRLF"

lemma is_word_url: "is_word (command_url cmd)"
  using urlencode_chars [of cmd] url_char(1) by (auto simp: is_word_def command_url_def list_all_iff is_space_def)

lemma tokens_token:
  assumes "xs \<noteq> []" "list_all (\<lambda>c. \<not> is_delim c) xs"
  shows "tokens xs = [xs]" "is_delim c \<Longrightarrow> tokens (xs @ c # ys) = xs # tokens ys"
proof -
  have tw: "takeWhile (\<lambda>c. \<not> is_delim c) xs = xs" "dropWhile (\<lambda>c. \<not> is_delim c) xs = []" "dropWhile is_delim (xs @ zs) = xs @ zs" for zs
    using assms by (cases xs; simp add: list_all_iff takeWhile_eq_all_conv dropWhile_eq_Nil_conv)+
  have "dropWhile is_delim xs = xs" using tw(3) [of "[]"] by simp
  then show "tokens xs = [xs]" using assms(1) by (subst tokens.simps) (simp add: Let_def tw(1,2) tokens.simps [of "[]"])
  assume c: "is_delim c"
  then have "tokens (c # ys) = tokens ys" by (subst (1 2) tokens.simps) simp
  moreover have "takeWhile (\<lambda>c. \<not> is_delim c) (xs @ c # ys) = xs" "dropWhile (\<lambda>c. \<not> is_delim c) (xs @ c # ys) = c # ys"
    using assms(2) c by (simp_all add: list_all_iff takeWhile_append2 dropWhile_append2)
  ultimately show "tokens (xs @ c # ys) = xs # tokens ys" using assms(1) by (subst tokens.simps) (simp add: Let_def tw(3))
qed

lemma tokens_command:
  assumes "cmd \<noteq> []"
  shows "tokens (command_url cmd) = [''/command.html?command'', urlencode cmd]"
proof -
  have nd: "list_all (\<lambda>c. \<not> is_delim c) (urlencode cmd)" using urlencode_chars [of cmd] url_char(2) by (auto simp: list_all_iff)
  have p: "list_all (\<lambda>c. \<not> is_delim c) ''/command.html?command''" by code_simp
  have u: "command_url cmd = ''/command.html?command'' @ CHR ''='' # urlencode cmd" by (simp add: command_url_def)
  show ?thesis unfolding u
    by (subst tokens_token(2) [OF _ p]) (simp_all add: tokens_token(1) [OF urlencode_not_empty [OF assms] nd] is_delim_def)
qed

lemma scan_request: "sscanf (cstr (get_request (command_url cmd))) ''%as %as'' = [ArgS ''GET'', ArgS (command_url cmd)]"
proof -
  have "list_all (\<lambda>c. c \<noteq> CHR 0x00) (get_request (command_url cmd))"
    using urlencode_chars [of cmd] url_char(4) by (auto simp: get_request_def command_url_def list_all_iff CRLFCRLF_def)
  then have c: "cstr (get_request (command_url cmd)) = get_request (command_url cmd)"
    by (simp add: cstr_def takeWhile_eq_all_conv list_all_iff)
  have f: "format ''%as %as'' = [ConvS, White, ConvS]" and w: "is_word ''GET''" by code_simp+
  have g: "get_request (command_url cmd) = ''GET'' @ CHR '' '' # command_url cmd @ CHR '' '' # ''HTTP/1.0'' @ CRLFCRLF"
    by (simp add: get_request_def)
  show ?thesis unfolding c unfolding sscanf_def f g
    by (simp only: scan_word(4) [OF w] scan_word(1,4) [OF is_word_url] scan_Nil)
qed

section \<open>Properties\<close>

text \<open>
  A request is read whole and terminated: whatever pieces \<^verbatim>\<open>recv\<close> returns, the text that \<^verbatim>\<open>service_request\<close> goes on with is the beginning of
  what was received, contains an empty line, and is followed by a zero within the buffer.
\<close>

theorem www_request_read:
  assumes "fits 100 0 rcv" "read_request 100 [] rcv = Request r n"
  shows "(\<exists>a b. r = a @ CRLFCRLF @ b) \<and> length r < n \<and> (\<exists>rest. received rcv = r @ rest)"
  using read_request_sound [of 100 "[]" rcv r n] assms by (simp add: contains_iff)

theorem www_request_read_witness:
  "\<exists>r n. read_request 100 [] [Data ''GET / '', Data CRLFCRLF] = Request r n \<and> length r < n"
proof -
  have "read_request 100 [] [Data ''GET / '', Data CRLFCRLF] = Request (''GET / '' @ CRLFCRLF) 100" by (simp add: CRLFCRLF_def)
  with www_request_read [of "[Data ''GET / '', Data CRLFCRLF]"] show ?thesis by (simp add: CRLFCRLF_def)
qed

text \<open>
  Claim C21. A command sent through the web server is the command that is executed: a request for \<^verbatim>\<open>/command.html\<close> that carries an URL-encoded command, cut
  into any pieces by the network, runs exactly that command as the command line would, under the read lock of the command table.
\<close>

theorem www_runs_command:
  assumes "list_all (\<lambda>c. c \<noteq> CHR 0x00) cmd" "cmd \<noteq> []" "\<not> conflicts CliCommandsLock Rd (held rs)"
    and "concat ds = get_request (command_url cmd)" "list_all (\<lambda>d. d \<noteq> []) ds"
  shows "service_request commands files cwd stats fd (map Data ds) rs =
    bindR (exec_command commands ''invalid command'' \<lparr>command = cmd, sockfd = fd\<rparr>
        ((send_all fd (''HTTP/1.0 200 OK'' @ CRLFCRLF) rs)\<lparr>held := (CliCommandsLock, Rd) # held rs\<rparr>))
      (release CliCommandsLock)"
proof -
  let ?req = "get_request (command_url cmd)"
  have req: "?req = (''GET '' @ command_url cmd @ '' HTTP/1.0'') @ CRLFCRLF" by (simp add: get_request_def)
  have "CHR 0x0A \<notin> set (''GET '' @ command_url cmd @ '' HTTP/1.0'')"
    using urlencode_chars [of cmd] url_char(3) by (auto simp: command_url_def list_all_iff)
  then have "\<not> contains_crlfcrlf (take n ?req)" if "n < length ?req" for n using that unfolding req by (rule single_blank_line)
  moreover have "contains_crlfcrlf ?req" unfolding contains_iff req by (metis append_Nil2 append.assoc)
  moreover have "ds \<noteq> []" using assms(4) by (auto simp: get_request_def)
  ultimately obtain n where n: "read_request 100 [] (map Data ds) = Request ?req n"
    using read_request_whole [of "[]" ds ?req 100 "[]"] assms(4,5) by auto
  have held: "held (send_all fd s rs) = held rs" for s
  proof -
    have "held (fold (send_to_socket fd) ls x) = held x" for ls x by (induction ls arbitrary: x) (auto simp: send_to_socket_def)
    then show ?thesis by (simp add: send_all_def)
  qed
  have cmd: "urldecode (urlencode cmd) = cmd"
    using assms(1) by (simp add: urldecode_def urldecode_loop_encoded cstr_def takeWhile_eq_all_conv list_all_iff)
  have url: "command_url cmd \<noteq> ''/list.html''" "\<not> strncmp_eq (command_url cmd) ''/stats.html'' 11" "strncmp_eq (command_url cmd) ''/command.html'' 13"
    by (simp_all add: command_url_def strncmp_eq_def)
  show ?thesis using assms(3)
    by (simp add: service_request_def n scan_request url www_command_def tokens_command [OF assms(2)] cmd acquire_free held)
qed

theorem www_runs_command_witness:
  "\<exists>ds. concat ds = get_request (command_url ''send hello'') \<and>
    service_request [] (\<lambda>_. None) [] [] 7 (map Data ds) (bzero_state demo_env) =
    bindR (exec_command [] ''invalid command'' \<lparr>command = ''send hello'', sockfd = 7\<rparr>
        ((send_all 7 (''HTTP/1.0 200 OK'' @ CRLFCRLF) (bzero_state demo_env))\<lparr>held := [(CliCommandsLock, Rd)]\<rparr>))
      (release CliCommandsLock)"
  using www_runs_command [of "''send hello''" "bzero_state demo_env" "[get_request (command_url ''send hello'')]"]
  by (intro exI [of _ "[get_request (command_url ''send hello'')]"]) (simp add: get_request_def)

end
