(* ===== verification/Cli_Routes.thy ===== *)
theory Cli_Routes
  imports Cli_Table Frame
begin

text \<open>
  From the text of a command to its effect: what \<^verbatim>\<open>ip route add\<close> and \<^verbatim>\<open>ip route del\<close> do to the routing table when an operator types addresses in
  dotted notation, and what two careless commands do to the router.
\<close>

section \<open>Arguments\<close>

abbreviation (input) space :: "string \<Rightarrow> string \<Rightarrow> string" where
  "space a b \<equiv> a @ CHR '' '' # b"

lemma route_formats:
  "format ''ip route add %as %as %as %as'' = word_format [''ip'', ''route'', ''add''] @ [ConvS, White, ConvS, White, ConvS, White, ConvS]"
  "format ''ip route del %as %as'' = word_format [''ip'', ''route'', ''del''] @ [ConvS, White, ConvS]"
  by code_simp+

lemma route_words: "list_all is_word [''ip'', ''route'', ''add'']" "list_all is_word [''ip'', ''route'', ''del'']"
  by code_simp+

definition route_add_command :: "u32 \<Rightarrow> u32 \<Rightarrow> u32 \<Rightarrow> string \<Rightarrow> string" where
  "route_add_command d g m name = words [''ip'', ''route'', ''add''] @ space (inet_ntop d) (space (inet_ntop g) (space (inet_ntop m) name))"

definition route_del_command :: "u32 \<Rightarrow> u32 \<Rightarrow> string" where
  "route_del_command d m = words [''ip'', ''route'', ''del''] @ space (inet_ntop d) (inet_ntop m)"

lemma scan_route_add:
  assumes "is_word name"
  shows "sscanf (route_add_command d g m name) ''ip route add %as %as %as %as'' =
    [ArgS (inet_ntop d), ArgS (inet_ntop g), ArgS (inet_ntop m), ArgS name]"
  unfolding sscanf_def route_add_command_def route_formats scan_words [OF route_words(1) is_word_ntop]
  by (simp only: text_simps assms scan_word [OF assms] append.simps)

lemma scan_route_del:
  "sscanf (route_del_command d m) ''ip route del %as %as'' = [ArgS (inet_ntop d), ArgS (inet_ntop m)]"
  unfolding sscanf_def route_del_command_def route_formats scan_words [OF route_words(2) is_word_ntop] by (simp only: text_simps append.simps)

section \<open>The commands\<close>

definition interface_command :: "string \<Rightarrow> u32 \<Rightarrow> string" where
  "interface_command name a = words [''ip'', ''interface''] @ space name (inet_ntop a)"

lemma show_nat_first: "\<exists>x xs. show_nat n = x # xs \<and> is_digit 10 x"
  using show_nat_digits [of n] by (cases "show_nat n") auto

lemma ntop_first: "\<exists>x xs. inet_ntop a = x # xs \<and> x \<noteq> CHR ''?''"
  using show_nat_first [of "unat (byte32 0 a)"] by (auto simp: inet_ntop_def is_digit_def digit_val_def)

lemma dispatch_route_add:
  assumes "init_cli e = Inr commands"
  shows "cli_command_lpm commands (route_add_command d g m name) = Some cli_ip_route_add"
proof (rule dispatch_to [OF assms, where c = "''ip route add''"])
  obtain x xs where x: "inet_ntop d = x # xs" "x \<noteq> CHR ''?''" using ntop_first by blast
  then show "list_all (\<lambda>(c', _). take (length c') (route_add_command d g m name) = c' \<longrightarrow> length c' < length ''ip route add'' \<or> c' = ''ip route add'') registrations"
    by (simp add: registrations_def route_add_command_def words_def)
qed (simp_all add: registrations_def route_add_command_def words_def)

lemma dispatch_route_del:
  assumes "init_cli e = Inr commands"
  shows "cli_command_lpm commands (route_del_command d m) = Some cli_ip_route_del"
proof (rule dispatch_to [OF assms, where c = "''ip route del''"])
  obtain x xs where x: "inet_ntop d = x # xs" "x \<noteq> CHR ''?''" using ntop_first by blast
  then show "list_all (\<lambda>(c', _). take (length c') (route_del_command d m) = c' \<longrightarrow> length c' < length ''ip route del'' \<or> c' = ''ip route del'') registrations"
    by (simp add: registrations_def route_del_command_def words_def)
qed (simp_all add: registrations_def route_del_command_def words_def)

lemma commit_held: "rtable_commit es (rs\<lparr>held := h\<rparr>) = (rtable_commit es rs)\<lparr>held := h\<rparr>" "ports_ok es (rs\<lparr>held := h\<rparr>) \<longleftrightarrow> ports_ok es rs"
  by (simp_all add: rtable_commit_def ports_ok_def)

section \<open>Properties\<close>

text \<open>
  Claim C24. The route commands do what they say. When an operator types \<^verbatim>\<open>ip route add\<close> with three addresses in dotted notation and the name of an interface, and the table has no route to that destination and mask, the
  command reaches its handler, the addresses are read back as they were, the route is added to the table, the table is sorted and copied to the hardware, all
  locks are free again and the operator is told so; \<^verbatim>\<open>ip route del\<close> removes exactly the routes with that destination and mask and reports their number.
\<close>

theorem route_commands:
  assumes "init_cli e = Inr commands" "is_word name" "held rs = []"
    and "ports_ok (rt_effect (AddRoute d g m name) (rtable rs)) rs" "ports_ok (rt_effect (DelRoute d m) (rtable rs)) rs"
  shows "(list_all (\<lambda>e. \<not> (re_ip e = d \<and> re_mask e = m)) (rtable rs) \<longrightarrow>
      exec_command commands err \<lparr>command = route_add_command d g m name, sockfd = fd\<rparr> rs =
        Inr (send_to_socket fd (''Successfully added route.'' @ newline) (rtable_commit (rt_effect (AddRoute d g m name) (rtable rs)) rs))) \<and>
    (let n = int (length (filter (\<lambda>e. re_ip e = d \<and> re_mask e = m) (rtable rs))) in
     exec_command commands err \<lparr>command = route_del_command d m, sockfd = fd\<rparr> rs =
      Inr (send_to_socket fd (show_int n @ (if n \<noteq> 1 then '' routes deleted.'' else '' route deleted.'') @ newline)
        (rtable_commit (rt_effect (DelRoute d m) (rtable rs)) rs)))"
proof (intro conjI impI)
  let ?rs = "rs\<lparr>held := [(RtableLock, Wr)]\<rparr>"
  have unheld: "rs\<lparr>held := []\<rparr> = rs" using assms(3) by simp
  have add: "add_route d g m name ?rs = Inr (0, (rtable_commit (rt_effect (AddRoute d g m name) (rtable rs)) rs)\<lparr>held := [(RtableLock, Wr)]\<rparr>)"
    using assms(4) add.upd_returns [where rs = ?rs and dest = d and gateway = g and m = m and interface = name] by (simp add: commit_held)
  show "exec_command commands err \<lparr>command = route_add_command d g m name, sockfd = fd\<rparr> rs =
      Inr (send_to_socket fd (''Successfully added route.'' @ newline) (rtable_commit (rt_effect (AddRoute d g m name) (rtable rs)) rs))"
    using add assms(3) by (simp add: exec_command_def dispatch_route_add [OF assms(1)] cli_ip_route_add_def scan_route_add [OF assms(2)] text_simps
        acquire_free release_hd reply_line_def reply_def commit_held(1) [symmetric] unheld)
  have del: "del_route d m ?rs = Inr (int (length (filter (\<lambda>e. re_ip e = d \<and> re_mask e = m) (rtable rs))),
      (rtable_commit (rt_effect (DelRoute d m) (rtable rs)) rs)\<lparr>held := [(RtableLock, Wr)]\<rparr>)"
    using assms(5) del.upd_returns [where rs = ?rs and dest = d and m = m] by (simp add: commit_held)
  show "let n = int (length (filter (\<lambda>e. re_ip e = d \<and> re_mask e = m) (rtable rs))) in
     exec_command commands err \<lparr>command = route_del_command d m, sockfd = fd\<rparr> rs =
      Inr (send_to_socket fd (show_int n @ (if n \<noteq> 1 then '' routes deleted.'' else '' route deleted.'') @ newline)
        (rtable_commit (rt_effect (DelRoute d m) (rtable rs)) rs))"
    using del assms(3) by (simp add: exec_command_def dispatch_route_del [OF assms(1)] cli_ip_route_del_def scan_route_del text_simps
        acquire_free release_hd reply_line_def reply_def commit_held(1) [symmetric] unheld)
qed

theorem route_commands_witness:
  "\<exists>commands. init_cli demo_env = Inr commands \<and>
    exec_command commands [] \<lparr>command = route_add_command 0x1000000 0 0xFF ''eth0'', sockfd = 5\<rparr> (bzero_state demo_env) =
      Inr (send_to_socket 5 (''Successfully added route.'' @ newline)
        ((bzero_state demo_env)\<lparr>rtable := [\<lparr>re_ip = 0x1000000, re_gw = 0, re_mask = 0xFF, re_iface = ''eth0'', re_static = True, re_active = True\<rparr>]\<rparr>))"
proof -
  obtain commands where c: "init_cli demo_env = Inr commands" using init_cli_returns [of demo_env] by (auto simp: demo_env_def)
  have w: "is_word ''eth0''" by code_simp
  have sw: "ports_ok es (bzero_state demo_env)" for es by (simp add: ports_ok_def)
  from route_commands [OF c w _ sw sw, where d = "0x1000000" and g = 0 and m = "0xFF" and err = "[]" and fd = 5] c show ?thesis
    by (simp add: rtable_commit_def bzero_state_def)
qed

text \<open>
  An incomplete command kills the router: \<^verbatim>\<open>ip interface\<close> with the name of an interface and an address but no mask passes a null pointer to \<^verbatim>\<open>inet_pton\<close>,
  whatever the state of the router.
\<close>

theorem interface_command_crash:
  assumes "init_cli e = Inr commands" "is_word (c # name)" "c \<noteq> CHR ''?''"
  shows "exec_command commands err \<lparr>command = interface_command (c # name) a, sockfd = fd\<rparr> rs = Inl NullDeref"
proof -
  let ?cmd = "interface_command (c # name) a"
  have fmt: "format ''ip interface %as %as %as'' = word_format [''ip'', ''interface''] @ [ConvS, White, ConvS, White, ConvS]"
    and kw: "list_all is_word [''ip'', ''interface'']" by code_simp+
  have scan: "sscanf ?cmd ''ip interface %as %as %as'' = [ArgS (c # name), ArgS (inet_ntop a)]"
    unfolding sscanf_def interface_command_def fmt scan_words [OF kw assms(2)] by (simp only: text_simps scan_word [OF assms(2)]) simp
  have "cli_command_lpm commands ?cmd = Some cli_ip_interface"
  proof (rule dispatch_to [OF assms(1), where c = "''ip interface''"])
    show "list_all (\<lambda>(c', _). take (length c') ?cmd = c' \<longrightarrow> length c' < length ''ip interface'' \<or> c' = ''ip interface'') registrations"
      using assms(3) by (simp add: registrations_def interface_command_def words_def)
  qed (simp_all add: registrations_def interface_command_def words_def)
  moreover have "\<not> strncmp_eq ''up'' (inet_ntop a) 2" "\<not> strncmp_eq ''down'' (inet_ntop a) 4"
    using show_nat_first [of "unat (byte32 0 a)"] by (auto simp: inet_ntop_def is_digit_def digit_val_def strncmp_eq_def)
  ultimately show ?thesis by (simp add: exec_command_def cli_ip_interface_def scan text_simps)
qed

theorem interface_command_crash_witness:
  "\<exists>commands. init_cli demo_env = Inr commands \<and>
    exec_command commands [] \<lparr>command = interface_command ''eth0'' 0x9000000, sockfd = 5\<rparr> (bzero_state demo_env) = Inl NullDeref"
proof -
  obtain commands where c: "init_cli demo_env = Inr commands" using init_cli_returns [of demo_env] by (auto simp: demo_env_def)
  have w: "is_word (CHR ''e'' # ''th0'')" by code_simp
  from interface_command_crash [OF c w, where err = "[]" and a = "0x9000000" and fd = 5 and rs = "bzero_state demo_env"] c show ?thesis by simp
qed

end
