(* ===== verification/Operator.thy ===== *)
theory Operator
  imports Locks Www Cli_Routes Config
begin

text \<open>
  The operator in the system: commands from telnet and web clients and the shell ping as further events. \<open>command_inv\<close> extends the contract of an invariant to what
  commands change: the configured routes, the ARP cache, intervals and timeouts. Every registered handler keeps every such invariant and returns
  with the locks it was called with.
\<close>

section \<open>What a command may change\<close>

lemma trigger_arp_regs: "\<exists>r. trigger_arp_cache_modified rs = rs\<lparr>regs := r\<rparr>"
proof (cases "is_netfpga rs")
  case False
  then have "trigger_arp_cache_modified rs = rs\<lparr>regs := regs rs\<rparr>" by (simp add: trigger_arp_cache_modified_def)
  then show ?thesis by blast
qed (auto simp: trigger_arp_cache_modified_def write_arp_cache_eq log_regs_def)

lemma read_rows_regs: "\<exists>r. snd (read_rows base line is rs) = rs\<lparr>regs := r\<rparr>"
proof (induction base line "is" rs rule: read_rows.induct)
  case (1 base line rs)
  show ?case by (rule exI [of _ "regs rs"]) simp
next
  case (2 base line i "is" rs)
  then show ?case by (auto simp: Let_def select_row_def writeReg_def split: prod.splits)
qed

lemma rows_then_print:
  "(case read_rows base line is rs of (ls, rs) \<Rightarrow> bindR (f ls) (\<lambda>s. Inr (s, rs))) = Inr (s, rs') \<Longrightarrow> \<exists>r. rs' = rs\<lparr>regs := r\<rparr>"
  using read_rows_regs [of base line "is" rs] by (auto simp: case_prod_beta bindR_eq_Inr)

lemma sprint_hw_regs:
  "sprint_hw_rtable rs = Inr (s, rs') \<Longrightarrow> \<exists>r. rs' = rs\<lparr>regs := r\<rparr>"
  "sprint_hw_arp_cache rs = Inr (s, rs') \<Longrightarrow> \<exists>r. rs' = rs\<lparr>regs := r\<rparr>"
  unfolding sprint_hw_rtable_def sprint_hw_arp_cache_def Let_def by (rule rows_then_print, assumption)+

lemma write_mac_regs: "\<exists>r. write_hw_iface_mac port hi lo rs = rs\<lparr>regs := r\<rparr>"
  by (rule exI [of _ "regs (write_hw_iface_mac port hi lo rs)"]) (simp add: write_hw_iface_mac_def writeReg_def)

lemma okR_fold_reply: "(\<And>s rs. Q rs \<Longrightarrow> Q (reply_line req s rs)) \<Longrightarrow> Q rs \<Longrightarrow> okR Q (usage ls req rs)"
proof -
  assume r: "\<And>s rs. Q rs \<Longrightarrow> Q (reply_line req s rs)"
  have "Q rs \<Longrightarrow> Q (fold (reply_line req) ls rs)" for rs by (induction ls arbitrary: rs) (auto intro: r)
  then show "Q rs \<Longrightarrow> okR Q (usage ls req rs)" by (simp add: usage_def okR_Inr)
qed

locale command_inv = boot_inv +
  assumes inv_sock: "inv rs \<Longrightarrow> inv (rs\<lparr>sock_out := so\<rparr>)" and inv_area: "inv rs \<Longrightarrow> inv (rs\<lparr>area_id := ai\<rparr>)"
    and inv_arp_ttl: "inv rs \<Longrightarrow> inv (rs\<lparr>arp_ttl := ttl\<rparr>)" and inv_arp_del: "inv rs \<Longrightarrow> inv (snd (del_arp_cache ip rs))"
    and inv_arp_nuke: "inv rs \<Longrightarrow> inv (rs\<lparr>arp_cache := []\<rparr>)"
begin

lemma inv_reply: "inv rs \<Longrightarrow> inv (reply req s rs)" "inv rs \<Longrightarrow> inv (reply_line req s rs)" "inv rs \<Longrightarrow> inv (send_to_socket fd s rs)"
  by (simp_all add: reply_line_def reply_def send_to_socket_def inv_sock)

lemma inv_arp_trigger: "inv rs \<Longrightarrow> inv (trigger_arp_cache_modified rs)"
  using trigger_arp_regs [of rs] by (auto simp: inv_regs)

lemma inv_write_reg: "inv rs \<Longrightarrow> inv (writeReg r v rs)"
  by (simp add: writeReg_def inv_regs)

lemma inv_write_mac: "inv rs \<Longrightarrow> inv (write_hw_iface_mac port hi lo rs)"
  using write_mac_regs [of port hi lo rs] by (auto simp: inv_regs)

lemma inv_iface_update: "inv rs \<Longrightarrow> inv (snd (iface_update name ip msk rs))"
  by (auto simp: iface_update_def upd_iface_def inv_if_list split: option.splits)

lemma ok_hw_rtable: "inv rs \<Longrightarrow> okR (\<lambda>(_, x). inv x) (sprint_hw_rtable rs)"
  by (auto simp: okR_def dest: sprint_hw_regs(1) inv_regs)

lemma ok_hw_arp: "inv rs \<Longrightarrow> okR (\<lambda>(_, x). inv x) (sprint_hw_arp_cache rs)"
  by (auto simp: okR_def dest: sprint_hw_regs(2) inv_regs)

lemma ok_add_route: "inv rs \<Longrightarrow> okR (\<lambda>(_, x). inv x) (add_route d g m i rs)"
  unfolding add_route_def by (rule boot_rules | assumption)+

lemma ok_del_route: "inv rs \<Longrightarrow> okR (\<lambda>(_, x). inv x) (del_route d m rs)"
  unfolding del_route_def by (rule boot_rules | assumption)+

lemma ok_route_flags: "inv rs \<Longrightarrow> okR (\<lambda>(_, x). inv x) (activate_routes i rs)" "inv rs \<Longrightarrow> okR (\<lambda>(_, x). inv x) (deactivate_routes i rs)"
  unfolding activate_routes_def deactivate_routes_def by (rule boot_rules | assumption)+

lemma inv_fewer_advs: "inv rs \<Longrightarrow> inv (upd_by_rid rid (\<lambda>r. r\<lparr>r_interface_list := filter P (r_interface_list r)\<rparr>) rs)"
  by (rule inv_upd_by_rid) (simp_all add: rident_def)

lemma inv_upd_iface: "inv rs \<Longrightarrow> inv (upd_iface name f rs)"
  by (simp add: upd_iface_def inv_if_list)

lemma ok_announce: "inv rs \<Longrightarrow> okR inv (announce_changes rs)"
  unfolding announce_changes_def by (rule boot_rules | assumption)+

lemmas command_rules = inv_reply inv_arp_trigger inv_write_reg inv_write_mac inv_iface_update inv_upd_iface inv_area inv_arp_ttl inv_arp_del inv_arp_nuke
  inv_fewer_advs ok_hw_rtable [THEN okR_act_seq] ok_hw_arp [THEN okR_act_seq] ok_add_route [THEN okR_act_seq] ok_del_route [THEN okR_act_seq]
  ok_route_flags [THEN okR_act_seq] ok_announce [THEN okR_seq] boot_rules

lemma ok_iface_up: "inv rs \<Longrightarrow> okR (\<lambda>(_, x). inv x) (iface_up name rs)"
  unfolding iface_up_def by (rule command_rules | assumption)+

lemma ok_iface_down: "inv rs \<Longrightarrow> okR (\<lambda>(_, x). inv x) (iface_down name rs)"
  unfolding iface_down_def by (rule command_rules | assumption)+

text \<open>The handlers.\<close>

lemma ok_show_handlers:
  "inv rs \<Longrightarrow> okR inv (cli_show_ip_rtable req rs)" "inv rs \<Longrightarrow> okR inv (cli_show_hw_rtable req rs)" "inv rs \<Longrightarrow> okR inv (cli_show_ip_arp req rs)"
  "inv rs \<Longrightarrow> okR inv (cli_show_hw_arp_cache req rs)" "inv rs \<Longrightarrow> okR inv (cli_hw_arp_cache_misses req rs)" "inv rs \<Longrightarrow> okR inv (cli_hw_num_pckts_fwd req rs)"
  "inv rs \<Longrightarrow> okR inv (cli_show_ip_iface req rs)" "inv rs \<Longrightarrow> okR inv (cli_show_hw_interface req rs)" "inv rs \<Longrightarrow> okR inv (cli_show_pwospf_iface req rs)"
  "inv rs \<Longrightarrow> okR inv (cli_show_pwospf_router_list req rs)" "inv rs \<Longrightarrow> okR inv (cli_show_pwospf_info req rs)" "inv rs \<Longrightarrow> okR inv (cli_hw_info req rs)"
  unfolding cli_show_ip_rtable_def cli_show_hw_rtable_def cli_show_ip_arp_def cli_show_hw_arp_cache_def cli_hw_arp_cache_misses_def cli_hw_num_pckts_fwd_def
    cli_show_ip_iface_def cli_show_hw_interface_def cli_show_pwospf_iface_def cli_show_pwospf_router_list_def cli_show_pwospf_info_def cli_hw_info_def
  by (rule command_rules | assumption)+

lemma ok_vns_handlers:
  "inv rs \<Longrightarrow> okR inv (cli_show_vns_user req rs)" "inv rs \<Longrightarrow> okR inv (cli_show_vns_vhost req rs)" "inv rs \<Longrightarrow> okR inv (cli_show_vns_lhost req rs)"
  "inv rs \<Longrightarrow> okR inv (cli_show_vns_server req rs)" "inv rs \<Longrightarrow> okR inv (cli_show_vns_topology req rs)" "inv rs \<Longrightarrow> okR inv (cli_show_vns req rs)"
  by (simp_all add: cli_show_vns_user_def cli_show_vns_vhost_def cli_show_vns_lhost_def cli_show_vns_server_def cli_show_vns_topology_def cli_show_vns_def
      vns_field_def Let_def okR_Inr inv_reply)

lemma ok_table_handlers:
  "inv rs \<Longrightarrow> okR inv (cli_ip_route_add req rs)" "inv rs \<Longrightarrow> okR inv (cli_ip_route_del req rs)" "inv rs \<Longrightarrow> okR inv (cli_ip_arp_add req rs)"
  "inv rs \<Longrightarrow> okR inv (cli_ip_arp_del req rs)" "inv rs \<Longrightarrow> okR inv (cli_nuke_arp_cache req rs)" "inv rs \<Longrightarrow> okR inv (cli_nuke_hw_arp_cache_entry req rs)"
  "inv rs \<Longrightarrow> okR inv (cli_ip_arp_set_ttl req rs)"
  unfolding cli_ip_route_add_def cli_ip_route_del_def cli_ip_arp_add_def cli_ip_arp_del_def cli_nuke_arp_cache_def cli_nuke_hw_arp_cache_entry_def cli_ip_arp_set_ttl_def
  by (rule command_rules | assumption)+

lemma ok_iface_handlers:
  "inv rs \<Longrightarrow> okR inv (cli_ip_interface req rs)" "inv rs \<Longrightarrow> okR inv (cli_hw_interface_add req rs)" "inv rs \<Longrightarrow> okR inv (cli_hw_interface_del req rs)"
  "inv rs \<Longrightarrow> okR inv (cli_hw_interface_set req rs)"
  unfolding cli_ip_interface_def cli_hw_interface_add_def cli_hw_interface_del_def cli_hw_interface_set_def set_hw_iface_def
  by (rule ok_iface_up [THEN okR_act_seq] ok_iface_down [THEN okR_act_seq] command_rules | assumption)+

lemma ok_broadcast_hello: "inv rs \<Longrightarrow> okR inv (broadcast_pwospf_hello_packet rs)"
  unfolding broadcast_pwospf_hello_packet_def by (rule ok_hello_loop [THEN okR_act_seq] command_rules | assumption)+

lemma ok_pwospf_handlers:
  "inv rs \<Longrightarrow> okR inv (cli_pwospf_set_aid req rs)" "inv rs \<Longrightarrow> okR inv (cli_pwospf_set_hello req rs)" "inv rs \<Longrightarrow> okR inv (cli_pwospf_set_lsu_interval req rs)"
  "inv rs \<Longrightarrow> okR inv (cli_pwospf_set_lsu_broadcast req rs)" "inv rs \<Longrightarrow> okR inv (cli_pwospf_send_hello req rs)" "inv rs \<Longrightarrow> okR inv (cli_pwospf_send_lsu req rs)"
  unfolding cli_pwospf_set_aid_def cli_pwospf_set_hello_def cli_pwospf_set_lsu_interval_def cli_pwospf_set_lsu_broadcast_def cli_pwospf_send_hello_def
    cli_pwospf_send_lsu_def
  by (rule ok_broadcast_hello [THEN okR_seq] command_rules | assumption)+

lemma ok_echo_request: "inv rs \<Longrightarrow> okR (\<lambda>(_, x). inv x) (send_icmp_echo_request_packet dst ident rs)"
  unfolding send_icmp_echo_request_packet_def by (rule command_rules | assumption)+

lemma ok_sping: "inv rs \<Longrightarrow> okR inv (cli_sping req rs)"
  unfolding cli_sping_def by (rule ok_echo_request [THEN okR_act_seq] inv_rand_used command_rules | assumption)+

lemma ok_usage: "inv rs \<Longrightarrow> okR inv (usage ls req rs)"
  by (rule okR_fold_reply) (rule inv_reply)

lemmas ok_handlers = ok_show_handlers ok_vns_handlers ok_table_handlers ok_iface_handlers ok_pwospf_handlers ok_sping ok_usage

lemma ok_registered: "(c, h) \<in> set registrations \<Longrightarrow> inv rs \<Longrightarrow> okR inv (h req rs)"
  by (auto simp: registrations_def cli_help_def cli_hw_help_def cli_show_help_def cli_pwospf_help_def cli_ip_route_help_def cli_ip_interface_help_def
      cli_ip_arp_help_def cli_ip_help_def cli_show_ip_help_def ok_handlers)

lemma ok_command: "init_cli e = Inr commands \<Longrightarrow> inv rs \<Longrightarrow> okR inv (exec_command commands err req rs)"
  using dispatch_spec [of e commands "command req"]
  by (auto simp: exec_command_def inv_reply intro!: okR_Inr intro: ok_registered split: option.splits)

lemma inv_send_all: "inv rs \<Longrightarrow> inv (send_all fd s rs)"
proof -
  have "inv rs \<Longrightarrow> inv (fold (send_to_socket fd) ls rs)" for ls by (induction ls arbitrary: rs) (auto intro: inv_reply)
  then show "inv rs \<Longrightarrow> inv (send_all fd s rs)" by (simp add: send_all_def)
qed

lemma ok_www:
  assumes "init_cli e = Inr commands" "inv rs"
  shows "okR inv (service_request commands files cwd stats fd rcv rs)"
proof -
  have "inv x \<Longrightarrow> okR inv (www_command commands fd url x)" for url x
    unfolding www_command_def by (rule ok_command [OF assms(1), THEN okR_seq] inv_send_all command_rules | assumption)+
  moreover have "inv x \<Longrightarrow> okR (\<lambda>(_, x). inv x) (list_commands commands x)" for x
    unfolding list_commands_def by (rule command_rules | assumption)+
  moreover have "inv x \<Longrightarrow> inv (www_file files cwd fd url x)" for url x
    by (auto simp: www_file_def send_file_def Let_def inv_reply inv_send_all split: option.splits)
  ultimately show ?thesis using assms(2)
    by (auto simp: service_request_def Let_def okR_Inr inv_send_all intro!: okR_act_seq [where P = inv] split: request.splits)
qed

lemma ok_sping_wake: "inv rs \<Longrightarrow> okR (\<lambda>(_, x). inv x) (sping_wake req ident timedout rs)"
  unfolding sping_wake_def by (rule inv_sping_queue command_rules | assumption | simp add: inv_reply okR_def)+

lemma ok_sping_cleanup: "inv rs \<Longrightarrow> okR inv (sping_queue_cleanup_thread_step rs)"
  unfolding sping_queue_cleanup_thread_step_def by (rule inv_sping_queue command_rules | assumption)+

end

section \<open>The operator's events\<close>

datatype operator_event = Telnet int string string | Web int "recv_result list" | PingWake cli_request u16 bool | PingCleanup

text \<open>A telnet client sends \<open>input\<close> into the buffer its thread has kept; a web client is served from the files and the statistics given.\<close>

inductive operator_step :: "operator_event \<Rightarrow> router_state \<Rightarrow> router_state \<Rightarrow> bool" where
  telnet: "init_cli (renv rs) = Inr commands \<Longrightarrow> process_client_request_step commands fd input buf rs = Inr (buf', rs') \<Longrightarrow>
    operator_step (Telnet fd input buf) rs rs'"
| web: "init_cli (renv rs) = Inr commands \<Longrightarrow> service_request commands files cwd stats fd rcv rs = Inr rs' \<Longrightarrow> operator_step (Web fd rcv) rs rs'"
| ping_wake: "sping_wake req ident timedout rs = Inr (goes_on, rs') \<Longrightarrow> operator_step (PingWake req ident timedout) rs rs'"
| ping_cleanup: "sping_queue_cleanup_thread_step rs = Inr rs' \<Longrightarrow> operator_step PingCleanup rs rs'"

inductive_cases operator_stepE: "operator_step e rs rs'"

inductive system_reachable :: "router_state \<Rightarrow> bool" where
  cpu: "boot_files e junk buf hwfile file = Inr rs \<Longrightarrow> system_reachable rs"
| vns: "boot_vns e hwinfo junk file = Inr rs \<Longrightarrow> system_reachable rs"
| router: "system_reachable rs \<Longrightarrow> router_step ev rs rs' \<Longrightarrow> system_reachable rs'"
| operator: "system_reachable rs \<Longrightarrow> operator_step oev rs rs' \<Longrightarrow> system_reachable rs'"

context command_inv
begin

lemma operator_step_inv:
  assumes "operator_step oev rs rs'" "inv rs"
  shows "inv rs'"
  using assms(1)
proof cases
  case (telnet commands fd input buf buf')
  have "okR (\<lambda>(_, x). inv x) (process_client_request_step commands fd input buf rs)"
    unfolding process_client_request_step_def
    by (rule ok_command [OF telnet(2), THEN okR_seq] command_rules assms(2) | assumption)+
  from okR_D [OF this telnet(3)] show ?thesis by simp
next
  case (web commands files cwd stats fd rcv)
  from okR_D [OF ok_www [OF web(2) assms(2)] web(3)] show ?thesis .
next
  case (ping_wake req ident timedout goes_on)
  from okR_D [OF ok_sping_wake [OF assms(2)] ping_wake(2)] show ?thesis by simp
next
  case ping_cleanup
  from okR_D [OF ok_sping_cleanup [OF assms(2)] ping_cleanup(2)] show ?thesis .
qed

lemma system_inv:
  assumes "system_reachable rs" "\<And>e hwfile file. okR inv (boot_cpu e hwfile file)" "\<And>e hwinfo junk file. okR inv (boot_vns e hwinfo junk file)"
  shows "inv rs"
  using assms(1)
proof induction
  case (cpu e junk buf hwfile routes rs)
  from boot_files_boots [OF this] obtain vs rt where "boot_cpu e vs rt = Inr rs" by blast
  from okR_D [OF assms(2) this] show ?case .
next
  case (vns e hwinfo junk routes rs)
  from okR_D [OF assms(3) this] show ?case .
next
  case (router rs ev rs')
  then show ?case using router_step_inv by blast
next
  case (operator rs oev rs')
  then show ?case using operator_step_inv by blast
qed

end

lemma del_arp_frame [simp]:
  "pwospf_router_list (snd (del_arp_cache ip rs)) = pwospf_router_list rs" "router_id (snd (del_arp_cache ip rs)) = router_id rs"
  "next_router_addr (snd (del_arp_cache ip rs)) = next_router_addr rs"
  by (simp_all add: del_arp_cache_def Let_def)

interpretation command_ids: command_inv router_ids_ok
  by unfold_locales (simp_all add: router_ids_ok_def)

interpretation command_cache: command_inv arp_cache_inv
proof
  fix rs ip assume "arp_cache_inv rs"
  then show "arp_cache_inv (snd (del_arp_cache ip rs))" using arp.del_inv [of rs ip] by (simp add: arp_del_def)
qed (simp_all add: arp_cache_inv_def)

section \<open>Locks\<close>

lemma held_command_updates:
  "held rs = h \<Longrightarrow> held (reply req s rs) = h" "held rs = h \<Longrightarrow> held (reply_line req s rs) = h" "held rs = h \<Longrightarrow> held (send_to_socket fd s rs) = h"
  "held rs = h \<Longrightarrow> held (trigger_arp_cache_modified rs) = h" "held rs = h \<Longrightarrow> held (writeReg r v rs) = h"
  "held rs = h \<Longrightarrow> held (write_hw_iface_mac port hi lo rs) = h" "held rs = h \<Longrightarrow> held (snd (iface_update name ip msk rs)) = h"
  "held rs = h \<Longrightarrow> held (upd_iface name f rs) = h" "held rs = h \<Longrightarrow> held (rs\<lparr>area_id := ai\<rparr>) = h" "held rs = h \<Longrightarrow> held (rs\<lparr>arp_ttl := ttl\<rparr>) = h"
  "held rs = h \<Longrightarrow> held (snd (del_arp_cache ip rs)) = h" "held rs = h \<Longrightarrow> held (rs\<lparr>arp_cache := ac\<rparr>) = h"
  "held rs = h \<Longrightarrow> held (rs\<lparr>pwospf_hello_interval := hi'\<rparr>) = h" "held rs = h \<Longrightarrow> held (rs\<lparr>pwospf_lsu_interval := li\<rparr>) = h"
  "held rs = h \<Longrightarrow> held (rs\<lparr>pwospf_lsu_broadcast := lb\<rparr>) = h" "held rs = h \<Longrightarrow> held (upd_by_rid rid g rs) = h"
  "held rs = h \<Longrightarrow> held (rs\<lparr>rand_used := n\<rparr>) = h" "held rs = h \<Longrightarrow> held (rs\<lparr>sping_queue := sq\<rparr>) = h" "held rs = h \<Longrightarrow> held (send_all fd s rs) = h"
proof -
  have "held (fold (send_to_socket fd) ls rs) = held rs" for ls
    by (induction ls arbitrary: rs) (auto simp: send_to_socket_def)
  then show "held rs = h \<Longrightarrow> held (send_all fd s rs) = h" by (simp add: send_all_def)
qed (use trigger_arp_regs [of rs] write_mac_regs [of port hi lo rs] in \<open>auto simp: reply_line_def reply_def send_to_socket_def writeReg_def iface_update_def
    upd_iface_def del_arp_cache_def upd_by_rid_def Let_def split: option.splits\<close>)

lemma held_hw_rtable: "held rs = h \<Longrightarrow> okR (\<lambda>(_, x). held x = h) (sprint_hw_rtable rs)"
  by (auto simp: okR_def dest!: sprint_hw_regs(1))

lemma held_hw_arp: "held rs = h \<Longrightarrow> okR (\<lambda>(_, x). held x = h) (sprint_hw_arp_cache rs)"
  by (auto simp: okR_def dest!: sprint_hw_regs(2))

lemma held_routes:
  "held rs = h \<Longrightarrow> okR (\<lambda>(_, x). held x = h) (add_route d g m i rs)" "held rs = h \<Longrightarrow> okR (\<lambda>(_, x). held x = h) (del_route d m rs)"
  "held rs = h \<Longrightarrow> okR (\<lambda>(_, x). held x = h) (activate_routes i rs)" "held rs = h \<Longrightarrow> okR (\<lambda>(_, x). held x = h) (deactivate_routes i rs)"
  unfolding add_route_def del_route_def activate_routes_def deactivate_routes_def
  by (rule lock_rules | assumption)+

lemma held_announce: "held rs = h \<Longrightarrow> okR (\<lambda>x. held x = h) (announce_changes rs)"
  unfolding announce_changes_def by (rule lock_rules | assumption | simp)+

lemmas command_lock_rules = held_command_updates held_hw_rtable [THEN okR_act_seq] held_hw_arp [THEN okR_act_seq] held_routes [THEN okR_act_seq]
  held_announce [THEN okR_seq] lock_rules

lemma held_iface_up: "held rs = h \<Longrightarrow> okR (\<lambda>(_, x). held x = h) (iface_up name rs)"
  unfolding iface_up_def by (rule command_lock_rules | assumption)+

lemma held_iface_down: "held rs = h \<Longrightarrow> okR (\<lambda>(_, x). held x = h) (iface_down name rs)"
  unfolding iface_down_def by (rule command_lock_rules | assumption)+

lemma held_show_handlers:
  "held rs = h \<Longrightarrow> okR (\<lambda>x. held x = h) (cli_show_ip_rtable req rs)" "held rs = h \<Longrightarrow> okR (\<lambda>x. held x = h) (cli_show_hw_rtable req rs)"
  "held rs = h \<Longrightarrow> okR (\<lambda>x. held x = h) (cli_show_ip_arp req rs)" "held rs = h \<Longrightarrow> okR (\<lambda>x. held x = h) (cli_show_hw_arp_cache req rs)"
  "held rs = h \<Longrightarrow> okR (\<lambda>x. held x = h) (cli_hw_arp_cache_misses req rs)" "held rs = h \<Longrightarrow> okR (\<lambda>x. held x = h) (cli_hw_num_pckts_fwd req rs)"
  "held rs = h \<Longrightarrow> okR (\<lambda>x. held x = h) (cli_show_ip_iface req rs)" "held rs = h \<Longrightarrow> okR (\<lambda>x. held x = h) (cli_show_hw_interface req rs)"
  "held rs = h \<Longrightarrow> okR (\<lambda>x. held x = h) (cli_show_pwospf_iface req rs)" "held rs = h \<Longrightarrow> okR (\<lambda>x. held x = h) (cli_show_pwospf_router_list req rs)"
  "held rs = h \<Longrightarrow> okR (\<lambda>x. held x = h) (cli_show_pwospf_info req rs)" "held rs = h \<Longrightarrow> okR (\<lambda>x. held x = h) (cli_hw_info req rs)"
  unfolding cli_show_ip_rtable_def cli_show_hw_rtable_def cli_show_ip_arp_def cli_show_hw_arp_cache_def cli_hw_arp_cache_misses_def cli_hw_num_pckts_fwd_def
    cli_show_ip_iface_def cli_show_hw_interface_def cli_show_pwospf_iface_def cli_show_pwospf_router_list_def cli_show_pwospf_info_def cli_hw_info_def
  by (rule command_lock_rules | assumption | simp)+

lemma held_vns_handlers:
  "held rs = h \<Longrightarrow> okR (\<lambda>x. held x = h) (cli_show_vns_user req rs)" "held rs = h \<Longrightarrow> okR (\<lambda>x. held x = h) (cli_show_vns_vhost req rs)"
  "held rs = h \<Longrightarrow> okR (\<lambda>x. held x = h) (cli_show_vns_lhost req rs)" "held rs = h \<Longrightarrow> okR (\<lambda>x. held x = h) (cli_show_vns_server req rs)"
  "held rs = h \<Longrightarrow> okR (\<lambda>x. held x = h) (cli_show_vns_topology req rs)" "held rs = h \<Longrightarrow> okR (\<lambda>x. held x = h) (cli_show_vns req rs)"
  by (simp_all add: cli_show_vns_user_def cli_show_vns_vhost_def cli_show_vns_lhost_def cli_show_vns_server_def cli_show_vns_topology_def cli_show_vns_def
      vns_field_def Let_def okR_Inr held_command_updates)

lemma held_table_handlers:
  "held rs = h \<Longrightarrow> okR (\<lambda>x. held x = h) (cli_ip_route_add req rs)" "held rs = h \<Longrightarrow> okR (\<lambda>x. held x = h) (cli_ip_route_del req rs)"
  "held rs = h \<Longrightarrow> okR (\<lambda>x. held x = h) (cli_ip_arp_add req rs)" "held rs = h \<Longrightarrow> okR (\<lambda>x. held x = h) (cli_ip_arp_del req rs)"
  "held rs = h \<Longrightarrow> okR (\<lambda>x. held x = h) (cli_nuke_arp_cache req rs)" "held rs = h \<Longrightarrow> okR (\<lambda>x. held x = h) (cli_nuke_hw_arp_cache_entry req rs)"
  "held rs = h \<Longrightarrow> okR (\<lambda>x. held x = h) (cli_ip_arp_set_ttl req rs)"
  unfolding cli_ip_route_add_def cli_ip_route_del_def cli_ip_arp_add_def cli_ip_arp_del_def cli_nuke_arp_cache_def cli_nuke_hw_arp_cache_entry_def cli_ip_arp_set_ttl_def
  by (rule command_lock_rules | assumption | simp)+

lemma held_iface_handlers:
  "held rs = h \<Longrightarrow> okR (\<lambda>x. held x = h) (cli_ip_interface req rs)" "held rs = h \<Longrightarrow> okR (\<lambda>x. held x = h) (cli_hw_interface_add req rs)"
  "held rs = h \<Longrightarrow> okR (\<lambda>x. held x = h) (cli_hw_interface_del req rs)" "held rs = h \<Longrightarrow> okR (\<lambda>x. held x = h) (cli_hw_interface_set req rs)"
  unfolding cli_ip_interface_def cli_hw_interface_add_def cli_hw_interface_del_def cli_hw_interface_set_def set_hw_iface_def
  by (rule held_iface_up [THEN okR_act_seq] held_iface_down [THEN okR_act_seq] command_lock_rules | assumption | simp)+

lemma held_broadcast_hello: "held rs = h \<Longrightarrow> okR (\<lambda>x. held x = h) (broadcast_pwospf_hello_packet rs)"
  unfolding broadcast_pwospf_hello_packet_def by (rule held_hello_loop [THEN okR_act_seq] lock_rules | assumption | simp)+

lemma held_pwospf_handlers:
  "held rs = h \<Longrightarrow> okR (\<lambda>x. held x = h) (cli_pwospf_set_aid req rs)" "held rs = h \<Longrightarrow> okR (\<lambda>x. held x = h) (cli_pwospf_set_hello req rs)"
  "held rs = h \<Longrightarrow> okR (\<lambda>x. held x = h) (cli_pwospf_set_lsu_interval req rs)" "held rs = h \<Longrightarrow> okR (\<lambda>x. held x = h) (cli_pwospf_set_lsu_broadcast req rs)"
  "held rs = h \<Longrightarrow> okR (\<lambda>x. held x = h) (cli_pwospf_send_hello req rs)" "held rs = h \<Longrightarrow> okR (\<lambda>x. held x = h) (cli_pwospf_send_lsu req rs)"
  unfolding cli_pwospf_set_aid_def cli_pwospf_set_hello_def cli_pwospf_set_lsu_interval_def cli_pwospf_set_lsu_broadcast_def cli_pwospf_send_hello_def
    cli_pwospf_send_lsu_def
  by (rule held_broadcast_hello [THEN okR_seq] command_lock_rules | assumption | simp)+

lemma held_echo_request: "held rs = h \<Longrightarrow> okR (\<lambda>(_, x). held x = h) (send_icmp_echo_request_packet dst ident rs)"
  unfolding send_icmp_echo_request_packet_def by (rule command_lock_rules | assumption | simp)+

lemma held_sping: "held rs = h \<Longrightarrow> okR (\<lambda>x. held x = h) (cli_sping req rs)"
  unfolding cli_sping_def by (rule held_echo_request [THEN okR_act_seq] command_lock_rules | assumption | simp)+

lemma held_usage: "held rs = h \<Longrightarrow> okR (\<lambda>x. held x = h) (usage ls req rs)"
  by (rule okR_fold_reply) (rule held_command_updates)

lemmas held_handlers = held_show_handlers held_vns_handlers held_table_handlers held_iface_handlers held_pwospf_handlers held_sping held_usage

lemma held_registered: "(c, f) \<in> set registrations \<Longrightarrow> held rs = h \<Longrightarrow> okR (\<lambda>x. held x = h) (f req rs)"
  by (auto simp: registrations_def cli_help_def cli_hw_help_def cli_show_help_def cli_pwospf_help_def cli_ip_route_help_def cli_ip_interface_help_def
      cli_ip_arp_help_def cli_ip_help_def cli_show_ip_help_def held_handlers)

lemma held_command: "init_cli e = Inr commands \<Longrightarrow> held rs = h \<Longrightarrow> okR (\<lambda>x. held x = h) (exec_command commands err req rs)"
  using dispatch_spec [of e commands "command req"]
  by (auto simp: exec_command_def held_command_updates intro!: okR_Inr intro: held_registered split: option.splits)

lemma held_www:
  assumes "init_cli e = Inr commands" "held rs = h"
  shows "okR (\<lambda>x. held x = h) (service_request commands files cwd stats fd rcv rs)"
proof -
  have "held x = h \<Longrightarrow> okR (\<lambda>x. held x = h) (www_command commands fd url x)" for url x
    unfolding www_command_def by (rule held_command [OF assms(1), THEN okR_seq] command_lock_rules | assumption | simp)+
  moreover have "held x = h \<Longrightarrow> okR (\<lambda>(_, x). held x = h) (list_commands commands x)" for x
    unfolding list_commands_def by (rule command_lock_rules | assumption | simp)+
  moreover have "held x = h \<Longrightarrow> held (www_file files cwd fd url x) = h" for url x
    by (auto simp: www_file_def send_file_def Let_def held_command_updates split: option.splits)
  ultimately show ?thesis using assms(2)
    by (auto simp: service_request_def Let_def okR_Inr held_command_updates intro!: okR_act_seq [where P = "\<lambda>x. held x = h"] split: request.splits)
qed

lemma okR_conj: "okR (\<lambda>x. P x \<and> Q x) m \<longleftrightarrow> okR P m \<and> okR Q m"
  by (auto simp: okR_def)

lemma held_ping:
  "held rs = h \<Longrightarrow> okR (\<lambda>(_, x). held x = h) (sping_wake req ident timedout rs)"
  "held rs = h \<Longrightarrow> okR (\<lambda>x. held x = h) (sping_queue_cleanup_thread_step rs)"
  unfolding sping_wake_def sping_queue_cleanup_thread_step_def
  by (rule command_lock_rules | assumption | simp add: held_command_updates okR_def)+

section \<open>Properties\<close>

text \<open>
  Claim C3. The invariants of the whole system: in every state that the router reaches from either start, whatever packets arrive, in whatever
  order its threads run and whatever an operator types into the shell or asks for over the web, the router list has unique ids and unique
  addresses and contains our own router, no address of a freed router is in use again, and the ARP cache has at most one entry for an address.
\<close>

theorem system_invariant:
  assumes "system_reachable rs"
  shows "router_ids_ok rs \<and> arp_cache_inv rs"
  using command_ids.system_inv [OF assms] command_cache.system_inv [OF assms] boot_cpu_ok boot_vns_ok by (simp add: okR_conj)

text \<open>
  Claim C25. Lock discipline of the operator: a command of the shell or of the web server, a ping that is woken and a round of the ping
  clean-up return, whatever they were asked, with exactly the locks held that were held before.
\<close>

theorem operator_releases_locks:
  assumes "operator_step oev rs rs'"
  shows "held rs' = held rs"
  using assms
proof cases
  case (telnet commands fd input buf buf')
  have "okR (\<lambda>(_, x). held x = held rs) (process_client_request_step commands fd input buf rs)"
    unfolding process_client_request_step_def
    by (rule held_command [OF telnet(2), THEN okR_seq] command_lock_rules refl | assumption | simp)+
  from okR_D [OF this telnet(3)] show ?thesis by simp
next
  case (web commands files cwd stats fd rcv)
  from okR_D [OF held_www [OF web(2) refl] web(3)] show ?thesis .
next
  case (ping_wake req ident timedout goes_on)
  from okR_D [OF held_ping(1) [OF refl] ping_wake(2)] show ?thesis by simp
next
  case ping_cleanup
  from okR_D [OF held_ping(2) [OF refl] ping_cleanup(2)] show ?thesis .
qed

section \<open>Witnesses\<close>

theorem system_invariant_witness:
  "\<exists>rs. demo_boot = Inr rs \<and> router_ids_ok (rs\<lparr>clock := clock rs + 5, sping_queue := []\<rparr>) \<and> arp_cache_inv (rs\<lparr>clock := clock rs + 5, sping_queue := []\<rparr>)"
proof -
  obtain rs where rs: "demo_boot = Inr rs" "held rs = []" "sping_queue rs = []" using demo_boot_runs by blast
  then have "system_reachable rs" unfolding demo_boot_def by (blast intro: vns)
  from router [OF this tick [of 5 rs]] have r: "system_reachable (rs\<lparr>clock := clock rs + 5\<rparr>)" by simp
  have "sping_queue_cleanup_thread_step (rs\<lparr>clock := clock rs + 5\<rparr>) = Inr (rs\<lparr>clock := clock rs + 5, sping_queue := []\<rparr>)"
    using rs(2,3) by (simp add: sping_queue_cleanup_thread_step_def acquire_free release_def)
  then have "operator_step PingCleanup (rs\<lparr>clock := clock rs + 5\<rparr>) (rs\<lparr>clock := clock rs + 5, sping_queue := []\<rparr>)" by (rule ping_cleanup)
  from system_invariant [OF operator [OF r this]] rs(1) show ?thesis by blast
qed

theorem operator_releases_locks_witness:
  "\<exists>rs'. operator_step PingCleanup ((bzero_state demo_env)\<lparr>held := [(RtableLock, Wr)]\<rparr>) rs' \<and> held rs' = [(RtableLock, Wr)]"
proof -
  let ?rs = "(bzero_state demo_env)\<lparr>held := [(RtableLock, Wr)]\<rparr>"
  have "\<exists>rs'. sping_queue_cleanup_thread_step ?rs = Inr rs'"
    by (simp add: sping_queue_cleanup_thread_step_def acquire_def release_def)
  then obtain rs' where s: "operator_step PingCleanup ?rs rs'" by (blast intro: ping_cleanup)
  from operator_releases_locks [OF s] s show ?thesis by auto
qed

end
