(* ===== verification/Board.thy ===== *)
theory Board
  imports Router_State
begin

text \<open>
  The board as the stand-alone programs see it: the register access of \<^verbatim>\<open>common/nfplus_util.c\<close> over the driver's \<^verbatim>\<open>ioctl\<close>, and the rows of the
  lookup tables that a log of register writes commits (\<open>hw_step\<close>, \<open>hw_run\<close> of \<open>Router_State\<close>).

  \<open>device\<close> holds what is not in the repository: the constants of the generated register header, whether the \<open>n\<close>-th \<^verbatim>\<open>ioctl\<close>
  succeeds, what the hardware answers to a read after a sequence of writes and the files that can be opened. The message that \<^verbatim>\<open>perror\<close>
  writes to the standard error output is left out.
\<close>

type_synonym reg_log = "(reg \<times> u32) list"

record device =
  ioctl_ok :: "nat \<Rightarrow> bool"
  hw_read :: "reg_log \<Rightarrow> reply_reg \<Rightarrow> u32"
  lpm_address :: u32
  arp_address :: u32
  filter_address :: u32
  lpm_depth :: nat
  arp_depth :: nat
  filter_depth :: nat
  reg_address :: "reg \<Rightarrow> u32"
  reply_address :: "reply_reg \<Rightarrow> u32"
  file_text :: "string \<Rightarrow> string option"

record board =
  writes :: reg_log
  ioctls :: nat

section \<open>Register access\<close>

definition board_writeReg :: "device \<Rightarrow> reg \<Rightarrow> u32 \<Rightarrow> board \<Rightarrow> int \<times> board" where
  "board_writeReg d addr val b =
    (if ioctl_ok d (ioctls b) then (0, b\<lparr>writes := writes b @ [(addr, val)], ioctls := ioctls b + 1\<rparr>)
     else (1, b\<lparr>ioctls := ioctls b + 1\<rparr>))"

text \<open>The value is stored only when the call succeeds.\<close>

definition board_readReg :: "device \<Rightarrow> reply_reg \<Rightarrow> board \<Rightarrow> int \<times> u32 option \<times> board" where
  "board_readReg d addr b =
    (let b' = b\<lparr>ioctls := ioctls b + 1\<rparr> in
     if ioctl_ok d (ioctls b) then (0, Some (hw_read d (writes b) addr), b') else (1, None, b'))"

text \<open>Calls of \<^verbatim>\<open>writeReg\<close> one after the other, their results not looked at.\<close>

definition put :: "device \<Rightarrow> reg_log \<Rightarrow> board \<Rightarrow> board" where
  "put d ws b = fold (\<lambda>(r, v) b. snd (board_writeReg d r v b)) ws b"

definition all_ok :: "device \<Rightarrow> bool" where
  "all_ok d = (\<forall>n. ioctl_ok d n)"

lemma put_Nil [simp]: "put d [] b = b"
  by (simp add: put_def)

lemma put_append: "put d (xs @ ys) b = put d ys (put d xs b)"
  by (simp add: put_def)

lemma put_ok: "all_ok d \<Longrightarrow> put d ws b = b\<lparr>writes := writes b @ ws, ioctls := ioctls b + length ws\<rparr>"
  by (induction ws arbitrary: b) (simp_all add: put_def all_ok_def board_writeReg_def split: prod.splits)

lemma put_writes [simp]: "all_ok d \<Longrightarrow> writes (put d ws b) = writes b @ ws"
  by (simp add: put_ok)

lemma fold_put: "fold (\<lambda>i. put d (f i)) is b = put d (concat (map f is)) b"
  by (induction "is" arbitrary: b) (simp_all add: put_append)

section \<open>Rows\<close>

definition row_addr :: "u32 \<Rightarrow> nat \<Rightarrow> u32" where
  "row_addr base i = base OR word_of_nat i"

type_synonym row = "u32 \<times> u32 \<times> u32 \<times> u32"

definition rows_of :: "u32 \<Rightarrow> nat \<Rightarrow> u32 set" where
  "rows_of base n = row_addr base ` {..<n}"

text \<open>What a program can see of a row, for a table that uses only some of the four words.\<close>

definition seen :: "(row \<Rightarrow> 'v) \<Rightarrow> reg_log \<Rightarrow> u32 \<Rightarrow> 'v option" where
  "seen view ws a = map_option view (hw_rows ws a)"

definition table_log :: "(nat \<Rightarrow> 'e \<Rightarrow> reg_log) \<Rightarrow> 'e list \<Rightarrow> reg_log" where
  "table_log f es = concat (map (\<lambda>i. f i (es ! i)) [0..<length es])"

lemma table_log_snoc: "table_log f (es @ [e]) = table_log f es @ f (length es) e"
proof -
  have "map (\<lambda>i. f i ((es @ [e]) ! i)) [0..<length es] = map (\<lambda>i. f i (es ! i)) [0..<length es]"
    by (simp add: nth_append)
  then show ?thesis unfolding table_log_def by (simp del: map_eq_conv)
qed

lemma table_log_Nil [simp]: "table_log f [] = []"
  by (simp add: table_log_def)

text \<open>
  The contract of a function that writes one row: a run of register writes that ends in the commit of the row, of which \<open>view\<close>
  shows the content \<open>cell e\<close>. Words that the table does not use may be left over from an earlier row.
\<close>

locale row_writer =
  fixes row_log :: "u32 \<Rightarrow> nat \<Rightarrow> 'e \<Rightarrow> reg_log" and view :: "row \<Rightarrow> 'v" and cell :: "'e \<Rightarrow> 'v"
  assumes commit: "\<exists>r. w_rows (hw_run (row_log a i e) w) = (w_rows w)(row_addr a i \<mapsto> r) \<and> view r = cell e"
begin

lemma one_row: "seen view (ws @ row_log a i e) x = (if x = row_addr a i then Some (cell e) else seen view ws x)"
  using commit [of a i e "hw_run ws hw_reset"] by (auto simp: seen_def hw_rows_def)

lemma other_row: "x \<noteq> row_addr a i \<Longrightarrow> hw_rows (ws @ row_log a i e) x = hw_rows ws x"
  using commit [of a i e "hw_run ws hw_reset"] by (auto simp: hw_rows_def)

lemma table_other:
  "x \<notin> rows_of a n \<Longrightarrow> length es \<le> n \<Longrightarrow> hw_rows (ws @ table_log (row_log a) es) x = hw_rows ws x"
proof (induction es rule: rev_induct)
  case (snoc e es)
  have "x \<noteq> row_addr a (length es)" using snoc.prems by (auto simp: rows_of_def)
  then show ?case using snoc other_row [of x a "length es" "ws @ table_log (row_log a) es" e]
    by (simp add: table_log_snoc)
qed simp

lemma replace_other:
  "x \<notin> rows_of a n \<Longrightarrow> length es \<le> n \<Longrightarrow> length fs \<le> n \<Longrightarrow>
   hw_rows (ws @ table_log (row_log a) es @ table_log (row_log a) fs) x = hw_rows ws x"
  using table_other [of x a n fs "ws @ table_log (row_log a) es"] table_other [of x a n es ws] by simp

lemma table_rows:
  assumes "inj_on (row_addr a) {..<n}" "j < n" "length es \<le> n"
  shows "seen view (ws @ table_log (row_log a) es) (row_addr a j) =
    (if j < length es then Some (cell (es ! j)) else seen view ws (row_addr a j))"
  using assms(3)
proof (induction es rule: rev_induct)
  case (snoc e es)
  have "row_addr a j = row_addr a (length es) \<longleftrightarrow> j = length es"
    using assms(1,2) snoc.prems by (auto dest: inj_onD)
  then show ?case using snoc one_row [of "ws @ table_log (row_log a) es" a "length es" e "row_addr a j"]
    by (auto simp: table_log_snoc nth_append)
qed simp

text \<open>A table that is cleared row by row over the old size and then filled holds the new entries and nothing else.\<close>

lemma replace_table:
  assumes "inj_on (row_addr a) {..<n}" "old \<le> n" "length es \<le> n"
    and "\<And>j. j < n \<Longrightarrow> old \<le> j \<Longrightarrow> seen view ws (row_addr a j) = Some (cell e0)"
  shows "j < n \<Longrightarrow> seen view (ws @ table_log (row_log a) (replicate old e0) @ table_log (row_log a) es) (row_addr a j) =
    Some (if j < length es then cell (es ! j) else cell e0)"
  using table_rows [OF assms(1) _ assms(3), of j "ws @ table_log (row_log a) (replicate old e0)"]
    table_rows [OF assms(1), of j "replicate old e0" ws] assms(2,4) by (auto simp: not_less)

lemma clear_table:
  assumes "inj_on (row_addr a) {..<n}"
  shows "j < n \<Longrightarrow> seen view (ws @ table_log (row_log a) (replicate n e0)) (row_addr a j) = Some (cell e0)"
  using table_rows [OF assms, of j "replicate n e0" ws] by auto

end

section \<open>A concrete device\<close>

text \<open>A device with three tables of 32 rows, on which every call succeeds and which answers a read with the words of the selected row, and with the last value written for
  the other registers.\<close>

definition last_write :: "reg_log \<Rightarrow> reg \<Rightarrow> u32 option" where
  "last_write ws r = map_of (rev ws) r"

definition replay :: "reg_log \<Rightarrow> reply_reg \<Rightarrow> u32" where
  "replay ws r =
    (let (ah, al, bh, bl) = (case hw_rows ws (w_addr (hw_run ws hw_reset)) of None \<Rightarrow> (0, 0, 0, 0) | Some row \<Rightarrow> row) in
     case r of REPLY_A_HI \<Rightarrow> ah | REPLY_A_LOW \<Rightarrow> al | REPLY_B_HI \<Rightarrow> bh | REPLY_B_LOW \<Rightarrow> bl
     | REPLY_MAC m \<Rightarrow> (case last_write ws m of None \<Rightarrow> 0 | Some v \<Rightarrow> v) | _ \<Rightarrow> 0)"

definition demo_device :: device where
  "demo_device = \<lparr>ioctl_ok = (\<lambda>_. True), hw_read = replay, lpm_address = 0, arp_address = 0x100, filter_address = 0x200, lpm_depth = 32, arp_depth = 32,
    filter_depth = 32, reg_address = (\<lambda>_. 0), reply_address = (\<lambda>_. 0), file_text = (\<lambda>_. None)\<rparr>"

definition demo_board :: board where
  "demo_board = \<lparr>writes = [], ioctls = 0\<rparr>"

lemma demo_device_ok: "all_ok demo_device"
  by (simp add: all_ok_def demo_device_def)

end
