(* ===== verification/Stream_Scan.thy ===== *)
theory Stream_Scan
  imports Cstring
begin

text \<open>
  Formatted input as the register shell (\<^verbatim>\<open>cli/cli.c\<close>) and the router kit (\<^verbatim>\<open>router_kit/linux_proc_net.cc\<close>) use it: the
  conversions \<^verbatim>\<open>%i\<close>, \<^verbatim>\<open>%d\<close>, \<^verbatim>\<open>%x\<close> and \<^verbatim>\<open>%s\<close> of \<^verbatim>\<open>scanf\<close>, \<^verbatim>\<open>fscanf\<close> and \<^verbatim>\<open>sscanf\<close>. Each of them skips white space first, so the blanks of
  the formats have no effect. The scanner returns the values it assigned, whether it stopped at the end of the input, and the input it
  left unread; the C result is \<^verbatim>\<open>EOF\<close> when the input ended before the first value. A word that does not fit its buffer is a fault.

  The variables that a call assigns are a list of optional values: \<open>None\<close> is a variable that was never assigned, and
  a call that assigns fewer values leaves the rest as they were.
\<close>

section \<open>The scanner\<close>

datatype conv = CvInt | CvDec | CvHex | CvStr nat

definition unsigned_part :: "string \<Rightarrow> string" where
  "unsigned_part t = (if take 1 t = ''-'' \<or> take 1 t = ''+'' then drop 1 t else t)"

definition int_base :: "string \<Rightarrow> nat" where
  "int_base t =
    (let u = unsigned_part t in if take 2 u = ''0x'' \<or> take 2 u = ''0X'' then 16 else if take 1 u = ''0'' then 8 else 10)"

definition scan_conv :: "conv \<Rightarrow> string \<Rightarrow> (arg option \<times> string) res" where
  "scan_conv c t =
    (case c of
       CvInt \<Rightarrow> (case scan_number (int_base t) None t of None \<Rightarrow> Inr (None, unsigned_part t) | Some (neg, v, r) \<Rightarrow> Inr (Some (ArgD (to_int neg v)), r))
     | CvDec \<Rightarrow> (case scan_number 10 None t of None \<Rightarrow> Inr (None, unsigned_part t) | Some (neg, v, r) \<Rightarrow> Inr (Some (ArgD (to_int neg v)), r))
     | CvHex \<Rightarrow> (case scan_number 16 None t of None \<Rightarrow> Inr (None, unsigned_part t) | Some (neg, v, r) \<Rightarrow> Inr (Some (ArgU (to_uint neg v)), r))
     | CvStr n \<Rightarrow>
         (let w = takeWhile (\<lambda>c. \<not> is_space c) t in
          if length w < n then Inr (Some (ArgS w), dropWhile (\<lambda>c. \<not> is_space c) t) else Inl OutOfBounds))"

fun fscanf :: "conv list \<Rightarrow> string \<Rightarrow> (arg list \<times> bool \<times> string) res" where
  "fscanf [] s = Inr ([], False, s)"
| "fscanf (c # cs) s =
    (let t = dropWhile is_space s in
     if t = [] then Inr ([], True, [])
     else bindR (scan_conv c t) (\<lambda>(v, r).
       case v of
         None \<Rightarrow> Inr ([], False, r)
       | Some v \<Rightarrow> bindR (fscanf cs r) (\<lambda>(vs, eof, r). Inr (v # vs, eof, r))))"

definition atoi :: "string \<Rightarrow> int" where
  "atoi s = (case scan_number 10 None s of None \<Rightarrow> 0 | Some (neg, v, r) \<Rightarrow> to_int neg v)"

section \<open>Variables\<close>

type_synonym vars = "arg option list"

definition assign :: "arg list \<Rightarrow> vars \<Rightarrow> vars" where
  "assign vals vs = map Some vals @ drop (length vals) vs"

definition the_int :: "vars \<Rightarrow> nat \<Rightarrow> int res" where
  "the_int vs i = (case vs ! i of Some (ArgD n) \<Rightarrow> Inr n | Some (ArgU w) \<Rightarrow> Inr (sint w) | _ \<Rightarrow> Inl Uninitialised)"

definition the_uint :: "vars \<Rightarrow> nat \<Rightarrow> u32 res" where
  "the_uint vs i = (case vs ! i of Some (ArgU w) \<Rightarrow> Inr w | Some (ArgD n) \<Rightarrow> Inr (word_of_int n) | _ \<Rightarrow> Inl Uninitialised)"

definition the_str :: "vars \<Rightarrow> nat \<Rightarrow> string res" where
  "the_str vs i = (case vs ! i of Some (ArgS s) \<Rightarrow> Inr s | _ \<Rightarrow> Inl Uninitialised)"

section \<open>Hexadecimal text\<close>

definition xdigit :: "nat \<Rightarrow> char" where
  "xdigit n = char_of (if n < 10 then 48 + n else 87 + n)"

fun show_hex :: "nat \<Rightarrow> string" where
  "show_hex n = (if n < 16 then [xdigit n] else show_hex (n div 16) @ [xdigit (n mod 16)])"

declare show_hex.simps [simp del]

definition zero_left :: "nat \<Rightarrow> string \<Rightarrow> string" where
  "zero_left n s = replicate (n - length s) CHR ''0'' @ s"

section \<open>Reading back what was printed\<close>

named_theorems scan_simps \<open>scanning printed values\<close>

lemma digit_val_xdigit: "n < 16 \<Longrightarrow> digit_val (xdigit n) = Some n"
  by (auto simp: digit_val_def xdigit_def Let_def)

lemma numeral_value_append: "numeral_value base (xs @ [c]) = base * numeral_value base xs + the (digit_val c)"
  by (simp add: numeral_value_def)

lemma numeral_show_nat [scan_simps]: "numeral_value 10 (show_nat n) = n"
proof (induction n rule: show_nat.induct)
  case (1 n)
  then show ?case
    by (subst show_nat.simps) (simp add: numeral_value_append digit_val_hex, simp add: numeral_value_def digit_val_hex)
qed

lemma numeral_show_hex [scan_simps]: "numeral_value 16 (show_hex n) = n"
proof (induction n rule: show_hex.induct)
  case (1 n)
  then show ?case
    by (subst show_hex.simps) (simp add: numeral_value_append digit_val_xdigit, simp add: numeral_value_def digit_val_xdigit)
qed

lemma is_digit_xdigit: "n < 16 \<Longrightarrow> is_digit 16 (xdigit n)"
  by (simp add: is_digit_def digit_val_xdigit)

lemma show_hex_digits: "list_all (is_digit 16) (show_hex n)"
  by (induction n rule: show_hex.induct) (subst show_hex.simps, auto simp: is_digit_xdigit)

lemma show_hex_Nil [simp]: "show_hex n \<noteq> []"
  by (subst show_hex.simps) simp

text \<open>A blank or the end of the input closes a number and a word.\<close>

definition closed :: "string \<Rightarrow> bool" where
  "closed s = (case s of [] \<Rightarrow> True | c # _ \<Rightarrow> is_space c)"

lemma closed_simps [simp]: "closed []" "closed (CHR '' '' # s)" "closed (CHR 0x0A # s)" "closed (CHR 0x09 # s)"
  by (simp_all add: closed_def is_space_def)

lemma digit_no_sign: "is_digit base c \<Longrightarrow> c \<noteq> CHR ''-'' \<and> c \<noteq> CHR ''+'' \<and> c \<noteq> CHR ''x'' \<and> c \<noteq> CHR ''X''"
  by (auto simp: is_digit_def digit_val_def Let_def split: if_splits)

lemma space_no_digit: "is_space c \<Longrightarrow> \<not> is_digit base c"
  using is_digit_not_space by blast

lemma takeWhile_digits: "list_all P ds \<Longrightarrow> (case s of [] \<Rightarrow> True | c # _ \<Rightarrow> \<not> P c) \<Longrightarrow> takeWhile P (ds @ s) = ds"
  by (induction ds) (auto split: list.splits)

lemma no_prefix:
  assumes "list_all (is_digit base) (d # ds)" "closed s"
  shows "take 2 (d # ds @ s) \<noteq> ''0x'' \<and> take 2 (d # ds @ s) \<noteq> ''0X''"
proof (cases "ds @ s")
  case (Cons c cs)
  have "c \<noteq> CHR ''x'' \<and> c \<noteq> CHR ''X''"
  proof (cases ds)
    case Nil
    with Cons assms(2) show ?thesis by (auto simp: closed_def is_space_def)
  qed (use Cons assms(1) digit_no_sign in auto)
  with Cons show ?thesis by (simp add: numeral_2_eq_2)
qed (simp add: numeral_2_eq_2)

lemma scan_number_digits:
  assumes "list_all (is_digit base) ds" "ds \<noteq> []" "closed s"
  shows "scan_number base None (ds @ s) = Some (False, numeral_value base ds, s)"
proof -
  have sign: "take 1 (ds @ s) \<noteq> ''-'' \<and> take 1 (ds @ s) \<noteq> ''+''" "dropWhile is_space (ds @ s) = ds @ s"
    using assms is_digit_not_space digit_no_sign by (cases ds; auto)+
  have pre: "take 2 (ds @ s) \<noteq> ''0x'' \<and> take 2 (ds @ s) \<noteq> ''0X''"
    using no_prefix [of base _ _ s] assms by (cases ds) auto
  have "takeWhile (is_digit base) (ds @ s) = ds"
    using assms(1,3) by (intro takeWhile_digits) (auto simp: closed_def space_no_digit split: list.splits)
  then show ?thesis using sign pre assms(2) unfolding scan_number_def Let_def by auto
qed

text \<open>\<open>reads c v t\<close>: the text \<open>t\<close> is one word that the conversion \<open>c\<close> reads as \<open>v\<close>, whatever follows the blank behind it.\<close>

definition reads :: "conv \<Rightarrow> arg \<Rightarrow> string \<Rightarrow> bool" where
  "reads c v t = (is_word t \<and> (\<forall>s. closed s \<longrightarrow> scan_conv c (t @ s) = Inr (Some v, s)))"

lemma digits_word: "list_all (is_digit base) ds \<Longrightarrow> ds \<noteq> [] \<Longrightarrow> is_word ds"
  by (auto simp: is_word_def list_all_iff dest: is_digit_not_space)

lemma hex_digit_0: "hex_digit 0 = CHR ''0''"
  by code_simp

lemma show_nat_pos: "0 < n \<Longrightarrow> take 1 (show_nat n @ s) \<noteq> ''0''"
proof (induction n arbitrary: s rule: show_nat.induct)
  case (1 n)
  show ?case
  proof (cases "n < 10")
    case True
    then have "hex_digit n \<noteq> CHR ''0''" using 1(2) digit_val_hex [of n] hex_digit_0 by (auto simp: digit_val_def)
    then show ?thesis using True by (subst show_nat.simps) simp
  next
    case False
    then have "take 1 (show_nat (n div 10) @ [hex_digit (n mod 10)] @ s) \<noteq> ''0''" using 1 by simp
    then show ?thesis using False by (subst show_nat.simps) simp
  qed
qed

lemma unsigned_digits: "list_all (is_digit base) ds \<Longrightarrow> ds \<noteq> [] \<Longrightarrow> unsigned_part (ds @ s) = ds @ s"
  using digit_no_sign by (cases ds) (auto simp: unsigned_part_def)

lemma scan_int_nat: "closed s \<Longrightarrow> scan_number (int_base (show_nat n @ s)) None (show_nat n @ s) = Some (False, n, s)"
proof (cases "n = 0")
  case True
  assume s: "closed s"
  have z: "show_nat 0 = ''0''" by (subst show_nat.simps) (simp add: hex_digit_0)
  have d: "is_digit 8 CHR ''0''" "numeral_value 8 ''0'' = 0" by (simp_all add: is_digit_def digit_val_def numeral_value_def)
  have "int_base (''0'' @ s) = 8"
    using no_prefix [of 10 "CHR ''0''" "[]" s] s by (simp add: int_base_def unsigned_part_def is_digit_def digit_val_def)
  then show ?thesis using True z scan_number_digits [of 8 "''0''" s] d s by simp
next
  case False
  assume s: "closed s"
  have "take 2 (show_nat n @ s) \<noteq> ''0x'' \<and> take 2 (show_nat n @ s) \<noteq> ''0X''"
    using show_nat_pos [of n s] False by (cases "show_nat n") auto
  then have "int_base (show_nat n @ s) = 10"
    using show_nat_pos [of n s] False unsigned_digits [OF show_nat_digits, of n s] by (simp add: int_base_def)
  then show ?thesis using scan_number_digits [OF show_nat_digits _ s] by (simp add: numeral_show_nat)
qed

lemma to_int_nat: "n < 2 ^ 31 \<Longrightarrow> to_int False n = int n"
  by (simp add: to_int_def signed_take_bit_int_eq_self)

lemma atoi_show_nat: "n < 2 ^ 31 \<Longrightarrow> atoi (show_nat n) = int n"
  using scan_number_digits [OF show_nat_digits, of n "[]"] by (simp add: atoi_def numeral_show_nat to_int_nat)

lemma reads_int [scan_simps]: "n < 2 ^ 31 \<Longrightarrow> reads CvInt (ArgD (int n)) (show_nat n)"
  by (simp add: reads_def digits_word [OF show_nat_digits] scan_conv_def scan_int_nat to_int_nat)

lemma reads_dec [scan_simps]: "n < 2 ^ 31 \<Longrightarrow> reads CvDec (ArgD (int n)) (show_nat n)"
  by (simp add: reads_def digits_word [OF show_nat_digits] scan_conv_def scan_number_digits show_nat_digits numeral_show_nat to_int_nat)

lemma reads_hex [scan_simps]: "n < 2 ^ 32 \<Longrightarrow> reads CvHex (ArgU (word_of_nat n)) (show_hex n)"
  by (simp add: reads_def digits_word [OF show_hex_digits] scan_conv_def scan_number_digits show_hex_digits numeral_show_hex to_uint_def)

lemma closed_split: "is_word w \<Longrightarrow> closed s \<Longrightarrow> takeWhile (\<lambda>c. \<not> is_space c) (w @ s) = w \<and> dropWhile (\<lambda>c. \<not> is_space c) (w @ s) = s"
  by (cases s) (simp_all add: closed_def split_word)

lemma reads_str [scan_simps]: "is_word w \<Longrightarrow> length w < n \<Longrightarrow> reads (CvStr n) (ArgS w) w"
  by (simp add: reads_def scan_conv_def closed_split Let_def)

text \<open>A line of fields: a separator of white space before each.\<close>

type_synonym text_field = "string \<times> arg \<times> string"

definition fields_text :: "text_field list \<Rightarrow> string" where
  "fields_text fs = concat (map (\<lambda>(sep, v, t). sep @ t) fs)"

definition field_ok :: "conv \<Rightarrow> text_field \<Rightarrow> bool" where
  "field_ok c f = (case f of (sep, v, t) \<Rightarrow> list_all is_space sep \<and> reads c v t)"

lemma skip_sep: "list_all is_space sep \<Longrightarrow> is_word t \<Longrightarrow> dropWhile is_space (sep @ t @ s) = t @ s"
  by (induction sep) (simp_all add: dropWhile_word)

lemma fields_closed: "list_all2 field_ok cs fs \<Longrightarrow> \<forall>f\<in>set fs. fst f \<noteq> [] \<Longrightarrow> closed s \<Longrightarrow> closed (fields_text fs @ s)"
  by (cases fs; cases cs; cases "fst (List.hd fs)")
    (auto simp: fields_text_def closed_def field_ok_def split: prod.splits list.splits)

lemma fscanf_fields:
  assumes "list_all2 field_ok cs fs" "\<forall>f\<in>set (tl fs). fst f \<noteq> []" "closed s"
  shows "fscanf cs (fields_text fs @ s) = Inr (map (fst \<circ> snd) fs, False, s)"
  using assms(1,2)
proof (induction rule: list_all2_induct)
  case (Cons c cs f fs)
  obtain sep v t where f: "f = (sep, v, t)" by (cases f)
  then have ok: "list_all is_space sep" "is_word t" "\<And>s. closed s \<Longrightarrow> scan_conv c (t @ s) = Inr (Some v, s)"
    using Cons.hyps(1) by (auto simp: field_ok_def reads_def)
  have "dropWhile is_space (fields_text (f # fs) @ s) = t @ fields_text fs @ s"
    using skip_sep [OF ok(1,2)] by (simp add: f fields_text_def)
  moreover have "t \<noteq> []" using ok(2) by (simp add: is_word_def)
  moreover have "closed (fields_text fs @ s)" using fields_closed Cons assms(3) by auto
  moreover have "fscanf cs (fields_text fs @ s) = Inr (map (fst \<circ> snd) fs, False, s)"
    using Cons.IH Cons.prems by (cases fs) auto
  ultimately show ?case using ok(3) by (simp add: f)
qed (simp add: fields_text_def)

lemma fscanf_end: "list_all is_space s \<Longrightarrow> fscanf (c # cs) s = Inr ([], True, [])"
  by (simp add: dropWhile_eq_Nil_conv list_all_iff)

lemma assign_all [simp]: "length vals = length vs \<Longrightarrow> assign vals vs = map Some vals"
  by (simp add: assign_def)

section \<open>Numbers of a fixed width\<close>

fun hex_width :: "nat \<Rightarrow> nat \<Rightarrow> string" where
  "hex_width 0 n = []"
| "hex_width (Suc k) n = hex_width k (n div 16) @ [hex_digit (n mod 16)]"

definition show_08X :: "u32 \<Rightarrow> string" where
  "show_08X w = hex_width 8 (unat w)"

lemma hex_width_digits: "list_all (is_digit 16) (hex_width k n)"
  by (induction k arbitrary: n) (simp_all add: is_digit_def digit_val_hex)

lemma length_hex_width [simp]: "length (hex_width k n) = k"
  by (induction k arbitrary: n) simp_all

lemma numeral_hex_width: "n < 16 ^ k \<Longrightarrow> numeral_value 16 (hex_width k n) = n"
proof (induction k arbitrary: n)
  case (Suc k)
  then have "n div 16 < 16 ^ k" by (simp add: div_less_iff_less_mult mult.commute)
  with Suc.IH show ?case by (simp add: numeral_value_append digit_val_hex)
qed (simp add: numeral_value_def)

lemma reads_08X [scan_simps]: "reads CvHex (ArgU w) (show_08X w)"
proof -
  have "numeral_value 16 (show_08X w) = unat w" using numeral_hex_width [of "unat w" 8] unat_u32_lt [of w] by (simp add: show_08X_def)
  moreover have d: "list_all (is_digit 16) (show_08X w)" "length (show_08X w) = 8" by (simp_all only: show_08X_def hex_width_digits length_hex_width)
  moreover have "to_uint False (unat w) = w" using unat_u32_lt [of w] by (simp add: to_uint_def)
  moreover have ne: "show_08X w \<noteq> []" using d(2) by auto
  ultimately show ?thesis using digits_word [OF d(1) ne] scan_number_digits [OF d(1) ne] by (simp add: reads_def scan_conv_def)
qed

end
