(* ===== verification/Kit_Addr.thy ===== *)
theory Kit_Addr
  imports Stream_Scan
begin

text \<open>
  The address classes of the router kit, \<^verbatim>\<open>router_kit/netinet++/ipaddr.hh\<close> and \<^verbatim>\<open>ethernetaddr.hh\<close>. An \<^verbatim>\<open>ipaddr\<close> is its field \<^verbatim>\<open>addr\<close>, the
  address in network byte order as a little-endian host loads it; an \<^verbatim>\<open>ethernetaddr\<close> is its array \<^verbatim>\<open>octet\<close>. The name service \<^verbatim>\<open>gethostbyname\<close> is
  the parameter \<open>resolve\<close>. An exception that nothing catches ends the process.

  The operators of \<^verbatim>\<open>ipaddr\<close> are those of numbers read in host order; the overloads for a plain \<^verbatim>\<open>uint32_t\<close> do not agree on the byte order of their
  argument, and the comparison operators of \<^verbatim>\<open>ethernetaddr\<close> are the wrong way round.
\<close>

section \<open>IP addresses\<close>

type_synonym ipaddr = u32

definition ipaddr_of_uint :: "u32 \<Rightarrow> ipaddr" where
  "ipaddr_of_uint addr_in = htonl addr_in"

definition ipaddr_of_name :: "(string \<Rightarrow> u32 option) \<Rightarrow> string \<Rightarrow> ipaddr" where
  "ipaddr_of_name resolve addr_in = (case resolve addr_in of None \<Rightarrow> 0 | Some a \<Rightarrow> a)"

definition ipaddr_of_string :: "(string \<Rightarrow> u32 option) \<Rightarrow> string \<Rightarrow> ipaddr res" where
  "ipaddr_of_string resolve addr_in = (case resolve addr_in of None \<Rightarrow> Inl ProcessExit | Some a \<Rightarrow> Inr a)"

text \<open>The first four bytes of a \<^verbatim>\<open>struct sockaddr\<close> are its family and its port; the constructor for a pointer to bytes loads
  the first four bytes of the pointer itself.\<close>

definition ipaddr_of_sockaddr :: "packet \<Rightarrow> ipaddr res" where
  "ipaddr_of_sockaddr addr_in = ld32 addr_in 0"

definition ipaddr_of_pointer :: "u64 \<Rightarrow> ipaddr res" where
  "ipaddr_of_pointer addr_in = bindR (assertR (addr_in \<noteq> 0)) (\<lambda>_. Inr (ucast addr_in))"

definition change_byte_ordering :: "ipaddr \<Rightarrow> ipaddr" where
  "change_byte_ordering addr = htonl addr"

definition ipaddr_string :: "ipaddr \<Rightarrow> string" where
  "ipaddr_string addr = inet_ntop addr"

text \<open>\<^verbatim>\<open>strncpy\<close> of 16 characters: the text and zeros up to the end.\<close>

definition fill_string :: "ipaddr \<Rightarrow> string \<Rightarrow> string res" where
  "fill_string addr buf =
    (let ret = take 16 (ipaddr_string addr) in
     if length buf < 16 then Inl OutOfBounds
     else Inr (ret @ replicate (16 - length ret) CHR 0x00 @ drop 16 buf))"

definition ipaddr_bool :: "ipaddr \<Rightarrow> bool" where
  "ipaddr_bool addr = (\<not> addr = 0)"

definition ipaddr_neg :: "ipaddr \<Rightarrow> bool" where
  "ipaddr_neg addr = (addr = 0)"

definition ipaddr_compl :: "ipaddr \<Rightarrow> ipaddr" where
  "ipaddr_compl addr = ipaddr_of_uint (htonl (NOT addr))"

definition ipaddr_and :: "ipaddr \<Rightarrow> ipaddr \<Rightarrow> ipaddr" where
  "ipaddr_and addr addr_in = ipaddr_of_uint (htonl (addr AND addr_in))"

definition ipaddr_and_uint :: "ipaddr \<Rightarrow> u32 \<Rightarrow> ipaddr" where
  "ipaddr_and_uint addr x = ipaddr_of_uint (ntohl addr AND x)"

definition ipaddr_and_assign :: "ipaddr \<Rightarrow> ipaddr \<Rightarrow> ipaddr" where
  "ipaddr_and_assign addr addr_in = addr AND addr_in"

definition ipaddr_and_assign_uint :: "ipaddr \<Rightarrow> u32 \<Rightarrow> ipaddr" where
  "ipaddr_and_assign_uint addr x = addr AND x"

definition ipaddr_or :: "ipaddr \<Rightarrow> ipaddr \<Rightarrow> ipaddr" where
  "ipaddr_or addr addr_in = ipaddr_of_uint (htonl (addr OR addr_in))"

definition ipaddr_or_uint :: "ipaddr \<Rightarrow> u32 \<Rightarrow> ipaddr" where
  "ipaddr_or_uint addr x = ipaddr_of_uint (htonl (addr OR x))"

definition ipaddr_or_assign :: "ipaddr \<Rightarrow> ipaddr \<Rightarrow> ipaddr" where
  "ipaddr_or_assign addr addr_in = addr OR addr_in"

definition ipaddr_or_assign_uint :: "ipaddr \<Rightarrow> u32 \<Rightarrow> ipaddr" where
  "ipaddr_or_assign_uint addr x = addr OR x"

definition ipaddr_assign_string :: "(string \<Rightarrow> u32 option) \<Rightarrow> string \<Rightarrow> ipaddr res" where
  "ipaddr_assign_string resolve s = (case resolve s of None \<Rightarrow> Inl ProcessExit | Some a \<Rightarrow> Inr a)"

definition ipaddr_assign_uint :: "u32 \<Rightarrow> ipaddr" where
  "ipaddr_assign_uint x = x"

text \<open>The increment and decrement return the new and the old value; the other operators return the new one.\<close>

definition ipaddr_inc :: "ipaddr \<Rightarrow> ipaddr" where
  "ipaddr_inc addr = htonl (htonl addr + 1)"

definition ipaddr_post_inc :: "ipaddr \<Rightarrow> ipaddr \<times> ipaddr" where
  "ipaddr_post_inc addr = (addr, ipaddr_inc addr)"

definition ipaddr_dec :: "ipaddr \<Rightarrow> ipaddr" where
  "ipaddr_dec addr = htonl (htonl addr - 1)"

definition ipaddr_plus_assign :: "ipaddr \<Rightarrow> int \<Rightarrow> ipaddr" where
  "ipaddr_plus_assign addr n = htonl (htonl addr + word_of_int n)"

definition ipaddr_plus :: "ipaddr \<Rightarrow> int \<Rightarrow> ipaddr" where
  "ipaddr_plus addr n = ipaddr_of_uint (htonl addr + word_of_int n)"

definition ipaddr_diff :: "ipaddr \<Rightarrow> ipaddr \<Rightarrow> int" where
  "ipaddr_diff addr addr_in = sint (htonl addr - htonl addr_in)"

definition ipaddr_minus :: "ipaddr \<Rightarrow> int \<Rightarrow> ipaddr" where
  "ipaddr_minus addr n = ipaddr_of_uint (htonl addr - word_of_int n)"

definition ipaddr_eq :: "ipaddr \<Rightarrow> ipaddr \<Rightarrow> bool" where
  "ipaddr_eq addr addr_in = (addr = addr_in)"

definition ipaddr_eq_uint :: "ipaddr \<Rightarrow> u32 \<Rightarrow> bool" where
  "ipaddr_eq_uint addr x = (addr = x)"

definition ipaddr_lt_uint :: "ipaddr \<Rightarrow> u32 \<Rightarrow> bool" where
  "ipaddr_lt_uint addr x = (htonl addr < x)"

definition ipaddr_lt :: "ipaddr \<Rightarrow> ipaddr \<Rightarrow> bool" where
  "ipaddr_lt addr addr_in = (htonl addr < htonl addr_in)"

definition ipaddr_le_uint :: "ipaddr \<Rightarrow> u32 \<Rightarrow> bool" where
  "ipaddr_le_uint addr x = (htonl addr \<le> x)"

definition ipaddr_le :: "ipaddr \<Rightarrow> ipaddr \<Rightarrow> bool" where
  "ipaddr_le addr addr_in = (htonl addr \<le> htonl addr_in)"

definition ipaddr_gt_uint :: "ipaddr \<Rightarrow> u32 \<Rightarrow> bool" where
  "ipaddr_gt_uint addr x = (htonl addr > x)"

definition ipaddr_gt :: "ipaddr \<Rightarrow> ipaddr \<Rightarrow> bool" where
  "ipaddr_gt addr addr_in = (htonl addr > htonl addr_in)"

definition ipaddr_ge_uint :: "ipaddr \<Rightarrow> u32 \<Rightarrow> bool" where
  "ipaddr_ge_uint addr x = (htonl addr \<ge> x)"

definition ipaddr_ge :: "ipaddr \<Rightarrow> ipaddr \<Rightarrow> bool" where
  "ipaddr_ge addr addr_in = (htonl addr \<ge> htonl addr_in)"

section \<open>Ethernet addresses\<close>

type_synonym ethernetaddr = "u8 list"

definition ETHER_LEN :: nat where
  "ETHER_LEN = 6"

definition htonll :: "u64 \<Rightarrow> u64" where
  "htonll n = push_bit 32 (ucast (htonl (ucast n))) + ucast (htonl (ucast (drop_bit 32 n)))"

definition bytes64 :: "u64 \<Rightarrow> u8 list" where
  "bytes64 w = bytes32 (ucast w) @ bytes32 (ucast (drop_bit 32 w))"

definition ether_zero :: ethernetaddr where
  "ether_zero = replicate ETHER_LEN 0"

text \<open>The library's \<^verbatim>\<open>ether_aton\<close>: six groups of one or two digits; a blank or the end closes the last one.\<close>

definition next_char :: "string \<Rightarrow> char" where
  "next_char s = (case s of [] \<Rightarrow> CHR 0x00 | c # _ \<Rightarrow> c)"

definition group_open :: "nat \<Rightarrow> string \<Rightarrow> bool" where
  "group_open cnt s = ((cnt < 5 \<and> next_char s \<noteq> CHR '':'') \<or> (cnt = 5 \<and> s \<noteq> [] \<and> \<not> is_space (next_char s)))"

definition aton_group :: "nat \<Rightarrow> string \<Rightarrow> (u8 \<times> string) option" where
  "aton_group cnt s =
    (case s of [] \<Rightarrow> None | c # r \<Rightarrow>
     case digit_val c of None \<Rightarrow> None | Some v \<Rightarrow>
     if group_open cnt r then
       (case r of [] \<Rightarrow> None | c' # r' \<Rightarrow>
        case digit_val c' of None \<Rightarrow> None | Some v' \<Rightarrow>
        if cnt < 5 \<and> next_char r' \<noteq> CHR '':'' then None else Some (word_of_nat (16 * v + v'), drop 1 r'))
     else Some (word_of_nat v, drop 1 r))"

fun aton_groups :: "nat \<Rightarrow> nat \<Rightarrow> string \<Rightarrow> u8 list option" where
  "aton_groups 0 cnt s = Some []"
| "aton_groups (Suc n) cnt s =
    (case aton_group cnt s of None \<Rightarrow> None | Some (b, r) \<Rightarrow> map_option ((#) b) (aton_groups n (Suc cnt) r))"

definition ether_aton :: "string \<Rightarrow> u8 list option" where
  "ether_aton s = aton_groups 6 0 s"

fun ether_ntoa :: "ethernetaddr \<Rightarrow> string" where
  "ether_ntoa [] = []"
| "ether_ntoa [b] = show_hex (unat b)"
| "ether_ntoa (b # bs) = show_hex (unat b) @ '':'' @ ether_ntoa bs"

definition ether_of_long :: "u64 \<Rightarrow> ethernetaddr" where
  "ether_of_long addr = take ETHER_LEN (drop 2 (bytes64 (htonll addr)))"

definition ether_of_text :: "string \<Rightarrow> ethernetaddr" where
  "ether_of_text s = (case ether_aton s of None \<Rightarrow> ether_zero | Some e_addr \<Rightarrow> e_addr)"

definition ether_of_string :: "string \<Rightarrow> ethernetaddr res" where
  "ether_of_string s = derefR (ether_aton s)"

definition ether_assign_long :: "u64 \<Rightarrow> ethernetaddr" where
  "ether_assign_long addr = take ETHER_LEN (bytes64 addr)"

definition ether_assign_text :: "string \<Rightarrow> ethernetaddr res" where
  "ether_assign_text s = derefR (ether_aton s)"

definition ether_is_init :: "ethernetaddr \<Rightarrow> bool res" where
  "ether_is_init octet = bindR (ld32 octet 0) (\<lambda>a. bindR (ld16 octet 4) (\<lambda>b. Inr (a \<noteq> 0 \<and> b \<noteq> 0)))"

definition ether_eq :: "ethernetaddr \<Rightarrow> ethernetaddr \<Rightarrow> bool" where
  "ether_eq octet addr_in = list_all (\<lambda>i. octet ! i = addr_in ! i) [0..<ETHER_LEN]"

definition ether_ne :: "ethernetaddr \<Rightarrow> ethernetaddr \<Rightarrow> bool" where
  "ether_ne octet addr_in = list_ex (\<lambda>i. octet ! i \<noteq> addr_in ! i) [0..<ETHER_LEN]"

text \<open>\<^verbatim>\<open>memcmp\<close> of two arrays of the same length: the difference of the first bytes that differ.\<close>

fun memcmp :: "u8 list \<Rightarrow> u8 list \<Rightarrow> int" where
  "memcmp (a # as) (b # bs) = (if a = b then memcmp as bs else int (unat a) - int (unat b))"
| "memcmp _ _ = 0"

definition ether_lt :: "ethernetaddr \<Rightarrow> ethernetaddr \<Rightarrow> bool" where
  "ether_lt octet x = (memcmp x octet < 0)"

definition ether_le :: "ethernetaddr \<Rightarrow> ethernetaddr \<Rightarrow> bool" where
  "ether_le octet x = (memcmp x octet \<le> 0)"

definition ether_gt :: "ethernetaddr \<Rightarrow> ethernetaddr \<Rightarrow> bool" where
  "ether_gt octet x = (memcmp x octet > 0)"

definition ether_ge :: "ethernetaddr \<Rightarrow> ethernetaddr \<Rightarrow> bool" where
  "ether_ge octet x = (memcmp x octet \<ge> 0)"

definition set_octet :: "u8 list \<Rightarrow> ethernetaddr res" where
  "set_octet oct = ld_bytes oct 0 ETHER_LEN"

definition ether_bool :: "ethernetaddr \<Rightarrow> bool" where
  "ether_bool octet = (memcmp octet (replicate ETHER_LEN 0) \<noteq> 0)"

definition ether_string :: "ethernetaddr \<Rightarrow> string" where
  "ether_string octet = ether_ntoa octet"

text \<open>\<^verbatim>\<open>as_long\<close> loads eight bytes from the array of six.\<close>

definition as_long :: "ethernetaddr \<Rightarrow> u64 res" where
  "as_long octet =
    bindR (ld32 octet 0) (\<lambda>lo. bindR (ld32 octet 4) (\<lambda>hi.
      Inr (drop_bit 16 (htonll (ucast lo + push_bit 32 (ucast hi))))))"

definition is_private :: "ethernetaddr \<Rightarrow> bool" where
  "is_private octet = (0x40 AND octet ! 0 \<noteq> 0)"

definition is_multicast :: "ethernetaddr \<Rightarrow> bool" where
  "is_multicast octet = (0x80 AND octet ! 0 \<noteq> 0)"

definition is_broadcast :: "ethernetaddr \<Rightarrow> bool res" where
  "is_broadcast octet = bindR (ld32 octet 0) (\<lambda>a. Inr (a = 0xffffffff))"

definition is_zero :: "ethernetaddr \<Rightarrow> bool res" where
  "is_zero octet = bindR (ld32 octet 0) (\<lambda>a. bindR (ld16 octet 4) (\<lambda>b. Inr (a = 0 \<and> b = 0)))"

section \<open>Byte order and bits\<close>

lemma take_bit_unsigned_eq: "take_bit LENGTH('a) (unat (w :: 'a :: len word)) = unat w"
  by (simp add: take_bit_nat_eq_self)

lemma byte32_drop: "byte32 k w = ucast (drop_bit (8 * k) w)"
proof -
  have "(256::nat) ^ k = 2 ^ (8 * k)" by (simp add: power_mult)
  moreover have "unat (drop_bit (8 * k) w) = unat w div 2 ^ (8 * k)"
    using unsigned_drop_bit_eq [of "8 * k" w, where 'a = nat] by (simp only: drop_bit_eq_div take_bit_unsigned_eq)
  ultimately show ?thesis unfolding byte32_def by (metis of_nat_unat)
qed

lemma byte32_bits:
  "byte32 k (x AND y) = byte32 k x AND byte32 k y" "byte32 k (x OR y) = byte32 k x OR byte32 k y"
  by (simp_all add: byte32_drop unsigned_and_eq unsigned_or_eq)

lemma byte32_not: "k < 4 \<Longrightarrow> byte32 k (NOT x) = NOT (byte32 k x)"
  by (rule bit_word_eqI) (auto simp: byte32_drop bit_simps)

lemma word_bytes_eqI:
  assumes "byte32 0 x = byte32 0 y" "byte32 1 x = byte32 1 y" "byte32 2 x = byte32 2 y" "byte32 3 x = byte32 3 y"
  shows "x = y"
  using assms le32_byte32(1) [of x] le32_byte32(1) [of y] by metis

lemma byte32_ntohl [simp]:
  "byte32 0 (ntohl w) = byte32 3 w" "byte32 1 (ntohl w) = byte32 2 w" "byte32 (Suc 0) (ntohl w) = byte32 2 w"
  "byte32 2 (ntohl w) = byte32 1 w" "byte32 3 (ntohl w) = byte32 0 w"
  by (simp_all add: ntohl_def)

lemma ntohl_bits [order_simps]:
  "ntohl (x AND y) = ntohl x AND ntohl y" "ntohl (x OR y) = ntohl x OR ntohl y" "ntohl (NOT x) = NOT (ntohl x)"
  by (rule word_bytes_eqI; simp add: byte32_bits byte32_not)+

section \<open>Hardware addresses as text\<close>

lemma xdigit_not: "n < 16 \<Longrightarrow> xdigit n \<noteq> CHR '':'' \<and> \<not> is_space (xdigit n)"
  using digit_val_xdigit [of n] is_digit_not_space [OF is_digit_xdigit, of n] by (auto simp: digit_val_def)

lemma show_hex_byte: "show_hex (unat (b :: u8)) = (if unat b < 16 then [xdigit (unat b)] else [xdigit (unat b div 16), xdigit (unat b mod 16)])"
proof -
  have "unat b div 16 < 16" using unat_u8_lt [of b] by (simp add: div_less_iff_less_mult)
  then show ?thesis by (subst show_hex.simps) (simp add: show_hex.simps [of "unat b div 16"])
qed

definition show_02x :: "u8 \<Rightarrow> string" where
  "show_02x b = [xdigit (unat b div 16), xdigit (unat b mod 16)]"

text \<open>The form in which the kernel prints an address: two digits for each byte.\<close>

fun kernel_mac :: "ethernetaddr \<Rightarrow> string" where
  "kernel_mac [] = []"
| "kernel_mac [b] = show_02x b"
| "kernel_mac (b # bs) = show_02x b @ '':'' @ kernel_mac bs"

lemma aton_digit1:
  assumes "n < 16"
  shows "cnt < 5 \<Longrightarrow> aton_group cnt (xdigit n # CHR '':'' # s) = Some (word_of_nat n, s)"
    "aton_group 5 [xdigit n] = Some (word_of_nat n, [])"
  using digit_val_xdigit [OF assms] by (simp_all add: aton_group_def group_open_def next_char_def)

lemma aton_digit2:
  assumes "n < 16" "m < 16"
  shows "cnt < 5 \<Longrightarrow> aton_group cnt (xdigit n # xdigit m # CHR '':'' # s) = Some (word_of_nat (16 * n + m), s)"
    "aton_group 5 [xdigit n, xdigit m] = Some (word_of_nat (16 * n + m), [])"
  using digit_val_xdigit [OF assms(1)] digit_val_xdigit [OF assms(2)] xdigit_not [OF assms(2)]
  by (simp_all add: aton_group_def group_open_def next_char_def)

lemma aton_byte:
  fixes b :: u8
  shows "cnt < 5 \<Longrightarrow> aton_group cnt (show_hex (unat b) @ CHR '':'' # s) = Some (b, s)"
    "aton_group 5 (show_hex (unat b)) = Some (b, [])"
    "cnt < 5 \<Longrightarrow> aton_group cnt (show_02x b @ CHR '':'' # s) = Some (b, s)"
    "aton_group 5 (show_02x b) = Some (b, [])"
proof -
  have "unat b div 16 < 16" "unat b mod 16 < 16" "16 * (unat b div 16) + unat b mod 16 = unat b"
    using unat_u8_lt [of b] by (simp_all add: div_less_iff_less_mult)
  then show "cnt < 5 \<Longrightarrow> aton_group cnt (show_hex (unat b) @ CHR '':'' # s) = Some (b, s)"
    "aton_group 5 (show_hex (unat b)) = Some (b, [])"
    "cnt < 5 \<Longrightarrow> aton_group cnt (show_02x b @ CHR '':'' # s) = Some (b, s)"
    "aton_group 5 (show_02x b) = Some (b, [])"
    by (simp_all add: show_hex_byte show_02x_def aton_digit1 aton_digit2)
qed

lemma six_bytes: "length a = 6 \<Longrightarrow> \<exists>b0 b1 b2 b3 b4 b5. a = [b0, b1, b2, b3, b4, b5]"
  by (simp add: length_Suc_conv eval_nat_numeral) blast

lemma aton_last: "aton_group (Suc (Suc (Suc (Suc (Suc 0))))) (show_hex (unat b)) = Some (b, [])"
  "aton_group (Suc (Suc (Suc (Suc (Suc 0))))) (show_02x b) = Some (b, [])"
  using aton_byte(2,4) [of b] by (simp_all add: eval_nat_numeral)

lemma aton_ntoa: "length a = 6 \<Longrightarrow> ether_aton (ether_ntoa a) = Some a"
  using six_bytes [of a] by (auto simp: ether_aton_def eval_nat_numeral aton_byte aton_last)

lemma aton_kernel: "length a = 6 \<Longrightarrow> ether_aton (kernel_mac a) = Some a"
  using six_bytes [of a] by (auto simp: ether_aton_def eval_nat_numeral aton_byte aton_last)

lemma length_aton: "aton_groups n cnt s = Some bs \<Longrightarrow> length bs = n"
  by (induction n arbitrary: cnt s bs) (auto split: option.splits prod.splits)

text \<open>Every constructor gives six bytes.\<close>

lemma length_ether [simp]: "length (ether_of_text s) = ETHER_LEN" "length ether_zero = ETHER_LEN"
  "length (ether_of_long n) = ETHER_LEN" "length (ether_assign_long n) = ETHER_LEN"
  using length_aton [of 6 0 s]
  by (auto simp: ether_of_text_def ether_aton_def ether_zero_def ETHER_LEN_def ether_of_long_def ether_assign_long_def bytes64_def split: option.splits)

lemma memcmp_eq_0: "length xs = length ys \<Longrightarrow> memcmp xs ys = 0 \<longleftrightarrow> xs = ys"
  by (induction xs ys rule: memcmp.induct) (auto simp: word_uint_eq_iff)

lemma memcmp_sym: "memcmp xs ys = - memcmp ys xs"
  by (induction xs ys rule: memcmp.induct) (auto)

lemma ether_eq_iff: "length a = 6 \<Longrightarrow> length b = 6 \<Longrightarrow> ether_eq a b \<longleftrightarrow> a = b"
  by (auto simp: ether_eq_def ETHER_LEN_def list_all_iff list_eq_iff_nth_eq)

lemma join_words:
  fixes x y :: u32
  shows "ucast (push_bit 32 (ucast x :: u64) + ucast y) = y" "ucast (drop_bit 32 (push_bit 32 (ucast x :: u64) + ucast y)) = x"
proof -
  have "push_bit 32 (ucast x :: u64) + ucast y = push_bit 32 (ucast x) OR ucast y"
    by (rule disjunctive_add_eq_or) (rule bit_word_eqI, auto simp: bit_simps dest: bit_imp_le_length)
  moreover have "\<not> bit y (32 + n)" for n using bit_imp_le_length [of y "32 + n"] by auto
  ultimately show "ucast (push_bit 32 (ucast x :: u64) + ucast y) = y" "ucast (drop_bit 32 (push_bit 32 (ucast x :: u64) + ucast y)) = x"
    by (auto intro!: bit_word_eqI simp: bit_simps)
qed

lemma bytes64_htonll: "bytes64 (htonll n) = rev (bytes64 n)"
  by (simp add: bytes64_def htonll_def join_words bytes32_def)

section \<open>Properties\<close>

text \<open>
  The operators of \<^verbatim>\<open>ipaddr\<close> on addresses are the operators of 32 bit numbers on the addresses read in host order: counting, shifting by an integer and back,
  the bit operators, the comparisons and the difference.
\<close>

theorem ipaddr_is_number:
  "ntohl (ipaddr_inc a) = ntohl a + 1 \<and> ipaddr_post_inc a = (a, ipaddr_inc a) \<and> ntohl (ipaddr_dec a) = ntohl a - 1 \<and>
   ntohl (ipaddr_plus a n) = ntohl a + word_of_int n \<and> ipaddr_plus_assign a n = ipaddr_plus a n \<and>
   ntohl (ipaddr_minus a n) = ntohl a - word_of_int n \<and> ipaddr_minus (ipaddr_plus a n) n = a \<and>
   ntohl (ipaddr_and a b) = ntohl a AND ntohl b \<and> ipaddr_and_assign a b = ipaddr_and a b \<and>
   ntohl (ipaddr_or a b) = ntohl a OR ntohl b \<and> ipaddr_or_assign a b = ipaddr_or a b \<and>
   ntohl (ipaddr_compl a) = NOT (ntohl a) \<and>
   ipaddr_lt a b = (ntohl a < ntohl b) \<and> ipaddr_le a b = (ntohl a \<le> ntohl b) \<and> ipaddr_gt a b = ipaddr_lt b a \<and> ipaddr_ge a b = ipaddr_le b a \<and>
   ipaddr_eq a b = (\<not> ipaddr_lt a b \<and> \<not> ipaddr_lt b a) \<and> ipaddr_diff a b = sint (ntohl a - ntohl b)"
proof -
  have "(\<not> ntohl a < ntohl b \<and> \<not> ntohl b < ntohl a) \<longleftrightarrow> a = b" using ntohl_inj [of a b] by (auto simp: linorder_neq_iff)
  then show ?thesis
    by (simp add: ipaddr_inc_def ipaddr_post_inc_def ipaddr_dec_def ipaddr_plus_def ipaddr_plus_assign_def ipaddr_minus_def ipaddr_of_uint_def
        ipaddr_and_def ipaddr_and_assign_def ipaddr_or_def ipaddr_or_assign_def ipaddr_compl_def ipaddr_lt_def ipaddr_le_def ipaddr_gt_def
        ipaddr_ge_def ipaddr_eq_def ipaddr_diff_def ntohl_bits)
qed

text \<open>
  The overloads for a plain integer do not agree on its byte order: \<^verbatim>\<open>a & x\<close> and the comparisons read it in host order, \<^verbatim>\<open>a &= x\<close>, \<^verbatim>\<open>a | x\<close>
  and \<^verbatim>\<open>a == x\<close> in network order. So \<^verbatim>\<open>a & x\<close> and \<^verbatim>\<open>a &= x\<close> differ, and an address can be neither equal to a number nor below nor above it.
\<close>

theorem ipaddr_uint_byte_order:
  "ipaddr_and_uint a x = a AND htonl x \<and> ipaddr_and_assign_uint a x = a AND x \<and> ipaddr_or_uint a x = a OR x \<and>
   (\<not> ipaddr_lt_uint a x \<and> \<not> ipaddr_gt_uint a x \<longleftrightarrow> ipaddr_eq_uint a (htonl x)) \<and>
   ipaddr_and_uint 0x0100000A 0xFF000000 = 0x0000000A \<and> ipaddr_and_assign_uint 0x0100000A 0xFF000000 = 0x01000000 \<and>
   \<not> ipaddr_eq_uint 0x0100000A 0x0A000001 \<and> \<not> ipaddr_lt_uint 0x0100000A 0x0A000001 \<and> \<not> ipaddr_gt_uint 0x0100000A 0x0A000001"
proof -
  have "(\<not> ntohl a < x \<and> \<not> ntohl a > x) \<longleftrightarrow> a = ntohl x" using ntohl_inj [of a "ntohl x"] by (auto simp: linorder_neq_iff simp del: ntohl_inj)
  moreover have "ntohl 0xFF000000 = 0xFF" "ntohl 0x0A000001 = 0x0100000A" "ntohl 0x0100000A = 0x0A000001" "ntohl 0x0A000000 = 10"
    by (simp_all add: ntohl_def le32_def byte32_def)
  ultimately show ?thesis
    by (simp add: ipaddr_and_uint_def ipaddr_of_uint_def ipaddr_and_assign_uint_def ipaddr_or_uint_def ipaddr_lt_uint_def ipaddr_gt_uint_def
        ipaddr_eq_uint_def ntohl_bits)
qed

text \<open>
  A hardware address that is printed, by the class or in the form of the kernel's ARP table, is read back unchanged, and the address made of a number by assignment is the one
  the constructor makes of the same number with its bytes reversed.
\<close>

theorem ethernetaddr_round_trip:
  assumes "length a = ETHER_LEN"
  shows "ether_of_text (ether_string a) = a \<and> ether_of_text (kernel_mac a) = a \<and> ether_of_string (ether_string a) = Inr a \<and>
    ether_assign_long n = rev (ether_of_long n)"
  using assms aton_ntoa [of a] aton_kernel [of a]
  by (simp add: ETHER_LEN_def ether_string_def ether_of_text_def ether_of_string_def ether_assign_long_def ether_of_long_def bytes64_htonll
      drop_rev take_rev) (simp add: bytes64_def bytes32_def)

theorem ethernetaddr_round_trip_witness:
  "ether_of_text (ether_string [0, 0x1b, 0x21, 0x3c, 0x9d, 0xf8]) = [0, 0x1b, 0x21, 0x3c, 0x9d, 0xf8] \<and>
   ether_string [0, 0x1b, 0x21, 0x3c, 0x9d, 0xf8] = ''0:1b:21:3c:9d:f8''"
proof -
  have "ether_string [0, 0x1b, 0x21, 0x3c, 0x9d, 0xf8] = ''0:1b:21:3c:9d:f8''" by code_simp
  with ethernetaddr_round_trip [of "[0, 0x1b, 0x21, 0x3c, 0x9d, 0xf8]" 0] show ?thesis by (simp add: ETHER_LEN_def)
qed

text \<open>
  The comparison operators of \<^verbatim>\<open>ethernetaddr\<close> are the wrong way round: \<^verbatim>\<open>a < b\<close> holds when \<open>b\<close> comes before \<open>a\<close>. A string that is no
  address makes the constructor from a \<^verbatim>\<open>std::string\<close> copy from a null pointer, and \<^verbatim>\<open>as_long\<close> reads past the array.
\<close>

theorem ethernetaddr_operators:
  assumes "length a = ETHER_LEN" "length b = ETHER_LEN"
  shows "ether_lt a b = (memcmp a b > 0) \<and> ether_gt a b = (memcmp a b < 0) \<and> ether_le a b = (memcmp a b \<ge> 0) \<and> ether_ge a b = (memcmp a b \<le> 0) \<and>
    ether_eq a b = (a = b) \<and> ether_ne a b = (a \<noteq> b) \<and> ether_bool a = (a \<noteq> ether_zero) \<and> is_zero a = Inr (a = ether_zero) \<and>
    as_long a = Inl OutOfBounds \<and> (ether_aton s = None \<longrightarrow> ether_of_string s = Inl NullDeref \<and> ether_of_text s = ether_zero)"
proof -
  obtain b0 b1 b2 b3 b4 b5 where a: "a = [b0, b1, b2, b3, b4, b5]" using six_bytes [of a] assms by (auto simp: ETHER_LEN_def)
  have "le32 b0 b1 b2 b3 = 0 \<longleftrightarrow> b0 = 0 \<and> b1 = 0 \<and> b2 = 0 \<and> b3 = 0" "le16 b4 b5 = 0 \<longleftrightarrow> b4 = 0 \<and> b5 = 0"
    by (auto simp: word_unat_eq_iff unat_le32 unat_le16)
  then have "is_zero a = Inr (a = ether_zero)"
    by (auto simp: a is_zero_def ether_zero_def ETHER_LEN_def ld32_def ld16_def eval_nat_numeral)
  moreover have "as_long a = Inl OutOfBounds" by (simp add: a as_long_def ld32_def)
  moreover have "ether_eq a b = (a = b)" "ether_ne a b = (a \<noteq> b)"
    using assms by (auto simp: ether_eq_def ether_ne_def ETHER_LEN_def list_all_iff list_ex_iff list_eq_iff_nth_eq)
  ultimately show ?thesis using memcmp_sym [of b a] memcmp_eq_0 [of a ether_zero] assms
    by (auto simp: ether_lt_def ether_gt_def ether_le_def ether_ge_def ether_bool_def ether_of_string_def ether_of_text_def ether_zero_def)
qed

theorem ethernetaddr_operators_witness:
  "ether_lt [0, 0, 0, 0, 0, 2] [0, 0, 0, 0, 0, 1] \<and> ether_of_string ''none'' = Inl NullDeref"
proof -
  have "ether_aton ''none'' = None" "memcmp [0, 0, 0, 0, 0, 2] [0, 0, 0, 0, 0, 1] > 0" by code_simp+
  with ethernetaddr_operators [of "[0, 0, 0, 0, 0, 2]" "[0, 0, 0, 0, 0, 1]" "''none''"] show ?thesis by (simp add: ETHER_LEN_def)
qed

end
