(* ===== verification/Router_Kit.thy ===== *)
theory Router_Kit
  imports Board Kit_Addr Iface
begin

text \<open>
  The router kit (\<^verbatim>\<open>router_kit/\<close>): the daemon \<^verbatim>\<open>rkd\<close> polls the routing table, the ARP table and the interfaces of the Linux kernel and copies the entries of
  the board's devices to its hardware tables. The classes \<^verbatim>\<open>rtable\<close>, \<^verbatim>\<open>arptable\<close> and \<^verbatim>\<open>iflist\<close> wrap a \<^verbatim>\<open>std::vector\<close>, here the list of its elements;
  \<^verbatim>\<open>sume_mon\<close> keeps the copies that it has written last.

  What the kernel shows is the argument of a poll: the texts of \<^verbatim>\<open>/proc/net/route\<close> and \<^verbatim>\<open>/proc/net/arp\<close> and the answers to the interface
  \<^verbatim>\<open>ioctl\<close>s. The daemon's options, its detaching from the terminal and its messages are left out.
\<close>

section \<open>Tables\<close>

record ipv4_entry =
  rt_dest :: ipaddr
  rt_gw :: ipaddr
  rt_mask :: ipaddr
  rt_dev :: string

record arp_entry =
  at_ip :: ipaddr
  at_etha :: ethernetaddr
  at_dev :: string

record ifentry =
  ie_ip :: ipaddr
  ie_etha :: ethernetaddr
  ie_name :: string

definition ipv4_entry_eq :: "ipv4_entry \<Rightarrow> ipv4_entry \<Rightarrow> bool" where
  "ipv4_entry_eq a b =
    (ipaddr_eq (rt_dest a) (rt_dest b) \<and> ipaddr_eq (rt_gw a) (rt_gw b) \<and> ipaddr_eq (rt_mask a) (rt_mask b) \<and> rt_dev a = rt_dev b)"

definition arp_entry_eq :: "arp_entry \<Rightarrow> arp_entry \<Rightarrow> bool" where
  "arp_entry_eq a b = (ipaddr_eq (at_ip a) (at_ip b) \<and> ether_eq (at_etha a) (at_etha b) \<and> at_dev a = at_dev b)"

definition ifentry_eq :: "ifentry \<Rightarrow> ifentry \<Rightarrow> bool" where
  "ifentry_eq a b = (ipaddr_eq (ie_ip a) (ie_ip b) \<and> ether_eq (ie_etha a) (ie_etha b) \<and> ie_name a = ie_name b)"

definition rtable_add :: "ipv4_entry \<Rightarrow> ipv4_entry list \<Rightarrow> ipv4_entry list" where
  "rtable_add entry table = table @ [entry]"

definition rtable_contains :: "ipv4_entry list \<Rightarrow> ipv4_entry \<Rightarrow> bool" where
  "rtable_contains table entry = list_ex (\<lambda>e. ipv4_entry_eq e entry) table"

definition rtable_eq :: "ipv4_entry list \<Rightarrow> ipv4_entry list \<Rightarrow> bool" where
  "rtable_eq table other = list_all2 ipv4_entry_eq table other"

definition arptable_add :: "arp_entry \<Rightarrow> arp_entry list \<Rightarrow> arp_entry list" where
  "arptable_add entry table = table @ [entry]"

definition arptable_contains :: "arp_entry list \<Rightarrow> arp_entry \<Rightarrow> bool" where
  "arptable_contains table entry = list_ex (\<lambda>e. arp_entry_eq e entry) table"

definition arptable_eq :: "arp_entry list \<Rightarrow> arp_entry list \<Rightarrow> bool" where
  "arptable_eq table other = list_all2 arp_entry_eq table other"

definition iflist_add_entry :: "ifentry \<Rightarrow> ifentry list \<Rightarrow> ifentry list" where
  "iflist_add_entry entry interfaces = interfaces @ [entry]"

definition iflist_eq :: "ifentry list \<Rightarrow> ifentry list \<Rightarrow> bool" where
  "iflist_eq interfaces other = list_all2 ifentry_eq interfaces other"

section \<open>What the kernel shows\<close>

definition BUFSIZ :: nat where
  "BUFSIZ = 8192"

definition kit_fgets :: "string \<Rightarrow> string" where
  "kit_fgets s = take (BUFSIZ - 1) (take (length (takeWhile (\<lambda>c. c \<noteq> CHR 0x0A) s) + 1) s)"

function kit_lines :: "string \<Rightarrow> string list" where
  "kit_lines s = (if s = [] then [] else kit_fgets s # kit_lines (drop (length (kit_fgets s)) s))"
  by auto
termination by (relation "measure length") (auto simp: kit_fgets_def BUFSIZ_def)

declare kit_lines.simps [simp del]

definition route_convs :: "conv list" where
  "route_convs = [CvStr 16, CvHex, CvHex, CvDec, CvDec, CvDec, CvDec, CvHex, CvDec, CvDec, CvDec]"

text \<open>The variables keep the values of the line before when a line has fewer fields.\<close>

fun load_routes :: "string list \<Rightarrow> vars \<Rightarrow> ipv4_entry list \<Rightarrow> ipv4_entry list res" where
  "load_routes [] vs rt = Inr rt"
| "load_routes (buf # bufs) vs rt =
    bindR (fscanf route_convs (cstr buf)) (\<lambda>(vals, eof, rest).
    let vs = assign vals vs in
    bindR (the_uint vs 1) (\<lambda>dest.
    bindR (the_uint vs 2) (\<lambda>gw.
    bindR (the_uint vs 7) (\<lambda>msk.
    bindR (the_str vs 0) (\<lambda>dev.
    load_routes bufs vs (rtable_add
      \<lparr>rt_dest = ipaddr_assign_uint dest, rt_gw = ipaddr_assign_uint gw, rt_mask = ipaddr_assign_uint msk, rt_dev = dev\<rparr> rt))))))"

definition linux_proc_net_load_rtable :: "string option \<Rightarrow> ipv4_entry list res" where
  "linux_proc_net_load_rtable fd = bindR (derefR fd) (\<lambda>s. load_routes (drop 1 (kit_lines s)) (replicate 11 None) [])"

definition arp_convs :: "conv list" where
  "arp_convs = [CvStr 32, CvStr 32, CvStr 32, CvStr 32, CvStr 32, CvStr 16]"

fun load_arps :: "(string \<Rightarrow> u32 option) \<Rightarrow> string list \<Rightarrow> vars \<Rightarrow> arp_entry list \<Rightarrow> arp_entry list res" where
  "load_arps resolve [] vs tab = Inr tab"
| "load_arps resolve (buf # bufs) vs tab =
    bindR (fscanf arp_convs (cstr buf)) (\<lambda>(vals, eof, rest).
    let vs = assign vals vs in
    bindR (the_str vs 3) (\<lambda>mac.
    if ether_bool (ether_of_text mac)
    then bindR (the_str vs 0) (\<lambda>ip.
         bindR (the_str vs 5) (\<lambda>dev.
         load_arps resolve bufs vs (arptable_add \<lparr>at_ip = ipaddr_of_name resolve ip, at_etha = ether_of_text mac, at_dev = dev\<rparr> tab)))
    else load_arps resolve bufs vs tab))"

definition linux_proc_net_load_arptable :: "(string \<Rightarrow> u32 option) \<Rightarrow> string option \<Rightarrow> arp_entry list res" where
  "linux_proc_net_load_arptable resolve fd =
    bindR (derefR fd) (\<lambda>s. load_arps resolve (drop 1 (kit_lines s)) (replicate 6 None) [])"

text \<open>An answer of the kernel: the address, the hardware address (or a failure) and the name of each interface. The first one is left out.\<close>

type_synonym ifconf = "(u32 \<times> u8 list option \<times> string) list"

fun fill_entries :: "ifconf \<Rightarrow> ifentry list \<Rightarrow> ifentry list res" where
  "fill_entries [] ifl = Inr ifl"
| "fill_entries ((ip, hw, name) # ifs) ifl =
    bindR (case hw of None \<Rightarrow> Inr ether_zero | Some sa_data \<Rightarrow> set_octet sa_data) (\<lambda>etha.
    fill_entries ifs (iflist_add_entry \<lparr>ie_ip = ip, ie_etha = etha, ie_name = name\<rparr> ifl))"

definition fill_iflist :: "ifconf option \<Rightarrow> ifentry list res" where
  "fill_iflist ifc = (case ifc of None \<Rightarrow> Inl ProcessExit | Some ifs \<Rightarrow> fill_entries (drop 1 ifs) [])"

section \<open>Rows of the hardware tables\<close>

definition kit_route_row :: "u32 \<Rightarrow> nat \<Rightarrow> row \<Rightarrow> reg_log" where
  "kit_route_row a i r = (case r of (dest, gw, msk, port) \<Rightarrow>
    [(WRDATA_A_HI, dest), (WRDATA_B_HI, msk), (WRDATA_A_LOW, gw), (WRDATA_B_LOW, port),
     (INDIRECTADDRESS, row_addr a i), (INDIRECTCOMMAND, 1)])"

definition kit_arp_row :: "u32 \<Rightarrow> nat \<Rightarrow> u32 \<times> u32 \<times> u32 \<Rightarrow> reg_log" where
  "kit_arp_row a i r = (case r of (ip, hi, lo) \<Rightarrow>
    [(WRDATA_B_LOW, ip), (WRDATA_A_HI, hi), (WRDATA_A_LOW, lo), (INDIRECTADDRESS, row_addr a i), (INDIRECTCOMMAND, 1)])"

definition kit_filter_row :: "u32 \<Rightarrow> nat \<Rightarrow> u32 \<Rightarrow> reg_log" where
  "kit_filter_row a i ip = [(WRDATA_B_LOW, ip), (INDIRECTADDRESS, row_addr a i), (INDIRECTCOMMAND, 1)]"

definition FIXME_MAX :: nat where
  "FIXME_MAX = 32"

definition no_route :: row where
  "no_route = (0, 0, 0xffffffff, 0)"

definition clear_hw_rtable :: "device \<Rightarrow> board \<Rightarrow> board" where
  "clear_hw_rtable d b = fold (\<lambda>i. put d (kit_route_row (lpm_address d) i no_route)) [0..<FIXME_MAX] b"

definition clear_hw_arptable :: "device \<Rightarrow> board \<Rightarrow> board" where
  "clear_hw_arptable d b = fold (\<lambda>i. put d (kit_arp_row (arp_address d) i (0, 0, 0))) [0..<FIXME_MAX] b"

definition clear_dst_filter_rtable :: "device \<Rightarrow> board \<Rightarrow> board" where
  "clear_dst_filter_rtable d b = fold (\<lambda>i. put d (kit_filter_row (filter_address d) i 0)) [0..<FIXME_MAX] b"

definition mac_log :: "nat \<Rightarrow> ethernetaddr \<Rightarrow> reg_log" where
  "mac_log index addr = (if index < 4 then [(MAC_HI index, mac_hi addr), (MAC_LOW index, mac_lo addr)] else [])"

definition nf_set_mac :: "device \<Rightarrow> ethernetaddr \<Rightarrow> nat \<Rightarrow> board \<Rightarrow> board" where
  "nf_set_mac d addr index b = put d (mac_log index addr) b"

section \<open>The monitor\<close>

record sume_mon =
  devtoport :: "string \<Rightarrow> int option"
  sm_rt :: "ipv4_entry list"
  sm_at :: "arp_entry list"
  sm_ifl :: "ifentry list"
  sm_board :: board

text \<open>\<^verbatim>\<open>devtoport[dev]\<close> of a \<^verbatim>\<open>std::map\<close> inserts a zero for a key that is not there.\<close>

definition devtoport_at :: "string \<Rightarrow> sume_mon \<Rightarrow> int \<times> sume_mon" where
  "devtoport_at dev m = (case devtoport m dev of Some p \<Rightarrow> (p, m) | None \<Rightarrow> (0, m\<lparr>devtoport := (devtoport m)(dev \<mapsto> 0)\<rparr>))"

text \<open>The constructor. \<open>iface_mem\<close> is what the memory of the member \<^verbatim>\<open>interface\<close> holds: nothing has been stored there.\<close>

definition nf_name :: "int \<Rightarrow> string" where
  "nf_name n = ''nf'' @ show_int n"

definition sume_mon_ctor :: "device \<Rightarrow> string \<Rightarrow> board \<Rightarrow> sume_mon" where
  "sume_mon_ctor d iface_mem b =
    (let b = clear_dst_filter_rtable d (clear_hw_arptable d (clear_hw_rtable d b));
         base = atoi (cstr (drop 4 iface_mem))
     in \<lparr>devtoport = [nf_name base \<mapsto> 1, nf_name (base + 1) \<mapsto> 4, nf_name (base + 2) \<mapsto> 16, nf_name (base + 3) \<mapsto> 64],
         sm_rt = [], sm_at = [], sm_ifl = [], sm_board = b\<rparr>)"

definition write_route :: "device \<Rightarrow> nat \<Rightarrow> ipv4_entry \<Rightarrow> sume_mon \<Rightarrow> sume_mon" where
  "write_route d i e m =
    (let (port, m) = devtoport_at (rt_dev e) m in
     m\<lparr>sm_board := put d (kit_route_row (lpm_address d) i (htonl (rt_dest e), htonl (rt_gw e), htonl (rt_mask e), word_of_int port)) (sm_board m)\<rparr>)"

definition update_routing_table :: "device \<Rightarrow> ipv4_entry list \<Rightarrow> sume_mon \<Rightarrow> sume_mon" where
  "update_routing_table d newrt m =
    (let m = m\<lparr>sm_board := fold (\<lambda>i. put d (kit_route_row (lpm_address d) i no_route)) [0..<length (sm_rt m)] (sm_board m)\<rparr>
     in fold (\<lambda>i. write_route d i (newrt ! i)) [0..<length newrt] m)"

definition update_arp_table :: "device \<Rightarrow> arp_entry list \<Rightarrow> sume_mon \<Rightarrow> sume_mon" where
  "update_arp_table d newat m =
    (let b = fold (\<lambda>i. put d (kit_arp_row (arp_address d) i (0, 0, 0))) [0..<length (sm_at m)] (sm_board m)
     in m\<lparr>sm_board := fold (\<lambda>i. put d (kit_arp_row (arp_address d) i
          (ntohl (at_ip (newat ! i)), mac_hi (at_etha (newat ! i)), mac_lo (at_etha (newat ! i))))) [0..<length newat] b\<rparr>)"

definition ospf_ip :: "(string \<Rightarrow> u32 option) \<Rightarrow> ipaddr" where
  "ospf_ip resolve = ipaddr_of_name resolve ''224.0.0.5''"

definition update_interface_table :: "device \<Rightarrow> (string \<Rightarrow> u32 option) \<Rightarrow> ifentry list \<Rightarrow> sume_mon \<Rightarrow> sume_mon" where
  "update_interface_table d resolve newlist m =
    (let a = filter_address d;
         b = fold (\<lambda>i. put d (kit_filter_row a i 0)) [0..<length (sm_ifl m)] (sm_board m);
         b = fold (\<lambda>i b. nf_set_mac d (ie_etha (newlist ! i)) i (put d (kit_filter_row a i (htonl (ie_ip (newlist ! i)))) b)) [0..<length newlist] b
     in m\<lparr>sm_board := put d (kit_filter_row a (length newlist) (htonl (ospf_ip resolve))) b\<rparr>)"

definition rtable_update :: "device \<Rightarrow> ipv4_entry list \<Rightarrow> sume_mon \<Rightarrow> sume_mon" where
  "rtable_update d rt' m =
    (let local = filter (\<lambda>e. devtoport m (rt_dev e) \<noteq> None) rt';
         m = (if \<not> rtable_eq (sm_rt m) local then update_routing_table d local m else m)
     in m\<lparr>sm_rt := local\<rparr>)"

definition arptable_update :: "device \<Rightarrow> arp_entry list \<Rightarrow> sume_mon \<Rightarrow> sume_mon" where
  "arptable_update d at' m =
    (let local = filter (\<lambda>e. devtoport m (at_dev e) \<noteq> None) at';
         m = (if \<not> arptable_eq (sm_at m) local then update_arp_table d local m else m)
     in m\<lparr>sm_at := local\<rparr>)"

definition interface_update :: "device \<Rightarrow> (string \<Rightarrow> u32 option) \<Rightarrow> ifentry list \<Rightarrow> sume_mon \<Rightarrow> sume_mon" where
  "interface_update d resolve ifl' m =
    (let local = filter (\<lambda>e. devtoport m (ie_name e) \<noteq> None) ifl';
         m = (if \<not> iflist_eq (sm_ifl m) local then update_interface_table d resolve local m else m)
     in m\<lparr>sm_ifl := local\<rparr>)"

section \<open>The daemon\<close>

record kernel =
  k_route :: "string option"
  k_arp :: "string option"
  k_ifconf :: "ifconf option"

record rkd =
  rtcur :: "ipv4_entry list"
  arpcur :: "arp_entry list"
  ifcur :: "ifentry list"
  eh_mon :: sume_mon

definition rkd_start :: "device \<Rightarrow> string \<Rightarrow> board \<Rightarrow> rkd" where
  "rkd_start d iface_mem b = \<lparr>rtcur = [], arpcur = [], ifcur = [], eh_mon = sume_mon_ctor d iface_mem b\<rparr>"

text \<open>One turn of the loop of \<^verbatim>\<open>main\<close>.\<close>

definition rkd_poll :: "device \<Rightarrow> (string \<Rightarrow> u32 option) \<Rightarrow> kernel \<Rightarrow> rkd \<Rightarrow> rkd res" where
  "rkd_poll d resolve k st =
    bindR (linux_proc_net_load_rtable (k_route k)) (\<lambda>rtcheck.
    let st = (if \<not> rtable_eq rtcheck (rtcur st) then st\<lparr>eh_mon := rtable_update d rtcheck (eh_mon st), rtcur := rtcheck\<rparr> else st) in
    bindR (linux_proc_net_load_arptable resolve (k_arp k)) (\<lambda>arpcheck.
    let st = (if \<not> arptable_eq arpcheck (arpcur st) then st\<lparr>arpcur := arpcheck, eh_mon := arptable_update d arpcheck (eh_mon st)\<rparr> else st) in
    bindR (fill_iflist (k_ifconf k)) (\<lambda>ifcheck.
    Inr (if \<not> iflist_eq ifcheck (ifcur st) then st\<lparr>eh_mon := interface_update d resolve ifcheck (eh_mon st), ifcur := ifcheck\<rparr> else st))))"

end
