(* ===== verification/Kit_Mirror.thy ===== *)
theory Kit_Mirror
  imports Router_Kit
begin

text \<open>
  The router kit keeps the hardware tables equal to the kernel's tables, restricted to the devices of the board: after every poll each of the 32 rows
  of the routing table and the ARP table holds the entry of that position or the empty entry, and the destination filter holds the
  addresses of the interfaces. The three row formats are instances of the locale \<open>row_writer\<close>.
\<close>

section \<open>Row formats\<close>

definition arp_view :: "row \<Rightarrow> u32 \<times> u32 \<times> u32" where
  "arp_view r = (case r of (ah, al, bh, bl) \<Rightarrow> (bl, ah, al))"

definition filter_view :: "row \<Rightarrow> u32" where
  "filter_view r = (case r of (ah, al, bh, bl) \<Rightarrow> bl)"

text \<open>A filter row with the hardware address that is written behind it, if any.\<close>

definition kit_if_row :: "u32 \<Rightarrow> nat \<Rightarrow> u32 \<times> ethernetaddr option \<Rightarrow> reg_log" where
  "kit_if_row a i e = kit_filter_row a i (fst e) @ (case snd e of None \<Rightarrow> [] | Some mac \<Rightarrow> mac_log i mac)"

interpretation kit_routes: row_writer kit_route_row "\<lambda>r. r" "\<lambda>r. r"
  by unfold_locales (auto simp: kit_route_row_def split: prod.splits)

interpretation kit_arps: row_writer kit_arp_row arp_view "\<lambda>r. r"
  by unfold_locales (auto simp: kit_arp_row_def arp_view_def split: prod.splits)

interpretation kit_ifs: row_writer kit_if_row filter_view fst
  by unfold_locales (auto simp: kit_if_row_def kit_filter_row_def mac_log_def filter_view_def split: option.splits)

section \<open>Equality of tables\<close>

lemma ipv4_entry_eq_iff [simp]: "ipv4_entry_eq a b \<longleftrightarrow> a = b"
  by (cases a; cases b) (auto simp: ipv4_entry_eq_def ipaddr_eq_def)

lemma rtable_eq_iff [simp]: "rtable_eq xs ys \<longleftrightarrow> xs = ys"
proof -
  have "ipv4_entry_eq = (=)" by (simp add: fun_eq_iff)
  then show ?thesis by (simp add: rtable_eq_def list.rel_eq)
qed

definition six_arp :: "arp_entry \<Rightarrow> bool" where
  "six_arp e = (length (at_etha e) = ETHER_LEN)"

definition six_if :: "ifentry \<Rightarrow> bool" where
  "six_if e = (length (ie_etha e) = ETHER_LEN)"

lemma arp_entry_eq_iff: "six_arp a \<Longrightarrow> six_arp b \<Longrightarrow> arp_entry_eq a b \<longleftrightarrow> a = b"
  by (cases a; cases b) (auto simp: arp_entry_eq_def ipaddr_eq_def six_arp_def ETHER_LEN_def ether_eq_iff)

lemma ifentry_eq_iff: "six_if a \<Longrightarrow> six_if b \<Longrightarrow> ifentry_eq a b \<longleftrightarrow> a = b"
  by (cases a; cases b) (auto simp: ifentry_eq_def ipaddr_eq_def six_if_def ETHER_LEN_def ether_eq_iff)

lemma list_all2_eqI:
  assumes "\<And>a b. P a \<Longrightarrow> P b \<Longrightarrow> R a b \<longleftrightarrow> a = b"
  shows "list_all P xs \<Longrightarrow> list_all P ys \<Longrightarrow> list_all2 R xs ys \<longleftrightarrow> xs = ys"
  by (induction xs ys rule: list_induct2') (auto simp: assms)

lemma arptable_eq_iff: "list_all six_arp xs \<Longrightarrow> list_all six_arp ys \<Longrightarrow> arptable_eq xs ys \<longleftrightarrow> xs = ys"
  unfolding arptable_eq_def by (rule list_all2_eqI [OF arp_entry_eq_iff])

lemma iflist_eq_iff: "list_all six_if xs \<Longrightarrow> list_all six_if ys \<Longrightarrow> iflist_eq xs ys \<longleftrightarrow> xs = ys"
  unfolding iflist_eq_def by (rule list_all2_eqI [OF ifentry_eq_iff])

section \<open>What is read has six-byte addresses\<close>

lemma load_arps_six: "load_arps resolve bufs vs tab = Inr t \<Longrightarrow> list_all six_arp tab \<Longrightarrow> list_all six_arp t"
  by (induction bufs arbitrary: vs tab)
    (auto simp: bindR_eq_Inr Let_def arptable_add_def six_arp_def split: if_splits)

lemma load_arptable_six: "linux_proc_net_load_arptable resolve fd = Inr t \<Longrightarrow> list_all six_arp t"
  unfolding linux_proc_net_load_arptable_def by (auto simp: bindR_eq_Inr dest: load_arps_six)

lemma set_octet_six: "set_octet oct = Inr a \<Longrightarrow> length a = ETHER_LEN"
  by (auto simp: set_octet_def ld_bytes_def split: if_splits)

lemma fill_entries_six: "fill_entries ifs ifl = Inr t \<Longrightarrow> list_all six_if ifl \<Longrightarrow> list_all six_if t"
proof (induction ifs arbitrary: ifl)
  case (Cons x ifs)
  obtain ip hw name where "x = (ip, hw, name)" by (cases x)
  with Cons show ?case
    by (auto simp: bindR_eq_Inr iflist_add_entry_def six_if_def dest!: set_octet_six split: option.splits)
qed simp

lemma fill_iflist_six: "fill_iflist ifc = Inr t \<Longrightarrow> list_all six_if t"
  using fill_entries_six by (auto simp: fill_iflist_def split: option.splits)

section \<open>What an update writes\<close>

lemma table_log_map: "table_log f (map g es) = concat (map (\<lambda>i. f i (g (es ! i))) [0..<length es])"
  unfolding table_log_def by (rule arg_cong [of _ _ concat]) simp

lemma table_log_replicate: "table_log f (replicate n e) = concat (map (\<lambda>i. f i e) [0..<n])"
  unfolding table_log_def by (rule arg_cong [of _ _ concat]) simp

definition route_cell :: "sume_mon \<Rightarrow> ipv4_entry \<Rightarrow> row" where
  "route_cell m e = (htonl (rt_dest e), htonl (rt_gw e), htonl (rt_mask e), word_of_int (the (devtoport m (rt_dev e))))"

definition arp_cell :: "arp_entry \<Rightarrow> u32 \<times> u32 \<times> u32" where
  "arp_cell e = (ntohl (at_ip e), mac_hi (at_etha e), mac_lo (at_etha e))"

definition if_cell :: "ifentry \<Rightarrow> u32 \<times> ethernetaddr option" where
  "if_cell e = (htonl (ie_ip e), Some (ie_etha e))"

definition known :: "sume_mon \<Rightarrow> string \<Rightarrow> bool" where
  "known m dev = (devtoport m dev \<noteq> None)"

lemma write_routes:
  assumes "\<forall>i\<in>set is. known m (rt_dev (newrt ! i))"
  shows "fold (\<lambda>i. write_route d i (newrt ! i)) is m =
    m\<lparr>sm_board := put d (concat (map (\<lambda>i. kit_route_row (lpm_address d) i (route_cell m (newrt ! i))) is)) (sm_board m)\<rparr>"
  using assms
proof (induction "is" arbitrary: m)
  case (Cons i js)
  let ?b = "put d (kit_route_row (lpm_address d) i (route_cell m (newrt ! i))) (sm_board m)"
  have step: "write_route d i (newrt ! i) m = m\<lparr>sm_board := ?b\<rparr>"
    using Cons.prems by (auto simp: write_route_def devtoport_at_def route_cell_def known_def)
  have cell: "route_cell (m\<lparr>sm_board := ?b\<rparr>) = route_cell m" by (simp add: route_cell_def fun_eq_iff)
  have "\<forall>k\<in>set js. known (m\<lparr>sm_board := ?b\<rparr>) (rt_dev (newrt ! k))" using Cons.prems by (simp add: known_def)
  from Cons.IH [OF this] show ?case by (simp add: step cell put_append)
qed simp

lemma update_routing_table_log:
  assumes "\<forall>e\<in>set newrt. known m (rt_dev e)"
  shows "update_routing_table d newrt m = m\<lparr>sm_board := put d
    (table_log (kit_route_row (lpm_address d)) (replicate (length (sm_rt m)) no_route) @
     table_log (kit_route_row (lpm_address d)) (map (route_cell m) newrt)) (sm_board m)\<rparr>"
proof -
  have "\<forall>i\<in>set [0..<length newrt]. known (m\<lparr>sm_board := b\<rparr>) (rt_dev (newrt ! i))" for b
    using assms by (simp add: known_def)
  from write_routes [OF this] show ?thesis
    by (simp add: update_routing_table_def Let_def fold_put table_log_map table_log_replicate put_append route_cell_def)
qed

lemma update_arp_table_log:
  "update_arp_table d newat m = m\<lparr>sm_board := put d
    (table_log (kit_arp_row (arp_address d)) (replicate (length (sm_at m)) (0, 0, 0)) @
     table_log (kit_arp_row (arp_address d)) (map arp_cell newat)) (sm_board m)\<rparr>"
  by (simp add: update_arp_table_def Let_def fold_put table_log_map table_log_replicate put_append arp_cell_def)

lemma update_interface_table_log:
  "update_interface_table d resolve newlist m = m\<lparr>sm_board := put d
    (table_log (kit_if_row (filter_address d)) (replicate (length (sm_ifl m)) (0, None)) @
     table_log (kit_if_row (filter_address d)) (map if_cell newlist @ [(htonl (ospf_ip resolve), None)])) (sm_board m)\<rparr>"
proof -
  have "nf_set_mac d mac i (put d (kit_filter_row a i ip) b) = put d (kit_if_row a i (ip, Some mac)) b" for mac i a ip b
    by (simp add: nf_set_mac_def kit_if_row_def put_append)
  moreover have "kit_filter_row a i ip = kit_if_row a i (ip, None)" for a i ip by (simp add: kit_if_row_def)
  ultimately show ?thesis
    by (simp add: update_interface_table_def Let_def fold_put table_log_snoc table_log_map table_log_replicate put_append if_cell_def)
qed

section \<open>The hardware mirrors the tables\<close>

text \<open>The three tables have 32 rows each, at addresses of their own.\<close>

definition tables_apart :: "device \<Rightarrow> bool" where
  "tables_apart d = distinct (map (row_addr (lpm_address d)) [0..<FIXME_MAX] @ map (row_addr (arp_address d)) [0..<FIXME_MAX] @
    map (row_addr (filter_address d)) [0..<FIXME_MAX])"

lemma tables_apartD:
  assumes "tables_apart d"
  shows "inj_on (row_addr (lpm_address d)) {..<FIXME_MAX}" "inj_on (row_addr (arp_address d)) {..<FIXME_MAX}"
    "inj_on (row_addr (filter_address d)) {..<FIXME_MAX}"
    "j < FIXME_MAX \<Longrightarrow> row_addr (lpm_address d) j \<notin> rows_of (arp_address d) FIXME_MAX"
    "j < FIXME_MAX \<Longrightarrow> row_addr (lpm_address d) j \<notin> rows_of (filter_address d) FIXME_MAX"
    "j < FIXME_MAX \<Longrightarrow> row_addr (arp_address d) j \<notin> rows_of (lpm_address d) FIXME_MAX"
    "j < FIXME_MAX \<Longrightarrow> row_addr (arp_address d) j \<notin> rows_of (filter_address d) FIXME_MAX"
    "j < FIXME_MAX \<Longrightarrow> row_addr (filter_address d) j \<notin> rows_of (lpm_address d) FIXME_MAX"
    "j < FIXME_MAX \<Longrightarrow> row_addr (filter_address d) j \<notin> rows_of (arp_address d) FIXME_MAX"
proof -
  let ?R = "\<lambda>a. rows_of a FIXME_MAX"
  have "?R (lpm_address d) \<inter> ?R (arp_address d) = {}" "?R (lpm_address d) \<inter> ?R (filter_address d) = {}" "?R (arp_address d) \<inter> ?R (filter_address d) = {}"
    using assms by (auto simp: tables_apart_def rows_of_def lessThan_atLeast0)
  moreover have "j < FIXME_MAX \<Longrightarrow> row_addr a j \<in> ?R a" for a by (simp add: rows_of_def)
  ultimately show "j < FIXME_MAX \<Longrightarrow> row_addr (lpm_address d) j \<notin> ?R (arp_address d)" "j < FIXME_MAX \<Longrightarrow> row_addr (lpm_address d) j \<notin> ?R (filter_address d)"
    "j < FIXME_MAX \<Longrightarrow> row_addr (arp_address d) j \<notin> ?R (lpm_address d)" "j < FIXME_MAX \<Longrightarrow> row_addr (arp_address d) j \<notin> ?R (filter_address d)"
    "j < FIXME_MAX \<Longrightarrow> row_addr (filter_address d) j \<notin> ?R (lpm_address d)" "j < FIXME_MAX \<Longrightarrow> row_addr (filter_address d) j \<notin> ?R (arp_address d)"
    by blast+
qed (use assms in \<open>auto simp: tables_apart_def distinct_map lessThan_atLeast0\<close>)

definition route_rows_ok :: "device \<Rightarrow> sume_mon \<Rightarrow> bool" where
  "route_rows_ok d m = (\<forall>j<FIXME_MAX. seen (\<lambda>r. r) (writes (sm_board m)) (row_addr (lpm_address d) j) =
    Some (if j < length (sm_rt m) then route_cell m (sm_rt m ! j) else no_route))"

definition arp_rows_ok :: "device \<Rightarrow> sume_mon \<Rightarrow> bool" where
  "arp_rows_ok d m = (\<forall>j<FIXME_MAX. seen arp_view (writes (sm_board m)) (row_addr (arp_address d) j) =
    Some (if j < length (sm_at m) then arp_cell (sm_at m ! j) else (0, 0, 0)))"

text \<open>A row behind the interfaces is empty or holds the address of the routing protocol; the first one does, once there is an interface.\<close>

definition filter_rows_ok :: "device \<Rightarrow> (string \<Rightarrow> u32 option) \<Rightarrow> sume_mon \<Rightarrow> bool" where
  "filter_rows_ok d resolve m = (\<forall>j<FIXME_MAX.
    let r = seen filter_view (writes (sm_board m)) (row_addr (filter_address d) j) in
    if j < length (sm_ifl m) then r = Some (htonl (ie_ip (sm_ifl m ! j)))
    else if j = length (sm_ifl m) \<and> sm_ifl m \<noteq> [] then r = Some (htonl (ospf_ip resolve))
    else r = Some 0 \<or> r = Some (htonl (ospf_ip resolve)))"

definition mirrors :: "device \<Rightarrow> (string \<Rightarrow> u32 option) \<Rightarrow> sume_mon \<Rightarrow> bool" where
  "mirrors d resolve m = (route_rows_ok d m \<and> arp_rows_ok d m \<and> filter_rows_ok d resolve m)"

definition kit_fits :: "sume_mon \<Rightarrow> bool" where
  "kit_fits m = (length (sm_rt m) \<le> FIXME_MAX \<and> length (sm_at m) \<le> FIXME_MAX \<and> length (sm_ifl m) < FIXME_MAX)"

text \<open>Every entry belongs to a device of the board, and every hardware address has six bytes.\<close>

definition kit_typed :: "sume_mon \<Rightarrow> bool" where
  "kit_typed m = (list_all (\<lambda>e. known m (rt_dev e)) (sm_rt m) \<and> list_all (\<lambda>e. known m (at_dev e) \<and> six_arp e) (sm_at m) \<and>
    list_all (\<lambda>e. known m (ie_name e) \<and> six_if e) (sm_ifl m))"

lemma route_rows_frame:
  assumes "route_rows_ok d m" "\<And>j. j < FIXME_MAX \<Longrightarrow> hw_rows (writes (sm_board m')) (row_addr (lpm_address d) j) = hw_rows (writes (sm_board m)) (row_addr (lpm_address d) j)"
    "sm_rt m' = sm_rt m" "devtoport m' = devtoport m"
  shows "route_rows_ok d m'"
proof -
  have "j < FIXME_MAX \<Longrightarrow> seen (\<lambda>r. r) (writes (sm_board m')) (row_addr (lpm_address d) j) = seen (\<lambda>r. r) (writes (sm_board m)) (row_addr (lpm_address d) j)" for j
    using assms(2) by (simp add: seen_def)
  with assms(1,3,4) show ?thesis by (simp add: route_rows_ok_def route_cell_def)
qed

lemma kit_arp_rows_frame:
  assumes "arp_rows_ok d m" "\<And>j. j < FIXME_MAX \<Longrightarrow> hw_rows (writes (sm_board m')) (row_addr (arp_address d) j) = hw_rows (writes (sm_board m)) (row_addr (arp_address d) j)"
    "sm_at m' = sm_at m"
  shows "arp_rows_ok d m'"
proof -
  have "j < FIXME_MAX \<Longrightarrow> seen arp_view (writes (sm_board m')) (row_addr (arp_address d) j) = seen arp_view (writes (sm_board m)) (row_addr (arp_address d) j)" for j
    using assms(2) by (simp add: seen_def)
  with assms(1,3) show ?thesis by (simp add: arp_rows_ok_def)
qed

lemma filter_rows_frame:
  assumes "filter_rows_ok d resolve m" "\<And>j. j < FIXME_MAX \<Longrightarrow> hw_rows (writes (sm_board m')) (row_addr (filter_address d) j) = hw_rows (writes (sm_board m)) (row_addr (filter_address d) j)"
    "sm_ifl m' = sm_ifl m"
  shows "filter_rows_ok d resolve m'"
proof -
  have "j < FIXME_MAX \<Longrightarrow> seen filter_view (writes (sm_board m')) (row_addr (filter_address d) j) = seen filter_view (writes (sm_board m)) (row_addr (filter_address d) j)" for j
    using assms(2) by (simp add: seen_def)
  with assms(1,3) show ?thesis by (simp add: filter_rows_ok_def Let_def)
qed

lemma update_routing_table_mirrors:
  assumes "all_ok d" "tables_apart d" "mirrors d resolve m" "kit_fits m" "length newrt \<le> FIXME_MAX" "\<forall>e\<in>set newrt. known m (rt_dev e)"
  shows "mirrors d resolve ((update_routing_table d newrt m)\<lparr>sm_rt := newrt\<rparr>)" (is "mirrors d resolve ?m")
proof -
  note apart = tables_apartD [OF assms(2)]
  note log = update_routing_table_log [OF assms(6)]
  have "hw_rows (writes (sm_board ?m)) x = hw_rows (writes (sm_board m)) x" if "x \<notin> rows_of (lpm_address d) FIXME_MAX" for x
    unfolding log using kit_routes.replace_other [OF that] assms(4,5) by (simp add: put_writes [OF assms(1)] kit_fits_def)
  then have "arp_rows_ok d ?m" "filter_rows_ok d resolve ?m"
    using assms(3) apart(6,8) by (auto simp: mirrors_def log intro: kit_arp_rows_frame [of d m] filter_rows_frame [of d resolve m])
  moreover have "route_rows_ok d ?m"
    using kit_routes.replace_table [OF apart(1), of "length (sm_rt m)" "map (route_cell m) newrt" "writes (sm_board m)" no_route] assms(3,4,5)
    by (simp add: log put_writes [OF assms(1)] mirrors_def route_rows_ok_def kit_fits_def route_cell_def)
  ultimately show ?thesis by (simp add: mirrors_def)
qed

lemma update_arp_table_mirrors:
  assumes "all_ok d" "tables_apart d" "mirrors d resolve m" "kit_fits m" "length newat \<le> FIXME_MAX"
  shows "mirrors d resolve ((update_arp_table d newat m)\<lparr>sm_at := newat\<rparr>)" (is "mirrors d resolve ?m")
proof -
  note apart = tables_apartD [OF assms(2)]
  have "hw_rows (writes (sm_board ?m)) x = hw_rows (writes (sm_board m)) x" if "x \<notin> rows_of (arp_address d) FIXME_MAX" for x
    unfolding update_arp_table_log using kit_arps.replace_other [OF that] assms(4,5) by (simp add: put_writes [OF assms(1)] kit_fits_def)
  then have "route_rows_ok d ?m" "filter_rows_ok d resolve ?m"
    using assms(3) apart(4,9) by (auto simp: mirrors_def update_arp_table_log intro: route_rows_frame [of d m] filter_rows_frame [of d resolve m])
  moreover have "arp_rows_ok d ?m"
    using kit_arps.replace_table [OF apart(2), of "length (sm_at m)" "map arp_cell newat" "writes (sm_board m)" "(0, 0, 0)"] assms(3,4,5)
    by (simp add: update_arp_table_log put_writes [OF assms(1)] mirrors_def arp_rows_ok_def kit_fits_def)
  ultimately show ?thesis by (simp add: mirrors_def)
qed

lemma update_interface_table_mirrors:
  assumes "all_ok d" "tables_apart d" "mirrors d resolve m" "kit_fits m" "length newlist < FIXME_MAX"
  shows "mirrors d resolve ((update_interface_table d resolve newlist m)\<lparr>sm_ifl := newlist\<rparr>)" (is "mirrors d resolve ?m")
proof -
  note apart = tables_apartD [OF assms(2)]
  let ?f = "kit_if_row (filter_address d)"
  let ?new = "map if_cell newlist @ [(htonl (ospf_ip resolve), None)]"
  let ?mid = "writes (sm_board m) @ table_log ?f (replicate (length (sm_ifl m)) (0, None))"
  have "hw_rows (writes (sm_board ?m)) x = hw_rows (writes (sm_board m)) x" if "x \<notin> rows_of (filter_address d) FIXME_MAX" for x
    unfolding update_interface_table_log using kit_ifs.replace_other [OF that] assms(4,5) by (simp add: put_writes [OF assms(1)] kit_fits_def)
  then have others: "route_rows_ok d ?m" "arp_rows_ok d ?m"
    using assms(3) apart(5,7) by (auto simp: mirrors_def update_interface_table_log intro: route_rows_frame [of d m] kit_arp_rows_frame [of d m])
  have mid: "seen filter_view ?mid (row_addr (filter_address d) j) =
      (if j < length (sm_ifl m) then Some 0 else seen filter_view (writes (sm_board m)) (row_addr (filter_address d) j))" if "j < FIXME_MAX" for j
    using kit_ifs.table_rows [OF apart(3) that, of "replicate (length (sm_ifl m)) (0, None)" "writes (sm_board m)"] assms(4)
    by (auto simp: kit_fits_def)
  have rows: "seen filter_view (?mid @ table_log ?f ?new) (row_addr (filter_address d) j) =
      (if j < length newlist then Some (htonl (ie_ip (newlist ! j))) else if j = length newlist then Some (htonl (ospf_ip resolve))
       else seen filter_view ?mid (row_addr (filter_address d) j))" if "j < FIXME_MAX" for j
    using kit_ifs.table_rows [OF apart(3) that, of ?new ?mid] assms(5) by (auto simp: nth_append if_cell_def)
  have "filter_rows_ok d resolve ?m"
    unfolding filter_rows_ok_def
  proof (intro allI impI)
    fix j
    assume j: "j < FIXME_MAX"
    then show "let r = seen filter_view (writes (sm_board ?m)) (row_addr (filter_address d) j) in
      if j < length (sm_ifl ?m) then r = Some (htonl (ie_ip (sm_ifl ?m ! j)))
      else if j = length (sm_ifl ?m) \<and> sm_ifl ?m \<noteq> [] then r = Some (htonl (ospf_ip resolve))
      else r = Some 0 \<or> r = Some (htonl (ospf_ip resolve))"
      using assms(3) rows [OF j] mid [OF j]
      by (auto simp: update_interface_table_log put_writes [OF assms(1)] mirrors_def filter_rows_ok_def Let_def split: if_splits)
  qed
  with others show ?thesis by (simp add: mirrors_def)
qed

section \<open>The updates\<close>

lemma known_filter: "list_all (\<lambda>e. known m (f e)) (filter (\<lambda>e. devtoport m (f e) \<noteq> None) es)"
  by (auto simp: list_all_iff known_def)

lemma rtable_update_ok:
  assumes "all_ok d" "tables_apart d" "mirrors d resolve m" "kit_fits m" "kit_typed m" "length (filter (\<lambda>e. known m (rt_dev e)) rt') \<le> FIXME_MAX"
  shows "mirrors d resolve (rtable_update d rt' m) \<and> kit_typed (rtable_update d rt' m) \<and> kit_fits (rtable_update d rt' m) \<and>
    sm_rt (rtable_update d rt' m) = filter (\<lambda>e. known m (rt_dev e)) rt' \<and> devtoport (rtable_update d rt' m) = devtoport m \<and>
    sm_at (rtable_update d rt' m) = sm_at m \<and> sm_ifl (rtable_update d rt' m) = sm_ifl m"
proof -
  let ?l = "filter (\<lambda>e. known m (rt_dev e)) rt'"
  have k: "\<forall>e\<in>set ?l. known m (rt_dev e)" by simp
  have eq: "rtable_update d rt' m = (if sm_rt m = ?l then m else update_routing_table d ?l m)\<lparr>sm_rt := ?l\<rparr>"
    by (simp add: rtable_update_def Let_def known_def)
  have same: "m\<lparr>sm_rt := ?l\<rparr> = m" if "sm_rt m = ?l" by (simp add: that [symmetric])
  have "mirrors d resolve (rtable_update d rt' m)" using update_routing_table_mirrors [OF assms(1-4,6) k] assms(3) same unfolding eq
    by (cases "sm_rt m = ?l") (simp_all only: if_True if_False simp_thms)
  moreover have fields: "sm_rt (rtable_update d rt' m) = ?l" "devtoport (rtable_update d rt' m) = devtoport m" "sm_at (rtable_update d rt' m) = sm_at m" "sm_ifl (rtable_update d rt' m) = sm_ifl m"
    by (simp_all add: eq update_routing_table_log [OF k])
  moreover have "kit_typed (rtable_update d rt' m)" using assms(5) unfolding kit_typed_def known_def fields by (auto simp: list_all_iff)
  moreover have "kit_fits (rtable_update d rt' m)" using assms(4,6) unfolding kit_fits_def fields by simp
  ultimately show ?thesis by simp
qed

lemma arptable_update_ok:
  assumes "all_ok d" "tables_apart d" "mirrors d resolve m" "kit_fits m" "kit_typed m" "length (filter (\<lambda>e. known m (at_dev e)) at') \<le> FIXME_MAX"
    "list_all six_arp at'"
  shows "mirrors d resolve (arptable_update d at' m) \<and> kit_typed (arptable_update d at' m) \<and> kit_fits (arptable_update d at' m) \<and>
    sm_at (arptable_update d at' m) = filter (\<lambda>e. known m (at_dev e)) at' \<and> devtoport (arptable_update d at' m) = devtoport m \<and>
    sm_rt (arptable_update d at' m) = sm_rt m \<and> sm_ifl (arptable_update d at' m) = sm_ifl m"
proof -
  let ?l = "filter (\<lambda>e. known m (at_dev e)) at'"
  have six: "list_all six_arp (sm_at m)" "list_all six_arp ?l" using assms(5,7) by (auto simp: kit_typed_def list_all_iff)
  have eq: "arptable_update d at' m = (if sm_at m = ?l then m else update_arp_table d ?l m)\<lparr>sm_at := ?l\<rparr>"
    using arptable_eq_iff [OF six] by (simp add: arptable_update_def Let_def known_def)
  have same: "m\<lparr>sm_at := ?l\<rparr> = m" if "sm_at m = ?l" by (simp add: that [symmetric])
  have "mirrors d resolve (arptable_update d at' m)" using update_arp_table_mirrors [OF assms(1-4,6)] assms(3) same unfolding eq
    by (cases "sm_at m = ?l") (simp_all only: if_True if_False simp_thms)
  moreover have fields: "sm_at (arptable_update d at' m) = ?l" "devtoport (arptable_update d at' m) = devtoport m" "sm_rt (arptable_update d at' m) = sm_rt m" "sm_ifl (arptable_update d at' m) = sm_ifl m"
    by (simp_all add: eq update_arp_table_log)
  moreover have "kit_typed (arptable_update d at' m)" using assms(5) six(2) unfolding kit_typed_def known_def fields by (auto simp: list_all_iff)
  moreover have "kit_fits (arptable_update d at' m)" using assms(4,6) unfolding kit_fits_def fields by simp
  ultimately show ?thesis by simp
qed

lemma interface_update_ok:
  assumes "all_ok d" "tables_apart d" "mirrors d resolve m" "kit_fits m" "kit_typed m" "length (filter (\<lambda>e. known m (ie_name e)) ifl') < FIXME_MAX"
    "list_all six_if ifl'"
  shows "mirrors d resolve (interface_update d resolve ifl' m) \<and> kit_typed (interface_update d resolve ifl' m) \<and> kit_fits (interface_update d resolve ifl' m) \<and>
    sm_ifl (interface_update d resolve ifl' m) = filter (\<lambda>e. known m (ie_name e)) ifl' \<and> devtoport (interface_update d resolve ifl' m) = devtoport m \<and>
    sm_rt (interface_update d resolve ifl' m) = sm_rt m \<and> sm_at (interface_update d resolve ifl' m) = sm_at m"
proof -
  let ?l = "filter (\<lambda>e. known m (ie_name e)) ifl'"
  have six: "list_all six_if (sm_ifl m)" "list_all six_if ?l" using assms(5,7) by (auto simp: kit_typed_def list_all_iff)
  have eq: "interface_update d resolve ifl' m = (if sm_ifl m = ?l then m else update_interface_table d resolve ?l m)\<lparr>sm_ifl := ?l\<rparr>"
    using iflist_eq_iff [OF six] by (simp add: interface_update_def Let_def known_def)
  have same: "m\<lparr>sm_ifl := ?l\<rparr> = m" if "sm_ifl m = ?l" by (simp add: that [symmetric])
  have "mirrors d resolve (interface_update d resolve ifl' m)" using update_interface_table_mirrors [OF assms(1-4,6)] assms(3) same unfolding eq
    by (cases "sm_ifl m = ?l") (simp_all only: if_True if_False simp_thms)
  moreover have fields: "sm_ifl (interface_update d resolve ifl' m) = ?l" "devtoport (interface_update d resolve ifl' m) = devtoport m" "sm_rt (interface_update d resolve ifl' m) = sm_rt m" "sm_at (interface_update d resolve ifl' m) = sm_at m"
    by (simp_all add: eq update_interface_table_log)
  moreover have "kit_typed (interface_update d resolve ifl' m)" using assms(5) six(2) unfolding kit_typed_def known_def fields by (auto simp: list_all_iff)
  moreover have "kit_fits (interface_update d resolve ifl' m)" using assms(4,6) unfolding kit_fits_def fields by simp
  ultimately show ?thesis by simp
qed

lemma ctor_mirrors:
  assumes "all_ok d" "tables_apart d"
  shows "mirrors d resolve (sume_mon_ctor d iface_mem b)"
proof -
  note apart = tables_apartD [OF assms(2)]
  let ?r = "table_log (kit_route_row (lpm_address d)) (replicate FIXME_MAX no_route)"
  let ?a = "table_log (kit_arp_row (arp_address d)) (replicate FIXME_MAX (0, 0, 0))"
  let ?f = "table_log (kit_if_row (filter_address d)) (replicate FIXME_MAX (0, None))"
  have "kit_filter_row a i ip = kit_if_row a i (ip, None)" for a i ip by (simp add: kit_if_row_def)
  then have ws: "writes (sm_board (sume_mon_ctor d iface_mem b)) = ((writes b @ ?r) @ ?a) @ ?f"
    by (simp add: sume_mon_ctor_def clear_hw_rtable_def clear_hw_arptable_def clear_dst_filter_rtable_def fold_put Let_def
        put_writes [OF assms(1)] table_log_replicate)
  have "hw_rows (((writes b @ ?r) @ ?a) @ ?f) (row_addr (lpm_address d) j) = hw_rows (writes b @ ?r) (row_addr (lpm_address d) j)" if "j < FIXME_MAX" for j
    using kit_ifs.table_other [OF apart(5) [OF that]] kit_arps.table_other [OF apart(4) [OF that]] by (simp del: append_assoc)
  moreover have "hw_rows (((writes b @ ?r) @ ?a) @ ?f) (row_addr (arp_address d) j) = hw_rows ((writes b @ ?r) @ ?a) (row_addr (arp_address d) j)" if "j < FIXME_MAX" for j
    using kit_ifs.table_other [OF apart(7) [OF that]] by (simp del: append_assoc)
  ultimately have "j < FIXME_MAX \<Longrightarrow> seen (\<lambda>r. r) (((writes b @ ?r) @ ?a) @ ?f) (row_addr (lpm_address d) j) = Some no_route"
    "j < FIXME_MAX \<Longrightarrow> seen arp_view (((writes b @ ?r) @ ?a) @ ?f) (row_addr (arp_address d) j) = Some (0, 0, 0)" for j
    using kit_routes.clear_table [OF apart(1), of j "writes b" no_route] kit_arps.clear_table [OF apart(2), of j "writes b @ ?r" "(0, 0, 0)"]
    by (simp_all add: seen_def del: append_assoc)
  moreover have "sm_rt (sume_mon_ctor d iface_mem b) = []" "sm_at (sume_mon_ctor d iface_mem b) = []" "sm_ifl (sume_mon_ctor d iface_mem b) = []"
    by (simp_all add: sume_mon_ctor_def Let_def)
  ultimately show ?thesis using kit_ifs.clear_table [OF apart(3), of _ "(writes b @ ?r) @ ?a" "(0, None)"] unfolding mirrors_def
    route_rows_ok_def arp_rows_ok_def filter_rows_ok_def ws by (simp add: Let_def del: append_assoc)
qed

section \<open>Runs of the daemon\<close>

text \<open>The entries that the kernel shows for the devices of the board fit into the hardware tables.\<close>

definition kernel_fits :: "(string \<Rightarrow> u32 option) \<Rightarrow> sume_mon \<Rightarrow> kernel \<Rightarrow> bool" where
  "kernel_fits resolve m k =
    ((case linux_proc_net_load_rtable (k_route k) of Inl _ \<Rightarrow> True | Inr es \<Rightarrow> length (filter (\<lambda>e. known m (rt_dev e)) es) \<le> FIXME_MAX) \<and>
     (case linux_proc_net_load_arptable resolve (k_arp k) of Inl _ \<Rightarrow> True | Inr es \<Rightarrow> length (filter (\<lambda>e. known m (at_dev e)) es) \<le> FIXME_MAX) \<and>
     (case fill_iflist (k_ifconf k) of Inl _ \<Rightarrow> True | Inr es \<Rightarrow> length (filter (\<lambda>e. known m (ie_name e)) es) < FIXME_MAX))"

text \<open>A run: what the kernel showed, poll by poll.\<close>

inductive rkd_runs :: "device \<Rightarrow> (string \<Rightarrow> u32 option) \<Rightarrow> string \<Rightarrow> board \<Rightarrow> kernel list \<Rightarrow> rkd \<Rightarrow> bool"
  for d resolve iface_mem b where
  start: "rkd_runs d resolve iface_mem b [] (rkd_start d iface_mem b)"
| poll: "rkd_runs d resolve iface_mem b ks st \<Longrightarrow> kernel_fits resolve (eh_mon st) k \<Longrightarrow> rkd_poll d resolve k st = Inr st' \<Longrightarrow>
    rkd_runs d resolve iface_mem b (ks @ [k]) st'"

inductive_cases rkd_runs_snoc: "rkd_runs d resolve iface_mem b (ks @ [k]) st"

definition synced :: "device \<Rightarrow> (string \<Rightarrow> u32 option) \<Rightarrow> rkd \<Rightarrow> bool" where
  "synced d resolve st =
    (let m = eh_mon st in
     mirrors d resolve m \<and> kit_typed m \<and> kit_fits m \<and> list_all six_arp (arpcur st) \<and> list_all six_if (ifcur st) \<and>
     sm_rt m = filter (\<lambda>e. known m (rt_dev e)) (rtcur st) \<and> sm_at m = filter (\<lambda>e. known m (at_dev e)) (arpcur st) \<and>
     sm_ifl m = filter (\<lambda>e. known m (ie_name e)) (ifcur st))"

lemma start_synced: "all_ok d \<Longrightarrow> tables_apart d \<Longrightarrow> synced d resolve (rkd_start d iface_mem b)"
  using ctor_mirrors [of d resolve iface_mem b]
  by (simp add: synced_def rkd_start_def sume_mon_ctor_def kit_typed_def kit_fits_def FIXME_MAX_def Let_def)

text \<open>The three parts of a poll.\<close>

lemma poll_routes:
  assumes "all_ok d" "tables_apart d" "synced d resolve st" "length (filter (\<lambda>e. known (eh_mon st) (rt_dev e)) es) \<le> FIXME_MAX"
    and st': "st' = (if \<not> rtable_eq es (rtcur st) then st\<lparr>eh_mon := rtable_update d es (eh_mon st), rtcur := es\<rparr> else st)"
  shows "synced d resolve st' \<and> rtcur st' = es \<and> known (eh_mon st') = known (eh_mon st) \<and> devtoport (eh_mon st') = devtoport (eh_mon st)"
proof -
  have "known (rtable_update d es (eh_mon st)) = known (eh_mon st)"
    using rtable_update_ok [of d resolve "eh_mon st" es] assms(1-4) by (auto simp: synced_def known_def fun_eq_iff Let_def)
  then show ?thesis using rtable_update_ok [of d resolve "eh_mon st" es] assms(1-4) unfolding st' by (auto simp: synced_def Let_def)
qed

lemma poll_arps:
  assumes "all_ok d" "tables_apart d" "synced d resolve st" "length (filter (\<lambda>e. known (eh_mon st) (at_dev e)) es) \<le> FIXME_MAX" "list_all six_arp es"
    and st': "st' = (if \<not> arptable_eq es (arpcur st) then st\<lparr>arpcur := es, eh_mon := arptable_update d es (eh_mon st)\<rparr> else st)"
  shows "synced d resolve st' \<and> arpcur st' = es \<and> rtcur st' = rtcur st \<and> known (eh_mon st') = known (eh_mon st) \<and> devtoport (eh_mon st') = devtoport (eh_mon st)"
proof -
  have k: "known (arptable_update d es (eh_mon st)) = known (eh_mon st)"
    using arptable_update_ok [of d resolve "eh_mon st" es] assms(1-5) by (auto simp: synced_def known_def fun_eq_iff Let_def)
  have "arptable_eq es (arpcur st) \<longleftrightarrow> es = arpcur st" using assms(3,5) by (auto simp: synced_def Let_def arptable_eq_iff)
  then show ?thesis using k arptable_update_ok [of d resolve "eh_mon st" es] assms(1-5) unfolding st' by (auto simp: synced_def Let_def)
qed

lemma poll_ifs:
  assumes "all_ok d" "tables_apart d" "synced d resolve st" "length (filter (\<lambda>e. known (eh_mon st) (ie_name e)) es) < FIXME_MAX" "list_all six_if es"
    and st': "st' = (if \<not> iflist_eq es (ifcur st) then st\<lparr>eh_mon := interface_update d resolve es (eh_mon st), ifcur := es\<rparr> else st)"
  shows "synced d resolve st' \<and> ifcur st' = es \<and> rtcur st' = rtcur st \<and> arpcur st' = arpcur st \<and> devtoport (eh_mon st') = devtoport (eh_mon st)"
proof -
  have k: "known (interface_update d resolve es (eh_mon st)) = known (eh_mon st)"
    using interface_update_ok [of d resolve "eh_mon st" es] assms(1-5) by (auto simp: synced_def known_def fun_eq_iff Let_def)
  have "iflist_eq es (ifcur st) \<longleftrightarrow> es = ifcur st" using assms(3,5) by (auto simp: synced_def Let_def iflist_eq_iff)
  then show ?thesis using k interface_update_ok [of d resolve "eh_mon st" es] assms(1-5) unfolding st' by (auto simp: synced_def Let_def)
qed

lemma poll_synced:
  assumes "all_ok d" "tables_apart d" "synced d resolve st" "kernel_fits resolve (eh_mon st) k" "rkd_poll d resolve k st = Inr st'"
  shows "synced d resolve st' \<and> linux_proc_net_load_rtable (k_route k) = Inr (rtcur st') \<and>
    linux_proc_net_load_arptable resolve (k_arp k) = Inr (arpcur st') \<and> fill_iflist (k_ifconf k) = Inr (ifcur st') \<and>
    devtoport (eh_mon st') = devtoport (eh_mon st)"
proof -
  from assms(5) obtain rt ar ifs where loads: "linux_proc_net_load_rtable (k_route k) = Inr rt"
      "linux_proc_net_load_arptable resolve (k_arp k) = Inr ar" "fill_iflist (k_ifconf k) = Inr ifs"
    by (auto simp: rkd_poll_def bindR_eq_Inr Let_def)
  let ?s1 = "if \<not> rtable_eq rt (rtcur st) then st\<lparr>eh_mon := rtable_update d rt (eh_mon st), rtcur := rt\<rparr> else st"
  let ?s2 = "if \<not> arptable_eq ar (arpcur ?s1) then ?s1\<lparr>arpcur := ar, eh_mon := arptable_update d ar (eh_mon ?s1)\<rparr> else ?s1"
  have st': "st' = (if \<not> iflist_eq ifs (ifcur ?s2) then ?s2\<lparr>eh_mon := interface_update d resolve ifs (eh_mon ?s2), ifcur := ifs\<rparr> else ?s2)"
    using assms(5) loads by (simp only: rkd_poll_def Let_def bindR_Inr sum.inject)
  have fits: "length (filter (\<lambda>e. known (eh_mon st) (rt_dev e)) rt) \<le> FIXME_MAX" "length (filter (\<lambda>e. known (eh_mon st) (at_dev e)) ar) \<le> FIXME_MAX"
      "length (filter (\<lambda>e. known (eh_mon st) (ie_name e)) ifs) < FIXME_MAX"
    using assms(4) loads by (simp_all add: kernel_fits_def)
  note p1 = poll_routes [OF assms(1-3) fits(1) refl]
  have "length (filter (\<lambda>e. known (eh_mon ?s1) (at_dev e)) ar) \<le> FIXME_MAX" using p1 fits(2) by simp
  note p2 = poll_arps [OF assms(1,2) conjunct1 [OF p1] this load_arptable_six [OF loads(2)] refl]
  have "length (filter (\<lambda>e. known (eh_mon ?s2) (ie_name e)) ifs) < FIXME_MAX" using p1 p2 fits(3) by simp
  note p3 = poll_ifs [OF assms(1,2) conjunct1 [OF p2] this fill_iflist_six [OF loads(3)] st']
  from p1 p2 p3 loads show ?thesis by simp
qed

lemma run_synced: "rkd_runs d resolve iface_mem b ks st \<Longrightarrow> all_ok d \<Longrightarrow> tables_apart d \<Longrightarrow>
    synced d resolve st \<and> devtoport (eh_mon st) = devtoport (sume_mon_ctor d iface_mem b)"
proof (induction rule: rkd_runs.induct)
  case start
  then show ?case using start_synced [of d resolve iface_mem b] by (simp add: rkd_start_def)
next
  case (poll ks st k st')
  then show ?case using poll_synced [OF poll.prems, of resolve st k st'] by simp
qed

section \<open>Every poll\<close>

text \<open>The states of the daemon after any polls, whatever the kernel shows and whether or not the register accesses succeed.\<close>

inductive rkd_reach :: "device \<Rightarrow> (string \<Rightarrow> u32 option) \<Rightarrow> string \<Rightarrow> board \<Rightarrow> rkd \<Rightarrow> bool"
  for d resolve iface_mem b where
  reach_start: "rkd_reach d resolve iface_mem b (rkd_start d iface_mem b)"
| reach_poll: "rkd_reach d resolve iface_mem b st \<Longrightarrow> rkd_poll d resolve k st = Inr st' \<Longrightarrow> rkd_reach d resolve iface_mem b st'"

lemma rtable_update_typed:
  assumes "kit_typed m"
  shows "kit_typed (rtable_update d rt' m)" "devtoport (rtable_update d rt' m) = devtoport m"
proof -
  let ?l = "filter (\<lambda>e. known m (rt_dev e)) rt'"
  have eq: "rtable_update d rt' m = (if sm_rt m = ?l then m else update_routing_table d ?l m)\<lparr>sm_rt := ?l\<rparr>"
    by (simp add: rtable_update_def Let_def known_def)
  have k: "\<forall>e\<in>set ?l. known m (rt_dev e)" by simp
  show dev: "devtoport (rtable_update d rt' m) = devtoport m" unfolding eq by (simp add: update_routing_table_log [OF k])
  have fields: "sm_rt (rtable_update d rt' m) = ?l" "sm_at (rtable_update d rt' m) = sm_at m" "sm_ifl (rtable_update d rt' m) = sm_ifl m"
    unfolding eq by (simp_all add: update_routing_table_log [OF k])
  show "kit_typed (rtable_update d rt' m)" using assms unfolding kit_typed_def known_def fields dev by (auto simp: list_all_iff)
qed

lemma arptable_update_typed:
  assumes "kit_typed m" "list_all six_arp at'"
  shows "kit_typed (arptable_update d at' m)" "devtoport (arptable_update d at' m) = devtoport m"
  using assms by (auto simp: arptable_update_def Let_def update_arp_table_log kit_typed_def known_def list_all_iff)

lemma interface_update_typed:
  assumes "kit_typed m" "list_all six_if ifl'"
  shows "kit_typed (interface_update d resolve ifl' m)" "devtoport (interface_update d resolve ifl' m) = devtoport m"
  using assms by (auto simp: interface_update_def Let_def update_interface_table_log kit_typed_def known_def list_all_iff)

lemma poll_typed:
  assumes "rkd_poll d resolve k st = Inr st'" "kit_typed (eh_mon st)"
  shows "kit_typed (eh_mon st') \<and> devtoport (eh_mon st') = devtoport (eh_mon st)"
proof -
  from assms(1) obtain rt ar ifs where loads: "linux_proc_net_load_rtable (k_route k) = Inr rt"
      "linux_proc_net_load_arptable resolve (k_arp k) = Inr ar" "fill_iflist (k_ifconf k) = Inr ifs"
    by (auto simp: rkd_poll_def bindR_eq_Inr Let_def)
  let ?s1 = "if \<not> rtable_eq rt (rtcur st) then st\<lparr>eh_mon := rtable_update d rt (eh_mon st), rtcur := rt\<rparr> else st"
  let ?s2 = "if \<not> arptable_eq ar (arpcur ?s1) then ?s1\<lparr>arpcur := ar, eh_mon := arptable_update d ar (eh_mon ?s1)\<rparr> else ?s1"
  have st': "st' = (if \<not> iflist_eq ifs (ifcur ?s2) then ?s2\<lparr>eh_mon := interface_update d resolve ifs (eh_mon ?s2), ifcur := ifs\<rparr> else ?s2)"
    using assms(1) loads by (simp only: rkd_poll_def Let_def bindR_Inr sum.inject)
  have typed: "kit_typed (eh_mon s) \<Longrightarrow> kit_typed (eh_mon (if c then s else s')) \<and> devtoport (eh_mon (if c then s else s')) = devtoport (eh_mon s0)"
    if "kit_typed (eh_mon s')" "devtoport (eh_mon s') = devtoport (eh_mon s0)" "devtoport (eh_mon s) = devtoport (eh_mon s0)" for c s s' s0
    using that by simp
  have 1: "kit_typed (eh_mon ?s1) \<and> devtoport (eh_mon ?s1) = devtoport (eh_mon st)"
    by (rule typed) (use assms(2) rtable_update_typed in simp_all)
  have 2: "kit_typed (eh_mon ?s2) \<and> devtoport (eh_mon ?s2) = devtoport (eh_mon st)"
    by (rule typed) (use 1 arptable_update_typed load_arptable_six [OF loads(2)] in \<open>simp_all del: if_split\<close>)
  show ?thesis unfolding st'
    by (rule typed) (use 2 interface_update_typed fill_iflist_six [OF loads(3)] in \<open>simp_all del: if_split\<close>)
qed

lemma reach_typed: "rkd_reach d resolve iface_mem b st \<Longrightarrow>
    kit_typed (eh_mon st) \<and> devtoport (eh_mon st) = devtoport (sume_mon_ctor d iface_mem b)"
proof (induction rule: rkd_reach.induct)
  case reach_start
  then show ?case by (simp add: rkd_start_def sume_mon_ctor_def kit_typed_def Let_def)
next
  case (reach_poll st k st')
  then show ?case using poll_typed [of d resolve k st st'] by simp
qed

section \<open>The registers of the ports\<close>

lemma last_write_append: "last_write (ws @ ws') r = (case last_write ws' r of None \<Rightarrow> last_write ws r | Some v \<Rightarrow> Some v)"
  by (simp add: last_write_def map_add_def split: option.splits)

lemma last_write_row: "last_write (kit_if_row a i e) (MAC_HI j) = (if i = j \<and> j < 4 then map_option mac_hi (snd e) else None)"
  "last_write (kit_if_row a i e) (MAC_LOW j) = (if i = j \<and> j < 4 then map_option mac_lo (snd e) else None)"
  by (auto simp: last_write_def kit_if_row_def kit_filter_row_def mac_log_def split: option.splits)

lemma last_write_table:
  "last_write (table_log (kit_if_row a) es) (MAC_HI j) = (if j < length es \<and> j < 4 then map_option mac_hi (snd (es ! j)) else None)"
  "last_write (table_log (kit_if_row a) es) (MAC_LOW j) = (if j < length es \<and> j < 4 then map_option mac_lo (snd (es ! j)) else None)"
proof (induction es rule: rev_induct)
  case Nil
  case 1 show ?case by (simp add: table_log_def last_write_def)
  case 2 show ?case by (simp add: table_log_def last_write_def)
next
  case (snoc e es)
  case 1 show ?case using snoc by (auto simp: table_log_snoc last_write_append last_write_row nth_append split: option.splits)
  case 2 show ?case using snoc by (auto simp: table_log_snoc last_write_append last_write_row nth_append split: option.splits)
qed

end
