(* ===== verification/Rkd.thy ===== *)
theory Rkd
  imports Kit_Mirror
begin

text \<open>
  The daemon of the router kit end to end: the tables in the text form of the kernel are read back entry by entry, and after every poll
  the hardware holds what the kernel showed. The last theorems show where the daemon leaves its purpose: the MAC registers follow the position of an interface in the
  list, and the name of the first device comes from memory that nothing has written.
\<close>

section \<open>Lines\<close>

lemma kit_lines_Cons:
  assumes "CHR 0x0A \<notin> set l" "length l < BUFSIZ - 1"
  shows "kit_lines (l @ CHR 0x0A # s) = (l @ [CHR 0x0A]) # kit_lines s"
proof -
  have "takeWhile (\<lambda>c. c \<noteq> CHR 0x0A) (l @ CHR 0x0A # s) = l" using assms(1) by (induction l) auto
  then have "kit_fgets (l @ CHR 0x0A # s) = l @ [CHR 0x0A]" using assms(2) by (simp add: kit_fgets_def)
  then show ?thesis by (subst kit_lines.simps) simp
qed

lemma kit_lines_concat:
  assumes "\<forall>l\<in>set ls. CHR 0x0A \<notin> set l \<and> length l < BUFSIZ - 1"
  shows "kit_lines (concat (map (\<lambda>l. l @ [CHR 0x0A]) ls)) = map (\<lambda>l. l @ [CHR 0x0A]) ls"
  using assms by (induction ls) (auto simp: kit_lines.simps [of "[]"] kit_lines_Cons)

text \<open>A line that is made of printable words and blanks is a C string without a line end inside.\<close>

definition plain :: "string \<Rightarrow> bool" where
  "plain s = list_all (\<lambda>c. c \<noteq> CHR 0x00 \<and> c \<noteq> CHR 0x0A) s"

lemma plain_simps [simp]: "plain []" "plain (s @ t) \<longleftrightarrow> plain s \<and> plain t" "plain (c # s) \<longleftrightarrow> c \<noteq> CHR 0x00 \<and> c \<noteq> CHR 0x0A \<and> plain s"
  by (simp_all add: plain_def)

lemma plain_cstr: "plain l \<Longrightarrow> cstr (l @ [CHR 0x0A]) = l @ [CHR 0x0A]"
  by (simp add: cstr_def plain_def takeWhile_eq_all_conv list_all_iff)

lemma plain_line: "plain l \<Longrightarrow> CHR 0x0A \<notin> set l"
  by (auto simp: plain_def list_all_iff)

lemma plain_digits: "list_all (is_digit base) ds \<Longrightarrow> plain ds"
  by (auto simp: plain_def list_all_iff is_digit_def digit_val_def)

lemma plain_numbers [simp]: "plain (show_nat n)" "plain (show_08X w)" "plain (hex_width k n)" "plain (show_hex n)"
  using plain_digits [OF show_nat_digits] plain_digits [OF hex_width_digits] plain_digits [OF show_hex_digits]
  by (simp_all add: show_08X_def)

text \<open>Columns filled with blanks.\<close>

definition blanks :: "nat \<Rightarrow> string" where
  "blanks n = replicate n CHR '' ''"

lemma blanks_ok [simp]: "list_all is_space (blanks n)" "blanks n = [] \<longleftrightarrow> n = 0" "plain (blanks n)" "length (blanks n) = n"
  by (simp_all add: blanks_def plain_def list_all_iff)

lemma closed_blanks [simp]: "closed (blanks n @ CHR 0x0A # s)"
  by (cases n) (simp_all add: blanks_def)

lemma plain_ntop [simp]: "plain (inet_ntop a)"
  by (simp add: inet_ntop_def)

lemma plain_xdigit: "n < 16 \<Longrightarrow> xdigit n \<noteq> CHR 0x00 \<and> xdigit n \<noteq> CHR 0x0A"
  using digit_val_xdigit [of n] by (auto simp: digit_val_def)

lemma kernel_mac_word: "length a = 6 \<Longrightarrow> plain (kernel_mac a) \<and> is_word (kernel_mac a) \<and> length (kernel_mac a) = 17"
proof -
  assume "length a = 6"
  then obtain b0 b1 b2 b3 b4 b5 where "a = [b0, b1, b2, b3, b4, b5]" using six_bytes [of a] by auto
  moreover have "plain (show_02x b)" "list_all (\<lambda>c. \<not> is_space c) (show_02x b)" "show_02x b \<noteq> []" "length (show_02x b) = 2" for b
  proof -
    have "unat b div 16 < 16" "unat b mod 16 < 16" using unat_u8_lt [of b] by (simp_all add: div_less_iff_less_mult)
    then show "plain (show_02x b)" "list_all (\<lambda>c. \<not> is_space c) (show_02x b)" "show_02x b \<noteq> []" "length (show_02x b) = 2"
      by (simp_all add: show_02x_def plain_xdigit xdigit_not)
  qed
  moreover have "\<not> is_space CHR '':''" by code_simp
  ultimately show ?thesis by (simp add: is_word_def)
qed

section \<open>The routing table as text\<close>

text \<open>
  A line of \<^verbatim>\<open>/proc/net/route\<close> as Linux prints it: name, destination, gateway, flags, two counters, metric, mask and three numbers more in the
  format \<^verbatim>\<open>%s\t%08X\t%08X\t%04X\t%d\t%u\t%d\t%08X\t%d\t%u\t%u\<close>, filled with blanks up to column 127. The flags are four hexadecimal digits, which the
  code reads with \<^verbatim>\<open>%d\<close>; those of an IPv4 route (\<^verbatim>\<open>RTF_UP\<close> 1, \<^verbatim>\<open>RTF_GATEWAY\<close> 2, \<^verbatim>\<open>RTF_HOST\<close> 4, \<^verbatim>\<open>RTF_REJECT\<close> 0x200) print without a letter.
\<close>

type_synonym route_extra = "nat \<times> nat \<times> nat \<times> nat \<times> nat \<times> nat \<times> nat"

definition tab :: string where
  "tab = [CHR 0x09]"

definition num_field :: "nat \<Rightarrow> text_field" where
  "num_field n = (tab, ArgD (to_int False n), show_nat n)"

definition addr_field8 :: "u32 \<Rightarrow> text_field" where
  "addr_field8 w = (tab, ArgU w, show_08X w)"

definition flags_field :: "nat \<Rightarrow> text_field" where
  "flags_field n = (tab, ArgD (to_int False (numeral_value 10 (hex_width 4 n))), hex_width 4 n)"

definition route_fields :: "ipv4_entry \<Rightarrow> route_extra \<Rightarrow> text_field list" where
  "route_fields e x = (case x of (flags, refs, uses, metric, mtu, window, irtt) \<Rightarrow>
    [([], ArgS (rt_dev e), rt_dev e), addr_field8 (rt_dest e), addr_field8 (rt_gw e), flags_field flags,
     num_field refs, num_field uses, num_field metric, addr_field8 (rt_mask e), num_field mtu, num_field window, num_field irtt])"

definition decimal_flags :: "nat \<Rightarrow> bool" where
  "decimal_flags flags = (flags < 2 ^ 16 \<and> list_all (is_digit 10) (hex_width 4 flags))"

definition extra_ok :: "route_extra \<Rightarrow> bool" where
  "extra_ok x = (case x of (flags, refs, uses, metric, mtu, window, irtt) \<Rightarrow>
    decimal_flags flags \<and> list_all (\<lambda>n. n < 2 ^ 31) [refs, metric, mtu] \<and> list_all (\<lambda>n. n < 2 ^ 32) [uses, window, irtt])"

definition dev_ok :: "string \<Rightarrow> bool" where
  "dev_ok dev = (is_word dev \<and> length dev < 16 \<and> plain dev)"

definition filled :: "nat \<Rightarrow> string \<Rightarrow> string" where
  "filled n l = l @ blanks (n - length l)"

definition route_text_line :: "ipv4_entry \<times> route_extra \<Rightarrow> string" where
  "route_text_line ex = filled 127 (fields_text (route_fields (fst ex) (snd ex)))"

lemma white_tab [simp]: "list_all is_space tab" "tab \<noteq> []" "plain tab"
  by (simp_all add: tab_def is_space_def)

definition route_line_ok :: "ipv4_entry \<times> route_extra \<Rightarrow> bool" where
  "route_line_ok ex = (dev_ok (rt_dev (fst ex)) \<and> extra_ok (snd ex))"

lemma reads_digits: "list_all (is_digit 10) ds \<Longrightarrow> ds \<noteq> [] \<Longrightarrow> reads CvDec (ArgD (to_int False (numeral_value 10 ds))) ds"
  by (simp add: reads_def digits_word scan_conv_def scan_number_digits)

lemma number_fields_ok:
  "field_ok CvDec (num_field n)" "field_ok CvHex (addr_field8 w)" "decimal_flags flags \<Longrightarrow> field_ok CvDec (flags_field flags)"
  using reads_digits [OF show_nat_digits, of n] reads_digits [of "hex_width 4 flags"] length_hex_width [of 4 flags]
  by (simp_all add: field_ok_def num_field_def addr_field8_def flags_field_def decimal_flags_def numeral_show_nat reads_08X del: length_hex_width hex_width.simps)
    fastforce

lemma route_fields_ok: "dev_ok (rt_dev e) \<Longrightarrow> extra_ok x \<Longrightarrow> list_all2 field_ok route_convs (route_fields e x)"
  by (auto simp: dev_ok_def extra_ok_def route_convs_def route_fields_def number_fields_ok reads_str field_ok_def [of "CvStr n" for n] split: prod.splits)

lemma route_line_scan:
  assumes "dev_ok (rt_dev e)" "extra_ok x"
  shows "fscanf route_convs (fields_text (route_fields e x) @ blanks n @ [CHR 0x0A]) =
    Inr (map (fst \<circ> snd) (route_fields e x), False, blanks n @ [CHR 0x0A])"
proof (rule fscanf_fields [OF route_fields_ok [OF assms]])
  show "\<forall>f\<in>set (tl (route_fields e x)). fst f \<noteq> []" by (auto simp: route_fields_def num_field_def addr_field8_def flags_field_def split: prod.splits)
qed simp

lemma route_line_plain: "dev_ok (rt_dev e) \<Longrightarrow> plain (route_text_line (e, x))"
  by (simp add: route_text_line_def filled_def fields_text_def route_fields_def num_field_def addr_field8_def flags_field_def dev_ok_def
      del: hex_width.simps split: prod.splits)

lemma load_routes_lines:
  assumes "list_all route_line_ok es" "length vs = 11"
  shows "load_routes (map (\<lambda>ex. route_text_line ex @ [CHR 0x0A]) es) vs rt = Inr (rt @ map fst es)"
  using assms
proof (induction es arbitrary: vs rt)
  case (Cons ex es)
  obtain e x where ex: "ex = (e, x)" by (cases ex)
  then have ok: "dev_ok (rt_dev e)" "extra_ok x" using Cons.prems by (auto simp: route_line_ok_def)
  let ?vs = "map Some (map (fst \<circ> snd) (route_fields e x))"
  have "length (route_fields e x) = 11" by (simp add: route_fields_def split: prod.splits)
  then have "assign (map (fst \<circ> snd) (route_fields e x)) vs = ?vs" "length ?vs = 11" using Cons.prems(2) by simp_all
  moreover have "the_uint ?vs 1 = Inr (rt_dest e)" "the_uint ?vs 2 = Inr (rt_gw e)" "the_uint ?vs 7 = Inr (rt_mask e)" "the_str ?vs 0 = Inr (rt_dev e)"
    by (simp_all add: route_fields_def addr_field8_def num_field_def the_uint_def the_str_def eval_nat_numeral split: prod.splits)
  moreover have "cstr (route_text_line ex @ [CHR 0x0A]) =
      fields_text (route_fields e x) @ blanks (127 - length (fields_text (route_fields e x))) @ [CHR 0x0A]"
    using plain_cstr [OF route_line_plain [OF ok(1)]] by (simp add: route_text_line_def filled_def ex)
  ultimately show ?case using route_line_scan [OF ok] Cons.IH [of ?vs] Cons.prems(1)
    by (simp add: ex rtable_add_def ipaddr_assign_uint_def)
qed simp

lemma length_num: "n < 2 ^ 32 \<Longrightarrow> length (show_nat n) \<le> 10"
  using length_show_nat [of n 9] by simp

lemma route_line_short:
  assumes "dev_ok (rt_dev e)" "extra_ok x"
  shows "length (route_text_line (e, x)) < BUFSIZ - 1"
proof -
  obtain flags refs uses metric mtu window irtt where x: "x = (flags, refs, uses, metric, mtu, window, irtt)" by (cases x)
  have "length (show_nat refs) \<le> 10" "length (show_nat uses) \<le> 10" "length (show_nat metric) \<le> 10"
    "length (show_nat mtu) \<le> 10" "length (show_nat window) \<le> 10" "length (show_nat irtt) \<le> 10"
    using assms(2) by (simp_all add: x extra_ok_def length_num)
  moreover have "length (rt_dev e) < 16" using assms(1) by (simp add: dev_ok_def)
  ultimately show ?thesis
    by (simp add: x route_text_line_def filled_def fields_text_def route_fields_def num_field_def addr_field8_def flags_field_def tab_def show_08X_def BUFSIZ_def
        del: hex_width.simps)
qed

definition route_file :: "string \<Rightarrow> (ipv4_entry \<times> route_extra) list \<Rightarrow> string" where
  "route_file title es = concat (map (\<lambda>l. l @ [CHR 0x0A]) (title # map route_text_line es))"

definition title_ok :: "string \<Rightarrow> bool" where
  "title_ok title = (CHR 0x0A \<notin> set title \<and> length title < BUFSIZ - 1)"

lemma route_line_title: "route_line_ok ex \<Longrightarrow> title_ok (route_text_line ex)"
  using plain_line [OF route_line_plain] route_line_short by (cases ex) (simp add: route_line_ok_def title_ok_def)

lemma load_route_file:
  assumes "title_ok title" "list_all route_line_ok es"
  shows "linux_proc_net_load_rtable (Some (route_file title es)) = Inr (map fst es)"
proof -
  have "\<forall>l\<in>set (title # map route_text_line es). CHR 0x0A \<notin> set l \<and> length l < BUFSIZ - 1"
    using assms route_line_title by (auto simp: title_ok_def list_all_iff)
  from kit_lines_concat [OF this] show ?thesis using load_routes_lines [OF assms(2), of "replicate 11 None" "[]"]
    by (simp add: linux_proc_net_load_rtable_def route_file_def comp_def)
qed

section \<open>The ARP table as text\<close>

text \<open>
  A line of \<^verbatim>\<open>/proc/net/arp\<close> as Linux prints it, in the format \<^verbatim>\<open>%-16s 0x%-10x0x%-10x%-17s     *        %s\<close>: address, hardware type, flags,
  hardware address, mask, device.
\<close>

type_synonym arp_extra = "nat \<times> nat"

definition hex_prefixed :: "nat \<Rightarrow> string" where
  "hex_prefixed n = ''0x'' @ show_hex n"

definition word_field :: "string \<Rightarrow> string \<Rightarrow> text_field" where
  "word_field sep w = (sep, ArgS w, w)"

definition arp_fields :: "arp_entry \<Rightarrow> arp_extra \<Rightarrow> text_field list" where
  "arp_fields e x = (case x of (hw_type, flags) \<Rightarrow>
    [word_field [] (inet_ntop (at_ip e)), word_field (blanks (16 - length (inet_ntop (at_ip e))) @ '' '') (hex_prefixed hw_type),
     word_field (blanks (10 - length (show_hex hw_type))) (hex_prefixed flags), word_field (blanks (10 - length (show_hex flags))) (kernel_mac (at_etha e)),
     word_field (blanks 5) ''*'', word_field (blanks 8) (at_dev e)])"

definition arp_extra_ok :: "arp_extra \<Rightarrow> bool" where
  "arp_extra_ok x = (case x of (hw_type, flags) \<Rightarrow> hw_type < 2 ^ 16 \<and> flags < 2 ^ 16)"

definition arp_text_line :: "arp_entry \<times> arp_extra \<Rightarrow> string" where
  "arp_text_line ex = fields_text (arp_fields (fst ex) (snd ex))"

definition arp_line_ok :: "arp_entry \<times> arp_extra \<Rightarrow> bool" where
  "arp_line_ok ex = (dev_ok (at_dev (fst ex)) \<and> six_arp (fst ex) \<and> arp_extra_ok (snd ex))"

definition arp_file :: "string \<Rightarrow> (arp_entry \<times> arp_extra) list \<Rightarrow> string" where
  "arp_file title es = concat (map (\<lambda>l. l @ [CHR 0x0A]) (title # map arp_text_line es))"

lemma length_show_hex: "n < 16 ^ Suc k \<Longrightarrow> length (show_hex n) \<le> Suc k"
proof (induction k arbitrary: n)
  case 0
  then show ?case by (subst show_hex.simps) simp
next
  case (Suc k)
  then have "n div 16 < 16 ^ Suc k" by (simp add: div_less_iff_less_mult mult.commute)
  from Suc.IH [OF this] show ?case by (subst show_hex.simps) simp
qed

lemma hex_prefixed_ok:
  assumes "n < 2 ^ 16"
  shows "is_word (hex_prefixed n)" "plain (hex_prefixed n)" "length (hex_prefixed n) \<le> 6" "length (show_hex n) \<le> 4"
proof -
  have "is_word (show_hex n)" using digits_word [OF show_hex_digits] by simp
  then show "is_word (hex_prefixed n)" by (simp add: hex_prefixed_def is_word_def is_space_def)
  show "length (show_hex n) \<le> 4" using length_show_hex [of n 3] assms by simp
  then show "length (hex_prefixed n) \<le> 6" by (simp add: hex_prefixed_def)
qed (simp add: hex_prefixed_def)

lemma star_word [simp]: "is_word ''*''"
  by code_simp

lemma arp_line_lemmas:
  assumes "arp_line_ok (e, x)"
  shows "list_all2 field_ok arp_convs (arp_fields e x)" "plain (fields_text (arp_fields e x))" "length (fields_text (arp_fields e x)) < BUFSIZ - 1"
    "\<forall>f\<in>set (tl (arp_fields e x)). fst f \<noteq> []"
proof -
  obtain hw_type flags where x: "x = (hw_type, flags)" by (cases x)
  then have "hw_type < 2 ^ 16" "flags < 2 ^ 16" using assms by (simp_all add: arp_line_ok_def arp_extra_ok_def)
  note hex = hex_prefixed_ok [OF this(1)] hex_prefixed_ok [OF this(2)]
  have mac: "plain (kernel_mac (at_etha e))" "is_word (kernel_mac (at_etha e))" "length (kernel_mac (at_etha e)) = 17"
    using assms kernel_mac_word [of "at_etha e"] by (simp_all add: arp_line_ok_def six_arp_def ETHER_LEN_def)
  have ip: "is_word (inet_ntop (at_ip e))" "length (inet_ntop (at_ip e)) < 32" "length (inet_ntop (at_ip e)) \<le> 15"
    using length_ntop [of "at_ip e"] by (simp_all add: is_word_ntop)
  have dev: "is_word (at_dev e)" "length (at_dev e) < 16" "plain (at_dev e)" using assms by (simp_all add: arp_line_ok_def dev_ok_def)
  have "list_all is_space '' ''" by (simp add: is_space_def)
  then show "list_all2 field_ok arp_convs (arp_fields e x)"
    using mac ip hex dev by (simp add: x arp_convs_def arp_fields_def word_field_def field_ok_def reads_str)
  show "plain (fields_text (arp_fields e x))" "length (fields_text (arp_fields e x)) < BUFSIZ - 1"
    using mac ip hex dev by (simp_all add: x arp_fields_def word_field_def fields_text_def BUFSIZ_def)
  show "\<forall>f\<in>set (tl (arp_fields e x)). fst f \<noteq> []" using hex by (simp add: x arp_fields_def word_field_def)
qed

text \<open>The name service returns a dotted address as it is, without a lookup.\<close>

definition resolves_dotted :: "(string \<Rightarrow> u32 option) \<Rightarrow> bool" where
  "resolves_dotted resolve = (\<forall>a. resolve (inet_ntop a) = Some a)"

lemma load_arps_lines:
  assumes "list_all arp_line_ok es" "length vs = 6" "resolves_dotted resolve"
  shows "load_arps resolve (map (\<lambda>ex. arp_text_line ex @ [CHR 0x0A]) es) vs t = Inr (t @ filter (\<lambda>e. at_etha e \<noteq> ether_zero) (map fst es))"
  using assms(1,2)
proof (induction es arbitrary: vs t)
  case (Cons ex es)
  obtain e x where ex: "ex = (e, x)" by (cases ex)
  then have ok: "arp_line_ok (e, x)" using Cons.prems by simp
  note line = arp_line_lemmas [OF ok]
  let ?vs = "map Some (map (fst \<circ> snd) (arp_fields e x))"
  have len: "length (at_etha e) = 6" using ok by (simp add: arp_line_ok_def six_arp_def ETHER_LEN_def)
  have "length (arp_fields e x) = 6" by (simp add: arp_fields_def split: prod.splits)
  then have "assign (map (fst \<circ> snd) (arp_fields e x)) vs = ?vs" "length ?vs = 6" using Cons.prems(2) by simp_all
  moreover have "the_str ?vs 3 = Inr (kernel_mac (at_etha e))" "the_str ?vs 0 = Inr (inet_ntop (at_ip e))" "the_str ?vs 5 = Inr (at_dev e)"
    by (simp_all add: arp_fields_def word_field_def the_str_def eval_nat_numeral split: prod.splits)
  moreover have "fscanf arp_convs (cstr (arp_text_line ex @ [CHR 0x0A])) = Inr (map (fst \<circ> snd) (arp_fields e x), False, [CHR 0x0A])"
    using plain_cstr [OF line(2)] fscanf_fields [OF line(1,4), of "[CHR 0x0A]"] by (simp add: arp_text_line_def ex)
  moreover have "ether_of_text (kernel_mac (at_etha e)) = at_etha e" using aton_kernel [OF len] by (simp add: ether_of_text_def)
  moreover have "ether_bool (at_etha e) \<longleftrightarrow> at_etha e \<noteq> ether_zero"
    using memcmp_eq_0 [of "at_etha e" ether_zero] len by (simp add: ether_bool_def ether_zero_def ETHER_LEN_def)
  moreover have "ipaddr_of_name resolve (inet_ntop (at_ip e)) = at_ip e" using assms(3) by (simp add: ipaddr_of_name_def resolves_dotted_def)
  ultimately show ?case using Cons.IH [of ?vs] Cons.prems(1) by (simp add: ex arptable_add_def)
qed simp

lemma arp_line_title: "arp_line_ok ex \<Longrightarrow> title_ok (arp_text_line ex)"
  using plain_line [OF arp_line_lemmas(2)] arp_line_lemmas(3) by (cases ex) (simp add: title_ok_def arp_text_line_def)

lemma load_arp_file:
  assumes "title_ok title" "list_all arp_line_ok es" "resolves_dotted resolve"
  shows "linux_proc_net_load_arptable resolve (Some (arp_file title es)) = Inr (filter (\<lambda>e. at_etha e \<noteq> ether_zero) (map fst es))"
proof -
  have "\<forall>l\<in>set (title # map arp_text_line es). CHR 0x0A \<notin> set l \<and> length l < BUFSIZ - 1"
    using assms arp_line_title by (auto simp: title_ok_def list_all_iff)
  from kit_lines_concat [OF this] show ?thesis using load_arps_lines [OF assms(2) _ assms(3), of "replicate 6 None" "[]"]
    by (simp add: linux_proc_net_load_arptable_def arp_file_def comp_def)
qed

section \<open>Device names\<close>

lemma show_nat_inj: "show_nat n = show_nat m \<longleftrightarrow> n = m"
  by (metis numeral_show_nat)

lemma show_nat_no_minus: "show_nat n \<noteq> CHR ''-'' # s"
  using show_nat_digits [of n] digit_no_sign [of 10 "CHR ''-''"] by (cases "show_nat n") auto

lemma nf_name_inj: "nf_name i = nf_name j \<longleftrightarrow> i = j"
proof -
  have "show_int i = show_int j \<longleftrightarrow> i = j"
    using show_nat_no_minus show_nat_no_minus [symmetric] by (auto simp: show_int_def show_nat_inj)
  then show ?thesis by (simp add: nf_name_def)
qed

lemma ctor_devtoport: "devtoport (sume_mon_ctor d iface_mem b) =
  [nf_name (atoi (cstr (drop 4 iface_mem))) \<mapsto> 1, nf_name (atoi (cstr (drop 4 iface_mem)) + 1) \<mapsto> 4,
   nf_name (atoi (cstr (drop 4 iface_mem)) + 2) \<mapsto> 16, nf_name (atoi (cstr (drop 4 iface_mem)) + 3) \<mapsto> 64]"
  by (simp add: sume_mon_ctor_def Let_def)

section \<open>A concrete run\<close>

lemma demo_tables_apart: "tables_apart demo_device"
  unfolding tables_apart_def FIXME_MAX_def demo_device_def by (simp add: row_addr_def upt_rec)

lemma demo_resolves: "resolves_dotted inet_pton"
  by (simp add: resolves_dotted_def pton_ntop)

text \<open>The kernel shows one route and one neighbour of \<^verbatim>\<open>nf0\<close>, an unfinished entry, and the loopback interface before \<^verbatim>\<open>nf0\<close>.\<close>

definition demo_route :: ipv4_entry where
  "demo_route = \<lparr>rt_dest = 0x0000000A, rt_gw = 0x0100000A, rt_mask = 0x000000FF, rt_dev = ''nf0''\<rparr>"

definition demo_neighbour :: "u8 \<Rightarrow> arp_entry" where
  "demo_neighbour b = \<lparr>at_ip = 0x0100000A, at_etha = [0, 0, 0, 0, 0, b], at_dev = ''nf0''\<rparr>"

definition demo_route_text :: string where
  "demo_route_text = route_file ''Iface'' [(demo_route, 3, 0, 0, 100, 0, 0, 0)]"

definition demo_arp_text :: string where
  "demo_arp_text = arp_file ''IP address'' [(demo_neighbour 1, 1, 2), (demo_neighbour 0, 1, 0)]"

definition demo_kernel :: kernel where
  "demo_kernel = \<lparr>k_route = Some demo_route_text, k_arp = Some demo_arp_text,
    k_ifconf = Some [(0x0100007F, None, ''lo''), (0x0200000A, Some [0, 0, 0, 0, 0, 9, 0, 0], ''nf0'')]\<rparr>"

definition demo_if :: ifentry where
  "demo_if = \<lparr>ie_ip = 0x0200000A, ie_etha = [0, 0, 0, 0, 0, 9], ie_name = ''nf0''\<rparr>"

lemma demo_lines:
  "list_all route_line_ok [(demo_route, 3, 0, 0, 100, 0, 0, 0)]" "list_all arp_line_ok [(demo_neighbour 1, 1, 2), (demo_neighbour 0, 1, 0)]"
  "title_ok ''Iface''" "title_ok ''IP address''" "at_etha (demo_neighbour 1) \<noteq> ether_zero" "at_etha (demo_neighbour 0) = ether_zero"
proof -
  have "is_word ''nf0''" "list_all (is_digit 10) (hex_width 4 3)" by code_simp+
  moreover from this(2) have "decimal_flags 3" by (simp only: decimal_flags_def) simp
  ultimately show "list_all route_line_ok [(demo_route, 3, 0, 0, 100, 0, 0, 0)]" "list_all arp_line_ok [(demo_neighbour 1, 1, 2), (demo_neighbour 0, 1, 0)]"
    by (simp_all add: route_line_ok_def demo_route_def dev_ok_def extra_ok_def arp_line_ok_def demo_neighbour_def arp_extra_ok_def six_arp_def ETHER_LEN_def)
qed (simp_all add: title_ok_def BUFSIZ_def demo_neighbour_def ether_zero_def ETHER_LEN_def eval_nat_numeral)

lemma demo_loads:
  "linux_proc_net_load_rtable (k_route demo_kernel) = Inr [demo_route]"
  "linux_proc_net_load_arptable inet_pton (k_arp demo_kernel) = Inr [demo_neighbour 1]"
  "fill_iflist (k_ifconf demo_kernel) = Inr [demo_if]"
proof -
  show "linux_proc_net_load_rtable (k_route demo_kernel) = Inr [demo_route]"
    using load_route_file [OF demo_lines(3,1)] by (simp add: demo_kernel_def demo_route_text_def)
  show "linux_proc_net_load_arptable inet_pton (k_arp demo_kernel) = Inr [demo_neighbour 1]"
    using load_arp_file [OF demo_lines(4,2) demo_resolves] demo_lines(5,6) by (simp add: demo_kernel_def demo_arp_text_def)
  show "fill_iflist (k_ifconf demo_kernel) = Inr [demo_if]"
    by (simp add: fill_iflist_def demo_kernel_def set_octet_def ld_bytes_def ETHER_LEN_def iflist_add_entry_def demo_if_def)
qed

lemma demo_base: "atoi (cstr []) = 0"
  by code_simp

lemma demo_devtoport: "devtoport (sume_mon_ctor d ''nf10'' b) ''nf0'' = Some 1"
proof -
  have "nf_name 0 = ''nf0''" by code_simp
  moreover have "nf_name 1 \<noteq> nf_name 0" "nf_name 2 \<noteq> nf_name 0" "nf_name 3 \<noteq> nf_name 0" by (simp_all add: nf_name_inj)
  ultimately show ?thesis by (simp add: ctor_devtoport demo_base)
qed

lemma demo_run: "\<exists>st. rkd_runs demo_device inet_pton ''nf10'' demo_board ([] @ [demo_kernel]) st"
proof -
  let ?s = "rkd_start demo_device ''nf10'' demo_board"
  have "\<exists>st. rkd_poll demo_device inet_pton demo_kernel ?s = Inr st" by (simp add: rkd_poll_def demo_loads Let_def)
  moreover have "kernel_fits inet_pton (eh_mon ?s) demo_kernel" by (simp add: kernel_fits_def demo_loads FIXME_MAX_def)
  ultimately show ?thesis using rkd_runs.poll [OF rkd_runs.start] by blast
qed

section \<open>Properties\<close>

lemma fill_entries_confs: "fill_entries confs ifl = Inr ifs \<Longrightarrow>
    map (\<lambda>e. (ie_ip e, ie_name e)) ifs = map (\<lambda>e. (ie_ip e, ie_name e)) ifl @ map (\<lambda>(ip, hw, name). (ip, name)) confs"
  by (induction confs ifl rule: fill_entries.induct) (auto simp: bindR_eq_Inr iflist_add_entry_def)

lemma fill_iflist_confs: "fill_iflist ifc = Inr ifs \<Longrightarrow>
    \<exists>confs. ifc = Some confs \<and> map (\<lambda>e. (ie_ip e, ie_name e)) ifs = map (\<lambda>(ip, hw, name). (ip, name)) (drop 1 confs)"
  by (auto simp: fill_iflist_def dest!: fill_entries_confs split: option.splits)

text \<open>
  Claim C7. The router kit refines the kernel's tables. If at every poll the entries of the board's devices fit into the 32 rows of each table (at most 31 interfaces), the register
  accesses succeed and the three tables do not overlap, then after every poll each row of the hardware routing table holds the route of that position among the routes of
  the board's devices (destination, gateway, mask, and the port of the device), and the rows behind them are empty; the same holds of the ARP table. The destination filter holds
  the addresses of the board's interfaces among those that \<^verbatim>\<open>fill_iflist\<close> returns, which are all interfaces the kernel lists but the first; the row behind them holds
  the address of the routing protocol (if there is an interface), and each further row is empty or holds that address, left from an earlier and longer list.
\<close>

theorem rkd_mirrors_kernel:
  assumes "rkd_runs d resolve iface_mem b (ks @ [k]) st" "all_ok d" "tables_apart d"
  shows "\<exists>rt ar ifs confs. linux_proc_net_load_rtable (k_route k) = Inr rt \<and> linux_proc_net_load_arptable resolve (k_arp k) = Inr ar \<and>
    fill_iflist (k_ifconf k) = Inr ifs \<and>
    k_ifconf k = Some confs \<and> map (\<lambda>e. (ie_ip e, ie_name e)) ifs = map (\<lambda>(ip, hw, name). (ip, name)) (drop 1 confs) \<and>
    (let m = sume_mon_ctor d iface_mem b; ws = writes (sm_board (eh_mon st));
         rt = filter (\<lambda>e. known m (rt_dev e)) rt; ar = filter (\<lambda>e. known m (at_dev e)) ar; ifs = filter (\<lambda>e. known m (ie_name e)) ifs
     in \<forall>j<FIXME_MAX.
       seen (\<lambda>r. r) ws (row_addr (lpm_address d) j) = Some (if j < length rt
         then (htonl (rt_dest (rt ! j)), htonl (rt_gw (rt ! j)), htonl (rt_mask (rt ! j)), word_of_int (the (devtoport m (rt_dev (rt ! j)))))
         else (0, 0, 0xffffffff, 0)) \<and>
       seen arp_view ws (row_addr (arp_address d) j) = Some (if j < length ar
         then (ntohl (at_ip (ar ! j)), mac_hi (at_etha (ar ! j)), mac_lo (at_etha (ar ! j))) else (0, 0, 0)) \<and>
       seen filter_view ws (row_addr (filter_address d) j) \<in> (if j < length ifs then {Some (htonl (ie_ip (ifs ! j)))}
         else if j = length ifs \<and> ifs \<noteq> [] then {Some (htonl (ospf_ip resolve))} else {Some 0, Some (htonl (ospf_ip resolve))}))"
proof -
  from assms(1) obtain st0 where run: "rkd_runs d resolve iface_mem b ks st0" "kernel_fits resolve (eh_mon st0) k" "rkd_poll d resolve k st0 = Inr st"
    by (rule rkd_runs_snoc) auto
  note s0 = run_synced [OF run(1) assms(2,3)]
  note p = poll_synced [OF assms(2,3) conjunct1 [OF s0] run(2,3)]
  then have "fill_iflist (k_ifconf k) = Inr (ifcur st)" by simp
  then obtain confs where confs: "k_ifconf k = Some confs" "map (\<lambda>e. (ie_ip e, ie_name e)) (ifcur st) = map (\<lambda>(ip, hw, name). (ip, name)) (drop 1 confs)"
    using fill_iflist_confs by blast
  have dev: "devtoport (eh_mon st) = devtoport (sume_mon_ctor d iface_mem b)" using p s0 by simp
  then have known: "known (eh_mon st) = known (sume_mon_ctor d iface_mem b)" by (simp add: known_def fun_eq_iff)
  have rows: "route_rows_ok d (eh_mon st)" "arp_rows_ok d (eh_mon st)" "filter_rows_ok d resolve (eh_mon st)"
    and tabs: "sm_rt (eh_mon st) = filter (\<lambda>e. known (eh_mon st) (rt_dev e)) (rtcur st)" "sm_at (eh_mon st) = filter (\<lambda>e. known (eh_mon st) (at_dev e)) (arpcur st)"
      "sm_ifl (eh_mon st) = filter (\<lambda>e. known (eh_mon st) (ie_name e)) (ifcur st)"
    using p by (simp_all only: synced_def mirrors_def Let_def simp_thms)
  note rows' = rows [unfolded route_rows_ok_def arp_rows_ok_def filter_rows_ok_def tabs known route_cell_def arp_cell_def dev no_route_def]
  let ?ifs = "filter (\<lambda>e. known (sume_mon_ctor d iface_mem b) (ie_name e)) (ifcur st)"
  have "j < FIXME_MAX \<Longrightarrow> seen filter_view (writes (sm_board (eh_mon st))) (row_addr (filter_address d) j) \<in>
      (if j < length ?ifs then {Some (htonl (ie_ip (?ifs ! j)))}
       else if j = length ?ifs \<and> ?ifs \<noteq> [] then {Some (htonl (ospf_ip resolve))} else {Some 0, Some (htonl (ospf_ip resolve))})" for j
    using spec [OF rows'(3), of j] by (auto simp: Let_def split: if_splits)
  then show ?thesis using p rows'(1,2) confs
    by - (rule exI [of _ "rtcur st"], rule exI [of _ "arpcur st"], rule exI [of _ "ifcur st"], rule exI [of _ confs], simp only: Let_def simp_thms, blast)
qed

theorem rkd_mirrors_kernel_witness:
  "\<exists>st. rkd_runs demo_device inet_pton ''nf10'' demo_board ([] @ [demo_kernel]) st \<and>
    (let ws = writes (sm_board (eh_mon st)) in
     seen (\<lambda>r. r) ws (row_addr 0 0) = Some (0x0A000000, 0x0A000001, 0xFF000000, 1) \<and>
     seen (\<lambda>r. r) ws (row_addr 0 1) = Some (0, 0, 0xFFFFFFFF, 0) \<and>
     seen filter_view ws (row_addr 0x200 0) = Some 0x0A000002)"
proof -
  obtain st where run: "rkd_runs demo_device inet_pton ''nf10'' demo_board ([] @ [demo_kernel]) st" using demo_run by blast
  let ?m = "sume_mon_ctor demo_device ''nf10'' demo_board"
  have n: "ntohl 0x0000000A = 0x0A000000" "ntohl 0x0100000A = 0x0A000001" "ntohl 0x000000FF = 0xFF000000" "ntohl 0x0200000A = 0x0A000002"
    by (simp_all add: ntohl_def le32_def byte32_def)
  have "known ?m ''nf0''" by (simp add: known_def demo_devtoport)
  then have f: "filter (\<lambda>e. known ?m (rt_dev e)) [demo_route] = [demo_route]" "filter (\<lambda>e. known ?m (ie_name e)) [demo_if] = [demo_if]"
    by (simp_all add: demo_route_def demo_if_def)
  have a: "lpm_address demo_device = 0" "filter_address demo_device = 0x200" by (simp_all add: demo_device_def)
  note main = rkd_mirrors_kernel [OF run demo_device_ok demo_tables_apart]
  have "\<forall>j<FIXME_MAX. seen (\<lambda>r. r) (writes (sm_board (eh_mon st))) (row_addr 0 j) = Some (if j < 1 then (0x0A000000, 0x0A000001, 0xFF000000, 1) else (0, 0, 0xFFFFFFFF, 0)) \<and>
     (j < 1 \<longrightarrow> seen filter_view (writes (sm_board (eh_mon st))) (row_addr 0x200 j) = Some 0x0A000002)"
    using main unfolding demo_loads a Let_def 
    by (auto simp: f simp del: filter.simps cong del: if_weak_cong)
      (auto dest!: spec [of _ 0] simp: demo_route_def demo_if_def demo_devtoport n)
  from this [rule_format, of 0] this [rule_format, of 1] run show ?thesis by - (rule exI [of _ st], simp add: FIXME_MAX_def)
qed

text \<open>
  Claim C27. Every table the monitor holds is well formed after any polls, whatever the kernel shows: each entry belongs to a device of the board, each hardware address has six
  bytes, so that the hardware words are built from bytes of the address alone, the port of each route is one of the four one-hot port numbers, and the devices and their
  ports stay those of the constructor.
\<close>

theorem rkd_well_formed:
  assumes "rkd_reach d resolve iface_mem b st"
  shows "(\<forall>e\<in>set (sm_rt (eh_mon st)). devtoport (eh_mon st) (rt_dev e) \<in> {Some 1, Some 4, Some 16, Some 64}) \<and>
    (\<forall>e\<in>set (sm_at (eh_mon st)). length (at_etha e) = ETHER_LEN \<and> devtoport (eh_mon st) (at_dev e) \<noteq> None) \<and>
    (\<forall>e\<in>set (sm_ifl (eh_mon st)). length (ie_etha e) = ETHER_LEN \<and> devtoport (eh_mon st) (ie_name e) \<noteq> None) \<and>
    devtoport (eh_mon st) = devtoport (sume_mon_ctor d iface_mem b)"
proof -
  have s: "kit_typed (eh_mon st)" "devtoport (eh_mon st) = devtoport (sume_mon_ctor d iface_mem b)" using reach_typed [OF assms] by simp_all
  have "devtoport (eh_mon st) dev \<noteq> None \<Longrightarrow> devtoport (eh_mon st) dev \<in> {Some 1, Some 4, Some 16, Some 64}" for dev
    unfolding s(2) ctor_devtoport by (auto split: if_splits)
  then show ?thesis using s by (auto simp: kit_typed_def list_all_iff known_def six_arp_def six_if_def)
qed

theorem rkd_well_formed_witness:
  "\<exists>st. rkd_reach demo_device inet_pton ''nf10'' demo_board st \<and> sm_rt (eh_mon st) = [demo_route] \<and>
    devtoport (eh_mon st) (rt_dev demo_route) \<in> {Some 1, Some 4, Some 16, Some 64}"
proof -
  let ?s = "rkd_start demo_device ''nf10'' demo_board"
  obtain st where p: "rkd_poll demo_device inet_pton demo_kernel ?s = Inr st" by (simp add: rkd_poll_def demo_loads Let_def)
  then have r: "rkd_reach demo_device inet_pton ''nf10'' demo_board st" by (rule rkd_reach.reach_poll [OF rkd_reach.reach_start])
  have "kernel_fits inet_pton (eh_mon ?s) demo_kernel" by (simp add: kernel_fits_def demo_loads FIXME_MAX_def)
  from poll_synced [OF demo_device_ok demo_tables_apart start_synced [OF demo_device_ok demo_tables_apart] this p]
  have "sm_rt (eh_mon st) = filter (\<lambda>e. known (eh_mon st) (rt_dev e)) [demo_route]" "devtoport (eh_mon st) = devtoport (sume_mon_ctor demo_device ''nf10'' demo_board)"
    by (simp_all add: synced_def Let_def demo_loads rkd_start_def)
  then have "sm_rt (eh_mon st) = [demo_route]" by (simp add: known_def demo_route_def demo_devtoport)
  with rkd_well_formed [OF r] r show ?thesis by auto
qed

text \<open>The lines of the concrete tables, letter by letter.\<close>

lemma kernel_lines:
  "route_text_line (demo_route, 3, 0, 0, 100, 0, 0, 0) = ''nf0'' @ tab @ ''0000000A'' @ tab @ ''0100000A'' @ tab @ ''0003'' @ tab @ ''0'' @ tab @ ''0'' @ tab @ ''100'' @
     tab @ ''000000FF'' @ tab @ ''0'' @ tab @ ''0'' @ tab @ ''0'' @ blanks 78"
  "arp_text_line (demo_neighbour 1, 1, 2) = ''10.0.0.1'' @ blanks 9 @ ''0x1'' @ blanks 9 @ ''0x2'' @ blanks 9 @ ''00:00:00:00:00:01'' @ blanks 5 @ ''*'' @ blanks 8 @ ''nf0''"
proof -
  have "8 = Suc (Suc (Suc (Suc (Suc (Suc (Suc (Suc 0)))))))" by simp
  then have "hex_width 8 n = hex_width (Suc (Suc (Suc (Suc (Suc (Suc (Suc (Suc 0)))))))) n" for n by (rule arg_cong)
  moreover have "hex_digit 0 = CHR ''0''" "hex_digit (Suc 0) = CHR ''1''" "hex_digit 10 = CHR ''A''" "hex_digit 15 = CHR ''F''" by code_simp+
  ultimately have "show_08X 0x0000000A = ''0000000A''" "show_08X 0x0100000A = ''0100000A''" "show_08X 0x000000FF = ''000000FF''"
    by (simp_all add: show_08X_def)
  moreover have "hex_width 4 3 = ''0003''" "show_nat 0 = ''0''" "show_nat 100 = ''100''" by code_simp+
  ultimately show "route_text_line (demo_route, 3, 0, 0, 100, 0, 0, 0) = ''nf0'' @ tab @ ''0000000A'' @ tab @ ''0100000A'' @ tab @ ''0003'' @ tab @ ''0'' @ tab @ ''0'' @ tab @ ''100'' @
     tab @ ''000000FF'' @ tab @ ''0'' @ tab @ ''0'' @ tab @ ''0'' @ blanks 78"
    by (simp add: route_text_line_def filled_def fields_text_def route_fields_def num_field_def addr_field8_def flags_field_def demo_route_def tab_def del: hex_width.simps)
  have "show_nat 10 = ''10''" "show_nat 1 = ''1''" "show_nat 0 = ''0''" "show_hex 1 = ''1''" "show_hex 2 = ''2''" by code_simp+
  moreover from this have "inet_ntop 0x0100000A = ''10.0.0.1''" by (simp add: inet_ntop_def byte32_def)
  moreover have "kernel_mac [0, 0, 0, 0, 0, 1] = ''00:00:00:00:00:01''" by code_simp
  moreover have "blanks 8 @ '' '' = blanks 9" by (simp add: blanks_def eval_nat_numeral)
  then have "blanks 8 @ CHR '' '' # s = blanks 9 @ s" for s by (metis append.assoc append_Cons append_Nil)
  ultimately show "arp_text_line (demo_neighbour 1, 1, 2) = ''10.0.0.1'' @ blanks 9 @ ''0x1'' @ blanks 9 @ ''0x2'' @ blanks 9 @ ''00:00:00:00:00:01'' @ blanks 5 @ ''*'' @ blanks 8 @ ''nf0''"
    by (simp add: arp_text_line_def fields_text_def arp_fields_def word_field_def hex_prefixed_def demo_neighbour_def)
qed

text \<open>
  Claim C28. The kernel's tables are read as Linux prints them: the lines of \<^verbatim>\<open>/proc/net/route\<close>, tabs between the columns and blanks up to column 127, give the routes in
  order, whatever the counters and as long as the hexadecimal flags have no letter; the lines of \<^verbatim>\<open>/proc/net/arp\<close> give the entries whose hardware address is not zero. Without
  the routing table file the program dereferences a null pointer.
\<close>

theorem proc_tables_round_trip:
  assumes "title_ok title" "title_ok title'" "list_all route_line_ok es" "list_all arp_line_ok as" "resolves_dotted resolve"
  shows "linux_proc_net_load_rtable (Some (route_file title es)) = Inr (map fst es) \<and>
    linux_proc_net_load_arptable resolve (Some (arp_file title' as)) = Inr (filter (\<lambda>e. at_etha e \<noteq> ether_zero) (map fst as)) \<and>
    linux_proc_net_load_rtable None = Inl NullDeref"
  using load_route_file [OF assms(1,3)] load_arp_file [OF assms(2,4,5)] by (simp add: linux_proc_net_load_rtable_def)

theorem proc_tables_round_trip_witness:
  "linux_proc_net_load_rtable (Some demo_route_text) = Inr [demo_route] \<and>
   linux_proc_net_load_arptable inet_pton (Some demo_arp_text) = Inr [demo_neighbour 1]"
  using proc_tables_round_trip [OF demo_lines(3,4,1,2) demo_resolves] demo_lines(5,6) by (simp add: demo_route_text_def demo_arp_text_def)

text \<open>A second poll of the same tables changes nothing and writes no register.\<close>

lemma eq_refl [simp]: "arptable_eq xs xs" "iflist_eq ys ys"
  by (auto simp: arptable_eq_def iflist_eq_def arp_entry_eq_def ifentry_eq_def ipaddr_eq_def ether_eq_def list_all_iff intro!: list_all2_refl)

theorem rkd_poll_again:
  assumes "rkd_poll d resolve k st = Inr st'"
  shows "rkd_poll d resolve k st' = Inr st'"
proof -
  from assms obtain rt ar ifs where loads: "linux_proc_net_load_rtable (k_route k) = Inr rt"
      "linux_proc_net_load_arptable resolve (k_arp k) = Inr ar" "fill_iflist (k_ifconf k) = Inr ifs"
    by (auto simp: rkd_poll_def bindR_eq_Inr Let_def)
  with assms have "rtable_eq rt (rtcur st')" "arptable_eq ar (arpcur st')" "iflist_eq ifs (ifcur st')"
    by (auto simp: rkd_poll_def Let_def split: if_splits)
  with loads show ?thesis by (simp add: rkd_poll_def)
qed

theorem rkd_poll_again_witness:
  "\<exists>st. rkd_poll demo_device inet_pton demo_kernel (rkd_start demo_device ''nf10'' demo_board) = Inr st \<and> rkd_poll demo_device inet_pton demo_kernel st = Inr st"
proof -
  have "\<exists>st. rkd_poll demo_device inet_pton demo_kernel (rkd_start demo_device ''nf10'' demo_board) = Inr st" by (simp add: rkd_poll_def demo_loads Let_def)
  then show ?thesis using rkd_poll_again by blast
qed

text \<open>
  Claim C38. The registers of the ports follow the position in the list, not the device: when the interfaces of the board changed, the monitor writes the hardware address of the
  interface at position \<open>i\<close> of the new list to the registers of port \<open>i\<close>, whatever the name of the interface, and the registers of the ports behind the list keep what they held. So
  if only the second device has an address, its hardware address ends in the registers of the first port.
\<close>

theorem interface_mac_by_position:
  assumes "all_ok d" "local = filter (\<lambda>e. devtoport m (ie_name e) \<noteq> None) ifs" "\<not> iflist_eq (sm_ifl m) local" "i < 4"
  shows "last_write (writes (sm_board (interface_update d resolve ifs m))) (MAC_HI i) =
      (if i < length local then Some (mac_hi (ie_etha (local ! i))) else last_write (writes (sm_board m)) (MAC_HI i)) \<and>
    last_write (writes (sm_board (interface_update d resolve ifs m))) (MAC_LOW i) =
      (if i < length local then Some (mac_lo (ie_etha (local ! i))) else last_write (writes (sm_board m)) (MAC_LOW i))"
proof -
  have "interface_update d resolve ifs m = (update_interface_table d resolve local m)\<lparr>sm_ifl := local\<rparr>"
    using assms(2,3) by (simp add: interface_update_def Let_def)
  then show ?thesis using assms(4)
    by (auto simp: update_interface_table_log put_writes [OF assms(1)] last_write_append last_write_table nth_append if_cell_def split: option.splits)
qed

theorem interface_mac_by_position_witness:
  "let e = (\<lambda>name mac. \<lparr>ie_ip = 0x0200000A, ie_etha = [0, 0, 0, 0, 0, mac], ie_name = name\<rparr>);
       m = \<lparr>devtoport = [''nf0'' \<mapsto> 1, ''nf1'' \<mapsto> 4, ''nf2'' \<mapsto> 16], sm_rt = [], sm_at = [], sm_ifl = [], sm_board = demo_board\<rparr>;
       ws = writes (sm_board (interface_update demo_device inet_pton [e ''nf1'' 9, e ''eth0'' 8, e ''nf2'' 7] m))
   in last_write ws (MAC_LOW 0) = Some 9 \<and> last_write ws (MAC_LOW 1) = Some 7 \<and> last_write ws (MAC_LOW 2) = None"
proof -
  have lo: "mac_lo [0, 0, 0, 0, 0, 9] = 9" "mac_lo [0, 0, 0, 0, 0, 7] = 7" by (simp_all add: mac_lo_def)
  let ?e = "\<lambda>name mac. \<lparr>ie_ip = 0x0200000A, ie_etha = [0, 0, 0, 0, 0, mac], ie_name = name\<rparr>"
  let ?m = "\<lparr>devtoport = [''nf0'' \<mapsto> 1, ''nf1'' \<mapsto> 4, ''nf2'' \<mapsto> 16], sm_rt = [], sm_at = [], sm_ifl = [], sm_board = demo_board\<rparr>"
  have l: "[?e ''nf1'' 9, ?e ''nf2'' 7] = filter (\<lambda>x. devtoport ?m (ie_name x) \<noteq> None) [?e ''nf1'' 9, ?e ''eth0'' 8, ?e ''nf2'' 7]" by simp
  have n: "\<not> iflist_eq (sm_ifl ?m) [?e ''nf1'' 9, ?e ''nf2'' 7]" by (simp add: iflist_eq_def)
  note main = interface_mac_by_position [OF demo_device_ok l n, where resolve = inet_pton]
  show ?thesis using main [of 0] main [of 1] main [of 2] lo by (simp add: demo_board_def last_write_def Let_def)
qed

text \<open>
  The devices of the board are the four whose numbers start at the number found in the member \<^verbatim>\<open>interface\<close>, which the constructor reads and
  nothing writes. With a digit 7 in that memory the monitor ignores every entry of \<^verbatim>\<open>nf0\<close>.
\<close>

theorem sume_mon_devices:
  "(devtoport (sume_mon_ctor d iface_mem b) (nf_name n) \<noteq> None \<longleftrightarrow>
     atoi (cstr (drop 4 iface_mem)) \<le> n \<and> n \<le> atoi (cstr (drop 4 iface_mem)) + 3) \<and>
   devtoport (sume_mon_ctor d ''nf107'' b) ''nf0'' = None"
proof -
  have ports: "devtoport (sume_mon_ctor d mem b) (nf_name n) \<noteq> None \<longleftrightarrow> atoi (cstr (drop 4 mem)) \<le> n \<and> n \<le> atoi (cstr (drop 4 mem)) + 3" for mem n
    by (auto simp: ctor_devtoport nf_name_inj)
  have "cstr (drop 4 ''nf107'') = show_nat 7" by code_simp
  then have "atoi (cstr (drop 4 ''nf107'')) = 7" using atoi_show_nat [of 7] by simp
  then have "devtoport (sume_mon_ctor d ''nf107'' b) (nf_name 0) = None" using ports [of "''nf107''" 0] by (simp only: not_not) simp
  moreover have "nf_name 0 = ''nf0''" by code_simp
  ultimately show ?thesis using ports [of iface_mem n] by simp
qed

end
