(* ===== verification/Reg_Shell.thy ===== *)
theory Reg_Shell
  imports Board Stream_Scan
begin

text \<open>
  The register shell \<^verbatim>\<open>cli/cli.c\<close>: a prompt that reads commands from the standard input, sets, lists, loads and clears the rows of the
  hardware tables through \<^verbatim>\<open>readReg\<close> and \<^verbatim>\<open>writeReg\<close> of \<^verbatim>\<open>common/nfplus_util.c\<close>.

  The state is the unread input, the text printed and the board. A variable or a byte of allocated memory that nothing has set is a fault when it is used. The
  memory that \<^verbatim>\<open>parseip\<close> and \<^verbatim>\<open>parsemac\<close> allocate is the list of its optional bytes; \<^verbatim>\<open>strtok\<close> ends the string it works on after its first
  token, and the loops that load a file see that when a line of the file cannot be read.
\<close>

section \<open>State, output and registers\<close>

record shell =
  sh_in :: string
  sh_out :: string
  sh_board :: board

definition printf :: "string \<Rightarrow> shell \<Rightarrow> shell" where
  "printf s sh = sh\<lparr>sh_out := sh_out sh @ s\<rparr>"

definition nl :: string where
  "nl = [CHR 0x0A]"

definition READ_CMD :: u32 where
  "READ_CMD = 0x11"

definition WRITE_CMD :: u32 where
  "WRITE_CMD = 1"

definition reg_error :: "u32 \<Rightarrow> string" where
  "reg_error a = ''0x'' @ zero_left 8 (show_hex (unat a)) @ '': ERROR'' @ nl"

text \<open>\<^verbatim>\<open>err=writeReg(sume, r, v); if(err) printf("0x%08x: ERROR\n", r);\<close> and the same with \<^verbatim>\<open>readReg\<close>\<close>

definition set_reg :: "device \<Rightarrow> reg \<Rightarrow> u32 \<Rightarrow> shell \<Rightarrow> shell" where
  "set_reg d r v sh =
    (let (err, b) = board_writeReg d r v (sh_board sh); sh = sh\<lparr>sh_board := b\<rparr> in
     if err \<noteq> 0 then printf (reg_error (reg_address d r)) sh else sh)"

definition get_reg :: "device \<Rightarrow> reply_reg \<Rightarrow> shell \<Rightarrow> u32 option \<times> shell" where
  "get_reg d r sh =
    (let (err, v, b) = board_readReg d r (sh_board sh); sh = sh\<lparr>sh_board := b\<rparr> in
     (v, if err \<noteq> 0 then printf (reg_error (reply_address d r)) sh else sh))"

definition initR :: "'a option \<Rightarrow> 'a res" where
  "initR v = (case v of None \<Rightarrow> Inl Uninitialised | Some x \<Rightarrow> Inr x)"

section \<open>Addresses\<close>

function strtoks :: "char \<Rightarrow> string \<Rightarrow> string list" where
  "strtoks c s =
    (let t = dropWhile (\<lambda>x. x = c) s in
     if t = [] then [] else takeWhile (\<lambda>x. x \<noteq> c) t # strtoks c (dropWhile (\<lambda>x. x \<noteq> c) t))"
  by auto
termination
proof (relation "measure (length \<circ> snd)", goal_cases)
  case (2 c s t)
  from 2(2) obtain x xs where t: "t = x # xs" by (meson neq_Nil_conv)
  have "List.hd t \<noteq> c" using hd_dropWhile [of "\<lambda>x. x = c" s] 2 by simp
  then have "x \<noteq> c" using t by simp
  then have "length (dropWhile (\<lambda>x. x \<noteq> c) t) < length t" using t length_dropWhile_le [of "\<lambda>x. x \<noteq> c" xs] by simp
  moreover have "length t \<le> length s" using 2 length_dropWhile_le by simp
  ultimately show ?case by simp
qed simp

declare strtoks.simps [simp del]

text \<open>The string that is left in the buffer: \<^verbatim>\<open>strtok\<close> writes a zero behind the first token.\<close>

definition after_strtok :: "char \<Rightarrow> string \<Rightarrow> string" where
  "after_strtok c s = takeWhile (\<lambda>x. x = c) s @ takeWhile (\<lambda>x. x \<noteq> c) (dropWhile (\<lambda>x. x = c) s)"

fun store_all :: "(string \<Rightarrow> u8 res) \<Rightarrow> string list \<Rightarrow> nat \<Rightarrow> u8 option list \<Rightarrow> u8 option list res" where
  "store_all f [] i mem = Inr mem"
| "store_all f (t # ts) i mem =
    bindR (f t) (\<lambda>b. if i < length mem then store_all f ts (Suc i) (mem[i := Some b]) else Inl OutOfBounds)"

definition parseip :: "string \<Rightarrow> u8 option list res" where
  "parseip str = store_all (\<lambda>num. Inr (word_of_int (atoi num))) (strtoks CHR ''.'' str) 0 (replicate 4 None)"

definition scan_byte :: "string \<Rightarrow> u8 res" where
  "scan_byte num = (case scan_number 16 None num of None \<Rightarrow> Inl Uninitialised | Some (neg, v, r) \<Rightarrow> Inr (ucast (to_uint neg v)))"

definition parsemac :: "string \<Rightarrow> u8 option list res" where
  "parsemac str = store_all scan_byte (strtoks CHR '':'' str) 0 (replicate 6 None)"

definition byte_at :: "u8 option list \<Rightarrow> nat \<Rightarrow> u32 res" where
  "byte_at mem i = (if i < length mem then bindR (initR (mem ! i)) (\<lambda>b. Inr (ucast b)) else Inl OutOfBounds)"

text \<open>\<^verbatim>\<open>p[i] << 24 | p[i+1] << 16 | p[i+2] << 8 | p[i+3]\<close> and \<^verbatim>\<open>p[0] << 8 | p[1]\<close>\<close>

definition word_at :: "u8 option list \<Rightarrow> nat \<Rightarrow> u32 res" where
  "word_at mem i =
    bindR (byte_at mem i) (\<lambda>a. bindR (byte_at mem (i + 1)) (\<lambda>b. bindR (byte_at mem (i + 2)) (\<lambda>c. bindR (byte_at mem (i + 3)) (\<lambda>d.
      Inr (push_bit 24 a OR push_bit 16 b OR push_bit 8 c OR d)))))"

definition half_at :: "u8 option list \<Rightarrow> u32 res" where
  "half_at mem = bindR (byte_at mem 0) (\<lambda>a. bindR (byte_at mem 1) (\<lambda>b. Inr (push_bit 8 a OR b)))"

section \<open>Writing a row\<close>

definition addmac :: "device \<Rightarrow> int \<Rightarrow> u8 option list \<Rightarrow> shell \<Rightarrow> shell res" where
  "addmac d port mac sh =
    (if port < 0 \<or> port > 3 then Inl OutOfBounds
     else bindR (half_at mac) (\<lambda>hi.
       let sh = set_reg d (MAC_HI (nat port)) hi sh in
       bindR (word_at mac 2) (\<lambda>lo. Inr (set_reg d (MAC_LOW (nat port)) lo sh))))"

definition addarp :: "device \<Rightarrow> int \<Rightarrow> u8 option list \<Rightarrow> u8 option list \<Rightarrow> shell \<Rightarrow> shell res" where
  "addarp d entry ip mac sh =
    (let table_address = arp_address d OR word_of_int entry in
     bindR (word_at ip 0) (\<lambda>w.
     let sh = set_reg d WRDATA_B_LOW w sh in
     bindR (half_at mac) (\<lambda>hi.
     let sh = set_reg d WRDATA_A_HI hi sh in
     bindR (word_at mac 2) (\<lambda>lo.
     Inr (set_reg d INDIRECTCOMMAND WRITE_CMD (set_reg d INDIRECTADDRESS table_address (set_reg d WRDATA_A_LOW lo sh)))))))"

definition addip :: "device \<Rightarrow> int \<Rightarrow> u8 option list \<Rightarrow> u8 option list \<Rightarrow> u8 option list \<Rightarrow> int \<Rightarrow> shell \<Rightarrow> shell res" where
  "addip d entry subnet msk nexthop port sh =
    (let table_address = lpm_address d OR word_of_int entry in
     bindR (word_at subnet 0) (\<lambda>s.
     let sh = set_reg d WRDATA_A_HI s sh in
     bindR (word_at msk 0) (\<lambda>m.
     let sh = set_reg d WRDATA_B_HI m sh in
     bindR (word_at nexthop 0) (\<lambda>n.
     let sh = set_reg d WRDATA_B_LOW (word_of_int port) (set_reg d WRDATA_A_LOW n sh) in
     Inr (set_reg d INDIRECTCOMMAND WRITE_CMD (set_reg d INDIRECTADDRESS table_address sh))))))"

definition addfilter :: "device \<Rightarrow> int \<Rightarrow> u8 option list \<Rightarrow> shell \<Rightarrow> shell res" where
  "addfilter d entry ip sh =
    (let table_address = filter_address d OR word_of_int entry;
         sh = set_reg d WRDATA_A_LOW 0 (set_reg d WRDATA_B_HI 0 (set_reg d WRDATA_A_HI 0 sh)) in
     bindR (word_at ip 0) (\<lambda>w.
     Inr (set_reg d INDIRECTCOMMAND WRITE_CMD (set_reg d INDIRECTADDRESS table_address (set_reg d WRDATA_B_LOW w sh)))))"

section \<open>Commands that set a row\<close>

definition scanf :: "conv list \<Rightarrow> shell \<Rightarrow> (vars \<times> shell) res" where
  "scanf cs sh =
    bindR (fscanf cs (sh_in sh)) (\<lambda>(vals, eof, rest). Inr (assign vals (replicate (length cs) None), sh\<lparr>sh_in := rest\<rparr>))"

definition setip :: "device \<Rightarrow> shell \<Rightarrow> shell res" where
  "setip d sh =
    (let sh = printf (''Enter [entry] [subnet]      [mask]       [nexthop] [port]:'' @ nl @
           ''e.g.     0   192.168.1.0  255.255.255.0  15.1.3.1     4:'' @ nl @ ''>> '') sh in
     bindR (scanf [CvInt, CvStr 15, CvStr 15, CvStr 15, CvHex] sh) (\<lambda>(vs, sh).
     bindR (the_int vs 0) (\<lambda>entry.
     if entry < 0 \<or> entry > int (lpm_depth d) - 1 then Inr (printf (''Entry must be between 0 and 31. Aborting'' @ nl) sh)
     else bindR (the_int vs 4) (\<lambda>port.
     if port < 1 \<or> port > 255 then Inr (printf (''Port must be between 1 and ff.  Aborting'' @ nl) sh)
     else
       bindR (bindR (the_str vs 1) parseip) (\<lambda>sn.
       bindR (bindR (the_str vs 2) parseip) (\<lambda>m.
       bindR (bindR (the_str vs 3) parseip) (\<lambda>nh.
       addip d entry sn m nh port sh)))))))"

definition setarp :: "device \<Rightarrow> shell \<Rightarrow> shell res" where
  "setarp d sh =
    (let sh = printf (''Enter [entry] [ip] [mac]:'' @ nl @ ''>> '') sh in
     bindR (scanf [CvInt, CvStr 15, CvStr 30] sh) (\<lambda>(vs, sh).
     bindR (the_int vs 0) (\<lambda>entry.
     if entry < 0 \<or> entry > int (arp_depth d) - 1 then Inr (printf (''Entry must be between 0 and 31. Aborting'' @ nl) sh)
     else
       bindR (bindR (the_str vs 1) parseip) (\<lambda>nh.
       bindR (bindR (the_str vs 2) parsemac) (\<lambda>m.
       addarp d entry nh m sh)))))"

definition setmac :: "device \<Rightarrow> shell \<Rightarrow> shell res" where
  "setmac d sh =
    (let sh = printf (''Enter [port] [mac]:'' @ nl @ ''>> '') sh in
     bindR (scanf [CvInt, CvStr 30] sh) (\<lambda>(vs, sh).
     bindR (the_int vs 0) (\<lambda>port.
     if port < 0 \<or> port > 3 then Inr (printf (''Port must be between 0 and 3. Aborting'' @ nl) sh)
     else bindR (bindR (the_str vs 1) parsemac) (\<lambda>m. addmac d port m sh))))"

definition setfilter :: "device \<Rightarrow> shell \<Rightarrow> shell res" where
  "setfilter d sh =
    (let sh = printf (''Enter [entry] [ip]:'' @ nl @ ''e.g.     0   15.1.3.1:'' @ nl @ ''>> '') sh in
     bindR (scanf [CvInt, CvStr 15] sh) (\<lambda>(vs, sh).
     bindR (the_int vs 0) (\<lambda>entry.
     if entry < 0 \<or> entry > int (filter_depth d) - 1 then Inr (printf (''Entry must be between 0 and 31. Aborting'' @ nl) sh)
     else bindR (bindR (the_str vs 1) parseip) (\<lambda>destip. addfilter d entry destip sh))))"

section \<open>Commands that list a table\<close>

definition dotted :: "u32 \<Rightarrow> string" where
  "dotted w = show_nat (unat (drop_bit 24 w)) @ ''.'' @ show_nat (unat (drop_bit 16 w AND 0xff)) @ ''.'' @
    show_nat (unat (drop_bit 8 w AND 0xff)) @ ''.'' @ show_nat (unat (w AND 0xff))"

definition colons :: "u32 \<Rightarrow> u32 \<Rightarrow> string" where
  "colons machi maclo = show_hex (unat (drop_bit 8 machi AND 0xff)) @ '':'' @ show_hex (unat (machi AND 0xff)) @ '':'' @
    show_hex (unat (drop_bit 24 maclo AND 0xff)) @ '':'' @ show_hex (unat (drop_bit 16 maclo AND 0xff)) @ '':'' @
    show_hex (unat (drop_bit 8 maclo AND 0xff)) @ '':'' @ show_hex (unat (maclo AND 0xff))"

text \<open>The loop body of a list command runs for each row in turn.\<close>

fun for_rows :: "(nat \<Rightarrow> shell \<Rightarrow> shell res) \<Rightarrow> nat list \<Rightarrow> shell \<Rightarrow> shell res" where
  "for_rows body [] sh = Inr sh"
| "for_rows body (i # is) sh = bindR (body i sh) (for_rows body is)"

definition read_row :: "device \<Rightarrow> u32 \<Rightarrow> shell \<Rightarrow> shell" where
  "read_row d table_address sh = set_reg d INDIRECTCOMMAND READ_CMD (set_reg d INDIRECTADDRESS table_address sh)"

definition listip_row :: "device \<Rightarrow> nat \<Rightarrow> shell \<Rightarrow> shell res" where
  "listip_row d i sh =
    (let sh = read_row d (lpm_address d OR word_of_nat i) sh;
         (subnet, sh) = get_reg d REPLY_A_HI sh;
         (msk, sh) = get_reg d REPLY_B_HI sh;
         (nh, sh) = get_reg d REPLY_A_LOW sh;
         (valport, sh) = get_reg d REPLY_B_LOW sh;
         sh = printf (''Entry #'' @ show_nat i @ '':   '') sh in
     bindR (initR valport) (\<lambda>valport.
     let port = valport AND 0xff in
     bindR (initR subnet) (\<lambda>subnet.
     bindR (initR msk) (\<lambda>msk.
     if subnet \<noteq> 0 \<or> msk \<noteq> 0xffffffff \<or> port \<noteq> 0 then
       bindR (initR nh) (\<lambda>nh. Inr (printf (''Subnet: '' @ dotted subnet @ '', Mask: 0x'' @ show_hex (unat msk) @ '', Next Hop: '' @ dotted nh @
         '', Port: 0x'' @ zero_left 2 (show_hex (unat port)) @ nl) sh))
     else Inr (printf (''--Invalid--'' @ nl) sh)))))"

definition listip :: "device \<Rightarrow> shell \<Rightarrow> shell res" where
  "listip d sh = for_rows (listip_row d) [0..<lpm_depth d] sh"

definition listarp_row :: "device \<Rightarrow> nat \<Rightarrow> shell \<Rightarrow> shell res" where
  "listarp_row d i sh =
    (let sh = read_row d (arp_address d OR word_of_nat i) sh;
         (ip, sh) = get_reg d REPLY_B_LOW sh;
         (machi, sh) = get_reg d REPLY_A_HI sh;
         (maclo, sh) = get_reg d REPLY_A_LOW sh;
         sh = printf (''Entry #'' @ show_nat i @ '':   '') sh in
     bindR (initR ip) (\<lambda>ip.
     if ip \<noteq> 0 then
       bindR (initR machi) (\<lambda>machi. bindR (initR maclo) (\<lambda>maclo.
       Inr (printf (''IP: '' @ dotted ip @ '', MAC: '' @ colons machi maclo @ nl) sh)))
     else Inr (printf (''--Invalid--'' @ nl) sh)))"

definition listarp :: "device \<Rightarrow> shell \<Rightarrow> shell res" where
  "listarp d sh = for_rows (listarp_row d) [0..<arp_depth d] sh"

definition listmac_row :: "device \<Rightarrow> nat \<Rightarrow> shell \<Rightarrow> shell res" where
  "listmac_row d i sh =
    (let (machi, sh) = get_reg d (REPLY_MAC (MAC_HI i)) sh;
         (maclo, sh) = get_reg d (REPLY_MAC (MAC_LOW i)) sh;
         sh = printf (''Port #'' @ show_nat i @ '':   '') sh in
     bindR (initR machi) (\<lambda>machi. bindR (initR maclo) (\<lambda>maclo.
     Inr (printf (''MAC: '' @ colons machi maclo @ nl) sh))))"

definition listmac :: "device \<Rightarrow> shell \<Rightarrow> shell res" where
  "listmac d sh = for_rows (listmac_row d) [0..<4] sh"

definition listfilter_row :: "device \<Rightarrow> nat \<Rightarrow> shell \<Rightarrow> shell res" where
  "listfilter_row d i sh =
    (let sh = read_row d (filter_address d OR word_of_nat i) sh;
         (ip, sh) = get_reg d REPLY_B_LOW sh;
         sh = printf (''Entry #'' @ show_nat i @ '':   '') sh in
     bindR (initR ip) (\<lambda>ip.
     Inr (printf (if ip \<noteq> 0 then ''ip: '' @ dotted ip @ nl else ''--Invalid--'' @ nl) sh)))"

definition listfilter :: "device \<Rightarrow> shell \<Rightarrow> shell res" where
  "listfilter d sh = for_rows (listfilter_row d) [0..<filter_depth d] sh"

section \<open>Commands that load a file\<close>

text \<open>The loops of the four commands: \<^verbatim>\<open>while (fscanf(...) != EOF)\<close>. The body gets the variables and returns them, since it changes the strings.\<close>

partial_function (option) load_loop ::
  "conv list \<Rightarrow> (vars \<Rightarrow> shell \<Rightarrow> (vars \<times> shell) res) \<Rightarrow> string \<Rightarrow> vars \<Rightarrow> shell \<Rightarrow> shell res option" where
  "load_loop cs body fp vs sh =
    (case fscanf cs fp of
       Inl e \<Rightarrow> Some (Inl e)
     | Inr (vals, eof, rest) \<Rightarrow>
         if vals = [] \<and> eof then Some (Inr sh)
         else (case body (assign vals vs) sh of
             Inl e \<Rightarrow> Some (Inl e)
           | Inr (vs, sh) \<Rightarrow> load_loop cs body rest vs sh))"

definition run_loop :: "shell res option \<Rightarrow> shell res" where
  "run_loop r = (case r of None \<Rightarrow> Inl NonTermination | Some r \<Rightarrow> r)"

text \<open>A token parser applied to the variable at a position, with the change that it makes to the string.\<close>

definition parse_var :: "char \<Rightarrow> (string \<Rightarrow> u8 option list res) \<Rightarrow> nat \<Rightarrow> vars \<Rightarrow> (u8 option list \<times> vars) res" where
  "parse_var c parser i vs =
    bindR (the_str vs i) (\<lambda>s. bindR (parser s) (\<lambda>mem. Inr (mem, vs[i := Some (ArgS (after_strtok c s))])))"

definition ip_convs :: "conv list" where
  "ip_convs = [CvInt, CvStr 20, CvStr 20, CvStr 20, CvHex]"

definition loadip_line :: "device \<Rightarrow> vars \<Rightarrow> shell \<Rightarrow> (vars \<times> shell) res" where
  "loadip_line d vs sh =
    bindR (parse_var CHR ''.'' parseip 1 vs) (\<lambda>(sn, vs).
    bindR (parse_var CHR ''.'' parseip 2 vs) (\<lambda>(m, vs).
    bindR (parse_var CHR ''.'' parseip 3 vs) (\<lambda>(nh, vs).
    bindR (the_int vs 0) (\<lambda>entry.
    bindR (the_int vs 4) (\<lambda>port.
    bindR (addip d entry sn m nh port sh) (\<lambda>sh. Inr (vs, sh)))))))"

definition ask_file :: "shell \<Rightarrow> (string \<times> shell) res" where
  "ask_file sh =
    bindR (scanf [CvStr 30] (printf (''Enter filename:'' @ nl @ ''>> '') sh)) (\<lambda>(vs, sh). bindR (the_str vs 0) (\<lambda>fn. Inr (fn, sh)))"

definition no_file :: "string \<Rightarrow> string" where
  "no_file fn = ''Error: cannot open file '' @ fn @ ''.'' @ nl"

definition loadip :: "device \<Rightarrow> shell \<Rightarrow> shell res" where
  "loadip d sh =
    bindR (ask_file sh) (\<lambda>(fn, sh).
    case file_text d fn of
      None \<Rightarrow> Inr (printf (no_file fn) sh)
    | Some fp \<Rightarrow> run_loop (load_loop ip_convs (loadip_line d) fp (replicate 5 None) sh))"

definition loadarp_line :: "device \<Rightarrow> vars \<Rightarrow> shell \<Rightarrow> (vars \<times> shell) res" where
  "loadarp_line d vs sh =
    bindR (parse_var CHR ''.'' parseip 1 vs) (\<lambda>(i, vs).
    bindR (parse_var CHR '':'' parsemac 2 vs) (\<lambda>(m, vs).
    bindR (the_int vs 0) (\<lambda>entry.
    bindR (addarp d entry i m sh) (\<lambda>sh. Inr (vs, sh)))))"

definition arp_file_convs :: "conv list" where
  "arp_file_convs = [CvInt, CvStr 20, CvStr 20]"

definition loadarp :: "device \<Rightarrow> shell \<Rightarrow> shell res" where
  "loadarp d sh =
    bindR (ask_file sh) (\<lambda>(fn, sh).
    bindR (derefR (file_text d fn)) (\<lambda>fp. run_loop (load_loop arp_file_convs (loadarp_line d) fp (replicate 3 None) sh)))"

definition loadmac_line :: "device \<Rightarrow> vars \<Rightarrow> shell \<Rightarrow> (vars \<times> shell) res" where
  "loadmac_line d vs sh =
    bindR (parse_var CHR '':'' parsemac 1 vs) (\<lambda>(m, vs).
    bindR (the_int vs 0) (\<lambda>port.
    bindR (addmac d port m sh) (\<lambda>sh. Inr (vs, sh))))"

definition loadmac :: "device \<Rightarrow> shell \<Rightarrow> shell res" where
  "loadmac d sh =
    bindR (ask_file sh) (\<lambda>(fn, sh).
    bindR (derefR (file_text d fn)) (\<lambda>fp. run_loop (load_loop [CvInt, CvStr 20] (loadmac_line d) fp (replicate 2 None) sh)))"

definition loadfilter_line :: "device \<Rightarrow> vars \<Rightarrow> shell \<Rightarrow> (vars \<times> shell) res" where
  "loadfilter_line d vs sh =
    bindR (parse_var CHR ''.'' parseip 1 vs) (\<lambda>(f, vs).
    bindR (the_int vs 0) (\<lambda>entry.
    bindR (addfilter d entry f sh) (\<lambda>sh. Inr (vs, sh))))"

definition loadfilter :: "device \<Rightarrow> shell \<Rightarrow> shell res" where
  "loadfilter d sh =
    bindR (ask_file sh) (\<lambda>(fn, sh).
    case file_text d fn of
      None \<Rightarrow> Inr (printf (no_file fn) sh)
    | Some fp \<Rightarrow> run_loop (load_loop [CvInt, CvStr 20] (loadfilter_line d) fp (replicate 2 None) sh))"

section \<open>Commands that clear a row\<close>

definition clearip :: "device \<Rightarrow> shell \<Rightarrow> shell res" where
  "clearip d sh =
    bindR (scanf [CvInt] (printf (''Specify entry:'' @ nl @ ''>> '') sh)) (\<lambda>(vs, sh).
    let sh = set_reg d WRDATA_B_LOW 0 (set_reg d WRDATA_A_LOW 0 (set_reg d WRDATA_B_HI 0xffffffff (set_reg d WRDATA_A_HI 0 sh))) in
    bindR (the_int vs 0) (\<lambda>entry.
    Inr (set_reg d INDIRECTCOMMAND 1 (set_reg d INDIRECTADDRESS (lpm_address d OR word_of_int entry) sh))))"

definition cleararp :: "device \<Rightarrow> shell \<Rightarrow> shell res" where
  "cleararp d sh =
    bindR (scanf [CvInt] (printf (''Specify entry:'' @ nl @ ''>> '') sh)) (\<lambda>(vs, sh).
    let sh = set_reg d WRDATA_A_LOW 0 (set_reg d WRDATA_A_HI 0 (set_reg d WRDATA_B_LOW 0 sh)) in
    bindR (the_int vs 0) (\<lambda>entry.
    Inr (set_reg d INDIRECTCOMMAND 1 (set_reg d INDIRECTADDRESS (arp_address d OR word_of_int entry) sh))))"

definition clearfilter :: "device \<Rightarrow> shell \<Rightarrow> shell res" where
  "clearfilter d sh =
    bindR (scanf [CvInt] (printf (''Specify entry:'' @ nl @ ''>> '') sh)) (\<lambda>(vs, sh).
    let sh = set_reg d WRDATA_B_LOW 0 (set_reg d WRDATA_A_LOW 0 (set_reg d WRDATA_B_HI 0 (set_reg d WRDATA_A_HI 0 sh))) in
    bindR (the_int vs 0) (\<lambda>entry.
    Inr (set_reg d INDIRECTCOMMAND 1 (set_reg d INDIRECTADDRESS (filter_address d OR word_of_int entry) sh))))"

section \<open>The prompt\<close>

definition shell_help :: "shell \<Rightarrow> shell" where
  "shell_help sh = printf (concat (map (\<lambda>l. l @ nl)
    [''Commands:'',
     ''  listip        - Lists entries in IP routing table'',
     ''  listarp       - Lists entries in the ARP table'',
     ''  listmac       - Lists the MAC addresses of the router ports'',
     ''  listfilter    - Lists entries in Destination IP filter'',
     ''  setip         - Set an entry in the IP routing table'',
     ''  setarp        - Set an entry in the ARP table'',
     ''  setmac        - Set the MAC address of a router port'',
     ''  setfilter     - set an entry in Destination IP filter'',
     ''  loadip        - Load IP routing table entries from a file'',
     ''  loadarp       - Load ARP table entries from a file'',
     ''  loadmac       - Load MAC addresses of router ports from a file'',
     ''  loadfilter    - Load Destination IP filter from a file'',
     ''  clearip       - Clear an IP routing table entry'',
     ''  cleararp      - Clear an ARP table entry'',
     ''  clearfilter   - Clear a Destination IP filter entry'',
     ''  help          - Displays this list'',
     ''  quit          - Exit this program''])) sh"

definition parse_table :: "(string \<times> int) list" where
  "parse_table =
    [(''listip'', 0), (''listarp'', 1), (''setip'', 2), (''setarp'', 3), (''loadip'', 4), (''loadarp'', 5), (''clearip'', 6), (''cleararp'', 7),
     (''listmac'', 12), (''setmac'', 13), (''loadmac'', 14), (''listfilter'', 15), (''setfilter'', 16), (''loadfilter'', 17), (''clearfilter'', 18),
     (''help'', 8), (''quit'', 9)]"

definition parse :: "string \<Rightarrow> int" where
  "parse w = (case map_of parse_table w of None \<Rightarrow> - 1 | Some n \<Rightarrow> n)"

text \<open>One turn of the loop: whether the prompt returns, and the state.\<close>

definition go_on :: "shell res \<Rightarrow> (bool \<times> shell) res" where
  "go_on r = bindR r (\<lambda>sh. Inr (False, sh))"

definition prompt_step :: "device \<Rightarrow> shell \<Rightarrow> (bool \<times> shell) res" where
  "prompt_step d sh =
    bindR (scanf [CvStr 10] (printf ''> '' sh)) (\<lambda>(vs, sh).
    bindR (the_str vs 0) (\<lambda>c.
    let res = parse c in
    if res = 0 then go_on (listip d sh) else if res = 1 then go_on (listarp d sh)
    else if res = 2 then go_on (setip d sh) else if res = 3 then go_on (setarp d sh)
    else if res = 4 then go_on (loadip d sh) else if res = 5 then go_on (loadarp d sh)
    else if res = 6 then go_on (clearip d sh) else if res = 7 then go_on (cleararp d sh)
    else if res = 12 then go_on (listmac d sh) else if res = 13 then go_on (setmac d sh)
    else if res = 14 then go_on (loadmac d sh) else if res = 15 then go_on (listfilter d sh)
    else if res = 16 then go_on (setfilter d sh) else if res = 17 then go_on (loadfilter d sh)
    else if res = 18 then go_on (clearfilter d sh) else if res = 8 then go_on (Inr (shell_help sh))
    else if res = 9 then Inr (True, sh)
    else go_on (Inr (printf (''Unknown command, type '' @ [CHR 0x27] @ ''help'' @ [CHR 0x27] @ '' for list of commands'' @ nl) sh))))"

partial_function (option) prompt_loop :: "device \<Rightarrow> shell \<Rightarrow> shell res option" where
  "prompt_loop d sh =
    (case prompt_step d sh of
       Inl e \<Rightarrow> Some (Inl e)
     | Inr (stop, sh) \<Rightarrow> if stop then Some (Inr sh) else prompt_loop d sh)"

end
