(* ===== verification/Shell_Rows.thy ===== *)
theory Shell_Rows
  imports Reg_Shell
begin

text \<open>
  What the commands of the register shell do to the tables: a typed or loaded row is committed to its address and to no other, and a list
  command prints the rows that the hardware holds. Addresses are read back as they are printed.
\<close>

section \<open>Registers\<close>

definition poke :: "device \<Rightarrow> reg_log \<Rightarrow> shell \<Rightarrow> shell" where
  "poke d ws sh = sh\<lparr>sh_board := put d ws (sh_board sh)\<rparr>"

named_theorems shell_simps \<open>evaluation of shell commands on a working device\<close>

lemma set_reg_ok [shell_simps]: "all_ok d \<Longrightarrow> set_reg d r v sh = poke d [(r, v)] sh"
  by (simp add: set_reg_def board_writeReg_def all_ok_def poke_def put_def)

lemma poke_poke [shell_simps]: "poke d ys (poke d xs sh) = poke d (xs @ ys) sh"
  by (simp add: poke_def put_append)

lemma poke_fields [simp]: "sh_in (poke d ws sh) = sh_in sh" "sh_out (poke d ws sh) = sh_out sh" "sh_board (poke d ws sh) = put d ws (sh_board sh)"
  by (simp_all add: poke_def)

lemma printf_fields [simp]: "sh_in (printf s sh) = sh_in sh" "sh_out (printf s sh) = sh_out sh @ s" "sh_board (printf s sh) = sh_board sh"
  by (simp_all add: printf_def)

definition peeked :: "shell \<Rightarrow> shell" where
  "peeked sh = sh\<lparr>sh_board := (sh_board sh)\<lparr>ioctls := ioctls (sh_board sh) + 1\<rparr>\<rparr>"

lemma get_reg_ok [shell_simps]: "all_ok d \<Longrightarrow> get_reg d r sh = (Some (hw_read d (writes (sh_board sh)) r), peeked sh)"
  by (simp add: get_reg_def board_readReg_def all_ok_def peeked_def Let_def)

lemma peeked_fields [simp]: "sh_in (peeked sh) = sh_in sh" "sh_out (peeked sh) = sh_out sh" "writes (sh_board (peeked sh)) = writes (sh_board sh)"
  by (simp_all add: peeked_def)

lemma initR_Some [simp]: "initR (Some x) = Inr x"
  by (simp add: initR_def)

section \<open>Addresses\<close>

lemma strtoks_skip: "strtoks c (c # s) = strtoks c s"
  by (subst (1 2) strtoks.simps) simp

lemma strtoks_Nil [simp]: "strtoks c [] = []"
  by (subst strtoks.simps) simp

lemma takeWhile_no: "c \<notin> set w \<Longrightarrow> takeWhile (\<lambda>x. x \<noteq> c) (w @ c # s) = w" "c \<notin> set w \<Longrightarrow> dropWhile (\<lambda>x. x \<noteq> c) (w @ c # s) = c # s"
  "c \<notin> set w \<Longrightarrow> takeWhile (\<lambda>x. x \<noteq> c) w = w" "c \<notin> set w \<Longrightarrow> dropWhile (\<lambda>x. x \<noteq> c) w = []"
  by (induction w) auto

lemma strtoks_word:
  assumes "c \<notin> set w" "w \<noteq> []"
  shows "strtoks c (w @ c # s) = w # strtoks c s" "strtoks c w = [w]"
proof -
  have "dropWhile (\<lambda>x. x = c) (w @ t) = w @ t" for t using assms by (cases w) auto
  from this [of "c # s"] this [of "[]"] show "strtoks c (w @ c # s) = w # strtoks c s" "strtoks c w = [w]"
    using assms(2) by (simp_all add: strtoks.simps [of c "w @ c # s"] strtoks.simps [of c w] strtoks_skip takeWhile_no [OF assms(1)] del: dropWhile_eq_self_iff)
qed

lemma digits_no: "list_all (is_digit base) ds \<Longrightarrow> CHR ''.'' \<notin> set ds \<and> CHR '':'' \<notin> set ds"
  by (auto simp: list_all_iff is_digit_def digit_val_def)

lemma and_ff: "(w :: u32) AND 0xff = take_bit 8 w"
proof -
  have "(0xff :: u32) = mask 8" by (simp add: mask_eq_exp_minus_1)
  then show ?thesis by (simp only: take_bit_eq_mask)
qed

definition octet :: "nat \<Rightarrow> u32 \<Rightarrow> u8" where
  "octet k w = ucast (drop_bit (8 * k) w)"

lemma unat_octet: "unat (octet k w) = unat (drop_bit (8 * k) w AND 0xff)"
  by (simp add: octet_def and_ff unsigned_ucast_eq unsigned_take_bit_eq)

lemma octet_3: "unat (octet 3 w) = unat (drop_bit 24 w)"
proof -
  have "take_bit 8 (drop_bit 24 w) = drop_bit 24 w" by (rule bit_word_eqI) (auto simp: bit_simps dest: bit_imp_le_length)
  then show ?thesis using unat_octet [of 3 w] by (simp add: and_ff)
qed

lemma dotted_octets: "dotted w = show_nat (unat (octet 3 w)) @ ''.'' @ show_nat (unat (octet 2 w)) @ ''.'' @ show_nat (unat (octet 1 w)) @ ''.'' @ show_nat (unat (octet 0 w))"
  using unat_octet [of 2 w] unat_octet [of 1 w] unat_octet [of 0 w] by (simp add: dotted_def octet_3)

lemma join_octets: "push_bit 24 (ucast (octet 3 w)) OR push_bit 16 (ucast (octet 2 w)) OR push_bit 8 (ucast (octet 1 w)) OR ucast (octet 0 w) = w"
  (is "?l = w")
proof (rule bit_word_eqI)
  fix n
  assume "n < LENGTH(32)"
  then consider "n < 8" | "8 \<le> n" "n < 16" | "16 \<le> n" "n < 24" | "24 \<le> n" "n < 32" by fastforce
  then show "bit ?l n = bit w n"
    by cases (simp_all add: octet_def bit_simps, auto)
qed

lemma atoi_byte: "word_of_int (atoi (show_nat (unat (b :: u8)))) = b"
  using unat_u8_lt [of b] by (simp add: atoi_show_nat)

definition octet_bytes :: "u32 \<Rightarrow> u8 option list" where
  "octet_bytes w = [Some (octet 3 w), Some (octet 2 w), Some (octet 1 w), Some (octet 0 w)]"

lemma parseip_dotted: "parseip (dotted w) = Inr (octet_bytes w)"
proof -
  have "strtoks CHR ''.'' (dotted w) = [show_nat (unat (octet 3 w)), show_nat (unat (octet 2 w)), show_nat (unat (octet 1 w)), show_nat (unat (octet 0 w))]"
    using digits_no [OF show_nat_digits] by (simp add: dotted_octets strtoks_word)
  then show ?thesis by (simp add: parseip_def atoi_byte octet_bytes_def eval_nat_numeral)
qed

lemma byte_at_Some: "i < length mem \<Longrightarrow> mem ! i = Some b \<Longrightarrow> byte_at mem i = Inr (ucast b)"
  by (simp add: byte_at_def)

lemma word_at_octets [simp]: "word_at (octet_bytes w) 0 = Inr w"
proof -
  have "byte_at (octet_bytes w) 0 = Inr (ucast (octet 3 w))" "byte_at (octet_bytes w) 1 = Inr (ucast (octet 2 w))"
    "byte_at (octet_bytes w) 2 = Inr (ucast (octet 1 w))" "byte_at (octet_bytes w) 3 = Inr (ucast (octet 0 w))"
    by (rule byte_at_Some; simp add: octet_bytes_def)+
  then show ?thesis using join_octets [of w] by (simp add: word_at_def numeral_2_eq_2)
qed

section \<open>Listing\<close>

text \<open>Selecting a row with the read command makes the reply registers hold the words of that row: what the table memory of the hardware promises.\<close>

definition reads_rows :: "device \<Rightarrow> bool" where
  "reads_rows d = (\<forall>ws a ah al bh bl. hw_rows ws a = Some (ah, al, bh, bl) \<longrightarrow>
    (let ws = ws @ [(INDIRECTADDRESS, a), (INDIRECTCOMMAND, READ_CMD)] in
     hw_read d ws REPLY_A_HI = ah \<and> hw_read d ws REPLY_A_LOW = al \<and> hw_read d ws REPLY_B_HI = bh \<and> hw_read d ws REPLY_B_LOW = bl))"

lemma hw_rows_select [simp]: "hw_rows (ws @ [(INDIRECTADDRESS, a), (INDIRECTCOMMAND, READ_CMD)]) = hw_rows ws"
  by (simp add: hw_rows_def READ_CMD_def)

lemma replay_reads_rows: "reads_rows demo_device"
  by (simp add: reads_rows_def demo_device_def replay_def hw_rows_def READ_CMD_def Let_def)

definition ip_row_text :: "nat \<Rightarrow> row \<Rightarrow> string" where
  "ip_row_text i r = (case r of (subnet, nh, msk, valport) \<Rightarrow>
    ''Entry #'' @ show_nat i @ '':   '' @
    (if subnet \<noteq> 0 \<or> msk \<noteq> 0xffffffff \<or> valport AND 0xff \<noteq> 0
     then ''Subnet: '' @ dotted subnet @ '', Mask: 0x'' @ show_hex (unat msk) @ '', Next Hop: '' @ dotted nh @
       '', Port: 0x'' @ zero_left 2 (show_hex (unat (valport AND 0xff))) @ nl
     else ''--Invalid--'' @ nl))"

definition arp_row_text :: "nat \<Rightarrow> row \<Rightarrow> string" where
  "arp_row_text i r = (case r of (machi, maclo, b, ip) \<Rightarrow>
    ''Entry #'' @ show_nat i @ '':   '' @ (if ip \<noteq> 0 then ''IP: '' @ dotted ip @ '', MAC: '' @ colons machi maclo @ nl else ''--Invalid--'' @ nl))"

definition filter_row_text :: "nat \<Rightarrow> row \<Rightarrow> string" where
  "filter_row_text i r = (case r of (a, b, c, ip) \<Rightarrow>
    ''Entry #'' @ show_nat i @ '':   '' @ (if ip \<noteq> 0 then ''ip: '' @ dotted ip @ nl else ''--Invalid--'' @ nl))"

definition mac_row_text :: "nat \<Rightarrow> u32 \<times> u32 \<Rightarrow> string" where
  "mac_row_text i r = ''Port #'' @ show_nat i @ '':   '' @ ''MAC: '' @ colons (fst r) (snd r) @ nl"

text \<open>What is in a row of the table at a base address.\<close>

definition row_in :: "u32 \<Rightarrow> shell \<Rightarrow> nat \<Rightarrow> row" where
  "row_in a sh i = the (hw_rows (writes (sh_board sh)) (row_addr a i))"

definition table_ready :: "device \<Rightarrow> u32 \<Rightarrow> nat \<Rightarrow> shell \<Rightarrow> bool" where
  "table_ready d a n sh = (all_ok d \<and> reads_rows d \<and> (\<forall>i<n. hw_rows (writes (sh_board sh)) (row_addr a i) \<noteq> None))"

text \<open>
  The contract of the loop body of a list command: it prints the line of its row and changes neither what the rows hold nor the input. The whole command prints
  the lines of all rows in order.
\<close>

locale row_lister =
  fixes body :: "nat \<Rightarrow> shell \<Rightarrow> shell res" and line :: "nat \<Rightarrow> 'v \<Rightarrow> string" and cell :: "shell \<Rightarrow> nat \<Rightarrow> 'v" and ready :: "shell \<Rightarrow> bool" and n :: nat
  assumes body: "ready sh \<Longrightarrow> i < n \<Longrightarrow>
    \<exists>sh'. body i sh = Inr sh' \<and> sh_out sh' = sh_out sh @ line i (cell sh i) \<and> sh_in sh' = sh_in sh \<and> cell sh' = cell sh \<and> ready sh'"
begin

lemma rows_print:
  "ready sh \<Longrightarrow> \<forall>i\<in>set is. i < n \<Longrightarrow>
   \<exists>sh'. for_rows body is sh = Inr sh' \<and> sh_out sh' = sh_out sh @ concat (map (\<lambda>i. line i (cell sh i)) is) \<and> sh_in sh' = sh_in sh \<and> cell sh' = cell sh"
proof (induction "is" arbitrary: sh)
  case (Cons i js)
  obtain sh1 where one: "body i sh = Inr sh1" "sh_out sh1 = sh_out sh @ line i (cell sh i)" "sh_in sh1 = sh_in sh" "cell sh1 = cell sh" "ready sh1"
    using body [of sh i] Cons.prems by auto
  with Cons.IH [of sh1] Cons.prems show ?case by simp
qed simp

lemma table_prints:
  "ready sh \<Longrightarrow> \<exists>sh'. for_rows body [0..<n] sh = Inr sh' \<and> sh_out sh' = sh_out sh @ concat (map (\<lambda>i. line i (cell sh i)) [0..<n]) \<and>
    sh_in sh' = sh_in sh \<and> cell sh' = cell sh"
  by (rule rows_print) auto

end

lemma select_row_ok: "all_ok d \<Longrightarrow> read_row d a sh = poke d [(INDIRECTADDRESS, a), (INDIRECTCOMMAND, READ_CMD)] sh"
  by (simp add: read_row_def shell_simps)

lemma row_replies:
  assumes "table_ready d a n sh" "i < n" "row_in a sh i = (ah, al, bh, bl)"
  shows "hw_read d (writes (sh_board sh) @ [(INDIRECTADDRESS, a OR word_of_nat i), (INDIRECTCOMMAND, READ_CMD)]) REPLY_A_HI = ah"
    "hw_read d (writes (sh_board sh) @ [(INDIRECTADDRESS, a OR word_of_nat i), (INDIRECTCOMMAND, READ_CMD)]) REPLY_A_LOW = al"
    "hw_read d (writes (sh_board sh) @ [(INDIRECTADDRESS, a OR word_of_nat i), (INDIRECTCOMMAND, READ_CMD)]) REPLY_B_HI = bh"
    "hw_read d (writes (sh_board sh) @ [(INDIRECTADDRESS, a OR word_of_nat i), (INDIRECTCOMMAND, READ_CMD)]) REPLY_B_LOW = bl"
proof -
  have "hw_rows (writes (sh_board sh)) (a OR word_of_nat i) = Some (ah, al, bh, bl)"
    using assms by (auto simp: table_ready_def row_in_def row_addr_def)
  then show "hw_read d (writes (sh_board sh) @ [(INDIRECTADDRESS, a OR word_of_nat i), (INDIRECTCOMMAND, READ_CMD)]) REPLY_A_HI = ah"
    "hw_read d (writes (sh_board sh) @ [(INDIRECTADDRESS, a OR word_of_nat i), (INDIRECTCOMMAND, READ_CMD)]) REPLY_A_LOW = al"
    "hw_read d (writes (sh_board sh) @ [(INDIRECTADDRESS, a OR word_of_nat i), (INDIRECTCOMMAND, READ_CMD)]) REPLY_B_HI = bh"
    "hw_read d (writes (sh_board sh) @ [(INDIRECTADDRESS, a OR word_of_nat i), (INDIRECTCOMMAND, READ_CMD)]) REPLY_B_LOW = bl"
    using assms(1) by (simp_all add: table_ready_def reads_rows_def Let_def)
qed

interpretation ip_list: row_lister "listip_row d" ip_row_text "row_in (lpm_address d)" "table_ready d (lpm_address d) (lpm_depth d)" "lpm_depth d" for d
proof
  fix sh i
  assume r: "table_ready d (lpm_address d) (lpm_depth d) sh" "i < lpm_depth d"
  obtain s nh m v where row: "row_in (lpm_address d) sh i = (s, nh, m, v)" by (cases "row_in (lpm_address d) sh i")
  have ok: "all_ok d" using r by (simp add: table_ready_def)
  show "\<exists>sh'. listip_row d i sh = Inr sh' \<and> sh_out sh' = sh_out sh @ ip_row_text i (row_in (lpm_address d) sh i) \<and> sh_in sh' = sh_in sh \<and>
      row_in (lpm_address d) sh' = row_in (lpm_address d) sh \<and> table_ready d (lpm_address d) (lpm_depth d) sh'"
    using r(1) row_replies [OF r row]
    by (simp add: listip_row_def select_row_ok [OF ok] get_reg_ok [OF ok] put_writes [OF ok] Let_def row ip_row_text_def table_ready_def)
      (simp add: row_in_def fun_eq_iff put_writes [OF ok])
qed

interpretation arp_list: row_lister "listarp_row d" arp_row_text "row_in (arp_address d)" "table_ready d (arp_address d) (arp_depth d)" "arp_depth d" for d
proof
  fix sh i
  assume r: "table_ready d (arp_address d) (arp_depth d) sh" "i < arp_depth d"
  obtain s nh m v where row: "row_in (arp_address d) sh i = (s, nh, m, v)" by (cases "row_in (arp_address d) sh i")
  have ok: "all_ok d" using r by (simp add: table_ready_def)
  show "\<exists>sh'. listarp_row d i sh = Inr sh' \<and> sh_out sh' = sh_out sh @ arp_row_text i (row_in (arp_address d) sh i) \<and> sh_in sh' = sh_in sh \<and>
      row_in (arp_address d) sh' = row_in (arp_address d) sh \<and> table_ready d (arp_address d) (arp_depth d) sh'"
    using r(1) row_replies [OF r row]
    by (simp add: listarp_row_def select_row_ok [OF ok] get_reg_ok [OF ok] put_writes [OF ok] Let_def row arp_row_text_def table_ready_def)
      (simp add: row_in_def fun_eq_iff put_writes [OF ok])
qed

interpretation filter_list: row_lister "listfilter_row d" filter_row_text "row_in (filter_address d)" "table_ready d (filter_address d) (filter_depth d)" "filter_depth d" for d
proof
  fix sh i
  assume r: "table_ready d (filter_address d) (filter_depth d) sh" "i < filter_depth d"
  obtain s nh m v where row: "row_in (filter_address d) sh i = (s, nh, m, v)" by (cases "row_in (filter_address d) sh i")
  have ok: "all_ok d" using r by (simp add: table_ready_def)
  show "\<exists>sh'. listfilter_row d i sh = Inr sh' \<and> sh_out sh' = sh_out sh @ filter_row_text i (row_in (filter_address d) sh i) \<and> sh_in sh' = sh_in sh \<and>
      row_in (filter_address d) sh' = row_in (filter_address d) sh \<and> table_ready d (filter_address d) (filter_depth d) sh'"
    using r(1) row_replies [OF r row]
    by (simp add: listfilter_row_def select_row_ok [OF ok] get_reg_ok [OF ok] put_writes [OF ok] Let_def row filter_row_text_def table_ready_def)
      (simp add: row_in_def fun_eq_iff put_writes [OF ok])
qed

definition mac_in :: "device \<Rightarrow> shell \<Rightarrow> nat \<Rightarrow> u32 \<times> u32" where
  "mac_in d sh i = (hw_read d (writes (sh_board sh)) (REPLY_MAC (MAC_HI i)), hw_read d (writes (sh_board sh)) (REPLY_MAC (MAC_LOW i)))"

interpretation mac_list: row_lister "listmac_row d" mac_row_text "mac_in d" "\<lambda>sh. all_ok d" 4 for d
  by unfold_locales (simp add: listmac_row_def get_reg_ok Let_def mac_row_text_def mac_in_def fun_eq_iff)

end
