(* ===== verification/Shell_Session.thy ===== *)
theory Shell_Session
  imports Shell_Rows
begin

text \<open>
  Sessions of the register shell: what is typed at \<^verbatim>\<open>setip\<close> is what \<^verbatim>\<open>listip\<close> prints afterwards, \<^verbatim>\<open>clearip\<close> makes a row invalid, \<^verbatim>\<open>loadip\<close> enters every line of
  its file, every session ends, and the documented commands and addresses that do not fit their buffers.
\<close>

section \<open>Typed lines\<close>

lemma scanf_line:
  assumes "list_all2 field_ok cs fs" "\<forall>f\<in>set (tl fs). fst f \<noteq> []" "closed s" "sh_in sh = fields_text fs @ s"
  shows "scanf cs sh = Inr (map (Some \<circ> fst \<circ> snd) fs, sh\<lparr>sh_in := s\<rparr>)"
  using fscanf_fields [OF assms(1-3)] assms(4) list_all2_lengthD [OF assms(1)] by (simp add: scanf_def)

lemma dotted_word: "is_word (dotted w)" "length (dotted w) \<le> 15"
proof -
  have "list_all (\<lambda>c. \<not> is_space c) (show_nat n)" for n
    using digits_word [OF show_nat_digits, of n] by (simp add: is_word_def)
  moreover have "\<not> is_space CHR ''.''" by code_simp
  ultimately show "is_word (dotted w)" by (simp add: is_word_def dotted_octets)
  have "length (show_nat (unat b)) \<le> 3" for b :: u8 using length_show_nat [of "unat b" 2] unat_u8_lt [of b] by simp
  from this [of "octet 3 w"] this [of "octet 2 w"] this [of "octet 1 w"] this [of "octet 0 w"] show "length (dotted w) \<le> 15"
    by (simp add: dotted_octets)
qed

text \<open>A line for the routing table: row, subnet, mask, next hop, port.\<close>

type_synonym ip_entry = "nat \<times> u32 \<times> u32 \<times> u32 \<times> nat"

definition ip_fields :: "string \<Rightarrow> ip_entry \<Rightarrow> text_field list" where
  "ip_fields sep x = (case x of (e, s, m, n, p) \<Rightarrow>
    [(sep, ArgD (int e), show_nat e), ('' '', ArgS (dotted s), dotted s), ('' '', ArgS (dotted m), dotted m), ('' '', ArgS (dotted n), dotted n),
     ('' '', ArgU (word_of_nat p), show_hex p)])"

definition ip_log :: "device \<Rightarrow> ip_entry \<Rightarrow> reg_log" where
  "ip_log d x = (case x of (e, s, m, n, p) \<Rightarrow>
    [(WRDATA_A_HI, s), (WRDATA_B_HI, m), (WRDATA_A_LOW, n), (WRDATA_B_LOW, word_of_nat p), (INDIRECTADDRESS, row_addr (lpm_address d) e), (INDIRECTCOMMAND, 1)])"

definition ip_entry_ok :: "nat \<Rightarrow> ip_entry \<Rightarrow> bool" where
  "ip_entry_ok len x = (case x of (e, s, m, n, p) \<Rightarrow>
    e < 2 ^ 31 \<and> p < 2 ^ 31 \<and> length (dotted s) < len \<and> length (dotted m) < len \<and> length (dotted n) < len)"

lemma ip_fields_ok:
  assumes "ip_entry_ok len x" "list_all is_space sep"
  shows "list_all2 field_ok [CvInt, CvStr len, CvStr len, CvStr len, CvHex] (ip_fields sep x)" "\<forall>f\<in>set (tl (ip_fields sep x)). fst f \<noteq> []"
  using assms by (auto simp: ip_entry_ok_def ip_fields_def field_ok_def reads_int reads_str reads_hex dotted_word split: prod.splits)

lemma sint_small: "p < 2 ^ 31 \<Longrightarrow> sint (word_of_nat p :: u32) = int p"
  by (simp add: signed_of_nat signed_take_bit_int_eq_self)

lemma addip_ok: "all_ok d \<Longrightarrow> addip d (int e) (octet_bytes s) (octet_bytes m) (octet_bytes n) (int p) sh = Inr (poke d (ip_log d (e, s, m, n, p)) sh)"
  by (simp add: addip_def shell_simps Let_def ip_log_def row_addr_def WRITE_CMD_def)

lemma hw_rows_ip: "hw_rows (ws @ ip_log d (e, s, m, n, p)) = (hw_rows ws)(row_addr (lpm_address d) e \<mapsto> (s, n, m, word_of_nat p))"
  by (simp add: hw_rows_def ip_log_def)

definition setip_prompt :: string where
  "setip_prompt = ''Enter [entry] [subnet]      [mask]       [nexthop] [port]:'' @ nl @
     ''e.g.     0   192.168.1.0  255.255.255.0  15.1.3.1     4:'' @ nl @ ''>> ''"

lemma setip_ok:
  assumes "all_ok d" "ip_entry_ok 15 (e, s, m, n, p)" "list_all is_space sep" "e < lpm_depth d" "1 \<le> p" "p \<le> 255"
    "sh_in sh = fields_text (ip_fields sep (e, s, m, n, p)) @ rest" "closed rest"
  shows "setip d sh = Inr (poke d (ip_log d (e, s, m, n, p)) ((printf setip_prompt sh)\<lparr>sh_in := rest\<rparr>))"
proof -
  let ?vs = "map (Some \<circ> fst \<circ> snd) (ip_fields sep (e, s, m, n, p))"
  have "scanf [CvInt, CvStr 15, CvStr 15, CvStr 15, CvHex] (printf setip_prompt sh) = Inr (?vs, (printf setip_prompt sh)\<lparr>sh_in := rest\<rparr>)"
    by (rule scanf_line [OF ip_fields_ok [OF assms(2,3)] assms(8)]) (simp add: assms(7))
  moreover have "the_int ?vs 0 = Inr (int e)" "the_int ?vs 4 = Inr (int p)" "the_str ?vs 1 = Inr (dotted s)" "the_str ?vs 2 = Inr (dotted m)" "the_str ?vs 3 = Inr (dotted n)"
    using assms(6) sint_small [of p] by (simp_all add: ip_fields_def the_int_def the_str_def)
  ultimately show ?thesis using assms(1,4,5,6)
    by (simp add: setip_def setip_prompt_def parseip_dotted addip_ok)
qed

section \<open>Clearing\<close>

lemma clearip_ok:
  assumes "all_ok d" "e < 2 ^ 31" "list_all is_space sep" "sh_in sh = sep @ show_nat e @ rest" "closed rest"
  shows "clearip d sh = Inr (poke d [(WRDATA_A_HI, 0), (WRDATA_B_HI, 0xffffffff), (WRDATA_A_LOW, 0), (WRDATA_B_LOW, 0),
      (INDIRECTADDRESS, row_addr (lpm_address d) e), (INDIRECTCOMMAND, 1)] ((printf (''Specify entry:'' @ nl @ ''>> '') sh)\<lparr>sh_in := rest\<rparr>))"
proof -
  have "scanf [CvInt] (printf (''Specify entry:'' @ nl @ ''>> '') sh) =
      Inr (map (Some \<circ> fst \<circ> snd) [(sep, ArgD (int e), show_nat e)], (printf (''Specify entry:'' @ nl @ ''>> '') sh)\<lparr>sh_in := rest\<rparr>)"
    using assms by (intro scanf_line) (simp_all add: field_ok_def reads_int fields_text_def)
  then show ?thesis using assms(1) by (simp add: clearip_def the_int_def shell_simps row_addr_def)
qed

section \<open>Loading a file\<close>

definition ip_file :: "ip_entry list \<Rightarrow> string" where
  "ip_file xs = concat (map (\<lambda>x. fields_text (ip_fields [] x) @ nl) xs)"

lemma ip_fields_sep: "sep @ fields_text (ip_fields [] x) = fields_text (ip_fields sep x)"
  by (simp add: fields_text_def ip_fields_def split: prod.splits)

lemma white_nl [simp]: "list_all is_space nl" "closed (nl @ s)"
  by (simp_all add: nl_def is_space_def closed_def)

lemma loadip_line_ok:
  assumes "all_ok d" "p < 2 ^ 31"
  shows "\<exists>vs. loadip_line d (map (Some \<circ> fst \<circ> snd) (ip_fields sep (e, s, m, n, p))) sh = Inr (vs, poke d (ip_log d (e, s, m, n, p)) sh) \<and> length vs = 5"
  using addip_ok [OF assms(1)] sint_small [OF assms(2)]
  by (simp add: loadip_line_def parse_var_def the_str_def the_int_def ip_fields_def parseip_dotted)

lemma load_loop_lines:
  assumes "all_ok d"
  shows "list_all (ip_entry_ok 20) xs \<Longrightarrow> list_all is_space sep \<Longrightarrow> length vs = 5 \<Longrightarrow>
    load_loop ip_convs (loadip_line d) (sep @ ip_file xs) vs sh = Some (Inr (poke d (concat (map (ip_log d) xs)) sh))"
proof (induction xs arbitrary: sep vs sh)
  case Nil
  then show ?case by (subst load_loop.simps) (simp add: ip_file_def ip_convs_def fscanf_end poke_def del: fscanf.simps)
next
  case (Cons x xs)
  obtain e s m n p where x: "x = (e, s, m, n, p)" by (cases x)
  have ok: "ip_entry_ok 20 (e, s, m, n, p)" "p < 2 ^ 31" using Cons.prems(1) by (auto simp: x ip_entry_ok_def)
  let ?vals = "map (fst \<circ> snd) (ip_fields sep (e, s, m, n, p))"
  have "sep @ ip_file (x # xs) = fields_text (ip_fields sep (e, s, m, n, p)) @ nl @ ip_file xs"
    using ip_fields_sep [of sep x] by (simp add: ip_file_def x)
  then have "fscanf ip_convs (sep @ ip_file (x # xs)) = Inr (?vals, False, nl @ ip_file xs)"
    using fscanf_fields [OF ip_fields_ok [OF ok(1) Cons.prems(2)], of "nl @ ip_file xs"] by (simp add: ip_convs_def)
  moreover have "assign ?vals vs = map (Some \<circ> fst \<circ> snd) (ip_fields sep (e, s, m, n, p))"
    using Cons.prems(3) by (simp add: ip_fields_def)
  moreover obtain vs' where "loadip_line d (map (Some \<circ> fst \<circ> snd) (ip_fields sep (e, s, m, n, p))) sh = Inr (vs', poke d (ip_log d (e, s, m, n, p)) sh)" "length vs' = 5"
    using loadip_line_ok [OF assms ok(2)] by blast
  ultimately show ?case using Cons.IH [of nl vs' "poke d (ip_log d x) sh"] Cons.prems(1)
    by (subst load_loop.simps) (simp add: x poke_poke)
qed

section \<open>Listed rows\<close>

text \<open>The line of a row with a port.\<close>

definition entry_text :: "ip_entry \<Rightarrow> string" where
  "entry_text x = (case x of (e, s, m, n, p) \<Rightarrow>
    ''Entry #'' @ show_nat e @ '':   Subnet: '' @ dotted s @ '', Mask: 0x'' @ show_hex (unat m) @ '', Next Hop: '' @ dotted n @
    '', Port: 0x'' @ zero_left 2 (show_hex p) @ nl)"

lemma entry_row_text:
  assumes "1 \<le> p" "p \<le> 255"
  shows "ip_row_text e (s, n, m, word_of_nat p) = entry_text (e, s, m, n, p)"
proof -
  have u: "unat (word_of_nat p :: u32) = p" using assms(2) by (simp add: unat_of_nat)
  then have "unat ((word_of_nat p :: u32) AND 0xff) = p" using assms(2) by (simp add: and_ff unsigned_take_bit_eq take_bit_nat_eq_self)
  with u have "(word_of_nat p :: u32) AND 0xff = word_of_nat p" "(word_of_nat p :: u32) \<noteq> 0" using assms(1) by (auto simp: word_unat_eq_iff)
  with u show ?thesis by (simp add: ip_row_text_def entry_text_def)
qed

lemma listip_after:
  assumes "table_ready d (lpm_address d) (lpm_depth d) sh" "inj_on (row_addr (lpm_address d)) {..<lpm_depth d}" "e < lpm_depth d"
    and rows: "hw_rows (writes (sh_board sh')) = (hw_rows (writes (sh_board sh)))(row_addr (lpm_address d) e \<mapsto> r)"
  shows "\<exists>sh2. listip d sh' = Inr sh2 \<and> sh_in sh2 = sh_in sh' \<and>
    sh_out sh2 = sh_out sh' @ concat (map (\<lambda>i. ip_row_text i (if i = e then r else row_in (lpm_address d) sh i)) [0..<lpm_depth d])"
proof -
  have "table_ready d (lpm_address d) (lpm_depth d) sh'" using assms(1) rows by (cases r) (simp add: table_ready_def)
  from ip_list.table_prints [OF this] obtain sh2 where list: "listip d sh' = Inr sh2" "sh_in sh2 = sh_in sh'"
      "sh_out sh2 = sh_out sh' @ concat (map (\<lambda>i. ip_row_text i (row_in (lpm_address d) sh' i)) [0..<lpm_depth d])"
    by (auto simp: listip_def)
  have "row_in (lpm_address d) sh' i = (if i = e then r else row_in (lpm_address d) sh i)" if "i < lpm_depth d" for i
  proof -
    have "row_addr (lpm_address d) i = row_addr (lpm_address d) e \<longleftrightarrow> i = e" using assms(2,3) that by (auto dest: inj_onD)
    then show ?thesis unfolding row_in_def rows by simp
  qed
  then have "map (\<lambda>i. ip_row_text i (row_in (lpm_address d) sh' i)) [0..<lpm_depth d] =
      map (\<lambda>i. ip_row_text i (if i = e then r else row_in (lpm_address d) sh i)) [0..<lpm_depth d]" by (intro map_cong) auto
  with list show ?thesis by simp
qed

section \<open>Properties\<close>

text \<open>
  Claim C14. What is typed is what is listed: \<^verbatim>\<open>setip\<close> of a line with a row of the table, a subnet, a mask and a next hop that fit their buffers and a port from 1 to
  255 consumes the line, and the following \<^verbatim>\<open>listip\<close> prints the table line by line, in the line of that row the typed values, in every other line what
  was in that row before.
\<close>

theorem set_then_list:
  assumes "table_ready d (lpm_address d) (lpm_depth d) sh" "inj_on (row_addr (lpm_address d)) {..<lpm_depth d}"
    "ip_entry_ok 15 (e, s, m, n, p)" "e < lpm_depth d" "1 \<le> p" "p \<le> 255"
    "sh_in sh = fields_text (ip_fields [] (e, s, m, n, p)) @ rest" "closed rest"
  shows "\<exists>sh1 sh2. setip d sh = Inr sh1 \<and> sh_in sh1 = rest \<and> listip d sh1 = Inr sh2 \<and> sh_in sh2 = rest \<and>
    sh_out sh2 = sh_out sh1 @ concat (map (\<lambda>i. if i = e then entry_text (e, s, m, n, p) else ip_row_text i (row_in (lpm_address d) sh i)) [0..<lpm_depth d])"
proof -
  have ok: "all_ok d" using assms(1) by (simp add: table_ready_def)
  let ?sh1 = "poke d (ip_log d (e, s, m, n, p)) ((printf setip_prompt sh)\<lparr>sh_in := rest\<rparr>)"
  have "hw_rows (writes (sh_board ?sh1)) = (hw_rows (writes (sh_board sh)))(row_addr (lpm_address d) e \<mapsto> (s, n, m, word_of_nat p))"
    by (simp add: put_writes [OF ok] hw_rows_ip)
  from listip_after [OF assms(1,2,4) this] setip_ok [OF ok assms(3) _ assms(4-8)] show ?thesis
    by (simp add: if_distrib entry_row_text [OF assms(5,6)] cong: if_cong)
qed

text \<open>A shell on the concrete device whose routing table has been filled with empty rows.\<close>

definition empty_entries :: "ip_entry list" where
  "empty_entries = map (\<lambda>i. (i, 0, 0xffffffff, 0, 0)) [0..<32]"

definition demo_shell :: "string \<Rightarrow> shell" where
  "demo_shell input = \<lparr>sh_in = input, sh_out = [], sh_board = put demo_device (concat (map (ip_log demo_device) empty_entries)) demo_board\<rparr>"

definition put_entry :: "u32 \<Rightarrow> ip_entry \<Rightarrow> (u32 \<Rightarrow> row option) \<Rightarrow> u32 \<Rightarrow> row option" where
  "put_entry a x rows = (case x of (e, s, m, n, p) \<Rightarrow> rows(row_addr a e \<mapsto> (s, n, m, word_of_nat p)))"

lemma hw_rows_entries: "hw_rows (ws @ concat (map (ip_log d) xs)) = fold (put_entry (lpm_address d)) xs (hw_rows ws)"
proof (induction xs rule: rev_induct)
  case (snoc x xs)
  then show ?case using hw_rows_ip [of "ws @ concat (map (ip_log d) xs)" d] by (cases x) (simp add: put_entry_def)
qed simp

lemma put_entry_keeps: "rows b \<noteq> None \<Longrightarrow> put_entry a x rows b \<noteq> None" "put_entry a x rows (row_addr a (fst x)) \<noteq> None"
  by (cases x; simp add: put_entry_def)+

lemma fold_put_keeps: "rows b \<noteq> None \<Longrightarrow> fold (put_entry a) xs rows b \<noteq> None"
  by (induction xs arbitrary: rows) (simp_all add: put_entry_keeps(1) del: not_None_eq)

lemma fold_put_entry:
  assumes "x \<in> set xs"
  shows "fold (put_entry a) xs rows (row_addr a (fst x)) \<noteq> None"
proof -
  obtain ys zs where "xs = ys @ x # zs" using assms by (meson split_list)
  then show ?thesis using fold_put_keeps [of "put_entry a x (fold (put_entry a) ys rows)" "row_addr a (fst x)" a zs] put_entry_keeps(2) [of a x]
    by (simp del: not_None_eq)
qed

lemma demo_depths [simp]: "lpm_depth demo_device = 32" "lpm_address demo_device = 0"
  by (simp_all add: demo_device_def)

lemma demo_shell_ready: "table_ready demo_device (lpm_address demo_device) (lpm_depth demo_device) (demo_shell input)"
proof -
  have "hw_rows (writes (sh_board (demo_shell input))) = fold (put_entry 0) empty_entries (hw_rows [])"
    using hw_rows_entries [of "[]" demo_device empty_entries] by (simp add: demo_shell_def demo_board_def put_writes [OF demo_device_ok])
  moreover have "fold (put_entry 0) empty_entries (hw_rows []) (row_addr 0 i) \<noteq> None" if "i < 32" for i
    using fold_put_entry [of "(i, 0, 0xffffffff, 0, 0)" empty_entries 0] that by (simp add: empty_entries_def del: not_None_eq)
  ultimately show ?thesis by (simp add: table_ready_def demo_device_ok replay_reads_rows del: not_None_eq)
qed

lemma demo_inj: "inj_on (row_addr (lpm_address demo_device)) {..<lpm_depth demo_device}"
proof (rule inj_onI)
  fix i j
  assume a: "i \<in> {..<lpm_depth demo_device}" "j \<in> {..<lpm_depth demo_device}" "row_addr (lpm_address demo_device) i = row_addr (lpm_address demo_device) j"
  then have "unat (word_of_nat i :: u32) = unat (word_of_nat j :: u32)" by (simp only: row_addr_def demo_depths or.left_neutral)
  moreover have "unat (word_of_nat k :: u32) = k" if "k < 32" for k using that by (simp add: unat_of_nat)
  ultimately show "i = j" using a(1,2) by simp
qed

lemma demo_texts: "dotted 0x0A000000 = ''10.0.0.0''" "dotted 0xFF000000 = ''255.0.0.0''" "dotted 0x0A000001 = ''10.0.0.1''"
proof -
  have n: "show_nat 0 = ''0''" "show_nat 1 = ''1''" "show_nat 10 = ''10''" "show_nat 255 = ''255''" by code_simp+
  show "dotted 0x0A000000 = ''10.0.0.0''" "dotted 0xFF000000 = ''255.0.0.0''" "dotted 0x0A000001 = ''10.0.0.1''"
    using n by (simp_all add: dotted_def drop_bit_eq_div)
qed

theorem set_then_list_witness:
  "\<exists>sh1 sh2. setip demo_device (demo_shell (''3 10.0.0.0 255.0.0.0 10.0.0.1 4'' @ nl)) = Inr sh1 \<and> listip demo_device sh1 = Inr sh2 \<and>
    entry_text (3, 0x0A000000, 0xFF000000, 0x0A000001, 4) =
      ''Entry #3:   Subnet: 10.0.0.0, Mask: 0x'' @ show_hex 0xFF000000 @ '', Next Hop: 10.0.0.1, Port: 0x04'' @ nl"
proof -
  have h: "show_nat 3 = ''3''" "show_hex 4 = ''4''" by code_simp+
  note d = demo_texts h
  have f: "fields_text (ip_fields [] (3, 0x0A000000, 0xFF000000, 0x0A000001, 4)) = ''3 10.0.0.0 255.0.0.0 10.0.0.1 4''"
    by (simp add: fields_text_def ip_fields_def d)
  have ok: "ip_entry_ok 15 (3, 0x0A000000, 0xFF000000, 0x0A000001, 4)" by (simp add: ip_entry_ok_def d)
  have i: "sh_in (demo_shell (''3 10.0.0.0 255.0.0.0 10.0.0.1 4'' @ nl)) = fields_text (ip_fields [] (3, 0x0A000000, 0xFF000000, 0x0A000001, 4)) @ nl"
    by (simp add: f demo_shell_def)
  have "closed nl" using white_nl(2) [of "[]"] by simp
  from set_then_list [OF demo_shell_ready demo_inj ok _ _ _ i this] have "\<exists>sh1 sh2. setip demo_device (demo_shell (''3 10.0.0.0 255.0.0.0 10.0.0.1 4'' @ nl)) = Inr sh1 \<and>
      listip demo_device sh1 = Inr sh2" by auto
  then show ?thesis by (simp add: entry_text_def d zero_left_def)
qed

text \<open>
  Claim C29. \<^verbatim>\<open>loadip\<close> enters every line of its file, in order: for a file of any number of lines the table afterwards is the table before with the entries put in one after the
  other, and nothing else is consumed from the input than the name of the file.
\<close>

theorem loadip_enters_all:
  assumes "all_ok d" "list_all (ip_entry_ok 20) xs" "file_text d fn = Some (ip_file xs)" "is_word fn" "length fn < 30" "closed rest" "sh_in sh = fn @ rest"
  shows "\<exists>sh'. loadip d sh = Inr sh' \<and> sh_in sh' = rest \<and>
    hw_rows (writes (sh_board sh')) = fold (\<lambda>(e, s, m, n, p) rows. rows(row_addr (lpm_address d) e \<mapsto> (s, n, m, word_of_nat p))) xs (hw_rows (writes (sh_board sh)))"
proof -
  let ?sh = "(printf (''Enter filename:'' @ nl @ ''>> '') sh)\<lparr>sh_in := rest\<rparr>"
  have "scanf [CvStr 30] (printf (''Enter filename:'' @ nl @ ''>> '') sh) = Inr (map (Some \<circ> fst \<circ> snd) [([] :: string, ArgS fn, fn)], ?sh)"
    by (rule scanf_line) (use assms(4-7) in \<open>simp_all add: field_ok_def reads_str fields_text_def\<close>)
  then have "ask_file sh = Inr (fn, ?sh)" by (simp add: ask_file_def the_str_def)
  moreover have "load_loop ip_convs (loadip_line d) (ip_file xs) (replicate 5 None) ?sh = Some (Inr (poke d (concat (map (ip_log d) xs)) ?sh))"
    using load_loop_lines [OF assms(1,2), of "[]"] by simp
  moreover have "put_entry (lpm_address d) = (\<lambda>(e, s, m, n, p) rows. rows(row_addr (lpm_address d) e \<mapsto> (s, n, m, word_of_nat p)))"
    by (auto simp: put_entry_def fun_eq_iff split: prod.splits)
  ultimately show ?thesis using hw_rows_entries [of "writes (sh_board sh)" d xs]
    by (simp add: loadip_def assms(3) run_loop_def put_writes [OF assms(1)])
qed

theorem loadip_enters_all_witness:
  "\<exists>sh'. loadip (demo_device\<lparr>file_text := (\<lambda>_. Some (ip_file [(3, 0x0A000000, 0xFF000000, 0x0A000001, 4), (3, 0, 0, 0, 1)]))\<rparr>)
      \<lparr>sh_in = ''ip'', sh_out = [], sh_board = demo_board\<rparr> = Inr sh' \<and> hw_rows (writes (sh_board sh')) (row_addr 0 3) = Some (0, 0, 0, 1)"
proof -
  let ?xs = "[(3, 0x0A000000, 0xFF000000, 0x0A000001, 4), (3, 0, 0, 0, 1)] :: ip_entry list"
  let ?d = "demo_device\<lparr>file_text := (\<lambda>_. Some (ip_file ?xs))\<rparr>"
  have "length (dotted w) < 20" for w using dotted_word(2) [of w] by simp
  then have ok: "list_all (ip_entry_ok 20) ?xs" by (simp add: ip_entry_ok_def)
  have "all_ok ?d" "is_word ''ip''" using demo_device_ok by (simp_all add: all_ok_def is_word_def is_space_def)
  from loadip_enters_all [OF this(1) ok _ this(2), of "[]" "\<lparr>sh_in = ''ip'', sh_out = [], sh_board = demo_board\<rparr>"] show ?thesis
    by auto
qed

text \<open>After \<^verbatim>\<open>clearip\<close> the row is listed as invalid and the other rows as before.\<close>

theorem clear_then_list:
  assumes "table_ready d (lpm_address d) (lpm_depth d) sh" "inj_on (row_addr (lpm_address d)) {..<lpm_depth d}"
    "e < lpm_depth d" "e < 2 ^ 31" "sh_in sh = show_nat e @ rest" "closed rest"
  shows "\<exists>sh1 sh2. clearip d sh = Inr sh1 \<and> sh_in sh1 = rest \<and> listip d sh1 = Inr sh2 \<and> sh_in sh2 = rest \<and>
    sh_out sh2 = sh_out sh1 @ concat (map (\<lambda>i. if i = e then ''Entry #'' @ show_nat e @ '':   --Invalid--'' @ nl
      else ip_row_text i (row_in (lpm_address d) sh i)) [0..<lpm_depth d])"
proof -
  have ok: "all_ok d" using assms(1) by (simp add: table_ready_def)
  let ?log = "[(WRDATA_A_HI, 0), (WRDATA_B_HI, 0xffffffff), (WRDATA_A_LOW, 0), (WRDATA_B_LOW, 0), (INDIRECTADDRESS, row_addr (lpm_address d) e), (INDIRECTCOMMAND, 1)]"
  let ?sh1 = "poke d ?log ((printf (''Specify entry:'' @ nl @ ''>> '') sh)\<lparr>sh_in := rest\<rparr>)"
  have "hw_rows (writes (sh_board ?sh1)) = (hw_rows (writes (sh_board sh)))(row_addr (lpm_address d) e \<mapsto> (0, 0, 0xffffffff, 0))"
    by (simp add: put_writes [OF ok] hw_rows_def)
  from listip_after [OF assms(1-3) this] clearip_ok [OF ok assms(4), of "[]" sh rest] assms(5,6) show ?thesis
    by (simp add: if_distrib ip_row_text_def [of e "(0, 0, 0xffffffff, 0)"] cong: if_cong)
qed

theorem clear_then_list_witness:
  "\<exists>sh1 sh2. clearip demo_device (demo_shell (show_nat 3)) = Inr sh1 \<and> listip demo_device sh1 = Inr sh2"
  using clear_then_list [OF demo_shell_ready demo_inj, of 3 "show_nat 3" "[]"] by (auto simp: demo_shell_def)

text \<open>
  Claim C39. Input that does not fit its buffer: three of the commands that \<^verbatim>\<open>help\<close> lists and \<^verbatim>\<open>parse\<close> knows are longer than the ten bytes
  into which the prompt reads a command, so typing one of them writes past the buffer; and an address of fifteen characters, such as \<^verbatim>\<open>192.168.100.100\<close>, writes past the buffers of
  \<^verbatim>\<open>setip\<close>.
\<close>

theorem documented_input_overflows:
  assumes "w = ''listfilter'' \<or> w = ''loadfilter'' \<or> w = ''clearfilter''" "sh_in sh = w @ rest" "closed rest"
    and "length (dotted s) = 15" "e < 2 ^ 31" "sh_in sh' = show_nat e @ '' '' @ dotted s @ rest"
  shows "parse w \<noteq> - 1 \<and> prompt_step d sh = Inl OutOfBounds \<and> setip d sh' = Inl OutOfBounds"
proof -
  have w: "is_word w" "10 \<le> length w" "w \<noteq> []" using assms(1) by (auto simp: is_word_def is_space_def)
  have "scan_conv (CvStr 10) (w @ rest) = Inl OutOfBounds"
    using closed_split [OF w(1) assms(3)] w(2) by (simp add: scan_conv_def)
  then have "scanf [CvStr 10] (printf ''> '' sh) = Inl OutOfBounds"
    using assms(2) w(3) dropWhile_word [OF w(1)] by (simp add: scanf_def)
  moreover have "parse w \<noteq> - 1" using assms(1) by (auto simp: parse_def parse_table_def)
  moreover have "scanf [CvInt, CvStr 15, CvStr 15, CvStr 15, CvHex] (printf setip_prompt sh') = Inl OutOfBounds"
  proof -
    have d: "is_word (dotted s)" "dotted s \<noteq> []" using dotted_word(1) [of s] by (simp_all add: is_word_def)
    have n: "is_word (show_nat e)" using digits_word [OF show_nat_digits] by simp
    have "scan_conv (CvStr 15) (dotted s @ rest) = Inl OutOfBounds"
      using closed_split [OF d(1) assms(3)] assms(4) by (simp add: scan_conv_def)
    moreover have "scan_conv CvInt (show_nat e @ '' '' @ dotted s @ rest) = Inr (Some (ArgD (int e)), '' '' @ dotted s @ rest)"
      using reads_int [OF assms(5)] by (simp add: reads_def)
    ultimately show ?thesis using d assms(6) dropWhile_word [OF n] dropWhile_word [OF d(1)] by (simp add: scanf_def del: dropWhile_eq_Nil_conv)
  qed
  ultimately show ?thesis by (simp add: prompt_step_def setip_def setip_prompt_def)
qed

theorem documented_input_overflows_witness:
  "prompt_step demo_device (demo_shell (''listfilter'' @ nl)) = Inl OutOfBounds \<and>
   setip demo_device (demo_shell (show_nat 0 @ '' '' @ dotted 0xC0A86464 @ nl)) = Inl OutOfBounds"
proof -
  have n: "show_nat 192 = ''192''" "show_nat 168 = ''168''" "show_nat 100 = ''100''" by code_simp+
  then have "length (dotted 0xC0A86464) = 15" by (simp add: dotted_def drop_bit_eq_div and_ff take_bit_eq_mod)
  moreover have "closed nl" using white_nl(2) [of "[]"] by simp
  ultimately show ?thesis
    using documented_input_overflows [where w = "''listfilter''" and sh = "demo_shell (''listfilter'' @ nl)" and rest = nl and s = "0xC0A86464" and e = 0
      and sh' = "demo_shell (show_nat 0 @ '' '' @ dotted 0xC0A86464 @ nl)" and d = demo_device]
    by (simp add: demo_shell_def)
qed

end
