(* ===== verification/Reg_Tools.thy ===== *)
theory Reg_Tools
  imports Stream_Scan
begin

text \<open>
  The programs that access one register: \<^verbatim>\<open>osnt/sw/lib/osnt_nfplus_libaxi.c\<close>, the tool \<^verbatim>\<open>axilib\<close> that the scripts of OSNT call for every register access,
  the two tools \<^verbatim>\<open>rwaxi\<close> (\<^verbatim>\<open>sw/app/main.c\<close> and \<^verbatim>\<open>reference_router/sw/apps/rwaxi.c\<close>), the library \<^verbatim>\<open>sw/hwtestlib/sume_reg.c\<close> of the hardware tests, and
  the look up of the device in \<^verbatim>\<open>common/nf_util.c\<close>.

  \<open>host\<close> holds what is outside the programs: whether the sockets open, what the driver answers to a call after those before it, and what the system knows of
  interfaces and device files. A tool is a function of its arguments to the calls it issues, the text it prints and its exit status. Messages on the error output are left
  out.
\<close>

section \<open>The host\<close>

datatype ioctl_req = WRITE_REG | READ_REG

text \<open>A call: the request, the name of the interface, the fields \<^verbatim>\<open>addr\<close> and \<^verbatim>\<open>val\<close>. The driver answers with the result and the two fields as it leaves them.\<close>

type_synonym reg_call = "ioctl_req \<times> string \<times> u32 \<times> u32"

record host =
  sock6 :: bool
  sock4 :: bool
  driver :: "reg_call list \<Rightarrow> reg_call \<Rightarrow> int \<times> u32 \<times> u32"

record tool_run =
  t_calls :: "reg_call list"
  t_out :: string
  t_exit :: nat

definition IFNAMSIZ :: nat where
  "IFNAMSIZ = 16"

section \<open>Options\<close>

text \<open>
  \<^verbatim>\<open>getopt\<close> with a plus sign at the head of the option string: it stops at the first argument that is not an option. The specification tells for a letter whether it is an
  option and whether it takes a value.
\<close>

datatype opt = Opt char "string option" | BadOpt

type_synonym optspec = "char \<Rightarrow> bool option"

function getopts :: "optspec \<Rightarrow> string list \<Rightarrow> opt list"
  and cluster :: "optspec \<Rightarrow> string \<Rightarrow> string list \<Rightarrow> opt list" where
  "getopts spec args =
    (case args of
       [] \<Rightarrow> []
     | w # ws \<Rightarrow> if w = ''--'' then [] else if take 1 w = ''-'' \<and> 1 < length w then cluster spec (drop 1 w) ws else [])"
| "cluster spec cs ws =
    (case cs of
       [] \<Rightarrow> getopts spec ws
     | c # cs' \<Rightarrow>
         (case spec c of
            None \<Rightarrow> BadOpt # cluster spec cs' ws
          | Some False \<Rightarrow> Opt c None # cluster spec cs' ws
          | Some True \<Rightarrow>
              if cs' \<noteq> [] then Opt c (Some cs') # getopts spec ws
              else (case ws of [] \<Rightarrow> [BadOpt] | a # ws' \<Rightarrow> Opt c (Some a) # getopts spec ws')))"
  by pat_completeness auto
termination
  by (relation "measure (\<lambda>x. case x of Inl (spec, args) \<Rightarrow> sum_list (map (Suc \<circ> length) args)
      | Inr (spec, cs, ws) \<Rightarrow> Suc (length cs) + sum_list (map (Suc \<circ> length) ws))") auto

declare getopts.simps [simp del] cluster.simps [simp del]

definition axilib_opts :: optspec where
  "axilib_opts = [CHR ''a'' \<mapsto> True, CHR ''h'' \<mapsto> False, CHR ''v'' \<mapsto> False, CHR ''i'' \<mapsto> True, CHR ''w'' \<mapsto> True]"

definition rwaxi_opts :: optspec where
  "rwaxi_opts = [CHR ''a'' \<mapsto> True, CHR ''h'' \<mapsto> False, CHR ''i'' \<mapsto> True, CHR ''w'' \<mapsto> True]"

text \<open>\<^verbatim>\<open>strtoul(s, NULL, 0)\<close> with a 64 bit \<^verbatim>\<open>unsigned long\<close>\<close>

definition strtoul :: "string \<Rightarrow> nat" where
  "strtoul s =
    (let t = dropWhile is_space s in
     case scan_number (int_base t) None t of
       None \<Rightarrow> 0
     | Some (neg, v, r) \<Rightarrow> if v \<ge> 2 ^ 64 then 2 ^ 64 - 1 else if neg then (2 ^ 64 - v) mod 2 ^ 64 else v)"

text \<open>The variables that the options set; \<^verbatim>\<open>flags & HAVE_VALUE\<close> is whether there is a value. The other two flags only choose a warning.\<close>

record settings =
  o_addr :: u32
  o_ifnam :: string
  o_value :: "u32 option"
  o_verbose :: bool

datatype stop = Usage | Fatal

definition reg_number :: "string \<Rightarrow> u32 option" where
  "reg_number s = (let l = strtoul s in if l = 2 ^ 64 - 1 \<or> l > 2 ^ 32 - 1 then None else Some (word_of_nat l))"

fun tool_options :: "opt list \<Rightarrow> settings \<Rightarrow> stop + settings" where
  "tool_options [] s = Inr s"
| "tool_options (BadOpt # os) s = Inl Usage"
| "tool_options (Opt c None # os) s = (if c = CHR ''v'' then tool_options os (s\<lparr>o_verbose := True\<rparr>) else Inl Usage)"
| "tool_options (Opt c (Some optarg) # os) s =
    (if c = CHR ''a'' then (case reg_number optarg of None \<Rightarrow> Inl Fatal | Some l \<Rightarrow> tool_options os (s\<lparr>o_addr := l\<rparr>))
     else if c = CHR ''i'' then tool_options os (s\<lparr>o_ifnam := optarg\<rparr>)
     else if c = CHR ''w'' then (case reg_number optarg of None \<Rightarrow> Inl Fatal | Some l \<Rightarrow> tool_options os (s\<lparr>o_value := Some l\<rparr>))
     else Inl Usage)"

section \<open>The tools\<close>

definition stopped :: "string \<Rightarrow> stop \<Rightarrow> tool_run" where
  "stopped progname e =
    \<lparr>t_calls = [], t_out = (case e of Usage \<Rightarrow> ''Usage: '' @ progname @ '' -a <addr> [-w <value>] [-i <iface>]'' @ [CHR 0x0A] | Fatal \<Rightarrow> []), t_exit = 1\<rparr>"

text \<open>From the opening of the socket to the call. The result is the address and the value in the structure afterwards, and the call that was issued.\<close>

definition issue :: "host \<Rightarrow> reg_call list \<Rightarrow> reg_call \<Rightarrow> ((u32 \<times> u32) + tool_run) \<times> reg_call list" where
  "issue h log call = (case call of (req, ifnam, addr, val) \<Rightarrow>
    if \<not> sock6 h \<and> \<not> sock4 h then (Inr (stopped [] Fatal), [])
    else if length ifnam \<ge> IFNAMSIZ then (Inr (stopped [] Fatal), [])
    else (let (rc, sifr) = driver h log call in
      if rc = - 1 then (Inr ((stopped [] Fatal)\<lparr>t_calls := [call]\<rparr>), [call]) else (Inl sifr, [call])))"

definition access_text :: "bool \<Rightarrow> string \<Rightarrow> u32 \<Rightarrow> u32 \<Rightarrow> string" where
  "access_text wrote read_word addr val =
    (if wrote then ''WROTE'' else read_word) @ '' 0x'' @ zero_left 8 (show_hex (unat addr)) @ '' = 0x'' @ zero_left 4 (show_hex (unat val)) @ [CHR 0x0A]"

definition axilib_main :: "host \<Rightarrow> reg_call list \<Rightarrow> string \<Rightarrow> string list \<Rightarrow> tool_run" where
  "axilib_main h log progname args =
    (case tool_options (getopts axilib_opts args) \<lparr>o_addr = 0, o_ifnam = ''nf0'', o_value = None, o_verbose = False\<rparr> of
       Inl e \<Rightarrow> stopped progname e
     | Inr s \<Rightarrow>
         (let (req, val) = (case o_value s of None \<Rightarrow> (READ_REG, 0) | Some v \<Rightarrow> (WRITE_REG, v)) in
          case issue h log (req, o_ifnam s, o_addr s, val) of
            (Inr failed, _) \<Rightarrow> failed
          | (Inl (addr, val), calls) \<Rightarrow>
              \<lparr>t_calls = calls,
               t_out = (if o_verbose s then access_text (o_value s \<noteq> None) ''READ '' addr val else []) @
                 (if req = READ_REG \<and> \<not> o_verbose s then show_hex (unat val) @ [CHR 0x0A] else []),
               t_exit = (if req = READ_REG then unat val mod 256 else 0)\<rparr>))"

definition app_main :: "host \<Rightarrow> reg_call list \<Rightarrow> string \<Rightarrow> string list \<Rightarrow> tool_run" where
  "app_main h log progname args =
    (case tool_options (getopts rwaxi_opts args) \<lparr>o_addr = 0, o_ifnam = ''nf0'', o_value = None, o_verbose = False\<rparr> of
       Inl e \<Rightarrow> stopped progname e
     | Inr s \<Rightarrow>
         (let (req, val) = (case o_value s of None \<Rightarrow> (READ_REG, 0) | Some v \<Rightarrow> (WRITE_REG, v)) in
          case issue h log (req, o_ifnam s, o_addr s, val) of
            (Inr failed, _) \<Rightarrow> failed
          | (Inl (addr, val), calls) \<Rightarrow>
              \<lparr>t_calls = calls, t_out = access_text (o_value s \<noteq> None) ''READ '' addr val, t_exit = 0\<rparr>))"

definition rwaxi_main :: "host \<Rightarrow> reg_call list \<Rightarrow> string \<Rightarrow> string list \<Rightarrow> tool_run" where
  "rwaxi_main h log progname args =
    (case tool_options (getopts rwaxi_opts args) \<lparr>o_addr = 0x00020000, o_ifnam = ''nf0'', o_value = None, o_verbose = False\<rparr> of
       Inl e \<Rightarrow> stopped progname e
     | Inr s \<Rightarrow>
         (case issue h log (READ_REG, o_ifnam s, o_addr s, case o_value s of None \<Rightarrow> 0 | Some v \<Rightarrow> v) of
            (Inr failed, _) \<Rightarrow> failed
          | (Inl (addr, val), calls) \<Rightarrow>
              \<lparr>t_calls = calls, t_out = access_text (o_value s \<noteq> None) ''READ'' addr val, t_exit = 0\<rparr>))"

section \<open>The library of the tests\<close>

definition EINVAL :: int where "EINVAL = 22"

definition ENOTTY :: int where "ENOTTY = 25"

definition ENOPROTOOPT :: int where "ENOPROTOOPT = 92"

text \<open>The result, the value in the structure and the calls issued.\<close>

definition sume_do_register :: "host \<Rightarrow> reg_call list \<Rightarrow> reg_call \<Rightarrow> int \<times> u32 \<times> reg_call list" where
  "sume_do_register h log call = (case call of (request, ifnam, addr, val) \<Rightarrow>
    if length ifnam \<ge> IFNAMSIZ then (EINVAL, val, [])
    else if \<not> sock6 h \<and> \<not> sock4 h then (ENOPROTOOPT, val, [])
    else (let (rc, addr, val) = driver h log call in (if rc = - 1 then ENOTTY else rc, val, [call])))"

definition REG_ERROR_CODE :: u32 where
  "REG_ERROR_CODE = 0xdeadbeef"

definition regread :: "host \<Rightarrow> reg_call list \<Rightarrow> u32 \<Rightarrow> u32 \<times> reg_call list" where
  "regread h log addr =
    (let (rc, val, calls) = sume_do_register h log (READ_REG, ''nf0'', addr, 0) in (if rc \<noteq> 0 then REG_ERROR_CODE else val, calls))"

definition regread_expect :: "host \<Rightarrow> reg_call list \<Rightarrow> u32 \<Rightarrow> u32 \<Rightarrow> int \<times> reg_call list" where
  "regread_expect h log addr expval =
    (let (rc, val, calls) = sume_do_register h log (READ_REG, ''nf0'', addr, 0) in
     (if rc \<noteq> 0 then sint REG_ERROR_CODE else if val = expval then 1 else 0, calls))"

definition regwrite :: "host \<Rightarrow> reg_call list \<Rightarrow> u32 \<Rightarrow> u32 \<Rightarrow> int \<times> reg_call list" where
  "regwrite h log addr val =
    (let (rc, val, calls) = sume_do_register h log (WRITE_REG, ''nf0'', addr, val) in (if rc \<noteq> 0 then sint REG_ERROR_CODE else 0, calls))"

section \<open>The device of the router\<close>

text \<open>\<open>if_name i\<close> is the answer to \<^verbatim>\<open>SIOCGIFNAME\<close> for the index \<open>i\<close>; the results of the other calls are whether they succeed, the descriptors are what \<^verbatim>\<open>socket\<close>
  and \<^verbatim>\<open>fopen\<close> return.\<close>

record sys =
  path_exists :: "string \<Rightarrow> bool"
  sock_fd :: int
  is_root :: bool
  bind_to_device :: "string \<Rightarrow> bool"
  if_name :: "nat \<Rightarrow> string option"
  if_has_addr :: "nat \<Rightarrow> bool"
  bind_addr :: "nat \<Rightarrow> bool"
  dev_fd :: "string \<Rightarrow> int option"

record nf_device =
  device_name :: string
  nf_fd :: int
  net_iface :: bool

definition check_iface :: "sys \<Rightarrow> nf_device \<Rightarrow> int \<times> nf_device" where
  "check_iface sy nf =
    (if length (device_name nf) > IFNAMSIZ then (- 1, nf)
     else if path_exists sy (''/sys/class/net/'' @ device_name nf) then (0, nf\<lparr>net_iface := True\<rparr>)
     else if path_exists sy (''/dev/'' @ device_name nf) then (0, nf\<lparr>net_iface := False\<rparr>)
     else (- 1, nf))"

text \<open>The loop over the interface numbers: \<open>Some None\<close> when it ends without having found the name.\<close>

partial_function (option) find_index :: "(nat \<Rightarrow> string option) \<Rightarrow> string \<Rightarrow> nat \<Rightarrow> nat option option" where
  "find_index names name i =
    (case names i of None \<Rightarrow> Some None | Some n \<Rightarrow> if n \<noteq> name then find_index names name (i + 1) else Some (Some i))"

definition openDescriptor :: "sys \<Rightarrow> nf_device \<Rightarrow> (int \<times> nf_device) res" where
  "openDescriptor sy nf =
    (if net_iface nf then
       (let nf = nf\<lparr>nf_fd := sock_fd sy\<rparr> in
        if nf_fd nf = - 1 then Inr (- 1, nf)
        else if is_root sy then (if bind_to_device sy (take IFNAMSIZ (device_name nf)) then Inr (0, nf) else Inr (- 1, nf))
        else (case find_index (if_name sy) (device_name nf) 1 of
            None \<Rightarrow> Inl NonTermination
          | Some None \<Rightarrow> Inr (- 1, nf)
          | Some (Some i) \<Rightarrow> if \<not> if_has_addr sy i then Inr (- 1, nf) else if \<not> bind_addr sy i then Inr (- 1, nf) else Inr (0, nf)))
     else
       bindR (derefR (dev_fd sy (''/dev/'' @ device_name nf))) (\<lambda>fd.
       let nf = nf\<lparr>nf_fd := fd\<rparr> in if fd = - 1 then Inr (- 1, nf) else Inr (0, nf)))"

section \<open>Numbers\<close>

lemma strtoul_nat: "n < 2 ^ 64 \<Longrightarrow> strtoul (show_nat n) = n"
  using scan_int_nat [of "[]" n] dropWhile_word [OF digits_word [OF show_nat_digits], of n "[]"] by (simp add: strtoul_def)

lemma strtoul_hex: "n < 2 ^ 64 \<Longrightarrow> strtoul (''0x'' @ show_hex n) = n"
proof -
  assume n: "n < 2 ^ 64"
  have d: "takeWhile (is_digit 16) (show_hex n) = show_hex n" using show_hex_digits [of n] by (auto simp: list_all_iff)
  have "scan_number 16 None (''0x'' @ show_hex n) = Some (False, n, [])"
    by (simp add: scan_number_def Let_def is_space_def d numeral_show_hex)
  moreover have "int_base (''0x'' @ show_hex n) = 16" by (simp add: int_base_def unsigned_part_def)
  ultimately show ?thesis using n by (simp add: strtoul_def is_space_def)
qed

text \<open>A number as the scripts write it: in decimal or in hexadecimal with its prefix.\<close>

definition number_text :: "u32 \<Rightarrow> string \<Rightarrow> bool" where
  "number_text w t = (t = show_nat (unat w) \<or> t = ''0x'' @ show_hex (unat w))"

lemma reg_number_text: "number_text w t \<Longrightarrow> reg_number t = Some w"
proof -
  have "unat w < 2 ^ 32" using unat_u32_lt [of w] by simp
  then show "number_text w t \<Longrightarrow> reg_number t = Some w"
    using strtoul_nat [of "unat w"] strtoul_hex [of "unat w"] by (auto simp: number_text_def reg_number_def)
qed

section \<open>Command lines\<close>

lemma getopts_Nil [simp]: "getopts spec [] = []"
  by (simp add: getopts.simps)

lemma getopts_value: "spec c = Some True \<Longrightarrow> c \<noteq> CHR ''-'' \<Longrightarrow> getopts spec ([CHR ''-'', c] # a # ws) = Opt c (Some a) # getopts spec ws"
  by (simp add: getopts.simps [of spec "[CHR ''-'', c] # a # ws"] cluster.simps)

lemma getopts_flag: "spec c = Some False \<Longrightarrow> c \<noteq> CHR ''-'' \<Longrightarrow> getopts spec ([CHR ''-'', c] # ws) = Opt c None # getopts spec ws"
  by (simp add: getopts.simps [of spec "[CHR ''-'', c] # ws"] cluster.simps)

text \<open>The option \<^verbatim>\<open>-v\<close> apart, the tools know the same options.\<close>

lemma rwaxi_opts_cases: "rwaxi_opts c \<noteq> None \<Longrightarrow> axilib_opts c = rwaxi_opts c"
  by (auto simp: rwaxi_opts_def axilib_opts_def)

lemma same_options:
  "spec = rwaxi_opts \<Longrightarrow> BadOpt \<notin> set (getopts spec args) \<Longrightarrow> getopts axilib_opts args = getopts spec args"
  "spec = rwaxi_opts \<Longrightarrow> BadOpt \<notin> set (cluster spec cs ws) \<Longrightarrow> cluster axilib_opts cs ws = cluster spec cs ws"
proof (induction spec args and spec cs ws rule: getopts_cluster.induct)
  case (1 spec args)
  then show ?case by (auto simp: getopts.simps [of _ args] split: list.splits if_splits)
next
  case (2 spec cs ws)
  show ?case
  proof (cases cs)
    case Nil
    then show ?thesis using 2 by (simp add: cluster.simps [of _ "[]" ws])
  next
    case (Cons c cs')
    have "spec c \<noteq> None" using 2(7) by (auto simp: Cons cluster.simps [of _ "c # cs'" ws] split: option.splits)
    then have "axilib_opts c = spec c" using rwaxi_opts_cases 2(6) by simp
    then show ?thesis using 2 \<open>spec c \<noteq> None\<close> by (auto simp: Cons cluster.simps [of _ "c # cs'" ws] split: list.splits if_splits bool.splits)
  qed
qed

lemma verbose_swap:
  "s\<lparr>o_verbose := True, o_ifnam := n\<rparr> = s\<lparr>o_ifnam := n, o_verbose := True\<rparr>"
  "s\<lparr>o_verbose := True, o_addr := a\<rparr> = s\<lparr>o_addr := a, o_verbose := True\<rparr>"
  "s\<lparr>o_verbose := True, o_value := v\<rparr> = s\<lparr>o_value := v, o_verbose := True\<rparr>"
  by simp_all

lemma verbose_options:
  "tool_options os (s\<lparr>o_verbose := True\<rparr>) = map_sum (\<lambda>e. e) (\<lambda>s. s\<lparr>o_verbose := True\<rparr>) (tool_options os s)"
proof (induction os s rule: tool_options.induct)
  case (4 c optarg os s)
  then show ?case unfolding tool_options.simps verbose_swap
    by (cases "c = CHR ''a''"; cases "c = CHR ''i''"; cases "c = CHR ''w''") (simp_all split: option.splits)
qed simp_all

section \<open>Properties\<close>

text \<open>
  What a register is to the driver: after a write that it accepted, reads of the address give the value written, whatever the field \<^verbatim>\<open>val\<close> of the call holds, until the next write.
\<close>

definition holds_value :: "host \<Rightarrow> reg_call list \<Rightarrow> string \<Rightarrow> u32 \<Rightarrow> u32 \<Rightarrow> bool" where
  "holds_value h log ifnam addr v = (\<forall>x. \<exists>a. driver h (log @ [(WRITE_REG, ifnam, addr, v)]) (READ_REG, ifnam, addr, x) = (0, a, v))"

text \<open>A driver that keeps the last value written to each register, and accepts every call.\<close>

definition demo_host :: host where
  "demo_host = \<lparr>sock6 = False, sock4 = True,
    driver = (\<lambda>log (req, n, a, v). (0, a, case req of WRITE_REG \<Rightarrow> v
      | READ_REG \<Rightarrow> (case map_of (map (\<lambda>(req, n, a, v). ((req, n, a), v)) (rev log)) (WRITE_REG, n, a) of None \<Rightarrow> 0 | Some v \<Rightarrow> v)))\<rparr>"

lemma demo_host_simps: "sock4 demo_host" "holds_value demo_host log n a v" "driver demo_host log (WRITE_REG, n, a, v) = (0, a, v)"
  "driver demo_host [] (READ_REG, n, a, v) = (0, a, 0)"
  by (simp_all add: demo_host_def holds_value_def)

lemma demo_numbers: "number_text 12 ''12''" "number_text 0x2A ''0x2a''"
proof -
  have "show_nat 12 = ''12''" "show_hex 0x2A = ''2a''" by code_simp+
  then show "number_text 12 ''12''" "number_text 0x2A ''0x2a''" by (simp_all add: number_text_def)
qed

text \<open>
  Claim C30. A register access of the OSNT scripts: with the command line that \<^verbatim>\<open>wraxi\<close> of \<^verbatim>\<open>libaxi.py\<close> builds, the address and the value in decimal or hexadecimal, the tool issues
  one write of that value to that address of \<^verbatim>\<open>nf0\<close> and nothing else, prints nothing and exits with 0; with the command line of \<^verbatim>\<open>rdaxi\<close> it issues one read and prints
  the value that was written as the hexadecimal digits from which the script takes it. The exit status of a read is the low byte of the value.
\<close>

theorem axilib_write_then_read:
  assumes "sock6 h \<or> sock4 h" "number_text addr ta" "number_text v tv"
    "fst (driver h log (WRITE_REG, ''nf0'', addr, v)) \<noteq> - 1" "holds_value h log ''nf0'' addr v"
  shows "axilib_main h log p [''-i'', ''nf0'', ''-a'', ta, ''-w'', tv] = \<lparr>t_calls = [(WRITE_REG, ''nf0'', addr, v)], t_out = [], t_exit = 0\<rparr> \<and>
    (let r = axilib_main h (log @ [(WRITE_REG, ''nf0'', addr, v)]) p [''-i'', ''nf0'', ''-a'', ta] in
     t_calls r = [(READ_REG, ''nf0'', addr, 0)] \<and> t_out r = show_hex (unat v) @ [CHR 0x0A] \<and>
     scan_number 16 None (t_out r) = Some (False, unat v, [CHR 0x0A]) \<and> t_exit r = unat v mod 256)"
proof -
  have opts: "getopts axilib_opts [''-i'', ''nf0'', ''-a'', ta, ''-w'', tv] = [Opt CHR ''i'' (Some ''nf0''), Opt CHR ''a'' (Some ta), Opt CHR ''w'' (Some tv)]"
    "getopts axilib_opts [''-i'', ''nf0'', ''-a'', ta] = [Opt CHR ''i'' (Some ''nf0''), Opt CHR ''a'' (Some ta)]"
    by (simp_all add: getopts_value axilib_opts_def)
  obtain a where r: "driver h (log @ [(WRITE_REG, ''nf0'', addr, v)]) (READ_REG, ''nf0'', addr, 0) = (0, a, v)"
    using assms(5) by (auto simp: holds_value_def)
  show ?thesis
    using assms(1,4) scan_number_digits [OF show_hex_digits show_hex_Nil, of "[CHR 0x0A]" "unat v"]
    by (auto simp: axilib_main_def opts reg_number_text [OF assms(2)] reg_number_text [OF assms(3)] issue_def IFNAMSIZ_def r numeral_show_hex
        split: prod.splits)
qed

theorem axilib_write_then_read_witness:
  "axilib_main demo_host [] ''axilib'' [''-i'', ''nf0'', ''-a'', ''12'', ''-w'', ''0x2a''] = \<lparr>t_calls = [(WRITE_REG, ''nf0'', 12, 0x2A)], t_out = [], t_exit = 0\<rparr> \<and>
   t_calls (axilib_main demo_host ([] @ [(WRITE_REG, ''nf0'', 12, 0x2A)]) ''axilib'' [''-i'', ''nf0'', ''-a'', ''12'']) = [(READ_REG, ''nf0'', 12, 0)] \<and>
   t_exit (axilib_main demo_host ([] @ [(WRITE_REG, ''nf0'', 12, 0x2A)]) ''axilib'' [''-i'', ''nf0'', ''-a'', ''12'']) = 0x2A"
  using axilib_write_then_read [OF _ demo_numbers, of demo_host "[]" "''axilib''"] by (simp add: demo_host_simps Let_def)

text \<open>
  Claim C31. The tool of \<^verbatim>\<open>sw/app\<close> is \<^verbatim>\<open>axilib -v\<close>: on every command line with options that it knows, the two issue the same calls and print the same text, whatever the driver
  answers. The exit status differs: \<^verbatim>\<open>axilib\<close> returns the value read.
\<close>

theorem app_is_verbose_axilib:
  assumes "BadOpt \<notin> set (getopts rwaxi_opts args)"
  shows "t_calls (app_main h log p args) = t_calls (axilib_main h log p (''-v'' # args)) \<and>
    t_out (app_main h log p args) = t_out (axilib_main h log p (''-v'' # args))"
proof -
  have o: "getopts axilib_opts (''-v'' # args) = Opt CHR ''v'' None # getopts rwaxi_opts args"
    using same_options(1) [OF refl assms] by (simp add: getopts_flag axilib_opts_def)
  from verbose_options [of "getopts rwaxi_opts args" "\<lparr>o_addr = 0, o_ifnam = ''nf0'', o_value = None, o_verbose = False\<rparr>"]
  show ?thesis
    by (auto simp: app_main_def axilib_main_def o stopped_def Let_def split: sum.splits prod.splits option.splits)
qed

theorem app_is_verbose_axilib_witness:
  "t_calls (app_main demo_host [] ''rwaxi'' [''-a'', ''12'']) = t_calls (axilib_main demo_host [] ''rwaxi'' [''-v'', ''-a'', ''12'']) \<and>
   t_out (app_main demo_host [] ''rwaxi'' [''-a'', ''12'']) = t_out (axilib_main demo_host [] ''rwaxi'' [''-v'', ''-a'', ''12''])"
proof -
  have "BadOpt \<notin> set (getopts rwaxi_opts [''-a'', ''12''])" by (simp add: getopts_value rwaxi_opts_def)
  from app_is_verbose_axilib [OF this] show ?thesis .
qed

text \<open>
  Claim C40. The tool \<^verbatim>\<open>rwaxi\<close> of the reference router never writes: every call that it issues is a read, whatever its arguments. With an address and a value to write it
  reports that it wrote, and the address and the value it shows are what the driver left in the structure after the read.
\<close>

theorem rwaxi_never_writes:
  assumes "sock6 h \<or> sock4 h" "number_text addr ta" "number_text v tv" "driver h log (READ_REG, ''nf0'', addr, v) = (0, a, x)"
  shows "(\<forall>args. \<forall>c\<in>set (t_calls (rwaxi_main h log p args)). fst c = READ_REG) \<and>
    rwaxi_main h log p [''-a'', ta, ''-w'', tv] = \<lparr>t_calls = [(READ_REG, ''nf0'', addr, v)],
      t_out = ''WROTE 0x'' @ zero_left 8 (show_hex (unat a)) @ '' = 0x'' @ zero_left 4 (show_hex (unat x)) @ [CHR 0x0A], t_exit = 0\<rparr>"
proof -
  have "getopts rwaxi_opts [''-a'', ta, ''-w'', tv] = [Opt CHR ''a'' (Some ta), Opt CHR ''w'' (Some tv)]"
    by (simp add: getopts_value rwaxi_opts_def)
  then have "rwaxi_main h log p [''-a'', ta, ''-w'', tv] = \<lparr>t_calls = [(READ_REG, ''nf0'', addr, v)],
      t_out = ''WROTE 0x'' @ zero_left 8 (show_hex (unat a)) @ '' = 0x'' @ zero_left 4 (show_hex (unat x)) @ [CHR 0x0A], t_exit = 0\<rparr>"
    using assms(1,4) by (auto simp: rwaxi_main_def reg_number_text [OF assms(2)] reg_number_text [OF assms(3)] issue_def IFNAMSIZ_def access_text_def)
  moreover have "\<forall>c\<in>set (t_calls (rwaxi_main h log p args)). fst c = READ_REG" for args
    by (auto simp: rwaxi_main_def stopped_def issue_def split: sum.splits prod.splits if_splits)
  ultimately show ?thesis by blast
qed

theorem rwaxi_never_writes_witness:
  "t_calls (rwaxi_main demo_host [] ''rwaxi'' [''-a'', ''12'', ''-w'', ''0x2a'']) = [(READ_REG, ''nf0'', 12, 0x2A)] \<and>
   take 5 (t_out (rwaxi_main demo_host [] ''rwaxi'' [''-a'', ''12'', ''-w'', ''0x2a''])) = ''WROTE''"
  using rwaxi_never_writes [OF _ demo_numbers, of demo_host "[]" 12 0 "''rwaxi''"] by (simp add: demo_host_simps)

text \<open>
  The library of the tests agrees with the tool: a register that was written is read back by \<^verbatim>\<open>regread\<close>, and \<^verbatim>\<open>regread_expect\<close> tells whether it holds a value. When the call
  fails, \<^verbatim>\<open>regread_expect\<close> returns a value that is not zero, which a caller that tests the result takes for a match.
\<close>

theorem regwrite_regread:
  assumes "sock6 h \<or> sock4 h"
  shows "fst (driver h log (WRITE_REG, ''nf0'', addr, v)) = 0 \<and> holds_value h log ''nf0'' addr v \<Longrightarrow>
      fst (regwrite h log addr v) = 0 \<and> fst (regread h (log @ snd (regwrite h log addr v)) addr) = v \<and>
      fst (regread_expect h (log @ snd (regwrite h log addr v)) addr w) = (if v = w then 1 else 0)"
    and "fst (driver h log (READ_REG, ''nf0'', addr, 0)) = - 1 \<Longrightarrow> fst (regread_expect h log addr w) \<noteq> 0"
proof -
  have n: "length ''nf0'' < IFNAMSIZ" by (simp add: IFNAMSIZ_def)
  have c: "sume_do_register h l (r, ''nf0'', a, x) = (let (rc, _, val) = driver h l (r, ''nf0'', a, x) in (if rc = - 1 then ENOTTY else rc, val, [(r, ''nf0'', a, x)]))" for l r a x
    using assms n by (auto simp: sume_do_register_def)
  show "fst (driver h log (WRITE_REG, ''nf0'', addr, v)) = 0 \<and> holds_value h log ''nf0'' addr v \<Longrightarrow>
      fst (regwrite h log addr v) = 0 \<and> fst (regread h (log @ snd (regwrite h log addr v)) addr) = v \<and>
      fst (regread_expect h (log @ snd (regwrite h log addr v)) addr w) = (if v = w then 1 else 0)"
  proof -
    assume w: "fst (driver h log (WRITE_REG, ''nf0'', addr, v)) = 0 \<and> holds_value h log ''nf0'' addr v"
    then obtain a where "driver h (log @ [(WRITE_REG, ''nf0'', addr, v)]) (READ_REG, ''nf0'', addr, 0) = (0, a, v)" by (auto simp: holds_value_def)
    with w show ?thesis
      by (cases "driver h log (WRITE_REG, ''nf0'', addr, v)") (simp add: regwrite_def regread_def regread_expect_def c del: append.simps)
  qed
  have "sint REG_ERROR_CODE \<noteq> 0" by (simp add: REG_ERROR_CODE_def)
  then show "fst (driver h log (READ_REG, ''nf0'', addr, 0)) = - 1 \<Longrightarrow> fst (regread_expect h log addr w) \<noteq> 0"
    by (cases "driver h log (READ_REG, ''nf0'', addr, 0)") (simp add: regread_expect_def c ENOTTY_def)
qed

text \<open>
  A user who is not root reaches the device only when the numbers of the interfaces have no gap before it: the search ends at the first number that is not in use.
\<close>

lemma find_index_run:
  "(\<And>k. i \<le> k \<Longrightarrow> k < j \<Longrightarrow> \<exists>n. names k = Some n \<and> n \<noteq> name) \<Longrightarrow> i \<le> j \<Longrightarrow>
   find_index names name i = find_index names name j"
proof (induction "j - i" arbitrary: i)
  case (Suc m)
  have "i < j" using Suc.hyps(2) by simp
  then obtain n where "names i = Some n" "n \<noteq> name" using Suc.prems(1) [of i] by blast
  then have "find_index names name i = find_index names name (i + 1)" by (subst find_index.simps) simp
  also have "\<dots> = find_index names name j" using Suc.hyps Suc.prems by auto
  finally show ?case .
qed simp

theorem openDescriptor_gap:
  assumes "\<And>k. 1 \<le> k \<Longrightarrow> k < j \<Longrightarrow> \<exists>n. if_name sy k = Some n \<and> n \<noteq> device_name nf" "1 \<le> j" "net_iface nf" "\<not> is_root sy" "sock_fd sy \<noteq> - 1"
  shows "if_name sy j = None \<Longrightarrow> openDescriptor sy nf = Inr (- 1, nf\<lparr>nf_fd := sock_fd sy\<rparr>)"
    and "if_name sy j = Some (device_name nf) \<Longrightarrow> if_has_addr sy j \<Longrightarrow> bind_addr sy j \<Longrightarrow> openDescriptor sy nf = Inr (0, nf\<lparr>nf_fd := sock_fd sy\<rparr>)"
  using find_index_run [of 1 j "if_name sy" "device_name nf", OF assms(1,2)] assms(3-5)
  by (simp_all add: openDescriptor_def find_index.simps [of _ _ j])

end
