(* ===== verification/Spec2Isabelle.thy ===== *)
theory Spec2Isabelle
  imports Node_List Arp_Drain Pwospf_Hello Stale_Prev Boot Vns Operator Rkd Shell_Session Reg_Tools
begin

text \<open>
  \<^bold>\<open>Verification of the software of the NetFPGA reference router.\<close>

  SCONE (\<^verbatim>\<open>src/hw/projects/reference_router/sw/scone\<close>) is the software of the NetFPGA reference router: it forwards what the hardware does
  not, answers ARP and ICMP, speaks the link state protocol PWOSPF, computes the routing table, keeps the tables of the hardware up to date and
  lets an operator configure it by telnet and web. One struct, \<^verbatim>\<open>router_state\<close>, holds all tables; the packet handlers, seven threads and the
  commands share it under locks.

  Two further programs of the router write the same hardware tables without SCONE, through the register calls of \<^verbatim>\<open>common/nfplus_util.c\<close>: the register shell
  \<^verbatim>\<open>sw/cli/cli.c\<close>, with which an operator sets, lists, loads and clears rows, and the router kit (\<^verbatim>\<open>sw/router_kit\<close>), whose daemon copies the tables of the
  Linux kernel to the board. The traffic generator and monitor OSNT, the other project of the repository, reaches its registers through the tool \<^verbatim>\<open>axilib\<close>, whose
  two siblings and test library belong to every project.

  \<^bold>\<open>How the code is modelled.\<close> An operation is a function from the state to \<open>'a res\<close>: \<open>Inr\<close> the result and the new state, \<open>Inl\<close> the fault that
  ends it (\<open>OutOfBounds\<close>, \<open>NullDeref\<close>, \<open>UseAfterFree\<close>, a failed \<^verbatim>\<open>assert\<close>, \<open>Deadlock\<close>, a wrong unlock, an exit of the process, the use of a value that nothing has set, \<open>NonTermination\<close>). A frame is a list of
  bytes with bounds-checked loads and stores at the offsets of the packed structs; integers have the width and byte order of the code. A lock is
  an entry of the list \<open>held\<close>; taking a lock that is held in a conflicting mode is \<open>Deadlock\<close>. A linked list is a HOL list, justified by the
  theory \<open>Node_List\<close>, which has the pointers; where the code follows pointers that can be stale, as \<^verbatim>\<open>prev_router\<close>, the model keeps addresses.
  Frames sent, register writes, text sent to a socket and signals are logged in the state. What the code does not define is a field of
  \<open>environment\<close>: the widths of the hardware tables, whether the driver accepts a frame, the random numbers, the value of \<^verbatim>\<open>strcmp\<close> beyond its
  sign, what the hardware answers to a read, the names of the VNS session.

  \<^bold>\<open>Theories, with the files they model.\<close>
  \<^item> \<open>Scone_Prelude\<close>: results, buffers, byte order, words, lists. \<open>Cstring\<close>: C strings, \<^verbatim>\<open>sscanf\<close>, \<^verbatim>\<open>snprintf\<close>, \<^verbatim>\<open>inet_pton\<close>, \<^verbatim>\<open>inet_ntop\<close>, the
    string helpers of \<^verbatim>\<open>or_utils.c\<close>. \<open>Bubble_Sort\<close>: the sorting loop of four files; the locale \<open>bubble_key\<close> shows that it ends sorted.
  \<^item> \<open>Node_List\<close> (\<^verbatim>\<open>or_utils.c\<close>): the doubly linked lists on a heap refine sequences (locale \<open>seq_store\<close>).
  \<^item> \<open>Checksum\<close>, \<open>Packet\<close>: checksums of \<^verbatim>\<open>or_ip.c\<close>, \<^verbatim>\<open>or_icmp.c\<close>, \<^verbatim>\<open>or_pwospf.c\<close>, \<^verbatim>\<open>or_nat.c\<close>; the \<^verbatim>\<open>populate\<close> functions.
  \<^item> \<open>Router_State\<close> (\<^verbatim>\<open>or_data_types.h\<close>), \<open>Netfpga\<close> (\<^verbatim>\<open>or_netfpga.c\<close>), \<open>Iface\<close> (\<^verbatim>\<open>or_iface.c\<close>): the state, output, interfaces.
  \<^item> \<open>Rtable\<close> (\<^verbatim>\<open>or_rtable.c\<close>): the lookup is the longest prefix match; every operation leaves rows in the hardware that
    answer as the lookup does (locale \<open>route_update\<close>).
  \<^item> \<open>Arp\<close>, \<open>Icmp\<close>, \<open>Arp_Queue\<close>, \<open>Arp_Drain\<close> (\<^verbatim>\<open>or_arp.c\<close>, \<^verbatim>\<open>or_icmp.c\<close>): the cache is a map (locale \<open>keyed_cache\<close>) that the hardware follows; replies
    release the packets that wait; the aging of the queue ends and twenty rounds of the thread empty it.
  \<^item> \<open>Nat_Table\<close> (\<^verbatim>\<open>or_nat.c\<close>): translation and ports. \<open>Dijkstra\<close> (\<^verbatim>\<open>or_dijkstra.c\<close>): distances are shortest, predecessors are one hop nearer, routes lead to the nearest
    router. \<open>Stale_Prev\<close>: a computation after a time-out follows predecessors into freed memory.
  \<^item> \<open>Pwospf\<close>, \<open>Pwospf_Lsu\<close>, \<open>Pwospf_Links\<close>, \<open>Pwospf_Hello\<close> (\<^verbatim>\<open>or_pwospf.c\<close>): packets, database, links, threads. \<open>Pwospf_Flood\<close>: an update
    is flooded once.
  \<^item> \<open>Ip\<close> (\<^verbatim>\<open>or_ip.c\<close>, \<^verbatim>\<open>or_main.c\<close>): the packet handler. \<open>Init\<close>, \<open>Boot\<close>, \<open>Config\<close> (\<^verbatim>\<open>or_main.c\<close>, \<^verbatim>\<open>sr_base.c\<close>,
    \<^verbatim>\<open>sr_vns.c\<close>, \<^verbatim>\<open>sr_cpu_extension_nf.c\<close>): the start, from the values and from the configuration files. \<open>Vns\<close> (\<^verbatim>\<open>sr_vns.c\<close>): the messages of the VNS session and how they are read.
  \<^item> \<open>Output\<close> (\<^verbatim>\<open>or_output.c\<close>): the tables as text and the buffers they are written to. \<open>Cli\<close>, \<open>Cli_Table\<close>, \<open>Cli_Routes\<close> (\<^verbatim>\<open>or_cli.c\<close>, \<^verbatim>\<open>init_cli\<close>, the
    handlers of every file): the commands, their table, from the typed text to the effect. \<open>Www\<close> (\<^verbatim>\<open>or_www.c\<close>): the web server.
  \<^item> \<open>Frame\<close>, \<open>Router_System\<close>, \<open>Locks\<close>, \<open>Operator\<close>: the whole system.
  \<^item> \<open>Board\<close> (\<^verbatim>\<open>nfplus_util.c\<close>): register calls as a log of writes; the locale \<open>row_writer\<close> is the contract of a function that writes one row of a table, and proves what
    a table holds after it was cleared over its old size and filled. \<open>Stream_Scan\<close>: \<^verbatim>\<open>fscanf\<close> and \<^verbatim>\<open>sscanf\<close> on a stream, \<^verbatim>\<open>atoi\<close>; the rule \<open>fscanf_fields\<close> reads back a line of
    printed fields.
  \<^item> \<open>Reg_Shell\<close>, \<open>Shell_Rows\<close>, \<open>Shell_Session\<close> (\<^verbatim>\<open>cli.c\<close>): the shell. The locale \<open>row_lister\<close> is the contract of the body of a list command, interpreted for the four
    tables; typed entries are listed again, a file is loaded whole, long input overflows the buffers.
  \<^item> \<open>Kit_Addr\<close> (\<^verbatim>\<open>netinet++\<close>), \<open>Router_Kit\<close>, \<open>Kit_Mirror\<close>, \<open>Rkd\<close> (\<^verbatim>\<open>rkd.cc\<close>, \<^verbatim>\<open>sume_mon.cc\<close>, \<^verbatim>\<open>linux_proc_net.cc\<close>): the router kit. \<open>row_writer\<close> is interpreted for the rows of the
    three tables; the relation \<open>rkd_runs\<close> has the polls at which the entries fit the tables, and after each of them, when the register accesses succeed, the hardware mirrors what the kernel shows; \<open>rkd_reach\<close>
    has all polls, and the monitor's tables stay well formed under it.
  \<^item> \<open>Reg_Tools\<close> (\<^verbatim>\<open>osnt_nfplus_libaxi.c\<close>, \<^verbatim>\<open>sw/app/main.c\<close>, \<^verbatim>\<open>rwaxi.c\<close>, \<^verbatim>\<open>sume_reg.c\<close>, \<^verbatim>\<open>nf_util.c\<close>): the tools for a single register, from the command line to the call of
    the driver, and the library of the hardware tests; the tool of OSNT reads back what it wrote, and one of the other two never writes.

  \<^bold>\<open>The system.\<close> \<open>router_step\<close> has one rule for a received packet, for output of the router itself, for each thread and for time passing;
  \<open>operator_step\<close> has one for a telnet command, a web request and the shell ping. \<open>system_reachable\<close> closes the two starts of the router under
  both. An event runs to its end before the next: the interleavings modelled are those of whole handlers, which is what the
  table locks allow for the most part; a handler that would block or faults has no step.
  The locales \<open>packet_inv\<close>, \<open>link_state_inv\<close>, \<open>control_inv\<close>, \<open>boot_inv\<close> and \<open>command_inv\<close> extend each other: each states what an invariant has to survive
  and proves that the operations of one layer keep it. They are interpreted for the router list, the ARP cache, the static routes and the locks,
  which gives \<open>system_invariant\<close>, \<open>static_routes_kept\<close>, \<open>locks_released\<close> and \<open>operator_releases_locks\<close>.

  \<^bold>\<open>Loops.\<close> Loops that walk a list are structural. Loops that may not end are partial functions into \<open>option\<close>, read as \<open>NonTermination\<close>: the sort
  (ends under the order of \<open>bubble_key\<close>), the choice of a port (ends as soon as a free port is drawn), the packets of an ARP entry (does not end in one case,
  see the findings), the aging of the ARP queue (always ends), the walk to the first hop, the loops of the shell that load a file (end on every well-formed file) and its prompt. No fuel is used. The twenty rounds of \<open>arp_queue_drains\<close> are two per request, five requests for a packet
  and five for the error that it may cause; \<^verbatim>\<open>arp_thread\<close> sleeps one second between rounds.

  \<^bold>\<open>Not modelled.\<close> The NAT maintenance thread, which nothing starts, and the statistics (\<^verbatim>\<open>sprint_hw_stats\<close>) compute floating point averages. Packet printing
  (\<^verbatim>\<open>print_packet\<close> and what it calls) only writes to the console. Sockets, raw sockets, argument parsing, thread and lock creation
  (\<^verbatim>\<open>sr_main.c\<close>, \<^verbatim>\<open>sr_base.c\<close>, \<^verbatim>\<open>rawsock.c\<close>, \<^verbatim>\<open>getarg.c\<close>, \<^verbatim>\<open>sr_dumper.c\<close>) are input and output. \<^verbatim>\<open>lwtcp\<close> is a copy of lwIP. Of the router kit the options and the detaching of
  the daemon, the printing of addresses to a stream and the warnings on the error output are left out, of the shell the opening of its socket and the message of \<^verbatim>\<open>perror\<close>. The scripts
  of OSNT are written in Python, the driver is a patch against a driver that is not in the repository, and the hardware is written in Verilog.
\<close>

end
